(* ===== verification/Prelude.thy ===== *)
theory Prelude
  imports Main "HOL-Library.Word" "HOL-Library.Multiset" "HOL-Library.Code_Target_Numeral"
begin

text \<open>
  The shared vocabulary of the development: bytes and byte strings, the outcome type of a
  fallible Go function, Go's fixed-width integer conversions, big-endian words (package
  \<open>encoding/binary\<close>), decimal numbers (package \<open>strconv\<close>), the lexicographic order
  of Go strings, sorting, and the \<open>byte_codec\<close> interface that every fixed-width wire
  encoding of the program provides.

  The collections: \<open>go_simps\<close> (integer conversions inside their range) and
  \<open>codec_simps\<close> (decode after encode).
\<close>

named_theorems go_simps "conversions of Go integers that do not change the value"
named_theorems codec_simps "a decoder applied to the bytes of its encoder"

unbundle bit_operations_syntax

section \<open>Bytes, outcomes\<close>

type_synonym byte = "8 word"
type_synonym bytes = "byte list"

text \<open>
  What a Go call can do: return a value, return an error value, or panic. A panic carries the
  reason the run-time system (or the source's own \<open>panic\<close>) gives.
\<close>

datatype panic =
    IndexOutOfRange
  | SliceBounds
  | DivideByZero
  | NilDereference
  | PanicMsg string

datatype ('e, 'a) outcome = Return 'a | Error 'e | Panic panic

definition obind :: "('e, 'a) outcome \<Rightarrow> ('a \<Rightarrow> ('e, 'b) outcome) \<Rightarrow> ('e, 'b) outcome" where
  "obind m f = (case m of Return a \<Rightarrow> f a | Error e \<Rightarrow> Error e | Panic p \<Rightarrow> Panic p)"

lemma obind_simps [simp]:
  "obind (Return a) f = f a"
  "obind (Error e) f = Error e"
  "obind (Panic p) f = Panic p"
  by (simp_all add: obind_def)

lemma obind_Return_iff:
  "obind m f = Return b \<longleftrightarrow> (\<exists>a. m = Return a \<and> f a = Return b)"
  by (cases m) auto

section \<open>Go integers\<close>

text \<open>
  \<open>int\<close> is 64 bits wide, as on the platforms the client runs on. A conversion to a signed
  type of \<open>w\<close> bits keeps the low \<open>w\<close> bits and reads them as two's complement; a
  conversion to an unsigned type keeps the low bits.
\<close>

definition to_signed :: "nat \<Rightarrow> int \<Rightarrow> int" where
  "to_signed w x = (x + 2 ^ (w - 1)) mod 2 ^ w - 2 ^ (w - 1)"

definition to_unsigned :: "nat \<Rightarrow> int \<Rightarrow> int" where
  "to_unsigned w x = x mod 2 ^ w"

definition fits_signed :: "nat \<Rightarrow> int \<Rightarrow> bool" where
  "fits_signed w x \<longleftrightarrow> - (2 ^ (w - 1)) \<le> x \<and> x < 2 ^ (w - 1)"

definition fits_unsigned :: "nat \<Rightarrow> int \<Rightarrow> bool" where
  "fits_unsigned w x \<longleftrightarrow> 0 \<le> x \<and> x < 2 ^ w"

abbreviation go_int :: "int \<Rightarrow> int" where
  "go_int \<equiv> to_signed 64"

lemma to_signed_id [go_simps]:
  assumes "fits_signed w x" and "0 < w"
  shows "to_signed w x = x"
proof -
  obtain v where w: "w = Suc v" using assms(2) by (cases w) auto
  have "0 \<le> x + 2 ^ v" and "x + 2 ^ v < 2 ^ Suc v"
    using assms(1) by (simp_all add: fits_signed_def w)
  then show ?thesis by (simp add: to_signed_def w)
qed

lemma to_signed_fits:
  assumes "0 < w"
  shows "fits_signed w (to_signed w x)"
proof -
  obtain v where w: "w = Suc v" using assms by (cases w) auto
  have "0 \<le> (x + 2 ^ v) mod 2 ^ Suc v" and "(x + 2 ^ v) mod 2 ^ Suc v < 2 ^ Suc v"
    by (rule pos_mod_sign, simp) (rule pos_mod_bound, simp)
  then show ?thesis by (simp add: fits_signed_def to_signed_def w)
qed

lemma to_unsigned_id [go_simps]: "fits_unsigned w x \<Longrightarrow> to_unsigned w x = x"
  by (simp add: fits_unsigned_def to_unsigned_def)

text \<open>Go's \<open>/\<close> and \<open>%\<close> truncate towards zero; the divisor zero is the caller's case.\<close>

definition go_quot :: "int \<Rightarrow> int \<Rightarrow> int" where
  "go_quot a b = sgn a * sgn b * (\<bar>a\<bar> div \<bar>b\<bar>)"

definition go_rem :: "int \<Rightarrow> int \<Rightarrow> int" where
  "go_rem a b = a - b * go_quot a b"

lemma go_quot_nonneg [go_simps]: "0 \<le> a \<Longrightarrow> 0 < b \<Longrightarrow> go_quot a b = a div b"
  by (cases "a = 0") (auto simp: go_quot_def)

lemma go_rem_nonneg [go_simps]: "0 \<le> a \<Longrightarrow> 0 < b \<Longrightarrow> go_rem a b = a mod b"
  by (simp add: go_rem_def go_quot_nonneg minus_mult_div_eq_mod)

lemma go_rem_less:
  assumes "0 < b"
  shows "go_rem a b < b"
proof (cases "0 \<le> a")
  case False
  have "0 \<le> (- a) mod b" using assms by simp
  then have "b * ((- a) div b) \<le> - a" using minus_mult_div_eq_mod [of "- a" b] by linarith
  with False assms show ?thesis by (simp add: go_rem_def go_quot_def)
qed (use assms in \<open>simp add: go_rem_nonneg\<close>)

section \<open>Lists\<close>

lemma take_length_append [simp]: "take (length xs) (xs @ ys) = xs"
  by simp

lemma drop_length_append [simp]: "drop (length xs) (xs @ ys) = ys"
  by simp

text \<open>Overwriting a range of a byte slice, as \<open>copy(dst[off:], src)\<close> does.\<close>

definition overwrite :: "nat \<Rightarrow> 'a list \<Rightarrow> 'a list \<Rightarrow> 'a list" where
  "overwrite off src dst =
     take off dst @ take (length dst - off) src @ drop (off + length src) dst"

lemma length_overwrite [simp]:
  "off \<le> length dst \<Longrightarrow> length (overwrite off src dst) = length dst"
  by (simp add: overwrite_def)

lemma nth_overwrite:
  assumes "off + length src \<le> length dst" and "i < length dst"
  shows "overwrite off src dst ! i =
    (if off \<le> i \<and> i < off + length src then src ! (i - off) else dst ! i)"
  using assms by (auto simp: overwrite_def nth_append)

text \<open>
  \<open>sort.Slice\<close> and \<open>sort.Sort\<close> with distinct keys have one possible result, which
  insertion computes.
\<close>

fun insert_by :: "('a \<Rightarrow> 'a \<Rightarrow> bool) \<Rightarrow> 'a \<Rightarrow> 'a list \<Rightarrow> 'a list" where
  "insert_by lt x [] = [x]"
| "insert_by lt x (y # ys) = (if lt y x then y # insert_by lt x ys else x # y # ys)"

fun sort_by :: "('a \<Rightarrow> 'a \<Rightarrow> bool) \<Rightarrow> 'a list \<Rightarrow> 'a list" where
  "sort_by lt [] = []"
| "sort_by lt (x # xs) = insert_by lt x (sort_by lt xs)"

lemma mset_insert_by [simp]: "mset (insert_by lt x ys) = add_mset x (mset ys)"
  by (induction ys) auto

lemma mset_sort_by [simp]: "mset (sort_by lt xs) = mset xs"
  by (induction xs) auto

lemma set_insert_by [simp]: "set (insert_by lt x ys) = insert x (set ys)"
  by (induction ys) auto

lemma set_sort_by [simp]: "set (sort_by lt xs) = set xs"
  by (induction xs) auto

lemma sort_by_sorted_id: "sorted_wrt (\<lambda>x y. \<not> lt y x) xs \<Longrightarrow> sort_by lt xs = xs"
proof (induction xs)
  case (Cons x xs)
  then show ?case by (cases xs) auto
qed simp

section \<open>The order of Go strings\<close>

fun bytes_less :: "bytes \<Rightarrow> bytes \<Rightarrow> bool" where
  "bytes_less _ [] = False"
| "bytes_less [] (_ # _) = True"
| "bytes_less (x # xs) (y # ys) = (x < y \<or> (x = y \<and> bytes_less xs ys))"

lemma bytes_less_irrefl [simp]: "\<not> bytes_less xs xs"
  by (induction xs) auto

lemma bytes_less_trans: "bytes_less xs ys \<Longrightarrow> bytes_less ys zs \<Longrightarrow> bytes_less xs zs"
proof (induction xs zs arbitrary: ys rule: bytes_less.induct)
  case (2 z zs)
  then show ?case by simp
next
  case (3 x xs z zs)
  then show ?case by (cases ys) auto
qed simp

lemma bytes_less_asym: "bytes_less xs ys \<Longrightarrow> \<not> bytes_less ys xs"
  using bytes_less_irrefl bytes_less_trans by blast

lemma bytes_less_total: "xs \<noteq> ys \<Longrightarrow> bytes_less xs ys \<or> bytes_less ys xs"
  by (induction xs ys rule: bytes_less.induct) (auto simp: neq_Nil_conv)

section \<open>Big-endian words\<close>

text \<open>
  \<open>binary.BigEndian\<close>: \<open>be_put n x\<close> are the \<open>n\<close> low bytes of \<open>x\<close>, most
  significant first, and \<open>be_get\<close> reads a byte string back.
\<close>

fun be_put :: "nat \<Rightarrow> nat \<Rightarrow> bytes" where
  "be_put 0 x = []"
| "be_put (Suc n) x = be_put n (x div 256) @ [of_nat x]"

definition be_get :: "bytes \<Rightarrow> nat" where
  "be_get bs = foldl (\<lambda>a b. a * 256 + unat b) 0 bs"

lemma be_get_snoc [simp]: "be_get (bs @ [b]) = be_get bs * 256 + unat b"
  by (simp add: be_get_def)

lemma be_get_Nil [simp]: "be_get [] = 0"
  by (simp add: be_get_def)

lemma length_be_put [simp]: "length (be_put n x) = n"
  by (induction n arbitrary: x) auto

lemma unat_less_pow: "unat (w :: 'w::len word) < 2 ^ LENGTH('w)"
  by (rule unsigned_less)

lemma unat_byte_less: "unat (b :: byte) < 256"
  using unat_less_pow [of b] by simp

lemma unat_of_nat_byte [simp]: "unat (of_nat x :: byte) = x mod 256"
  by (simp add: unat_of_nat)

lemma be_get_put [codec_simps]: "be_get (be_put n x) = x mod 256 ^ n"
proof (induction n arbitrary: x)
  case (Suc n)
  have "x mod 256 ^ Suc n = (x div 256 mod 256 ^ n) * 256 + x mod 256"
    by (simp add: mod_mult2_eq mult.commute)
  then show ?case using Suc.IH by simp
qed simp

lemma be_get_less: "be_get bs < 256 ^ length bs"
proof (induction bs rule: rev_induct)
  case (snoc b bs)
  have "unat b < 256" by (rule unat_byte_less)
  with snoc show ?case by simp
qed simp

lemma be_put_get: "be_put (length bs) (be_get bs) = bs"
proof (induction bs rule: rev_induct)
  case (snoc b bs)
  have "unat b < 256" by (rule unat_byte_less)
  then have "(be_get bs * 256 + unat b) div 256 = be_get bs" by simp
  moreover have "unat (of_nat (be_get bs * 256 + unat b) :: byte) = unat b"
    unfolding unat_of_nat_byte using \<open>unat b < 256\<close> by simp
  then have "(of_nat (be_get bs * 256 + unat b) :: byte) = b"
    by (rule word_unat_eq_iff [THEN iffD2])
  ultimately show ?case using snoc by simp
qed simp

section \<open>The codec interface\<close>

text \<open>
  What \<open>binary.Write\<close> and \<open>binary.Read\<close> promise for a fixed-width value: the encoder
  writes \<open>width\<close> bytes, the decoder takes them off the front of its input, gives the value
  back, fails on a shorter input, and accepts no other bytes than the encoder's.
\<close>

locale byte_codec =
  fixes enc :: "'a \<Rightarrow> bytes" and dec :: "bytes \<Rightarrow> ('a \<times> bytes) option" and width :: nat
  assumes dec_enc: "dec (enc a @ rest) = Some (a, rest)"
    and enc_width: "length (enc a) = width"
    and dec_short: "length bs < width \<Longrightarrow> dec bs = None"
    and dec_inv: "dec bs = Some (a, rest) \<Longrightarrow> bs = enc a @ rest"
    and dec_full: "width \<le> length bs \<Longrightarrow> \<exists>a. dec bs = Some (a, drop width bs)"
begin

lemma enc_inject: "enc a = enc b \<longleftrightarrow> a = b"
proof
  assume "enc a = enc b"
  then have "Some (a, []) = Some (b, [])"
    using dec_enc [of a "[]"] dec_enc [of b "[]"] by simp
  then show "a = b" by simp
qed simp

lemma dec_None_iff: "dec bs = None \<longleftrightarrow> length bs < width"
  using dec_short dec_full by (metis not_le option.distinct(1))

lemma dec_Some_iff: "dec bs = Some (a, rest) \<longleftrightarrow> bs = enc a @ rest"
  using dec_inv dec_enc by blast

end

text \<open>The codec of an array of \<open>n\<close> values of one codec.\<close>

fun dec_n :: "(bytes \<Rightarrow> ('a \<times> bytes) option) \<Rightarrow> nat \<Rightarrow> bytes \<Rightarrow> ('a list \<times> bytes) option" where
  "dec_n dec 0 bs = Some ([], bs)"
| "dec_n dec (Suc n) bs =
     (case dec bs of
        None \<Rightarrow> None
      | Some (a, r) \<Rightarrow>
          (case dec_n dec n r of None \<Rightarrow> None | Some (as, r') \<Rightarrow> Some (a # as, r')))"

context byte_codec
begin

lemma dec_n_concat: "dec_n dec (length as) (concat (map enc as) @ rest) = Some (as, rest)"
  by (induction as) (simp_all add: dec_enc)

lemma dec_n_short: "length bs < n * width \<Longrightarrow> dec_n dec n bs = None"
proof (induction n arbitrary: bs)
  case (Suc n)
  show ?case
  proof (cases "dec bs")
    case (Some p)
    then obtain a r where p: "dec bs = Some (a, r)" by (cases p) auto
    then have "length bs = width + length r" by (simp add: dec_Some_iff enc_width)
    with Suc.prems have "dec_n dec n r = None" by (intro Suc.IH) simp
    with p show ?thesis by simp
  qed simp
qed simp

end

section \<open>Fixed-width integers on the wire\<close>

definition put_u8 :: "8 word \<Rightarrow> bytes" where "put_u8 w = [w]"
definition put_u16 :: "16 word \<Rightarrow> bytes" where "put_u16 w = be_put 2 (unat w)"
definition put_u32 :: "32 word \<Rightarrow> bytes" where "put_u32 w = be_put 4 (unat w)"
definition put_u64 :: "64 word \<Rightarrow> bytes" where "put_u64 w = be_put 8 (unat w)"

definition get_be :: "nat \<Rightarrow> bytes \<Rightarrow> ('w::len word \<times> bytes) option" where
  "get_be n bs = (if length bs < n then None else Some (of_nat (be_get (take n bs)), drop n bs))"

definition get_u8 :: "bytes \<Rightarrow> (8 word \<times> bytes) option" where
  "get_u8 bs = (case bs of [] \<Rightarrow> None | b # r \<Rightarrow> Some (b, r))"
definition get_u16 :: "bytes \<Rightarrow> (16 word \<times> bytes) option" where "get_u16 = get_be 2"
definition get_u32 :: "bytes \<Rightarrow> (32 word \<times> bytes) option" where "get_u32 = get_be 4"
definition get_u64 :: "bytes \<Rightarrow> (64 word \<times> bytes) option" where "get_u64 = get_be 8"

lemma pow256: "8 * n = m \<Longrightarrow> (256::nat) ^ n = 2 ^ m"
proof -
  assume "8 * n = m"
  then have "(2::nat) ^ m = (2 ^ 8) ^ n" by (simp only: power_mult [symmetric])
  then show ?thesis by simp
qed

lemma get_be_put:
  assumes "n = LENGTH('w::len) div 8" and "LENGTH('w) mod 8 = 0"
  shows "get_be n (be_put n (unat (w :: 'w word)) @ rest) = Some (w, rest)"
proof -
  have "8 * n = LENGTH('w)" using assms by presburger
  then have "(256::nat) ^ n = 2 ^ LENGTH('w)" by (rule pow256)
  then have "unat w mod 256 ^ n = unat w" using unat_less_pow [of w] by simp
  then show ?thesis by (simp add: get_be_def codec_simps)
qed

lemma get_be_inv:
  assumes "n = LENGTH('w::len) div 8" and "LENGTH('w) mod 8 = 0"
    and "get_be n bs = Some (w :: 'w word, rest)"
  shows "bs = be_put n (unat w) @ rest"
proof -
  have "8 * n = LENGTH('w)" using assms(1,2) by presburger
  then have p: "(256::nat) ^ n = 2 ^ LENGTH('w)" by (rule pow256)
  from assms(3) have n: "n \<le> length bs" and w: "w = of_nat (be_get (take n bs))"
    and r: "rest = drop n bs"
    by (auto simp: get_be_def split: if_splits)
  have "be_get (take n bs) < 2 ^ LENGTH('w)"
    using be_get_less [of "take n bs"] n p by (simp add: min_absorb2)
  then have "unat w = be_get (take n bs)" by (simp add: w unat_of_nat)
  then have "be_put n (unat w) = take n bs"
    using be_put_get [of "take n bs"] n by (simp add: min_absorb2)
  then show ?thesis by (simp add: r)
qed

interpretation u8: byte_codec put_u8 get_u8 1
  by unfold_locales (auto simp: put_u8_def get_u8_def Suc_le_length_iff split: list.splits)

interpretation u16: byte_codec put_u16 get_u16 2
  by unfold_locales
    (auto simp: put_u16_def get_u16_def get_be_put dest: get_be_inv [rotated 2], auto simp: get_be_def)

interpretation u32: byte_codec put_u32 get_u32 4
  by unfold_locales
    (auto simp: put_u32_def get_u32_def get_be_put dest: get_be_inv [rotated 2], auto simp: get_be_def)

interpretation u64: byte_codec put_u64 get_u64 8
  by unfold_locales
    (auto simp: put_u64_def get_u64_def get_be_put dest: get_be_inv [rotated 2], auto simp: get_be_def)

lemmas codec_roundtrip [codec_simps] = u8.dec_enc u16.dec_enc u32.dec_enc u64.dec_enc
lemmas codec_width [simp] = u8.enc_width u16.enc_width u32.enc_width u64.enc_width

end
