(* ===== verification/Strconv.thy ===== *)
theory Strconv
  imports Prelude
begin

text \<open>
  Decimal numbers, as the calls \<open>strconv.FormatInt(i, 10)\<close>, \<open>strconv.Itoa\<close>,
  \<open>strconv.ParseInt(s, 10, 64)\<close> and \<open>strconv.ParseUint(s, 10, 64)\<close> of package
  \<open>bencode\<close> produce and read them. The parsers return a value together with an error, as
  the Go functions do: on a range error the value is the nearest representable one, on a syntax
  error it is zero (\<open>bencode/get_dict.go\<close> uses the value and drops the error). The
  theorems: printing then parsing gives the number back, and a printed number consists of a sign
  and digits only, so it contains neither of the delimiters of a bencoded value.
\<close>

datatype num_error = ErrSyntax | ErrRange

definition is_digit :: "byte \<Rightarrow> bool" where
  "is_digit b \<longleftrightarrow> 48 \<le> b \<and> b \<le> 57"

fun format_nat :: "nat \<Rightarrow> bytes" where
  "format_nat n = (if n < 10 then [48 + of_nat n] else format_nat (n div 10) @ [48 + of_nat (n mod 10)])"

declare format_nat.simps [simp del]

definition FormatInt :: "int \<Rightarrow> bytes" where
  "FormatInt i = (if i < 0 then 45 # format_nat (nat (- i)) else format_nat (nat i))"

fun parse_uint_loop :: "nat \<Rightarrow> bytes \<Rightarrow> nat \<times> num_error option" where
  "parse_uint_loop n [] = (n, None)"
| "parse_uint_loop n (c # cs) =
     (if \<not> is_digit c then (0, Some ErrSyntax)
      else if n * 10 + unat (c - 48) \<ge> 2 ^ 64 then (2 ^ 64 - 1, Some ErrRange)
      else parse_uint_loop (n * 10 + unat (c - 48)) cs)"

definition ParseUint :: "bytes \<Rightarrow> nat \<times> num_error option" where
  "ParseUint s = (if s = [] then (0, Some ErrSyntax) else parse_uint_loop 0 s)"

definition parse_magnitude :: "bool \<Rightarrow> bytes \<Rightarrow> int \<times> num_error option" where
  "parse_magnitude neg s =
     (case ParseUint s of
        (un, Some ErrSyntax) \<Rightarrow> (0, Some ErrSyntax)
      | (un, _) \<Rightarrow>
          if \<not> neg \<and> un \<ge> 2 ^ 63 then (2 ^ 63 - 1, Some ErrRange)
          else if neg \<and> un > 2 ^ 63 then (- (2 ^ 63), Some ErrRange)
          else (if neg then - int un else int un, None))"

definition ParseInt :: "bytes \<Rightarrow> int \<times> num_error option" where
  "ParseInt s =
     (case s of
        [] \<Rightarrow> (0, Some ErrSyntax)
      | c # cs \<Rightarrow>
          if c = 43 then parse_magnitude False cs
          else if c = 45 then parse_magnitude True cs
          else parse_magnitude False s)"

lemma digit_bounds: "d < 10 \<Longrightarrow> is_digit (48 + of_nat d) \<and> unat ((48 + of_nat d :: byte) - 48) = d"
proof -
  assume d: "d < 10"
  have u: "unat (48 + of_nat d :: byte) = 48 + d"
    using d by (simp add: unat_word_ariths)
  then show ?thesis
    using d by (simp add: is_digit_def word_le_nat_alt unat_of_nat)
qed

lemma digits_format_nat: "\<forall>c \<in> set (format_nat n). is_digit c"
proof (induction n rule: format_nat.induct)
  case (1 n)
  show ?case
  proof (cases "n < 10")
    case True
    then show ?thesis by (simp add: format_nat.simps [of n] digit_bounds)
  next
    case False
    with "1.IH" show ?thesis
      using digit_bounds [of "n mod 10"] by (subst format_nat.simps) auto
  qed
qed

lemma format_nat_not_Nil [simp]: "format_nat n \<noteq> []"
  by (subst format_nat.simps) simp

lemma parse_uint_loop_append:
  "parse_uint_loop n xs = (m, None) \<Longrightarrow> parse_uint_loop n (xs @ ys) = parse_uint_loop m ys"
  by (induction xs arbitrary: n) (auto split: if_splits)

lemma parse_format_nat: "n < 2 ^ 64 \<Longrightarrow> parse_uint_loop 0 (format_nat n) = (n, None)"
proof (induction n rule: format_nat.induct)
  case (1 n)
  show ?case
  proof (cases "n < 10")
    case True
    then show ?thesis
      using digit_bounds [of n] by (simp add: format_nat.simps [of n])
  next
    case False
    have "n div 10 < 2 ^ 64" using "1.prems" by simp
    with "1.IH" False have ih: "parse_uint_loop 0 (format_nat (n div 10)) = (n div 10, None)"
      by blast
    have "n div 10 * 10 + n mod 10 = n" by simp
    then have "parse_uint_loop (n div 10) [48 + of_nat (n mod 10)] = (n, None)"
      using digit_bounds [of "n mod 10"] "1.prems" by simp
    then show ?thesis
      using parse_uint_loop_append [OF ih] False by (subst format_nat.simps) simp
  qed
qed

lemma ParseUint_format: "n < 2 ^ 64 \<Longrightarrow> ParseUint (format_nat n) = (n, None)"
  by (simp add: ParseUint_def parse_format_nat)

lemma hd_format_nat: "is_digit (hd (format_nat n))"
  using digits_format_nat [of n] by (cases "format_nat n") auto

lemma is_digit_not_sign: "is_digit c \<Longrightarrow> c \<noteq> 43 \<and> c \<noteq> 45 \<and> c \<noteq> 58 \<and> c \<noteq> 101"
  by (auto simp: is_digit_def word_le_nat_alt)

lemma format_nat_Cons: "\<exists>c cs. format_nat n = c # cs \<and> is_digit c"
  using hd_format_nat [of n] by (cases "format_nat n") auto

lemma ParseInt_FormatInt [codec_simps]:
  assumes "fits_signed 64 i"
  shows "ParseInt (FormatInt i) = (i, None)"
proof (cases "i < 0")
  case True
  then have "nat (- i) \<le> 2 ^ 63" using assms by (simp add: fits_signed_def)
  then have "ParseUint (format_nat (nat (- i))) = (nat (- i), None)"
    by (intro ParseUint_format) simp
  with True \<open>nat (- i) \<le> 2 ^ 63\<close> show ?thesis
    by (simp add: FormatInt_def ParseInt_def parse_magnitude_def)
next
  case False
  then have n: "nat i < 2 ^ 63" using assms by (simp add: fits_signed_def)
  then have p: "ParseUint (format_nat (nat i)) = (nat i, None)"
    by (intro ParseUint_format) simp
  obtain c cs where c: "format_nat (nat i) = c # cs" "is_digit c"
    using format_nat_Cons by blast
  with is_digit_not_sign have "ParseInt (c # cs) = parse_magnitude False (c # cs)"
    by (simp add: ParseInt_def)
  with False n p c show ?thesis by (simp add: FormatInt_def parse_magnitude_def)
qed

lemma FormatInt_no_delim: "101 \<notin> set (FormatInt i)" "58 \<notin> set (FormatInt i)"
  using digits_format_nat [of "nat i"] digits_format_nat [of "nat (- i)"] is_digit_not_sign
  by (auto simp: FormatInt_def)

lemma FormatInt_not_Nil [simp]: "FormatInt i \<noteq> []"
  by (simp add: FormatInt_def)

lemma ParseInt_range:
  assumes "ParseInt s = (i, None)"
  shows "fits_signed 64 i"
proof -
  have m: "parse_magnitude neg t = (j, None) \<Longrightarrow> fits_signed 64 j" for neg t j
    by (auto simp: parse_magnitude_def fits_signed_def split: prod.splits option.splits
        num_error.splits if_splits)
  show ?thesis
    using assms by (auto simp: ParseInt_def dest: m split: list.splits if_splits)
qed

lemma parse_uint_loop_bound: "n < 2 ^ 64 \<Longrightarrow> fst (parse_uint_loop n s) < 2 ^ 64"
  by (induction s arbitrary: n) auto

lemma length_format_nat: "n < 10 ^ k \<Longrightarrow> 0 < k \<Longrightarrow> length (format_nat n) \<le> k"
proof (induction n arbitrary: k rule: format_nat.induct)
  case (1 n)
  show ?case
  proof (cases "n < 10")
    case False
    then have "k \<noteq> 1" using "1.prems" by auto
    then obtain j where k: "k = Suc j" "0 < j" using "1.prems" by (cases k) auto
    then have "n div 10 < 10 ^ j" using "1.prems" by (simp add: div_less_iff_less_mult mult.commute)
    then have "length (format_nat (n div 10)) \<le> j" using "1.IH" False k by blast
    then show ?thesis using False k by (simp add: format_nat.simps [of n])
  qed (use "1.prems" in \<open>simp add: format_nat.simps [of n]\<close>)
qed

lemma length_FormatInt:
  assumes "fits_signed 64 i"
  shows "length (FormatInt i) \<le> 20"
proof -
  have "- (10 ^ 19) < i \<and> i < 10 ^ 19" using assms unfolding fits_signed_def by simp
  moreover have "nat j < k" if "j < int k" "0 < k" for j k using that by linarith
  ultimately have "nat i < 10 ^ 19" "nat (- i) < 10 ^ 19" by simp_all
  then have "length (format_nat (nat i)) \<le> 19" "length (format_nat (nat (- i))) \<le> 19"
    using length_format_nat [of _ 19] by auto
  then show ?thesis by (simp add: FormatInt_def)
qed

end
