(* ===== verification/Bencode.thy ===== *)
theory Bencode
  imports Strconv
begin

text \<open>
  Package \<open>bencode\<close>: the reflection-based encoder (\<open>encode.go\<close>) and decoder
  (\<open>decode.go\<close>). A \<open>reflect.Type\<close> is a value of \<open>gotype\<close>, a \<open>reflect.Value\<close>
  a value of \<open>goval\<close>; the decoder updates the value it is given in place, so the model takes
  the current value and returns the new one together with the read buffer and the error, all three
  also on the error paths. The read buffer is \<open>bytes.Buffer\<close> with the history and the
  \<open>lastRead\<close> flag that \<open>UnreadByte\<close> depends on.

  The decoder recurses over the buffer and the type at once, and for an element type no case of
  its switch handles (arrays, floats) its list loop never ends. The model carries fuel, running
  out of it is the error \<open>NoFuel\<close>, and \<open>decode_enough_fuel\<close> shows that the fuel
  \<open>Decode\<close> passes is always enough for a type the decoder supports. \<open>ErrUnknownField\<close> stands for the
  panics on a field name that the struct does not have, which the code takes from the struct itself.
\<close>

section \<open>Types and values\<close>

text \<open>A struct field: its name, its \<open>bencode\<close> tag and its \<open>empty\<close> tag.\<close>

type_synonym field_tag = "bytes \<times> bytes \<times> bytes"

abbreviation sf_name :: "field_tag \<Rightarrow> bytes" where "sf_name f \<equiv> fst f"
abbreviation sf_bencode :: "field_tag \<Rightarrow> bytes" where "sf_bencode f \<equiv> fst (snd f)"
abbreviation sf_empty :: "field_tag \<Rightarrow> bytes" where "sf_empty f \<equiv> snd (snd f)"

text \<open>
  \<open>TInt w\<close>, \<open>TUint w\<close>: the integer kinds by width. \<open>TMap k t\<close>: \<open>k\<close> tells whether
  the key kind is string. \<open>TIfaceM\<close>: an interface with methods. \<open>TOther\<close>: the kinds
  neither switch has a case for.
\<close>

datatype gotype =
    TInt nat
  | TUint nat
  | TBool
  | TString
  | TBytes
  | TSlice gotype
  | TMap bool gotype
  | TStruct "(field_tag \<times> gotype) list"
  | TPtr gotype
  | TIface
  | TIfaceM
  | TOther

text \<open>
  \<open>None\<close> is the nil slice, map, pointer or interface. A map is an association list with
  distinct keys. \<open>VOther z\<close> records only whether the value is the zero value.
\<close>

datatype goval =
    VInt nat int
  | VUint nat int
  | VBool bool
  | VString bytes
  | VBytes "bytes option"
  | VSlice gotype "goval list option"
  | VMap bool gotype "(bytes \<times> goval) list option"
  | VStruct "(field_tag \<times> goval) list"
  | VPtr gotype "goval option"
  | VIface "goval option"
  | VIfaceM "goval option"
  | VOther bool

text \<open>\<open>reflect.New(t).Elem()\<close>\<close>

primrec zero_val :: "gotype \<Rightarrow> goval" where
  "zero_val (TInt w) = VInt w 0"
| "zero_val (TUint w) = VUint w 0"
| "zero_val TBool = VBool False"
| "zero_val TString = VString []"
| "zero_val TBytes = VBytes None"
| "zero_val (TSlice t) = VSlice t None"
| "zero_val (TMap k t) = VMap k t None"
| "zero_val (TStruct fs) = VStruct (map (map_prod id zero_val) fs)"
| "zero_val (TPtr t) = VPtr t None"
| "zero_val TIface = VIface None"
| "zero_val TIfaceM = VIfaceM None"
| "zero_val TOther = VOther True"

datatype ben_what = WhatInt | WhatDict | WhatList | WhatStr

datatype berr =
    ErrEOF
  | ErrUnreadByte
  | ErrNum num_error
  | ErrStrLen
  | ErrBoolLen
  | ErrParseBool
  | IncompatibleTypesError ben_what ben_what
  | UnknownValueError byte
  | ErrMapKeyType
  | ErrIfaceMethods
  | ErrMandatoryDup
  | ErrDupIncompatible
  | ErrNotFilled "bytes list"
  | LargeBufferErr nat
  | ErrUnsupportedType
  | ErrUnknownField
  | NoFuel

section \<open>The read buffer\<close>

record rbuf =
  rb_pre :: bytes
  rb_post :: bytes
  rb_last :: bool

definition NewBuffer :: "bytes \<Rightarrow> rbuf" where
  "NewBuffer data = \<lparr>rb_pre = [], rb_post = data, rb_last = False\<rparr>"

definition ReadByte :: "rbuf \<Rightarrow> rbuf \<times> byte option" where
  "ReadByte r =
     (case rb_post r of
        [] \<Rightarrow> (\<lparr>rb_pre = [], rb_post = [], rb_last = False\<rparr>, None)
      | b # bs \<Rightarrow> (\<lparr>rb_pre = b # rb_pre r, rb_post = bs, rb_last = True\<rparr>, Some b))"

definition UnreadByte :: "rbuf \<Rightarrow> rbuf \<times> berr option" where
  "UnreadByte r =
     (if \<not> rb_last r then (r, Some ErrUnreadByte)
      else case rb_pre r of
        [] \<Rightarrow> (r\<lparr>rb_last := False\<rparr>, None)
      | b # bs \<Rightarrow> (\<lparr>rb_pre = bs, rb_post = b # rb_post r, rb_last = False\<rparr>, None))"

definition ReadString :: "byte \<Rightarrow> rbuf \<Rightarrow> rbuf \<times> bytes \<times> berr option" where
  "ReadString delim r =
     (if delim \<in> set (rb_post r)
      then let line = takeWhile (\<lambda>b. b \<noteq> delim) (rb_post r) @ [delim]
           in (\<lparr>rb_pre = rev line @ rb_pre r, rb_post = drop (length line) (rb_post r),
                rb_last = True\<rparr>, line, None)
      else (\<lparr>rb_pre = rev (rb_post r) @ rb_pre r, rb_post = [], rb_last = True\<rparr>,
            rb_post r, Some ErrEOF))"

definition Next :: "nat \<Rightarrow> rbuf \<Rightarrow> rbuf \<times> bytes" where
  "Next n r =
     (let m = min n (length (rb_post r))
      in (\<lparr>rb_pre = rev (take m (rb_post r)) @ rb_pre r, rb_post = drop m (rb_post r),
           rb_last = (0 < m)\<rparr>, take m (rb_post r)))"

section \<open>The scalar readers\<close>

definition benElemBasedOnFirstByte :: "byte \<Rightarrow> berr + ben_what" where
  "benElemBasedOnFirstByte b =
     (if b = 105 then Inr WhatInt
      else if b = 108 then Inr WhatList
      else if b = 100 then Inr WhatDict
      else if is_digit b then Inr WhatStr
      else Inl (UnknownValueError b))"

fun what_byte :: "ben_what \<Rightarrow> byte \<Rightarrow> bool" where
  "what_byte WhatInt b = (b = 105)"
| "what_byte WhatDict b = (b = 100)"
| "what_byte WhatList b = (b = 108)"
| "what_byte WhatStr b = is_digit b"

definition assertBenElem :: "ben_what \<Rightarrow> rbuf \<Rightarrow> rbuf \<times> berr option" where
  "assertBenElem what r =
     (case ReadByte r of
        (r', None) \<Rightarrow> (r', Some ErrEOF)
      | (r', Some b) \<Rightarrow>
          if what_byte what b then (r', None)
          else (r', Some (case benElemBasedOnFirstByte b of
                            Inl e \<Rightarrow> e
                          | Inr s \<Rightarrow> IncompatibleTypesError s what)))"

definition checkEnd :: "rbuf \<Rightarrow> rbuf \<times> (berr + bool)" where
  "checkEnd r =
     (case ReadByte r of
        (r', None) \<Rightarrow> (r', Inl ErrEOF)
      | (r', Some b) \<Rightarrow>
          if b = 101 then (r', Inr True)
          else (case UnreadByte r' of
                  (r'', Some e) \<Rightarrow> (r'', Inl e)
                | (r'', None) \<Rightarrow> (r'', Inr False)))"

definition readBenString :: "rbuf \<Rightarrow> rbuf \<times> (berr + bytes)" where
  "readBenString r =
     (case assertBenElem WhatStr r of
        (r1, Some e) \<Rightarrow> (r1, Inl e)
      | (r1, None) \<Rightarrow>
     (case UnreadByte r1 of
        (r2, Some e) \<Rightarrow> (r2, Inl e)
      | (r2, None) \<Rightarrow>
     (case ReadString 58 r2 of
        (r3, _, Some e) \<Rightarrow> (r3, Inl e)
      | (r3, lenbytes, None) \<Rightarrow>
     (case ParseInt (butlast lenbytes) of
        (_, Some e) \<Rightarrow> (r3, Inl (ErrNum e))
      | (strLen, None) \<Rightarrow>
     (case Next (nat strLen) r3 of
        (r4, str) \<Rightarrow>
          if int (length str) \<noteq> strLen then (r4, Inl ErrStrLen) else (r4, Inr str))))))"

definition readBenInt :: "rbuf \<Rightarrow> rbuf \<times> (berr + int)" where
  "readBenInt r =
     (case assertBenElem WhatInt r of
        (r1, Some e) \<Rightarrow> (r1, Inl e)
      | (r1, None) \<Rightarrow>
     (case ReadString 101 r1 of
        (r2, _, Some e) \<Rightarrow> (r2, Inl e)
      | (r2, benInt, None) \<Rightarrow>
     (case ParseInt (butlast benInt) of
        (_, Some e) \<Rightarrow> (r2, Inl (ErrNum e))
      | (num, None) \<Rightarrow> (r2, Inr num))))"

definition readBenUint :: "rbuf \<Rightarrow> rbuf \<times> (berr + int)" where
  "readBenUint r =
     (case assertBenElem WhatInt r of
        (r1, Some e) \<Rightarrow> (r1, Inl e)
      | (r1, None) \<Rightarrow>
     (case ReadString 101 r1 of
        (r2, _, Some e) \<Rightarrow> (r2, Inl e)
      | (r2, benInt, None) \<Rightarrow>
     (case ParseUint (butlast benInt) of
        (_, Some e) \<Rightarrow> (r2, Inl (ErrNum e))
      | (num, None) \<Rightarrow> (r2, Inr (int num)))))"

text \<open>\<open>strconv.ParseBool\<close> on a one-byte string: 1, t, T and 0, f, F.\<close>

definition ParseBool1 :: "byte \<Rightarrow> berr + bool" where
  "ParseBool1 b =
     (if b \<in> {49, 116, 84} then Inr True
      else if b \<in> {48, 102, 70} then Inr False
      else Inl ErrParseBool)"

definition readBenBool :: "rbuf \<Rightarrow> rbuf \<times> (berr + bool)" where
  "readBenBool r =
     (case assertBenElem WhatInt r of
        (r1, Some e) \<Rightarrow> (r1, Inl e)
      | (r1, None) \<Rightarrow>
     (case ReadString 101 r1 of
        (r2, _, Some e) \<Rightarrow> (r2, Inl e)
      | (r2, benInt, None) \<Rightarrow>
          if length benInt \<noteq> 1 then (r2, Inl ErrBoolLen)
          else (r2, ParseBool1 (hd benInt))))"

section \<open>Struct tags\<close>

definition dash :: bytes where "dash = [45]"
definition omit :: bytes where "omit = [111, 109, 105, 116]"

text \<open>The dictionary key of a field: its \<open>bencode\<close> tag, or its name without one.\<close>

definition field_key :: "field_tag \<Rightarrow> bytes" where
  "field_key f = (if sf_bencode f = [] then sf_name f else sf_bencode f)"

fun add_fname :: "bytes \<Rightarrow> bytes \<Rightarrow> (bytes \<times> bytes list) list \<Rightarrow> (bytes \<times> bytes list) list" where
  "add_fname k n [] = [(k, [n])]"
| "add_fname k n ((k', ns) # m) =
     (if k' = k then (k', ns @ [n]) # m else (k', ns) # add_fname k n m)"

text \<open>
  The source joins the names of fields with one key by a question mark and splits them again;
  the model keeps the list. The fold runs over the fields in order.
\<close>

fun structInfo :: "field_tag list \<Rightarrow> bytes list \<Rightarrow> (bytes \<times> bytes list) list
    \<Rightarrow> bytes list \<times> (bytes \<times> bytes list) list" where
  "structInfo [] nonOmit fnames = (nonOmit, fnames)"
| "structInfo (f # fs) nonOmit fnames =
     (if sf_bencode f = dash then structInfo fs nonOmit fnames
      else structInfo fs
             (if sf_empty f \<noteq> omit then nonOmit @ [sf_name f] else nonOmit)
             (add_fname (field_key f) (sf_name f) fnames))"

fun FieldByName :: "bytes \<Rightarrow> (field_tag \<times> goval) list \<Rightarrow> goval option" where
  "FieldByName n [] = None"
| "FieldByName n ((f, v) # fs) = (if sf_name f = n then Some v else FieldByName n fs)"

fun SetField :: "bytes \<Rightarrow> goval \<Rightarrow> (field_tag \<times> goval) list \<Rightarrow> (field_tag \<times> goval) list" where
  "SetField n v [] = []"
| "SetField n v ((f, w) # fs) = (if sf_name f = n then (f, v) # fs else (f, w) # SetField n v fs)"

fun SetMapIndex :: "bytes \<Rightarrow> goval \<Rightarrow> (bytes \<times> goval) list \<Rightarrow> (bytes \<times> goval) list" where
  "SetMapIndex k v [] = [(k, v)]"
| "SetMapIndex k v ((k', w) # m) = (if k' = k then (k, v) # m else (k', w) # SetMapIndex k v m)"

fun unread_n :: "nat \<Rightarrow> rbuf \<Rightarrow> rbuf \<times> berr option" where
  "unread_n 0 r = (r, None)"
| "unread_n (Suc n) r =
     (case UnreadByte r of (r', Some e) \<Rightarrow> (r', Some e) | (r', None) \<Rightarrow> unread_n n r')"

section \<open>The decoder\<close>

text \<open>
  \<open>dec\<close> is \<open>decode\<close> itself, passed to the readers it calls back. The loops of
  \<open>readBenList\<close>, \<open>readBenDictMap\<close> and \<open>readBenDictStruct\<close> spend one fuel unit per
  iteration, \<open>decode\<close> one per call. \<open>readBenDictMap\<close> keeps one element value for all
  iterations, as the source does: an element is decoded on top of the previous one. The entries of the
  map are copies here; in the source entries that are pointers or maps share the memory of that value,
  so that for such element types the model says nothing about the entries stored before. A field or
  element that fails leaves what it had decoded so far.
\<close>

type_synonym decoder = "goval \<Rightarrow> rbuf \<Rightarrow> goval \<times> rbuf \<times> berr option"

fun eface_target :: "byte \<Rightarrow> goval option" where
  "eface_target b =
     (if b = 105 then Some (VInt 64 0)
      else if is_digit b then Some (VString [])
      else if b = 108 then Some (VSlice TIface (Some []))
      else if b = 100 then Some (VMap True TIface (Some []))
      else None)"

definition setNilInterface :: "decoder \<Rightarrow> goval \<Rightarrow> rbuf \<Rightarrow> goval option \<times> rbuf \<times> berr option" where
  "setNilInterface dec w r =
     (case UnreadByte r of
        (r1, Some e) \<Rightarrow> (None, r1, Some e)
      | (r1, None) \<Rightarrow>
          (case dec w r1 of
             (w', r2, Some e) \<Rightarrow> (None, r2, Some e)
           | (w', r2, None) \<Rightarrow> (Some w', r2, None)))"

definition handleNilInterface :: "decoder \<Rightarrow> rbuf \<Rightarrow> goval option \<times> rbuf \<times> berr option" where
  "handleNilInterface dec r =
     (case ReadByte r of
        (r1, None) \<Rightarrow> (None, r1, Some ErrEOF)
      | (r1, Some b) \<Rightarrow>
          (case eface_target b of
             None \<Rightarrow> (None, r1, Some (UnknownValueError b))
           | Some w \<Rightarrow> setNilInterface dec w r1))"

fun readBenList :: "decoder \<Rightarrow> nat \<Rightarrow> gotype \<Rightarrow> goval list option \<Rightarrow> rbuf
    \<Rightarrow> goval list option \<times> rbuf \<times> berr option" where
  "readBenList dec 0 t xs r = (xs, r, Some NoFuel)"
| "readBenList dec (Suc n) t xs r =
     (case checkEnd r of
        (r1, Inl e) \<Rightarrow> (xs, r1, Some e)
      | (r1, Inr True) \<Rightarrow> (xs, r1, None)
      | (r1, Inr False) \<Rightarrow>
          (case dec (zero_val t) r1 of
             (w, r2, Some e) \<Rightarrow> (xs, r2, Some e)
           | (w, r2, None) \<Rightarrow>
               readBenList dec n t (Some ((case xs of None \<Rightarrow> [] | Some ys \<Rightarrow> ys) @ [w])) r2))"

fun readBenDictMap :: "decoder \<Rightarrow> nat \<Rightarrow> goval \<Rightarrow> (bytes \<times> goval) list option \<Rightarrow> rbuf
    \<Rightarrow> (bytes \<times> goval) list option \<times> rbuf \<times> berr option" where
  "readBenDictMap dec 0 elemVal m r = (m, r, Some NoFuel)"
| "readBenDictMap dec (Suc n) elemVal m r =
     (case checkEnd r of
        (r1, Inl e) \<Rightarrow> (m, r1, Some e)
      | (r1, Inr True) \<Rightarrow> (m, r1, None)
      | (r1, Inr False) \<Rightarrow>
          (case readBenString r1 of
             (r2, Inl e) \<Rightarrow> (m, r2, Some e)
           | (r2, Inr key) \<Rightarrow>
               (case dec elemVal r2 of
                  (w, r3, Some e) \<Rightarrow> (m, r3, Some e)
                | (w, r3, None) \<Rightarrow>
                    readBenDictMap dec n w
                      (Some (SetMapIndex key w (case m of None \<Rightarrow> [] | Some kv \<Rightarrow> kv))) r3)))"

text \<open>
  Several fields with one key: the first one whose decoder accepts the value gets it. Between
  two attempts the bytes the failed attempt read are unread one by one. Running out of fuel is
  passed on: it is not an error of the source.
\<close>

fun tryNames :: "decoder \<Rightarrow> bytes list \<Rightarrow> bytes list \<Rightarrow> (field_tag \<times> goval) list \<Rightarrow> rbuf
    \<Rightarrow> (field_tag \<times> goval) list \<times> rbuf \<times> berr option" where
  "tryNames dec [] nonOmit fs r = (fs, r, Some ErrDupIncompatible)"
| "tryNames dec (fname # names) nonOmit fs r =
     (if fname \<in> set nonOmit then (fs, r, Some ErrMandatoryDup)
      else case FieldByName fname fs of
        None \<Rightarrow> (fs, r, Some ErrUnknownField)
      | Some fv \<Rightarrow>
          (case dec fv r of
             (w, r1, None) \<Rightarrow> (SetField fname w fs, r1, None)
           | (w, r1, Some e) \<Rightarrow>
               if e = NoFuel then (SetField fname w fs, r1, Some NoFuel)
               else (case unread_n (length (rb_post r) - length (rb_post r1)) r1 of
                       (r2, Some e') \<Rightarrow> (SetField fname w fs, r2, Some e')
                     | (r2, None) \<Rightarrow> tryNames dec names nonOmit (SetField fname w fs) r2)))"

definition readField :: "decoder \<Rightarrow> (bytes \<times> bytes list) list \<Rightarrow> bytes list \<Rightarrow> bytes
    \<Rightarrow> (field_tag \<times> goval) list \<Rightarrow> rbuf
    \<Rightarrow> bytes list \<times> (field_tag \<times> goval) list \<times> rbuf \<times> berr option" where
  "readField dec fnames nonOmit benKey fs r =
     (case map_of fnames benKey of
        None \<Rightarrow> (case handleNilInterface dec r of (_, r1, e) \<Rightarrow> (nonOmit, fs, r1, e))
      | Some names \<Rightarrow>
          if length names = 1
          then (case FieldByName (hd names) fs of
                  None \<Rightarrow> (nonOmit, fs, r, Some ErrUnknownField)
                | Some fv \<Rightarrow>
                    (case dec fv r of
                       (w, r1, e) \<Rightarrow>
                         (removeAll (hd names) nonOmit, SetField (hd names) w fs, r1, e)))
          else (case tryNames dec names nonOmit fs r of (fs', r1, e) \<Rightarrow> (nonOmit, fs', r1, e)))"

fun readBenDictStruct :: "decoder \<Rightarrow> nat \<Rightarrow> (bytes \<times> bytes list) list \<Rightarrow> bytes list
    \<Rightarrow> (field_tag \<times> goval) list \<Rightarrow> rbuf \<Rightarrow> (field_tag \<times> goval) list \<times> rbuf \<times> berr option" where
  "readBenDictStruct dec 0 fnames nonOmit fs r = (fs, r, Some NoFuel)"
| "readBenDictStruct dec (Suc n) fnames nonOmit fs r =
     (case checkEnd r of
        (r1, Inl e) \<Rightarrow> (fs, r1, Some e)
      | (r1, Inr True) \<Rightarrow> (fs, r1, if nonOmit = [] then None else Some (ErrNotFilled nonOmit))
      | (r1, Inr False) \<Rightarrow>
          (case readBenString r1 of
             (r2, Inl e) \<Rightarrow> (fs, r2, Some e)
           | (r2, Inr benKey) \<Rightarrow>
               (case readField dec fnames nonOmit benKey fs r2 of
                  (nonOmit', fs', r3, Some e) \<Rightarrow> (fs', r3, Some e)
                | (nonOmit', fs', r3, None) \<Rightarrow> readBenDictStruct dec n fnames nonOmit' fs' r3)))"

definition decode_slice :: "decoder \<Rightarrow> nat \<Rightarrow> gotype \<Rightarrow> goval list option \<Rightarrow> rbuf
    \<Rightarrow> goval \<times> rbuf \<times> berr option" where
  "decode_slice dec n t xs r =
     (case assertBenElem WhatList r of
        (r1, Some e) \<Rightarrow> (VSlice t xs, r1, Some e)
      | (r1, None) \<Rightarrow>
          (case readBenList dec n t xs r1 of (xs', r2, e) \<Rightarrow> (VSlice t xs', r2, e)))"

definition decode_map :: "decoder \<Rightarrow> nat \<Rightarrow> bool \<Rightarrow> gotype \<Rightarrow> (bytes \<times> goval) list option \<Rightarrow> rbuf
    \<Rightarrow> goval \<times> rbuf \<times> berr option" where
  "decode_map dec n k t m r =
     (case assertBenElem WhatDict r of
        (r1, Some e) \<Rightarrow> (VMap k t m, r1, Some e)
      | (r1, None) \<Rightarrow>
          if \<not> k then (VMap k t m, r1, Some ErrMapKeyType)
          else (case readBenDictMap dec n (zero_val t) m r1 of
                  (m', r2, e) \<Rightarrow> (VMap k t m', r2, e)))"

definition decode_struct :: "decoder \<Rightarrow> nat \<Rightarrow> (field_tag \<times> goval) list \<Rightarrow> rbuf
    \<Rightarrow> goval \<times> rbuf \<times> berr option" where
  "decode_struct dec n fs r =
     (case assertBenElem WhatDict r of
        (r1, Some e) \<Rightarrow> (VStruct fs, r1, Some e)
      | (r1, None) \<Rightarrow>
          (case structInfo (map fst fs) [] [] of
             (nonOmit, fnames) \<Rightarrow>
               (case readBenDictStruct dec n fnames nonOmit fs r1 of
                  (fs', r2, e) \<Rightarrow> (VStruct fs', r2, e))))"

definition decode_ptr :: "decoder \<Rightarrow> gotype \<Rightarrow> goval option \<Rightarrow> rbuf \<Rightarrow> goval \<times> rbuf \<times> berr option" where
  "decode_ptr dec t p r =
     (case p of
        None \<Rightarrow>
          (case dec (zero_val t) r of
             (w, r1, Some e) \<Rightarrow> (VPtr t None, r1, Some e)
           | (w, r1, None) \<Rightarrow> (VPtr t (Some w), r1, None))
      | Some w \<Rightarrow> (case dec w r of (w', r1, e) \<Rightarrow> (VPtr t (Some w'), r1, e)))"

text \<open>Setting a scalar from what its reader returned.\<close>

definition set_scalar :: "goval \<Rightarrow> ('a \<Rightarrow> goval) \<Rightarrow> rbuf \<times> (berr + 'a) \<Rightarrow> goval \<times> rbuf \<times> berr option" where
  "set_scalar v mk res =
     (case res of (r, Inl e) \<Rightarrow> (v, r, Some e) | (r, Inr x) \<Rightarrow> (mk x, r, None))"

primrec decode :: "nat \<Rightarrow> decoder" where
  "decode 0 = (\<lambda>v r. (v, r, Some NoFuel))"
| "decode (Suc n) = (\<lambda>v r.
     (case v of
        VIface i \<Rightarrow>
          (case handleNilInterface (decode n) r of
             (Some w, r1, e) \<Rightarrow> (VIface (Some w), r1, e)
           | (None, r1, e) \<Rightarrow> (VIface i, r1, e))
      | VIfaceM i \<Rightarrow> (v, r, Some ErrIfaceMethods)
      | VPtr t p \<Rightarrow> decode_ptr (decode n) t p r
      | VInt w i \<Rightarrow> set_scalar v (\<lambda>num. VInt w (to_signed w num)) (readBenInt r)
      | VUint w i \<Rightarrow> set_scalar v (\<lambda>unum. VUint w (to_unsigned w unum)) (readBenUint r)
      | VBool b \<Rightarrow> set_scalar v VBool (readBenBool r)
      | VString s \<Rightarrow> set_scalar v VString (readBenString r)
      | VBytes s \<Rightarrow> set_scalar v (\<lambda>b. VBytes (Some b)) (readBenString r)
      | VSlice t xs \<Rightarrow> decode_slice (decode n) n t xs r
      | VMap k t m \<Rightarrow> decode_map (decode n) n k t m r
      | VStruct fs \<Rightarrow> decode_struct (decode n) n fs r
      | VOther z \<Rightarrow> (v, r, None)))"

text \<open>
  The fuel of a top-level call: \<open>tmax\<close> bounds the calls made at one position of the
  buffer, and every other call comes after at least one more byte was read.
\<close>

primrec tmax :: "gotype \<Rightarrow> nat" where
  "tmax (TInt w) = 1"
| "tmax (TUint w) = 1"
| "tmax TBool = 1"
| "tmax TString = 1"
| "tmax TBytes = 1"
| "tmax (TSlice t) = Suc (tmax t)"
| "tmax (TMap k t) = Suc (tmax t)"
| "tmax (TStruct fs) = Suc (sum_list (map snd (map (map_prod id tmax) fs)) + 2 * length fs)"
| "tmax (TPtr t) = Suc (tmax t)"
| "tmax TIface = 3"
| "tmax TIfaceM = 1"
| "tmax TOther = 1"

primrec vtype :: "goval \<Rightarrow> gotype" where
  "vtype (VInt w i) = TInt w"
| "vtype (VUint w i) = TUint w"
| "vtype (VBool b) = TBool"
| "vtype (VString s) = TString"
| "vtype (VBytes s) = TBytes"
| "vtype (VSlice t xs) = TSlice t"
| "vtype (VMap k t m) = TMap k t"
| "vtype (VStruct fs) = TStruct (map (map_prod id vtype) fs)"
| "vtype (VPtr t p) = TPtr t"
| "vtype (VIface i) = TIface"
| "vtype (VIfaceM i) = TIfaceM"
| "vtype (VOther z) = TOther"

definition decode_fuel :: "goval \<Rightarrow> bytes \<Rightarrow> nat" where
  "decode_fuel v data = length data * (tmax (vtype v) + 5) + tmax (vtype v) + 4"

text \<open>\<open>Decode(data, &v)\<close>: the new value of \<open>v\<close> and the returned error.\<close>

definition Decode :: "bytes \<Rightarrow> goval \<Rightarrow> goval \<times> berr option" where
  "Decode data v =
     (case decode (decode_fuel v data) v (NewBuffer data) of
        (v', r, Some e) \<Rightarrow> (v', Some e)
      | (v', r, None) \<Rightarrow>
          (case ReadByte r of
             (r', Some _) \<Rightarrow> (v', Some (LargeBufferErr (length (rb_post r') + 1)))
           | (r', None) \<Rightarrow> (v', None)))"

section \<open>The encoder\<close>

definition enc_string :: "bytes \<Rightarrow> bytes" where
  "enc_string s = FormatInt (int (length s)) @ 58 # s"

definition enc_int :: "int \<Rightarrow> bytes" where
  "enc_int i = 105 # FormatInt i @ [101]"

fun handleNilPtr :: "gotype \<Rightarrow> bytes" where
  "handleNilPtr (TInt w) = [105, 48, 101]"
| "handleNilPtr (TSlice t) = [108, 101]"
| "handleNilPtr TBytes = [48, 58]"
| "handleNilPtr TString = [48, 58]"
| "handleNilPtr (TStruct fs) = [100, 101]"
| "handleNilPtr _ = []"

fun isZero :: "goval \<Rightarrow> bool" where
  "isZero (VInt w i) = (i = 0)"
| "isZero (VUint w i) = (i = 0)"
| "isZero (VBool b) = (\<not> b)"
| "isZero (VString s) = (s = [])"
| "isZero (VBytes s) = (s = None)"
| "isZero (VSlice t xs) = (xs = None)"
| "isZero (VMap k t m) = (m = None)"
| "isZero (VStruct []) = True"
| "isZero (VStruct ((f, v) # fs)) = (isZero v \<and> isZero (VStruct fs))"
| "isZero (VPtr t p) = (p = None)"
| "isZero (VIface i) = (i = None)"
| "isZero (VIfaceM i) = (i = None)"
| "isZero (VOther z) = z"

text \<open>
  Keys with their encoded values, in the order the loop writes them; the first error wins.
\<close>

fun write_entries :: "(bytes \<times> (berr + bytes)) list \<Rightarrow> berr + bytes" where
  "write_entries [] = Inr []"
| "write_entries ((k, Inl e) # es) = Inl e"
| "write_entries ((k, Inr b) # es) =
     (case write_entries es of Inl e \<Rightarrow> Inl e | Inr bs \<Rightarrow> Inr (enc_string k @ b @ bs))"

abbreviation key_less :: "bytes \<times> 'a \<Rightarrow> bytes \<times> 'a \<Rightarrow> bool" where
  "key_less a b \<equiv> bytes_less (fst a) (fst b)"

text \<open>
  Map keys are distinct, so their sorted order is unique; the fields of a struct that is encoded
  have distinct keys in every type of the program.
\<close>

definition write_dict :: "(bytes \<times> (berr + bytes)) list \<Rightarrow> berr + bytes" where
  "write_dict es =
     (case write_entries (sort_by key_less es) of
        Inl e \<Rightarrow> Inl e
      | Inr bs \<Rightarrow> Inr (100 # bs @ [101]))"

fun encode :: "goval \<Rightarrow> berr + bytes"
and encode_list :: "goval list \<Rightarrow> berr + bytes"
and encode_entries :: "(bytes \<times> goval) list \<Rightarrow> (bytes \<times> (berr + bytes)) list"
and encode_fields :: "(field_tag \<times> goval) list \<Rightarrow> (bytes \<times> (berr + bytes)) list"
where
  "encode (VPtr t None) = Inr (handleNilPtr t)"
| "encode (VPtr t (Some v)) = encode v"
| "encode (VIface None) = Inr []"
| "encode (VIface (Some v)) = encode v"
| "encode (VIfaceM None) = Inr []"
| "encode (VIfaceM (Some v)) = encode v"
| "encode (VInt w i) = Inr (enc_int i)"
| "encode (VUint w i) = Inr (enc_int i)"
| "encode (VBool b) = Inr (if b then [105, 49, 101] else [105, 48, 101])"
| "encode (VString s) = Inr (enc_string s)"
| "encode (VBytes s) = Inr (enc_string (case s of None \<Rightarrow> [] | Some b \<Rightarrow> b))"
| "encode (VSlice t None) = Inr [108, 101]"
| "encode (VSlice t (Some xs)) =
     (case encode_list xs of Inl e \<Rightarrow> Inl e | Inr bs \<Rightarrow> Inr (108 # bs @ [101]))"
| "encode (VMap k t m) =
     (if \<not> k then Inl ErrMapKeyType
      else case m of
        None \<Rightarrow> Inr [100, 101, 100, 101]
      | Some kvs \<Rightarrow> write_dict (encode_entries kvs))"
| "encode (VStruct fs) =
     (if fs = [] then Inr [100, 101, 100, 101] else write_dict (encode_fields fs))"
| "encode (VOther z) = Inl ErrUnsupportedType"
| "encode_list [] = Inr []"
| "encode_list (x # xs) =
     (case encode x of
        Inl e \<Rightarrow> Inl e
      | Inr b \<Rightarrow> (case encode_list xs of Inl e \<Rightarrow> Inl e | Inr bs \<Rightarrow> Inr (b @ bs)))"
| "encode_entries [] = []"
| "encode_entries ((k, v) # kvs) = (k, encode v) # encode_entries kvs"
| "encode_fields [] = []"
| "encode_fields ((f, v) # fs) =
     (if sf_bencode f = dash \<or> (sf_empty f = omit \<and> isZero v) then encode_fields fs
      else (field_key f, encode v) # encode_fields fs)"

definition Encode :: "goval \<Rightarrow> berr + bytes" where
  "Encode v = encode v"

end
