(* ===== verification/Bencode_Total.thy ===== *)
theory Bencode_Total
  imports Bencode
begin

text \<open>
  The decoder of package \<open>bencode\<close> returns on every input. The interface \<open>ben_decoder\<close>
  states what the loops of the decoder rely on when they call back into \<open>decode\<close>: the type
  of the value is kept, the buffer only shrinks, and a successful call consumes at least one
  byte. \<open>fuelled_decoder\<close> adds that the callback does not run out of fuel. Both are
  interpreted by \<open>decode\<close>, and give that \<open>Decode\<close> never reports \<open>NoFuel\<close> and
  never changes the type of its target.
\<close>

section \<open>The types the decoder supports\<close>

primrec supp :: "gotype \<Rightarrow> bool" where
  "supp (TInt w) = True"
| "supp (TUint w) = True"
| "supp TBool = True"
| "supp TString = True"
| "supp TBytes = True"
| "supp (TSlice t) = supp t"
| "supp (TMap k t) = supp t"
| "supp (TStruct fs) =
     (distinct (map (sf_name \<circ> fst) fs) \<and>
      list_all (\<lambda>x. sf_bencode (fst x) = dash \<or> snd x) (map (map_prod id supp) fs))"
| "supp (TPtr t) = supp t"
| "supp TIface = True"
| "supp TIfaceM = True"
| "supp TOther = False"

text \<open>A value whose type is supported and whose pointers point to values of their type.\<close>

fun dec_ok :: "goval \<Rightarrow> bool" where
  "dec_ok (VSlice t xs) = supp t"
| "dec_ok (VMap k t m) = supp t"
| "dec_ok (VStruct fs) =
     (distinct (map (sf_name \<circ> fst) fs) \<and>
      (\<forall>x \<in> set fs. sf_bencode (fst x) \<noteq> dash \<longrightarrow> dec_ok (snd x)))"
| "dec_ok (VPtr t None) = supp t"
| "dec_ok (VPtr t (Some w)) = (vtype w = t \<and> dec_ok w)"
| "dec_ok (VOther z) = False"
| "dec_ok v = True"

lemma vtype_zero [simp]: "vtype (zero_val t) = t"
proof (induction t)
  case (TStruct fs)
  then show ?case by (fastforce intro!: map_idI)
qed auto

lemma dec_ok_zero: "supp t \<Longrightarrow> dec_ok (zero_val t)"
proof (induction t)
  case (TStruct fs)
  then show ?case by (fastforce simp: list_all_iff comp_def)
qed auto

section \<open>Lengths\<close>

abbreviation rlen :: "rbuf \<Rightarrow> nat" where
  "rlen r \<equiv> length (rb_post r)"

lemma ReadByte_Some:
  "ReadByte r = (r', Some b) \<Longrightarrow> rb_post r = b # rb_post r' \<and> rb_last r' \<and> rb_pre r' = b # rb_pre r"
  by (auto simp: ReadByte_def split: list.splits)

lemma ReadByte_None: "ReadByte r = (r', None) \<Longrightarrow> rb_post r = [] \<and> rb_post r' = []"
  by (auto simp: ReadByte_def split: list.splits)

lemma UnreadByte_len: "UnreadByte r = (r', e) \<Longrightarrow> rlen r' \<le> Suc (rlen r) \<and> rlen r \<le> rlen r' \<and> e \<noteq> Some NoFuel"
  by (auto simp: UnreadByte_def split: if_splits list.splits)

lemma Read_Unread: "ReadByte r = (r', Some b) \<Longrightarrow> \<exists>r''. UnreadByte r' = (r'', None) \<and> rb_post r'' = rb_post r"
  by (auto simp: ReadByte_def UnreadByte_def split: list.splits)

lemma ReadString_ok:
  assumes "ReadString d r = (r', line, None)"
  shows "rb_post r = line @ rb_post r' \<and> line \<noteq> []"
proof -
  let ?t = "takeWhile (\<lambda>b. b \<noteq> d) (rb_post r)"
  from assms have d: "d \<in> set (rb_post r)" and l: "line = ?t @ [d]"
    and p: "rb_post r' = drop (length line) (rb_post r)"
    by (auto simp: ReadString_def Let_def split: if_splits)
  then have "dropWhile (\<lambda>b. b \<noteq> d) (rb_post r) \<noteq> []" by (auto simp: dropWhile_eq_Nil_conv)
  then obtain c cs where c: "dropWhile (\<lambda>b. b \<noteq> d) (rb_post r) = c # cs"
    by (cases "dropWhile (\<lambda>b. b \<noteq> d) (rb_post r)") auto
  then have "c = d" by (metis (full_types) dropWhile_eq_Cons_conv)
  then have "rb_post r = ?t @ d # cs" using c by (metis takeWhile_dropWhile_id)
  then have "drop (length line) (rb_post r) = cs" using l by (metis append_Cons append_Nil append_assoc drop_length_append)
  with \<open>rb_post r = ?t @ d # cs\<close> l p show ?thesis by simp
qed

lemma ReadString_len: "ReadString d r = (r', line, e) \<Longrightarrow> rlen r' \<le> rlen r \<and> e \<noteq> Some NoFuel"
  by (auto simp: ReadString_def Let_def split: if_splits)

lemma Next_len: "Next n r = (r', s) \<Longrightarrow> rlen r' \<le> rlen r"
  by (auto simp: Next_def Let_def)

lemma assertBenElem_ok: "assertBenElem what r = (r', None) \<Longrightarrow> Suc (rlen r') = rlen r"
  by (auto simp: assertBenElem_def dest: ReadByte_Some split: prod.splits option.splits if_splits)

lemma assertBenElem_len: "assertBenElem what r = (r', e) \<Longrightarrow> rlen r' \<le> rlen r \<and> e \<noteq> Some NoFuel"
  by (auto simp: assertBenElem_def benElemBasedOnFirstByte_def dest: ReadByte_Some ReadByte_None
      split: prod.splits option.splits if_splits sum.splits)

lemma checkEnd_cases:
  assumes "checkEnd r = (r', x)"
  shows "(x = Inl ErrEOF \<and> rlen r' \<le> rlen r) \<or> (x = Inr True \<and> Suc (rlen r') = rlen r)
    \<or> (x = Inr False \<and> rb_post r' = rb_post r)"
proof (cases "ReadByte r")
  case (Pair r1 ob)
  show ?thesis
  proof (cases ob)
    case None
    with Pair assms show ?thesis by (auto simp: checkEnd_def dest: ReadByte_None)
  next
    case (Some b)
    with Pair obtain r2 where "UnreadByte r1 = (r2, None)" "rb_post r2 = rb_post r"
      using Read_Unread by blast
    with Pair Some assms show ?thesis by (auto simp: checkEnd_def dest: ReadByte_Some split: if_splits)
  qed
qed

lemma readBenString_len:
  assumes "readBenString r = (r', x)"
  shows "rlen r' \<le> rlen r \<and> x \<noteq> Inl NoFuel \<and> (\<forall>s. x = Inr s \<longrightarrow> rlen r' < rlen r)"
proof (cases "assertBenElem WhatStr r")
  case (Pair r1 e1)
  show ?thesis
  proof (cases e1)
    case None
    with Pair obtain b where b: "ReadByte r = (r1, Some b)"
      by (auto simp: assertBenElem_def split: prod.splits option.splits if_splits)
    then obtain r2 where r2: "UnreadByte r1 = (r2, None)" "rb_post r2 = rb_post r"
      using Read_Unread by blast
    obtain r3 line e3 where rs: "ReadString 58 r2 = (r3, line, e3)" by (cases "ReadString 58 r2") auto
    have len3: "rlen r3 \<le> rlen r" "e3 = None \<Longrightarrow> rlen r3 < rlen r" "e3 \<noteq> Some NoFuel"
      using ReadString_len [OF rs] ReadString_ok [of 58 r2 r3 line] rs r2 by auto
    obtain r4 str where nx: "Next (nat (fst (ParseInt (butlast line)))) r3 = (r4, str)"
      by (cases "Next (nat (fst (ParseInt (butlast line)))) r3") auto
    have "rlen r4 \<le> rlen r3" using Next_len [OF nx] .
    with Pair None r2 rs nx len3 assms show ?thesis
      by (auto simp: readBenString_def split: option.splits prod.splits if_splits)
  next
    case (Some e)
    with Pair assms assertBenElem_len [OF Pair] show ?thesis by (auto simp: readBenString_def)
  qed
qed

lemma read_number_len:
  assumes "assertBenElem WhatInt r = (r1, None)" "ReadString 101 r1 = (r2, line, e)"
  shows "rlen r2 < rlen r"
  using assertBenElem_ok [OF assms(1)] ReadString_len [OF assms(2)] by simp

lemma readBenInt_len:
  "readBenInt r = (r', x) \<Longrightarrow> rlen r' \<le> rlen r \<and> x \<noteq> Inl NoFuel \<and> (\<forall>s. x = Inr s \<longrightarrow> rlen r' < rlen r)"
  by (auto simp: readBenInt_def dest: assertBenElem_len ReadString_len read_number_len
      split: prod.splits option.splits)

lemma readBenUint_len:
  "readBenUint r = (r', x) \<Longrightarrow> rlen r' \<le> rlen r \<and> x \<noteq> Inl NoFuel \<and> (\<forall>s. x = Inr s \<longrightarrow> rlen r' < rlen r)"
  by (auto simp: readBenUint_def dest: assertBenElem_len ReadString_len read_number_len
      split: prod.splits option.splits)

lemma readBenBool_len:
  "readBenBool r = (r', x) \<Longrightarrow> rlen r' \<le> rlen r \<and> x \<noteq> Inl NoFuel \<and> (\<forall>s. x = Inr s \<longrightarrow> rlen r' < rlen r)"
  by (auto simp: readBenBool_def ParseBool1_def dest: assertBenElem_len ReadString_len read_number_len
      split: prod.splits option.splits if_splits)


section \<open>What the loops rely on\<close>

lemma FieldByName_in: "FieldByName n fs = Some v \<Longrightarrow> \<exists>f. (f, v) \<in> set fs \<and> sf_name f = n"
  by (induction n fs rule: FieldByName.induct) (auto split: if_splits, blast)

lemma map_fst_SetField [simp]: "map fst (SetField n v fs) = map fst fs"
  by (induction n v fs rule: SetField.induct) auto

lemma names_SetField [simp]: "map (sf_name \<circ> fst) (SetField n v fs) = map (sf_name \<circ> fst) fs"
  by (simp only: map_map [symmetric] map_fst_SetField)

lemma set_SetField: "x \<in> set (SetField n v fs) \<Longrightarrow> x \<in> set fs \<or> (snd x = v \<and> sf_name (fst x) = n)"
  by (induction n v fs rule: SetField.induct) (auto split: if_splits)

lemma types_SetField:
  "FieldByName n fs = Some v \<Longrightarrow> vtype w = vtype v \<Longrightarrow>
   map (map_prod id vtype) (SetField n w fs) = map (map_prod id vtype) fs"
  by (induction n w fs rule: SetField.induct) (auto split: if_splits)

text \<open>Every name in the key table is the name of a field that is not tagged away.\<close>

definition fnames_ok :: "(bytes \<times> bytes list) list \<Rightarrow> (field_tag \<times> goval) list \<Rightarrow> bool" where
  "fnames_ok fnames fs \<longleftrightarrow>
     (\<forall>k ns n. map_of fnames k = Some ns \<longrightarrow> n \<in> set ns \<longrightarrow>
        (\<exists>x \<in> set fs. sf_name (fst x) = n \<and> sf_bencode (fst x) \<noteq> dash))"

lemma map_of_add_fname:
  "map_of (add_fname k n m) k' =
     (if k' = k then Some ((case map_of m k of None \<Rightarrow> [] | Some ns \<Rightarrow> ns) @ [n]) else map_of m k')"
  by (induction k n m rule: add_fname.induct) auto

lemma structInfo_names:
  assumes "structInfo fs nonOmit fnames = (no', fn')" "map_of fn' k = Some ns" "n \<in> set ns"
  shows "(\<exists>ns'. map_of fnames k = Some ns' \<and> n \<in> set ns') \<or>
    (\<exists>f \<in> set fs. sf_name f = n \<and> sf_bencode f \<noteq> dash)"
  using assms
proof (induction fs nonOmit fnames rule: structInfo.induct)
  case (2 f fs nonOmit fnames)
  show ?case
  proof (cases "sf_bencode f = dash")
    case True
    with 2 show ?thesis by auto
  next
    case False
    with 2 have "(\<exists>ns'. map_of (add_fname (field_key f) (sf_name f) fnames) k = Some ns' \<and> n \<in> set ns') \<or>
      (\<exists>f \<in> set fs. sf_name f = n \<and> sf_bencode f \<noteq> dash)" by simp
    with False show ?thesis
      by (auto simp: map_of_add_fname split: if_splits option.splits)
  qed
qed auto

lemma structInfo_fnames_ok: "structInfo (map fst fs) [] [] = (no, fn) \<Longrightarrow> fnames_ok fn fs"
  unfolding fnames_ok_def using structInfo_names by fastforce

lemma fnames_ok_SetField [simp]: "fnames_ok fn (SetField n v fs) = fnames_ok fn fs"
proof -
  have "(\<exists>x \<in> set (SetField n v fs). P (fst x)) = (\<exists>x \<in> set fs. P (fst x))" for P
    by (metis (no_types, lifting) image_iff list.set_map map_fst_SetField)
  from this [of "\<lambda>f. sf_name f = m \<and> sf_bencode f \<noteq> dash" for m]
  show ?thesis by (simp add: fnames_ok_def)
qed

lemma field_unique:
  assumes "distinct (map (sf_name \<circ> fst) fs)" "x \<in> set fs" "y \<in> set fs"
    "sf_name (fst x) = sf_name (fst y)"
  shows "x = y"
  using assms by (metis comp_apply distinct_map inj_onD)

lemma FieldByName_ok:
  assumes "dec_ok (VStruct fs)" "fnames_ok fn fs" "map_of fn k = Some ns" "n \<in> set ns"
  shows "\<exists>v. FieldByName n fs = Some v \<and> dec_ok v"
proof -
  from assms obtain x where x: "x \<in> set fs" "sf_name (fst x) = n" "sf_bencode (fst x) \<noteq> dash"
    unfolding fnames_ok_def by blast
  have "FieldByName n fs \<noteq> None" using x(1,2) by (induction fs) auto
  then obtain v where v: "FieldByName n fs = Some v" by auto
  then obtain f where f: "(f, v) \<in> set fs" "sf_name f = n" using FieldByName_in by blast
  have "(f, v) = x" using assms(1) f x by (intro field_unique [of fs]) auto
  with assms(1) x v show ?thesis by fastforce
qed

lemma dec_ok_SetField:
  assumes "dec_ok (VStruct fs)" "dec_ok w"
  shows "dec_ok (VStruct (SetField n w fs))"
  using assms set_SetField by (fastforce simp del: map_map)

lemma SetField_keeps:
  assumes "dec_ok (VStruct fs)" "FieldByName n fs = Some v" "dec_ok w" "vtype w = vtype v"
  shows "dec_ok (VStruct (SetField n w fs)) \<and>
    vtype (VStruct (SetField n w fs)) = vtype (VStruct fs)"
  using dec_ok_SetField [OF assms(1,3)] types_SetField [OF assms(2,4)] by simp

locale ben_decoder =
  fixes dec :: decoder
  assumes dec_type: "dec_ok v \<Longrightarrow> dec v r = (v', r', e) \<Longrightarrow> vtype v' = vtype v \<and> dec_ok v'"
    and dec_shrinks: "dec_ok v \<Longrightarrow> dec v r = (v', r', e) \<Longrightarrow> rlen r' \<le> rlen r"
    and dec_consumes: "dec_ok v \<Longrightarrow> dec v r = (v', r', None) \<Longrightarrow> rlen r' < rlen r"
begin

lemma eface_ok: "eface_target b = Some w \<Longrightarrow> dec_ok w"
  by (auto split: if_splits)

lemma handleNilInterface_len:
  assumes "handleNilInterface dec r = (w, r', e)"
  shows "rlen r' \<le> rlen r \<and> (e = None \<longrightarrow> rlen r' < rlen r) \<and> (w \<noteq> None \<longleftrightarrow> e = None)"
proof (cases "ReadByte r")
  case (Pair r1 ob)
  show ?thesis
  proof (cases "case ob of None \<Rightarrow> None | Some b \<Rightarrow> eface_target b")
    case None
    with Pair assms show ?thesis
      by (auto simp: handleNilInterface_def dest: ReadByte_Some ReadByte_None split: option.splits)
  next
    case (Some t)
    then obtain b where b: "ob = Some b" "eface_target b = Some t" by (auto split: option.splits)
    with Pair obtain r2 where r2: "UnreadByte r1 = (r2, None)" "rb_post r2 = rb_post r"
      using Read_Unread by blast
    obtain v' r3 e3 where d: "dec t r2 = (v', r3, e3)" by (cases "dec t r2") auto
    from b have "dec_ok t" by (rule_tac eface_ok) auto
    then have "rlen r3 \<le> rlen r" "e3 = None \<Longrightarrow> rlen r3 < rlen r"
      using dec_shrinks [OF _ d] dec_consumes [of t r2 v' r3] d r2 by auto
    with Pair b r2 d assms show ?thesis
      by (auto simp: handleNilInterface_def setNilInterface_def split: option.splits)
  qed
qed

lemma readBenList_len:
  assumes "supp t" "readBenList dec n t xs r = (xs', r', e)"
  shows "rlen r' \<le> rlen r \<and> (e = None \<longrightarrow> rlen r' < rlen r)"
  using assms(2)
proof (induction n arbitrary: xs r)
  case (Suc n)
  obtain r1 x where c: "checkEnd r = (r1, x)" by (cases "checkEnd r") auto
  note cc = checkEnd_cases [OF c]
  show ?case
  proof (cases "x = Inr False")
    case False
    with Suc.prems c cc show ?thesis by (auto split: if_splits)
  next
    case True
    obtain w r2 e2 where d: "dec (zero_val t) r1 = (w, r2, e2)" by (cases "dec (zero_val t) r1") auto
    have z: "dec_ok (zero_val t)" using assms(1) by (rule dec_ok_zero)
    have "rlen r2 \<le> rlen r" "e2 = None \<Longrightarrow> rlen r2 < rlen r"
      using dec_shrinks [OF z d] dec_consumes [OF z, of r1 w r2] d cc True by auto
    with Suc.IH [of _ r2] Suc.prems c True d show ?thesis
      by (fastforce split: option.splits)
  qed
qed auto

lemma readBenDictMap_len:
  assumes "dec_ok ev" "readBenDictMap dec n ev m r = (m', r', e)"
  shows "rlen r' \<le> rlen r \<and> (e = None \<longrightarrow> rlen r' < rlen r)"
  using assms
proof (induction n arbitrary: ev m r)
  case (Suc n)
  obtain r1 x where c: "checkEnd r = (r1, x)" by (cases "checkEnd r") auto
  note cc = checkEnd_cases [OF c]
  show ?case
  proof (cases "x = Inr False")
    case False
    with Suc.prems c cc show ?thesis by (auto split: if_splits)
  next
    case True
    obtain r2 k where s: "readBenString r1 = (r2, k)" by (cases "readBenString r1") auto
    obtain w r3 e3 where d: "dec ev r2 = (w, r3, e3)" by (cases "dec ev r2") auto
    have "rlen r3 \<le> rlen r2" "dec_ok w" using dec_shrinks [OF _ d] dec_type [OF _ d] Suc.prems by auto
    with Suc.IH [of w _ r3] Suc.prems c True s d cc readBenString_len [OF s] show ?thesis
      by (fastforce split: option.splits sum.splits)
  qed
qed auto

lemma unread_n_len: "unread_n k r = (r', e) \<Longrightarrow> rlen r \<le> rlen r' \<and> rlen r' \<le> rlen r + k \<and> e \<noteq> Some NoFuel"
proof (induction k arbitrary: r)
  case (Suc k)
  obtain r1 e1 where u: "UnreadByte r = (r1, e1)" by (cases "UnreadByte r") auto
  with Suc.IH [of r1] Suc.prems UnreadByte_len [OF u] show ?case by (fastforce split: option.splits)
qed simp

lemma tryNames_step:
  assumes "dec_ok (VStruct fs)" "fnames_ok fn fs" "map_of fn k = Some ns" "set names \<subseteq> set ns"
    "tryNames dec names nonOmit fs r = (fs', r', e)"
  shows "rlen r' \<le> rlen r \<and> (e = None \<longrightarrow> rlen r' < rlen r) \<and>
    vtype (VStruct fs') = vtype (VStruct fs) \<and> dec_ok (VStruct fs') \<and> fnames_ok fn fs'"
  using assms(1,2,4,5)
proof (induction names arbitrary: fs r)
  case (Cons n names)
  obtain v where v: "FieldByName n fs = Some v" "dec_ok v"
    using FieldByName_ok [OF Cons.prems(1,2) assms(3), of n] Cons.prems(3) by auto
  obtain w r1 e1 where d: "dec v r = (w, r1, e1)" by (cases "dec v r") auto
  have w: "vtype w = vtype v" "dec_ok w" using dec_type [OF v(2) d] by auto
  have len: "rlen r1 \<le> rlen r" using dec_shrinks [OF v(2) d] .
  have fs1: "dec_ok (VStruct (SetField n w fs))"
    "vtype (VStruct (SetField n w fs)) = vtype (VStruct fs)"
    using SetField_keeps [OF Cons.prems(1) v(1) w(2,1)] by auto
  show ?case
  proof (cases "n \<in> set nonOmit \<or> e1 = None \<or> e1 = Some NoFuel")
    case True
    with Cons.prems v d fs1 len dec_consumes [OF v(2)] show ?thesis
      by (auto simp del: vtype.simps dec_ok.simps split: if_splits)
  next
    case False
    then obtain y where y: "e1 = Some y" "y \<noteq> NoFuel" "n \<notin> set nonOmit" by auto
    obtain r2 e2 where u: "unread_n (rlen r - rlen r1) r1 = (r2, e2)"
      by (cases "unread_n (rlen r - rlen r1) r1") auto
    have len2: "rlen r2 \<le> rlen r" using unread_n_len [OF u] len by simp
    show ?thesis
    proof (cases e2)
      case None
      with y Cons.prems(4) v d u have
        t: "tryNames dec names nonOmit (SetField n w fs) r2 = (fs', r', e)" by simp
      from Cons.IH [OF fs1(1) _ _ t] Cons.prems fs1(2) len2 show ?thesis
        by (auto simp del: vtype.simps dec_ok.simps)
    next
      case (Some e3)
      with y Cons.prems v d u fs1 len2 show ?thesis
        by (auto simp del: vtype.simps dec_ok.simps)
    qed
  qed
qed auto

lemma readField_step:
  assumes "dec_ok (VStruct fs)" "fnames_ok fn fs"
    "readField dec fn nonOmit key fs r = (nonOmit', fs', r', e)"
  shows "rlen r' \<le> rlen r \<and> (e = None \<longrightarrow> rlen r' < rlen r) \<and>
    vtype (VStruct fs') = vtype (VStruct fs) \<and> dec_ok (VStruct fs') \<and> fnames_ok fn fs'"
proof (cases "map_of fn key")
  case None
  obtain w r1 e1 where h: "handleNilInterface dec r = (w, r1, e1)"
    by (cases "handleNilInterface dec r") auto
  with None assms handleNilInterface_len [OF h] show ?thesis
    by (auto simp: readField_def simp del: vtype.simps dec_ok.simps)
next
  case (Some names)
  show ?thesis
  proof (cases "length names = 1")
    case True
    then obtain n where n: "names = [n]" by (auto simp: length_Suc_conv)
    obtain v where v: "FieldByName n fs = Some v" "dec_ok v"
      using FieldByName_ok [OF assms(1,2) Some] n by auto
    obtain w r1 e1 where d: "dec v r = (w, r1, e1)" by (cases "dec v r") auto
    have w: "vtype w = vtype v" "dec_ok w" using dec_type [OF v(2) d] by auto
    from SetField_keeps [OF assms(1) v(1) w(2,1)] Some n v d assms
      dec_shrinks [OF v(2) d] dec_consumes [OF v(2)] show ?thesis
      by (auto simp: readField_def simp del: vtype.simps dec_ok.simps)
  next
    case False
    obtain fs1 r1 e1 where t: "tryNames dec names nonOmit fs r = (fs1, r1, e1)"
      by (cases "tryNames dec names nonOmit fs r") auto
    from tryNames_step [OF assms(1,2) Some order.refl t] Some False t assms show ?thesis
      by (auto simp: readField_def simp del: vtype.simps dec_ok.simps)
  qed
qed

lemma readBenDictStruct_step:
  assumes "dec_ok (VStruct fs)" "fnames_ok fn fs"
    "readBenDictStruct dec n fn nonOmit fs r = (fs', r', e)"
  shows "rlen r' \<le> rlen r \<and> (e = None \<longrightarrow> rlen r' < rlen r) \<and>
    vtype (VStruct fs') = vtype (VStruct fs) \<and> dec_ok (VStruct fs')"
  using assms
proof (induction n arbitrary: nonOmit fs r)
  case (Suc n)
  obtain r1 x where c: "checkEnd r = (r1, x)" by (cases "checkEnd r") auto
  note cc = checkEnd_cases [OF c]
  show ?case
  proof (cases "x = Inr False")
    case False
    with Suc.prems c cc show ?thesis
      by (auto simp del: vtype.simps dec_ok.simps split: if_splits)
  next
    case True
    obtain r2 s where s: "readBenString r1 = (r2, s)" by (cases "readBenString r1") auto
    note ls = readBenString_len [OF s]
    show ?thesis
    proof (cases s)
      case (Inl e')
      with Suc.prems c True s ls cc show ?thesis by (auto simp del: vtype.simps dec_ok.simps)
    next
      case (Inr key)
      obtain no1 fs1 r3 e3 where f: "readField dec fn nonOmit key fs r2 = (no1, fs1, r3, e3)"
        by (cases "readField dec fn nonOmit key fs r2") auto
      note st = readField_step [OF Suc.prems(1,2) f]
      show ?thesis
      proof (cases e3)
        case None
        with Suc.prems c True s Inr f have
          l: "readBenDictStruct dec n fn no1 fs1 r3 = (fs', r', e)" by simp
        from Suc.IH [OF _ _ l] st ls cc True None Inr show ?thesis
          by (auto simp del: vtype.simps dec_ok.simps)
      next
        case (Some e')
        with Suc.prems c True s Inr f st ls cc show ?thesis
          by (auto simp del: vtype.simps dec_ok.simps)
      qed
    qed
  qed
qed auto

end

section \<open>The decoder is such a callback\<close>

lemma set_scalar_len:
  assumes "set_scalar v mk res = (v', r', e)" "res = (r1, x)"
    "rlen r1 \<le> rlen r \<and> x \<noteq> Inl NoFuel \<and> (\<forall>s. x = Inr s \<longrightarrow> rlen r1 < rlen r)"
  shows "rlen r' \<le> rlen r" "e = None \<Longrightarrow> rlen r' < rlen r" "e \<noteq> Some NoFuel"
    "v' = v \<or> (\<exists>y. v' = mk y)"
  using assms by (auto simp: set_scalar_def split: sum.splits)

lemma scalar_reader_len:
  assumes "decode (Suc n) v r = (v', r', e)"
    "v = VInt w i \<or> v = VUint w i \<or> v = VBool b \<or> v = VString s \<or> v = VBytes bo"
  shows "rlen r' \<le> rlen r \<and> (e = None \<longrightarrow> rlen r' < rlen r) \<and> e \<noteq> Some NoFuel \<and>
    vtype v' = vtype v \<and> dec_ok v'"
proof -
  obtain r1 x1 where i: "readBenInt r = (r1, x1)" by (cases "readBenInt r") auto
  obtain r2 x2 where u: "readBenUint r = (r2, x2)" by (cases "readBenUint r") auto
  obtain r3 x3 where b: "readBenBool r = (r3, x3)" by (cases "readBenBool r") auto
  obtain r4 x4 where s: "readBenString r = (r4, x4)" by (cases "readBenString r") auto
  note lens = readBenInt_len [OF i] readBenUint_len [OF u] readBenBool_len [OF b]
    readBenString_len [OF s]
  from assms lens show ?thesis
    by (elim disjE) (auto simp: i u b s set_scalar_def split: sum.splits)
qed

lemma ben_decoder_decode: "ben_decoder (decode n)"
proof (induction n)
  case 0
  show ?case by unfold_locales auto
next
  case (Suc n)
  have keep: "vtype v' = vtype v \<and> dec_ok v' \<and> rlen r' \<le> rlen r \<and> (e = None \<longrightarrow> rlen r' < rlen r)"
    if ok: "dec_ok v" and d: "decode (Suc n) v r = (v', r', e)" for v r v' r' e
  proof (cases v)
    case (VSlice t xs)
    obtain r1 e1 where a: "assertBenElem WhatList r = (r1, e1)" by (cases "assertBenElem WhatList r") auto
    obtain xs2 r2 e2 where l: "readBenList (decode n) n t xs r1 = (xs2, r2, e2)"
      by (cases "readBenList (decode n) n t xs r1") auto
    from d VSlice ok a l assertBenElem_len [OF a] ben_decoder.readBenList_len [OF Suc _ l]
    show ?thesis by (auto simp: decode_slice_def split: option.splits)
  next
    case (VMap k t m)
    obtain r1 e1 where a: "assertBenElem WhatDict r = (r1, e1)" by (cases "assertBenElem WhatDict r") auto
    obtain m2 r2 e2 where l: "readBenDictMap (decode n) n (zero_val t) m r1 = (m2, r2, e2)"
      by (cases "readBenDictMap (decode n) n (zero_val t) m r1") auto
    from d VMap ok a l assertBenElem_len [OF a] ben_decoder.readBenDictMap_len [OF Suc _ l] dec_ok_zero
    show ?thesis by (auto simp: decode_map_def split: option.splits if_splits)
  next
    case (VStruct fs)
    obtain r1 e1 where a: "assertBenElem WhatDict r = (r1, e1)" by (cases "assertBenElem WhatDict r") auto
    obtain no fn where si: "structInfo (map fst fs) [] [] = (no, fn)"
      by (cases "structInfo (map fst fs) [] []") auto
    obtain fs2 r2 e2 where l: "readBenDictStruct (decode n) n fn no fs r1 = (fs2, r2, e2)"
      by (cases "readBenDictStruct (decode n) n fn no fs r1") auto
    from d VStruct ok a si l assertBenElem_len [OF a]
      ben_decoder.readBenDictStruct_step [OF Suc _ structInfo_fnames_ok [OF si] l]
    show ?thesis
      by (auto simp: decode_struct_def simp del: vtype.simps dec_ok.simps split: option.splits)
  next
    case (VPtr t p)
    let ?w = "case p of None \<Rightarrow> zero_val t | Some w \<Rightarrow> w"
    obtain w' r1 e1 where c: "decode n ?w r = (w', r1, e1)" by (cases "decode n ?w r") auto
    have "dec_ok ?w" "vtype ?w = t" using ok VPtr dec_ok_zero by (auto split: option.splits)
    with ben_decoder.dec_type [OF Suc _ c] ben_decoder.dec_shrinks [OF Suc _ c]
      ben_decoder.dec_consumes [OF Suc, of ?w r w' r1] c d VPtr ok
    show ?thesis by (auto simp: decode_ptr_def split: option.splits)
  next
    case (VIface i)
    obtain w r1 e1 where h: "handleNilInterface (decode n) r = (w, r1, e1)"
      by (cases "handleNilInterface (decode n) r") auto
    from d VIface h ben_decoder.handleNilInterface_len [OF Suc h] show ?thesis
      by (auto split: option.splits)
  qed (use ok d scalar_reader_len [OF d] in \<open>auto simp del: decode.simps(2)\<close>, auto)
  from keep show ?case by unfold_locales blast+
qed

interpretation dec: ben_decoder "decode n" for n
  by (rule ben_decoder_decode)

section \<open>Enough fuel\<close>

text \<open>
  \<open>stay t\<close>: how many calls in a row the decoder can make for a value of type \<open>t\<close> before
  it has to read a byte for good; \<open>bnd K t\<close>: \<open>K\<close> bounds this for \<open>t\<close> and every type
  inside it.
\<close>

primrec stay :: "gotype \<Rightarrow> nat" where
  "stay (TInt w) = 1"
| "stay (TUint w) = 1"
| "stay TBool = 1"
| "stay TString = 1"
| "stay TBytes = 1"
| "stay (TSlice t) = 1"
| "stay (TMap k t) = 1"
| "stay (TStruct fs) = 1"
| "stay (TPtr t) = Suc (stay t)"
| "stay TIface = 2"
| "stay TIfaceM = 1"
| "stay TOther = 1"

primrec bnd :: "nat \<Rightarrow> gotype \<Rightarrow> bool" where
  "bnd K (TInt w) = True"
| "bnd K (TUint w) = True"
| "bnd K TBool = True"
| "bnd K TString = True"
| "bnd K TBytes = True"
| "bnd K (TSlice t) = bnd K t"
| "bnd K (TMap k t) = bnd K t"
| "bnd K (TStruct fs) = list_all snd (map (map_prod id (bnd K)) fs)"
| "bnd K (TPtr t) = (Suc (stay t) \<le> K \<and> bnd K t)"
| "bnd K TIface = True"
| "bnd K TIfaceM = True"
| "bnd K TOther = True"

lemma bnd_stay: "2 \<le> K \<Longrightarrow> bnd K t \<Longrightarrow> stay t \<le> K"
  by (cases t) auto

lemma stay_le_tmax: "stay t \<le> tmax t"
  by (induction t) auto

lemma bnd_mono: "bnd K t \<Longrightarrow> K \<le> L \<Longrightarrow> bnd L t"
  by (induction t) (fastforce simp: list_all_iff)+

lemma bnd_tmax: "bnd (tmax t) t"
proof (induction t)
  case (TStruct fs)
  have "bnd (tmax (TStruct fs)) (snd x)" if x: "x \<in> set fs" for x
  proof -
    have "tmax (snd x) \<le> sum_list (map snd (map (map_prod id tmax) fs))"
      using x by (intro member_le_sum_list) (force simp: image_iff, simp)
    then have "tmax (snd x) \<le> tmax (TStruct fs)" by simp
    moreover have "bnd (tmax (snd x)) (snd x)" using TStruct x by (cases x) auto
    ultimately show ?thesis by (blast intro: bnd_mono)
  qed
  then show ?case by (auto simp: list_all_iff)
next
  case (TSlice t)
  then show ?case by (auto intro: bnd_mono)
next
  case (TMap k t)
  then show ?case by (auto intro: bnd_mono)
next
  case (TPtr t)
  then show ?case using stay_le_tmax [of t] by (auto intro: bnd_mono)
qed auto

locale fuelled_decoder = ben_decoder +
  fixes N K :: nat
  assumes K2: "2 \<le> K"
    and no_fuel: "dec_ok v \<Longrightarrow> bnd K (vtype v) \<Longrightarrow> rlen r * Suc K + stay (vtype v) \<le> N \<Longrightarrow>
      dec v r = (v', r', e) \<Longrightarrow> e \<noteq> Some NoFuel"
begin

lemma no_fuel_K:
  "dec_ok v \<Longrightarrow> bnd K (vtype v) \<Longrightarrow> rlen r * Suc K + K \<le> N \<Longrightarrow> dec v r = (v', r', e) \<Longrightarrow>
   e \<noteq> Some NoFuel"
  using no_fuel [of v r v' r' e] bnd_stay [OF K2, of "vtype v"] by linarith

lemma handleNilInterface_fuel:
  assumes "rlen r * Suc K + 1 \<le> N" "handleNilInterface dec r = (w, r', e)"
  shows "e \<noteq> Some NoFuel"
proof (cases "ReadByte r")
  case (Pair r1 ob)
  show ?thesis
  proof (cases "case ob of None \<Rightarrow> None | Some b \<Rightarrow> eface_target b")
    case None
    with Pair assms show ?thesis by (auto simp: handleNilInterface_def split: option.splits)
  next
    case (Some t)
    then obtain b where b: "ob = Some b" "eface_target b = Some t" by (auto split: option.splits)
    with Pair obtain r2 where r2: "UnreadByte r1 = (r2, None)" "rb_post r2 = rb_post r"
      using Read_Unread by blast
    obtain v' r3 e3 where d: "dec t r2 = (v', r3, e3)" by (cases "dec t r2") auto
    from b have "dec_ok t" "bnd K (vtype t)" "stay (vtype t) = 1"
      by (auto split: if_splits)
    then have "e3 \<noteq> Some NoFuel" using assms(1) r2 by (intro no_fuel [OF _ _ _ d]) auto
    with Pair b r2 d assms show ?thesis
      by (auto simp: handleNilInterface_def setNilInterface_def split: option.splits)
  qed
qed

lemma readBenList_fuel:
  assumes "supp t" "bnd K t" "rlen r * Suc K + K \<le> N" "rlen r < m"
    "readBenList dec m t xs r = (xs', r', e)"
  shows "e \<noteq> Some NoFuel"
  using assms(3,4,5)
proof (induction m arbitrary: xs r)
  case (Suc m)
  obtain r1 x where c: "checkEnd r = (r1, x)" by (cases "checkEnd r") auto
  note cc = checkEnd_cases [OF c]
  show ?case
  proof (cases "x = Inr False")
    case False
    with Suc.prems c cc show ?thesis by auto
  next
    case True
    obtain w r2 e2 where d: "dec (zero_val t) r1 = (w, r2, e2)" by (cases "dec (zero_val t) r1") auto
    have z: "dec_ok (zero_val t)" using assms(1) by (rule dec_ok_zero)
    have e2: "e2 \<noteq> Some NoFuel" using z d assms(2) Suc.prems True cc by (intro no_fuel_K) auto
    have "e2 = None \<Longrightarrow> rlen r2 < rlen r" using dec_consumes [OF z, of r1 w r2] d cc True by auto
    moreover have "rlen r2 < rlen r \<Longrightarrow> rlen r2 * Suc K + K \<le> N"
      using Suc.prems(1) by (meson add_le_mono1 le_trans less_imp_le_nat mult_le_mono1)
    ultimately show ?thesis
      using Suc.IH [of r2] Suc.prems c True d e2 by (auto split: option.splits)
  qed
qed simp

lemma readBenDictMap_fuel:
  assumes "dec_ok ev" "bnd K (vtype ev)" "rlen r * Suc K + K \<le> N" "rlen r < m"
    "readBenDictMap dec m ev mp r = (mp', r', e)"
  shows "e \<noteq> Some NoFuel"
  using assms
proof (induction m arbitrary: ev mp r)
  case (Suc m)
  obtain r1 x where c: "checkEnd r = (r1, x)" by (cases "checkEnd r") auto
  note cc = checkEnd_cases [OF c]
  show ?case
  proof (cases "x = Inr False")
    case False
    with Suc.prems c cc show ?thesis by auto
  next
    case True
    obtain r2 k where s: "readBenString r1 = (r2, k)" by (cases "readBenString r1") auto
    note ls = readBenString_len [OF s]
    obtain w r3 e3 where d: "dec ev r2 = (w, r3, e3)" by (cases "dec ev r2") auto
    have mono: "rlen q \<le> rlen r \<Longrightarrow> rlen q * Suc K + K \<le> N" for q :: rbuf
      using Suc.prems(3) by (meson add_le_mono1 le_trans mult_le_mono1)
    have l3: "rlen r3 \<le> rlen r2" "dec_ok w" "vtype w = vtype ev"
      using dec_shrinks [OF _ d] dec_type [OF _ d] Suc.prems by auto
    have r2: "rlen r2 \<le> rlen r" using ls cc True by simp
    have e3: "e3 \<noteq> Some NoFuel" using Suc.prems d mono [OF r2] by (intro no_fuel_K) auto
    show ?thesis
    proof (cases "\<exists>key. k = Inr key \<and> e3 = None")
      case True': True
      then have "rlen r3 < rlen r" using ls cc True l3 by auto
      with Suc.IH [of w r3] Suc.prems l3 mono True' c True s d show ?thesis by auto
    next
      case False
      with Suc.prems c True s d e3 ls show ?thesis by (cases k; cases e3) auto
    qed
  qed
qed simp

lemma FieldByName_bnd:
  assumes "bnd K (vtype (VStruct fs))" "FieldByName n fs = Some v"
  shows "bnd K (vtype v)"
proof -
  obtain f where "(f, v) \<in> set fs" using FieldByName_in [OF assms(2)] by blast
  with assms(1) show ?thesis by (fastforce simp: list_all_iff)
qed

lemma tryNames_fuel:
  assumes "dec_ok (VStruct fs)" "fnames_ok fn fs" "map_of fn k = Some ns" "set names \<subseteq> set ns"
    "bnd K (vtype (VStruct fs))" "rlen r * Suc K + K \<le> N"
    "tryNames dec names nonOmit fs r = (fs', r', e)"
  shows "e \<noteq> Some NoFuel"
  using assms(1,2,4-7)
proof (induction names arbitrary: fs r)
  case (Cons n names)
  obtain v where v: "FieldByName n fs = Some v" "dec_ok v"
    using FieldByName_ok [OF Cons.prems(1,2) assms(3), of n] Cons.prems(3) by auto
  obtain w r1 e1 where d: "dec v r = (w, r1, e1)" by (cases "dec v r") auto
  have w: "vtype w = vtype v" "dec_ok w" using dec_type [OF v(2) d] by auto
  have len: "rlen r1 \<le> rlen r" using dec_shrinks [OF v(2) d] .
  have e1: "e1 \<noteq> Some NoFuel"
    using v d Cons.prems FieldByName_bnd [OF Cons.prems(4) v(1)] by (intro no_fuel_K) auto
  note fs1 = SetField_keeps [OF Cons.prems(1) v(1) w(2,1)]
  obtain r2 e2 where u: "unread_n (rlen r - rlen r1) r1 = (r2, e2)"
    by (cases "unread_n (rlen r - rlen r1) r1") auto
  have len2: "rlen r2 \<le> rlen r" and e2: "e2 \<noteq> Some NoFuel" using unread_n_len [OF u] len by simp_all
  have "rlen r2 * Suc K + K \<le> N"
    using len2 Cons.prems(5) by (meson add_le_mono1 le_trans mult_le_mono1)
  then have rec: "tryNames dec names nonOmit (SetField n w fs) r2 = (fs', r', e) \<Longrightarrow> e \<noteq> Some NoFuel"
    using fs1 Cons.prems Cons.IH [of "SetField n w fs" r2] by (simp del: vtype.simps dec_ok.simps)
  show ?case
  proof (cases "n \<in> set nonOmit \<or> e1 = None \<or> e2 \<noteq> None")
    case True
    with Cons.prems v d u e1 e2 show ?thesis
      by (cases e1) (auto simp del: vtype.simps dec_ok.simps split: if_splits)
  next
    case False
    with Cons.prems v d u e1 have "tryNames dec names nonOmit (SetField n w fs) r2 = (fs', r', e)"
      by (cases e1) auto
    then show ?thesis by (rule rec)
  qed
qed auto

lemma readField_fuel:
  assumes "dec_ok (VStruct fs)" "fnames_ok fn fs" "bnd K (vtype (VStruct fs))"
    "rlen r * Suc K + K \<le> N" "readField dec fn nonOmit key fs r = (nonOmit', fs', r', e)"
  shows "e \<noteq> Some NoFuel"
proof (cases "map_of fn key")
  case None
  obtain w r1 e1 where h: "handleNilInterface dec r = (w, r1, e1)"
    by (cases "handleNilInterface dec r") auto
  have "rlen r * Suc K + 1 \<le> N" using assms(4) K2 by simp
  with None assms h handleNilInterface_fuel show ?thesis by (auto simp: readField_def)
next
  case (Some names)
  show ?thesis
  proof (cases "length names = 1")
    case True
    then obtain n where n: "names = [n]" by (auto simp: length_Suc_conv)
    obtain v where v: "FieldByName n fs = Some v" "dec_ok v"
      using FieldByName_ok [OF assms(1,2) Some] n by auto
    obtain w r1 e1 where d: "dec v r = (w, r1, e1)" by (cases "dec v r") auto
    have "e1 \<noteq> Some NoFuel"
      using v d assms FieldByName_bnd [OF assms(3) v(1)] by (intro no_fuel_K) auto
    with Some n v d assms show ?thesis by (auto simp: readField_def)
  next
    case False
    obtain fs1 r1 e1 where t: "tryNames dec names nonOmit fs r = (fs1, r1, e1)"
      by (cases "tryNames dec names nonOmit fs r") auto
    from tryNames_fuel [OF assms(1,2) Some order.refl assms(3,4) t] Some False t assms
    show ?thesis by (auto simp: readField_def)
  qed
qed

lemma readBenDictStruct_fuel:
  assumes "dec_ok (VStruct fs)" "fnames_ok fn fs" "bnd K (vtype (VStruct fs))"
    "rlen r * Suc K + K \<le> N" "rlen r < m"
    "readBenDictStruct dec m fn nonOmit fs r = (fs', r', e)"
  shows "e \<noteq> Some NoFuel"
  using assms
proof (induction m arbitrary: nonOmit fs r)
  case (Suc m)
  obtain r1 x where c: "checkEnd r = (r1, x)" by (cases "checkEnd r") auto
  note cc = checkEnd_cases [OF c]
  show ?case
  proof (cases "x = Inr False")
    case False
    with Suc.prems c cc show ?thesis by (auto split: if_splits)
  next
    case True
    obtain r2 s where s: "readBenString r1 = (r2, s)" by (cases "readBenString r1") auto
    note ls = readBenString_len [OF s]
    show ?thesis
    proof (cases s)
      case (Inl e')
      with Suc.prems c True s ls cc show ?thesis by auto
    next
      case (Inr key)
      obtain no1 fs1 r3 e3 where f: "readField dec fn nonOmit key fs r2 = (no1, fs1, r3, e3)"
        by (cases "readField dec fn nonOmit key fs r2") auto
      note st = readField_step [OF Suc.prems(1,2) f]
      have mono: "rlen q \<le> rlen r \<Longrightarrow> rlen q * Suc K + K \<le> N" for q :: rbuf
        using Suc.prems(4) by (meson add_le_mono1 le_trans mult_le_mono1)
      have r2: "rlen r2 < rlen r" using ls cc True Inr by auto
      have e3: "e3 \<noteq> Some NoFuel"
        using readField_fuel [OF Suc.prems(1-3) mono f] r2 by simp
      show ?thesis
      proof (cases e3)
        case None
        with Suc.prems c True s Inr f have
          l: "readBenDictStruct dec m fn no1 fs1 r3 = (fs', r', e)" by simp
        have "rlen r3 < rlen r" using st r2 by simp
        with Suc.IH [OF _ _ _ _ _ l] st Suc.prems mono show ?thesis
          by (simp del: vtype.simps dec_ok.simps)
      next
        case (Some e')
        with Suc.prems c True s Inr f e3 show ?thesis by auto
      qed
    qed
  qed
qed auto

end

lemma fuel_step:
  assumes "Suc a = b" "b * Suc K + 1 \<le> Suc n"
  shows "a * Suc K + K \<le> n \<and> a < n"
proof -
  have "b * Suc K = a * Suc K + Suc K" by (simp flip: assms(1))
  with assms(2) have "a * Suc K + Suc K \<le> n" by simp
  moreover have "a \<le> a * Suc K" by simp
  ultimately show ?thesis by linarith
qed

lemma fuelled_decode: "fuelled_decoder (decode n) n (Suc (Suc k))"
proof (induction n)
  case 0
  have "\<not> rlen r * m + stay t \<le> 0" for r m t by (cases t) auto
  then show ?case by (unfold_locales, simp, blast)
next
  case (Suc n)
  let ?K = "Suc (Suc k)"
  have nofuel: "e \<noteq> Some NoFuel"
    if ok: "dec_ok v" and b: "bnd ?K (vtype v)" and f: "rlen r * Suc ?K + stay (vtype v) \<le> Suc n"
      and d: "decode (Suc n) v r = (v', r', e)" for v r v' r' e
  proof (cases v)
    case (VSlice t xs)
    obtain r1 e1 where a: "assertBenElem WhatList r = (r1, e1)" by (cases "assertBenElem WhatList r") auto
    obtain xs2 r2 e2 where l: "readBenList (decode n) n t xs r1 = (xs2, r2, e2)"
      by (cases "readBenList (decode n) n t xs r1") auto
    have "e1 = None \<Longrightarrow> rlen r1 * Suc ?K + ?K \<le> n \<and> rlen r1 < n"
      using f by (intro fuel_step [OF assertBenElem_ok [of WhatList r r1]]) (simp_all add: VSlice a)
    with d VSlice ok b a l assertBenElem_len [OF a] fuelled_decoder.readBenList_fuel [OF Suc _ _ _ _ l]
    show ?thesis by (auto simp: decode_slice_def split: option.splits)
  next
    case (VMap k t m)
    obtain r1 e1 where a: "assertBenElem WhatDict r = (r1, e1)" by (cases "assertBenElem WhatDict r") auto
    obtain m2 r2 e2 where l: "readBenDictMap (decode n) n (zero_val t) m r1 = (m2, r2, e2)"
      by (cases "readBenDictMap (decode n) n (zero_val t) m r1") auto
    have "e1 = None \<Longrightarrow> rlen r1 * Suc ?K + ?K \<le> n \<and> rlen r1 < n"
      using f by (intro fuel_step [OF assertBenElem_ok [of WhatDict r r1]]) (simp_all add: VMap a)
    with d VMap ok b a l assertBenElem_len [OF a] dec_ok_zero
      fuelled_decoder.readBenDictMap_fuel [OF Suc _ _ _ _ l]
    show ?thesis by (auto simp: decode_map_def split: option.splits if_splits)
  next
    case (VStruct fs)
    obtain r1 e1 where a: "assertBenElem WhatDict r = (r1, e1)" by (cases "assertBenElem WhatDict r") auto
    obtain no fn where si: "structInfo (map fst fs) [] [] = (no, fn)"
      by (cases "structInfo (map fst fs) [] []") auto
    obtain fs2 r2 e2 where l: "readBenDictStruct (decode n) n fn no fs r1 = (fs2, r2, e2)"
      by (cases "readBenDictStruct (decode n) n fn no fs r1") auto
    have "e1 = None \<Longrightarrow> rlen r1 * Suc ?K + ?K \<le> n \<and> rlen r1 < n"
      using f by (intro fuel_step [OF assertBenElem_ok [of WhatDict r r1]]) (simp_all add: VStruct a)
    with d VStruct ok b a si l assertBenElem_len [OF a]
      fuelled_decoder.readBenDictStruct_fuel [OF Suc _ structInfo_fnames_ok [OF si] _ _ _ l]
    show ?thesis
      by (auto simp: decode_struct_def simp del: vtype.simps dec_ok.simps split: option.splits)
  next
    case (VPtr t p)
    let ?w = "case p of None \<Rightarrow> zero_val t | Some w \<Rightarrow> w"
    obtain w' r1 e1 where c: "decode n ?w r = (w', r1, e1)" by (cases "decode n ?w r") auto
    have "dec_ok ?w" "vtype ?w = t" using ok VPtr dec_ok_zero by (auto split: option.splits)
    then have "e1 \<noteq> Some NoFuel"
      using f b VPtr by (intro fuelled_decoder.no_fuel [OF Suc _ _ _ c]) auto
    with c d VPtr show ?thesis by (auto simp: decode_ptr_def split: option.splits)
  next
    case (VIface i)
    obtain w r1 e1 where h: "handleNilInterface (decode n) r = (w, r1, e1)"
      by (cases "handleNilInterface (decode n) r") auto
    have "e1 \<noteq> Some NoFuel"
      using f VIface by (intro fuelled_decoder.handleNilInterface_fuel [OF Suc _ h]) auto
    with d VIface h show ?thesis by (auto split: option.splits)
  qed (use ok d scalar_reader_len [OF d] in \<open>auto simp del: decode.simps(2)\<close>, auto)
  show ?case by (unfold_locales, simp, rule nofuel)
qed

interpretation fdec: fuelled_decoder "decode n" n "Suc (Suc k)" for n k
  by (rule fuelled_decode)

lemma decode_enough_fuel:
  assumes "dec_ok v" "decode (decode_fuel v data) v (NewBuffer data) = (v', r, e)"
  shows "e \<noteq> Some NoFuel"
proof (rule fdec.no_fuel [OF assms(1) _ _ assms(2), where k = "tmax (vtype v)"])
  show "bnd (Suc (Suc (tmax (vtype v)))) (vtype v)" using bnd_tmax by (rule bnd_mono) simp
  show "rlen (NewBuffer data) * Suc (Suc (Suc (tmax (vtype v)))) + stay (vtype v) \<le> decode_fuel v data"
    using stay_le_tmax [of "vtype v"] by (simp add: decode_fuel_def NewBuffer_def add_mult_distrib2)
qed

lemma decode_keeps_type: "dec_ok v \<Longrightarrow> decode n v r = (v', r', e) \<Longrightarrow> vtype v' = vtype v"
  using dec.dec_type by blast

text \<open>
  C15. \<open>Decode\<close> returns on every input, whatever the bytes: the fuel of the model is never
  used up, and the value it leaves in its target, also when it reports an error, is of the type
  the target had.
\<close>

theorem Decode_total:
  assumes "dec_ok v"
  shows "snd (Decode data v) \<noteq> Some NoFuel \<and> vtype (fst (Decode data v)) = vtype v"
proof -
  obtain v' r e where d: "decode (decode_fuel v data) v (NewBuffer data) = (v', r, e)"
    by (cases "decode (decode_fuel v data) v (NewBuffer data)") auto
  from decode_enough_fuel [OF assms d] decode_keeps_type [OF assms d] d show ?thesis
    by (auto simp: Decode_def split: option.splits prod.splits)
qed

theorem Decode_total_witness:
  "dec_ok (VSlice (TMap True TIface) None) \<and>
   snd (Decode [108, 100, 101] (VSlice (TMap True TIface) None)) = Some ErrEOF \<and>
   vtype (fst (Decode [108, 100, 101] (VSlice (TMap True TIface) None))) = TSlice (TMap True TIface)"
proof -
  have d: "dec_ok (VSlice (TMap True TIface) None)" by simp
  moreover have "snd (Decode [108, 100, 101] (VSlice (TMap True TIface) None)) = Some ErrEOF" by code_simp
  ultimately show ?thesis using Decode_total [OF d, of "[108, 100, 101]"] by simp
qed

end
