(* ===== verification/Bencode_Roundtrip.thy ===== *)
theory Bencode_Roundtrip
  imports Bencode_Total
begin

text \<open>
  Decoding what the encoder wrote gives the value back. \<open>rt v\<close> collects the conditions on a
  value of any supported type, structs with tags included; \<open>start v s\<close> says from which target
  value the decoder reaches \<open>v\<close>, because the decoder appends to the slice and inserts into the
  map it is given. What is left out of \<open>rt\<close> is left out because the code does not round-trip
  it: booleans (\<open>readBenBool_never\<close>), nil maps (\<open>encode_nil_map\<close>), nil pointers and
  empty slices that are not nil.
\<close>

section \<open>Readers on encoded scalars\<close>

definition ebytes :: "goval \<Rightarrow> bytes" where
  "ebytes v = (case encode v of Inl _ \<Rightarrow> [] | Inr b \<Rightarrow> b)"

lemma ReadByte_Cons:
  "rb_post r = b # bs \<Longrightarrow> \<exists>r'. ReadByte r = (r', Some b) \<and> rb_post r' = bs"
  by (auto simp: ReadByte_def)

lemma checkEnd_e: "rb_post r = 101 # bs \<Longrightarrow> \<exists>r'. checkEnd r = (r', Inr True) \<and> rb_post r' = bs"
  using ReadByte_Cons [of r 101 bs] by (auto simp: checkEnd_def)

lemma checkEnd_other:
  assumes "rb_post r = b # bs" "b \<noteq> 101"
  shows "\<exists>r'. checkEnd r = (r', Inr False) \<and> rb_post r' = b # bs"
proof -
  obtain r1 where r1: "ReadByte r = (r1, Some b)" using ReadByte_Cons [OF assms(1)] by blast
  then obtain r2 where "UnreadByte r1 = (r2, None)" "rb_post r2 = rb_post r"
    using Read_Unread by blast
  with r1 assms show ?thesis by (auto simp: checkEnd_def)
qed

lemma assertBenElem_Cons:
  "rb_post r = b # bs \<Longrightarrow> what_byte what b \<Longrightarrow>
   \<exists>r'. assertBenElem what r = (r', None) \<and> rb_post r' = bs"
  using ReadByte_Cons [of r b bs] by (auto simp: assertBenElem_def)

lemma ReadString_append:
  assumes "rb_post r = xs @ d # ys" "d \<notin> set xs"
  shows "\<exists>r'. ReadString d r = (r', xs @ [d], None) \<and> rb_post r' = ys"
proof -
  have "takeWhile (\<lambda>b. b \<noteq> d) (xs @ d # ys) = xs"
    using assms(2) by (induction xs) auto
  with assms show ?thesis by (simp add: ReadString_def Let_def)
qed

lemma read_enc_int:
  assumes "rb_post r = enc_int i @ rest"
  shows "\<exists>r1 r2. assertBenElem WhatInt r = (r1, None) \<and>
    ReadString 101 r1 = (r2, FormatInt i @ [101], None) \<and> rb_post r2 = rest"
proof -
  from assms have "rb_post r = 105 # FormatInt i @ 101 # rest" by (simp add: enc_int_def)
  then obtain r1 where r1: "assertBenElem WhatInt r = (r1, None)" "rb_post r1 = FormatInt i @ 101 # rest"
    using assertBenElem_Cons [of r 105 _ WhatInt] by auto
  with ReadString_append FormatInt_no_delim(1) show ?thesis by blast
qed

lemma readBenInt_enc:
  assumes "rb_post r = enc_int i @ rest" "fits_signed 64 i"
  shows "\<exists>r'. readBenInt r = (r', Inr i) \<and> rb_post r' = rest"
  using read_enc_int [OF assms(1)] ParseInt_FormatInt [OF assms(2)] by (auto simp: readBenInt_def)

lemma readBenUint_enc:
  assumes "rb_post r = enc_int i @ rest" "fits_unsigned 64 i"
  shows "\<exists>r'. readBenUint r = (r', Inr i) \<and> rb_post r' = rest"
proof -
  have "nat i < 2 ^ 64" "0 \<le> i" using assms(2) by (auto simp: fits_unsigned_def)
  then have "ParseUint (FormatInt i) = (nat i, None)"
    by (simp add: FormatInt_def ParseUint_format)
  with read_enc_int [OF assms(1)] \<open>0 \<le> i\<close> show ?thesis by (auto simp: readBenUint_def)
qed

lemma readBenString_enc:
  assumes "rb_post r = enc_string s @ rest" "length s < 2 ^ 63"
  shows "\<exists>r'. readBenString r = (r', Inr s) \<and> rb_post r' = rest"
proof -
  let ?f = "FormatInt (int (length s))"
  have p: "rb_post r = ?f @ 58 # s @ rest" using assms(1) by (simp add: enc_string_def)
  obtain c cs where c: "?f = c # cs" "is_digit c"
    using format_nat_Cons [of "length s"] by (auto simp: FormatInt_def)
  with p obtain r1 where r1: "ReadByte r = (r1, Some c)" using ReadByte_Cons by force
  then have a: "assertBenElem WhatStr r = (r1, None)" using c by (simp add: assertBenElem_def)
  obtain r2 where r2: "UnreadByte r1 = (r2, None)" "rb_post r2 = ?f @ 58 # s @ rest"
    using Read_Unread [OF r1] p by auto
  obtain r3 where r3: "ReadString 58 r2 = (r3, ?f @ [58], None)" "rb_post r3 = s @ rest"
    using ReadString_append [OF r2(2) FormatInt_no_delim(2)] by blast
  have "ParseInt ?f = (int (length s), None)"
    using assms(2) by (intro ParseInt_FormatInt) (simp add: fits_signed_def)
  moreover have "\<exists>r4. Next (length s) r3 = (r4, s) \<and> rb_post r4 = rest"
    using r3(2) by (simp add: Next_def)
  ultimately show ?thesis using a r2 r3 by (auto simp: readBenString_def)
qed

lemma enc_string_Cons: "\<exists>c cs. enc_string s = c # cs \<and> is_digit c"
  using format_nat_Cons [of "length s"] by (auto simp: enc_string_def FormatInt_def)

text \<open>The finding on booleans: what \<open>encode\<close> writes for a boolean no reader accepts.\<close>

lemma readBenBool_never: "readBenBool r \<noteq> (r', Inr b)"
proof
  assume "readBenBool r = (r', Inr b)"
  then obtain r1 line where l: "ReadString 101 r1 = (r', line, None)" "length line = 1"
    "ParseBool1 (hd line) = Inr b"
    by (auto simp: readBenBool_def split: prod.splits option.splits if_splits)
  then have "line = [101]"
    by (auto simp: ReadString_def Let_def split: if_splits)
  with l(3) show False by (simp add: ParseBool1_def)
qed

section \<open>Values that round-trip\<close>

fun overw :: "gotype \<Rightarrow> bool" where
  "overw (TInt w) = True"
| "overw (TUint w) = True"
| "overw TString = True"
| "overw TBytes = True"
| "overw TIface = True"
| "overw _ = False"

fun start :: "goval \<Rightarrow> goval \<Rightarrow> bool" where
  "start (VSlice t (Some xs)) s = (s = VSlice t None \<and> xs \<noteq> [] \<or> s = VSlice t (Some []))"
| "start (VMap k t (Some m)) s = (s = VMap k t None \<and> m \<noteq> [] \<or> s = VMap k t (Some []))"
| "start v s = (s = zero_val (vtype v) \<or> (overw (vtype v) \<and> vtype s = vtype v))"

text \<open>The fields \<open>encode\<close> writes.\<close>

definition written :: "field_tag \<times> goval \<Rightarrow> bool" where
  "written x \<longleftrightarrow> \<not> (sf_bencode (fst x) = dash \<or> (sf_empty (fst x) = omit \<and> isZero (snd x)))"

fun eface :: "goval \<Rightarrow> bool" where
  "eface (VInt w i) = (w = 64)"
| "eface (VString s) = True"
| "eface (VSlice t (Some xs)) = (t = TIface)"
| "eface (VMap k t (Some m)) = (k \<and> t = TIface)"
| "eface _ = False"

fun rt :: "goval \<Rightarrow> bool" where
  "rt (VInt w i) = (0 < w \<and> w \<le> 64 \<and> fits_signed w i)"
| "rt (VUint w i) = (w \<le> 64 \<and> fits_unsigned w i)"
| "rt (VString s) = (length s < 2 ^ 63)"
| "rt (VBytes (Some s)) = (length s < 2 ^ 63)"
| "rt (VSlice t None) = True"
| "rt (VSlice t (Some xs)) = (\<forall>x \<in> set xs. vtype x = t \<and> start x (zero_val t) \<and> rt x)"
| "rt (VMap k t (Some m)) =
     (k \<and> overw t \<and> sorted_wrt (\<lambda>x y. bytes_less (fst x) (fst y)) m \<and>
      (\<forall>x \<in> set m. length (fst x) < 2 ^ 63 \<and> vtype (snd x) = t \<and> rt (snd x)))"
| "rt (VStruct fs) =
     (fs \<noteq> [] \<and> distinct (map (sf_name \<circ> fst) fs) \<and>
      distinct (map (field_key \<circ> fst) (filter (\<lambda>x. sf_bencode (fst x) \<noteq> dash) fs)) \<and>
      (\<forall>x \<in> set fs.
         if written x
         then length (field_key (fst x)) < 2 ^ 63 \<and> start (snd x) (zero_val (vtype (snd x))) \<and>
              rt (snd x)
         else snd x = zero_val (vtype (snd x))))"
| "rt (VPtr t (Some v)) = (vtype v = t \<and> start v (zero_val t) \<and> rt v)"
| "rt (VIface (Some v)) = (eface v \<and> rt v)"
| "rt _ = False"

section \<open>The encoder on such values\<close>

lemma sort_by_map: "sort_by lt (map g xs) = map g (sort_by (\<lambda>a b. lt (g a) (g b)) xs)"
proof -
  have ins: "insert_by lt (g x) (map g ys) = map g (insert_by (\<lambda>a b. lt (g a) (g b)) x ys)" for x ys
    by (induction ys) auto
  show ?thesis by (induction xs) (auto simp: ins)
qed

lemma encode_entries_map: "encode_entries kvs = map (\<lambda>x. (fst x, encode (snd x))) kvs"
  by (induction kvs) auto

lemma encode_fields_map:
  "encode_fields fs = map (\<lambda>x. (field_key (fst x), encode (snd x))) (filter written fs)"
  by (induction fs) (auto simp: written_def)

lemma write_entries_ok:
  assumes "\<forall>x \<in> set xs. encode (val x) = Inr (ebytes (val x))"
  shows "write_entries (map (\<lambda>x. (key x, encode (val x))) xs) =
    Inr (concat (map (\<lambda>x. enc_string (key x) @ ebytes (val x)) xs))"
  using assms by (induction xs) auto

lemma encode_list_ok:
  "\<forall>x \<in> set xs. encode x = Inr (ebytes x) \<Longrightarrow> encode_list xs = Inr (concat (map ebytes xs))"
  by (induction xs) auto

lemma sorted_keys_sort_by:
  "sorted_wrt (\<lambda>x y. bytes_less (fst x) (fst y)) m \<Longrightarrow> sort_by key_less m = m"
  using bytes_less_asym by (intro sort_by_sorted_id) (blast intro: sorted_wrt_mono_rel [rotated])

abbreviation by_key :: "(field_tag \<times> goval) list \<Rightarrow> (field_tag \<times> goval) list" where
  "by_key fs \<equiv> sort_by (\<lambda>a b. bytes_less (field_key (fst a)) (field_key (fst b))) (filter written fs)"

lemma encode_struct_eq:
  assumes "fs \<noteq> []" "\<forall>x \<in> set fs. written x \<longrightarrow> encode (snd x) = Inr (ebytes (snd x))"
  shows "encode (VStruct fs) =
    Inr (100 # concat (map (\<lambda>x. enc_string (field_key (fst x)) @ ebytes (snd x)) (by_key fs)) @ [101])"
proof -
  have "\<forall>x \<in> set (by_key fs). encode (snd x) = Inr (ebytes (snd x))" using assms(2) by auto
  then show ?thesis
    using assms(1)
    by (simp add: encode_fields_map write_dict_def sort_by_map write_entries_ok)
qed

lemma encode_map_eq:
  assumes "sorted_wrt (\<lambda>x y. bytes_less (fst x) (fst y)) m"
    "\<forall>x \<in> set m. encode (snd x) = Inr (ebytes (snd x))"
  shows "encode (VMap True t (Some m)) =
    Inr (100 # concat (map (\<lambda>x. enc_string (fst x) @ ebytes (snd x)) m) @ [101])"
proof -
  have "sort_by key_less (encode_entries m) = encode_entries m"
    using assms(1) by (intro sorted_keys_sort_by) (simp add: encode_entries_map sorted_wrt_map)
  then show ?thesis
    using assms(2) by (simp add: write_dict_def encode_entries_map write_entries_ok)
qed

lemma ebytesI: "encode v = Inr b \<Longrightarrow> ebytes v = b"
  by (simp add: ebytes_def)

lemma encode_rt: "rt v \<Longrightarrow> encode v = Inr (ebytes v) \<and> ebytes v \<noteq> [] \<and> hd (ebytes v) \<noteq> 101"
proof (induction v)
  case (VString s)
  then show ?case using enc_string_Cons [of s] is_digit_not_sign by (auto simp: ebytes_def)
next
  case (VBytes s)
  then show ?case
    using enc_string_Cons [of "the s"] is_digit_not_sign by (cases s) (auto simp: ebytes_def)
next
  case (VSlice t xs)
  show ?case
  proof (cases xs)
    case (Some ys)
    with VSlice have "encode_list ys = Inr (concat (map ebytes ys))" by (intro encode_list_ok) auto
    with Some show ?thesis by (simp add: ebytes_def)
  qed (simp add: ebytes_def)
next
  case (VMap k t m)
  then obtain kvs where m: "m = Some kvs" "k" by (cases m) auto
  then have "encode (VMap k t m) =
    Inr (100 # concat (map (\<lambda>x. enc_string (fst x) @ ebytes (snd x)) kvs) @ [101])"
    using VMap encode_map_eq [of kvs t] by (fastforce simp del: encode.simps)
  then show ?case by (simp add: ebytes_def del: encode.simps)
next
  case (VStruct fs)
  then have "\<forall>x \<in> set fs. written x \<longrightarrow> encode (snd x) = Inr (ebytes (snd x))"
    by (fastforce split: if_splits)
  with VStruct.prems have "encode (VStruct fs) =
    Inr (100 # concat (map (\<lambda>x. enc_string (field_key (fst x)) @ ebytes (snd x)) (by_key fs)) @ [101])"
    by (intro encode_struct_eq) auto
  then show ?case by (simp add: ebytes_def del: encode.simps)
next
  case (VPtr t p)
  then show ?case by (cases p) (auto simp: ebytes_def)
next
  case (VIface i)
  then show ?case by (cases i) (auto simp: ebytes_def)
qed (auto simp: ebytes_def enc_int_def)

section \<open>The loops on encoded input\<close>

text \<open>
  \<open>reads dec L s v\<close>: on every buffer of at most \<open>L\<close> bytes that begins with the encoding of
  \<open>v\<close>, the decoder \<open>dec\<close> turns \<open>s\<close> into \<open>v\<close> and leaves the rest.
\<close>

definition reads :: "decoder \<Rightarrow> nat \<Rightarrow> goval \<Rightarrow> goval \<Rightarrow> bool" where
  "reads dec L s v \<longleftrightarrow>
     (\<forall>r rest. rb_post r = ebytes v @ rest \<longrightarrow> rlen r \<le> L \<longrightarrow>
        (\<exists>r'. dec s r = (v, r', None) \<and> rb_post r' = rest))"

lemma readsD:
  assumes "reads dec L s v" "rb_post r = ebytes v @ rest" "rlen r \<le> L"
  obtains r' where "dec s r = (v, r', None)" "rb_post r' = rest"
  using assms unfolding reads_def by blast

lemma checkEnd_enc:
  assumes "rb_post r = ebytes v @ rest" "ebytes v \<noteq> []" "hd (ebytes v) \<noteq> 101"
  shows "\<exists>r'. checkEnd r = (r', Inr False) \<and> rb_post r' = ebytes v @ rest"
  using assms checkEnd_other [of r "hd (ebytes v)" "tl (ebytes v) @ rest"] by (cases "ebytes v") auto

lemma checkEnd_enc_string:
  assumes "rb_post r = enc_string k @ rest"
  shows "\<exists>r'. checkEnd r = (r', Inr False) \<and> rb_post r' = enc_string k @ rest"
proof -
  obtain c cs where c: "enc_string k = c # cs" "is_digit c" using enc_string_Cons by blast
  then have "c \<noteq> 101" using is_digit_not_sign by blast
  with checkEnd_other [of r c "cs @ rest"] assms c show ?thesis by simp
qed

lemma readBenList_enc:
  assumes "\<forall>x \<in> set xs. reads dec L (zero_val t) x \<and> ebytes x \<noteq> [] \<and> hd (ebytes x) \<noteq> 101"
    "rb_post r = concat (map ebytes xs) @ 101 # rest" "rlen r \<le> L" "length xs < m"
  shows "\<exists>r'. readBenList dec m t acc r =
    ((if xs = [] then acc else Some ((case acc of None \<Rightarrow> [] | Some ys \<Rightarrow> ys) @ xs)), r', None) \<and>
    rb_post r' = rest"
  using assms
proof (induction xs arbitrary: m acc r)
  case Nil
  then obtain m' where "m = Suc m'" by (cases m) auto
  with Nil checkEnd_e [of r rest] show ?case by auto
next
  case (Cons x xs)
  then obtain m' where m: "m = Suc m'" by (cases m) auto
  have "rb_post r = ebytes x @ concat (map ebytes xs) @ 101 # rest" using Cons.prems(2) by simp
  then obtain r1 where r1: "checkEnd r = (r1, Inr False)"
    "rb_post r1 = ebytes x @ concat (map ebytes xs) @ 101 # rest"
    using checkEnd_enc Cons.prems(1) by (metis list.set_intros(1))
  moreover have "rlen r1 \<le> L" using r1(2) Cons.prems(2,3) by simp
  moreover have "reads dec L (zero_val t) x" using Cons.prems(1) by simp
  ultimately obtain r2 where r2: "dec (zero_val t) r1 = (x, r2, None)"
    "rb_post r2 = concat (map ebytes xs) @ 101 # rest"
    using readsD by blast
  have "rlen r2 \<le> L" using r1 r2 \<open>rlen r1 \<le> L\<close> by simp
  with Cons.IH [of r2 m' "Some ((case acc of None \<Rightarrow> [] | Some ys \<Rightarrow> ys) @ [x])"]
    Cons.prems(1,4) r1 r2 m show ?case by auto
qed

lemma SetMapIndex_new: "k \<notin> fst ` set m \<Longrightarrow> SetMapIndex k v m = m @ [(k, v)]"
  by (induction k v m rule: SetMapIndex.induct) auto

lemma readBenDictMap_enc:
  assumes "\<forall>x \<in> set kvs. length (fst x) < 2 ^ 63 \<and>
      (\<forall>s. vtype s = t \<longrightarrow> reads dec L s (snd x)) \<and> vtype (snd x) = t"
    "distinct (map fst ((case acc of None \<Rightarrow> [] | Some ys \<Rightarrow> ys) @ kvs))"
    "vtype ev = t"
    "rb_post r = concat (map (\<lambda>x. enc_string (fst x) @ ebytes (snd x)) kvs) @ 101 # rest"
    "rlen r \<le> L" "length kvs < m"
  shows "\<exists>r'. readBenDictMap dec m ev acc r =
    ((if kvs = [] then acc else Some ((case acc of None \<Rightarrow> [] | Some ys \<Rightarrow> ys) @ kvs)), r', None) \<and>
    rb_post r' = rest"
  using assms
proof (induction kvs arbitrary: m acc r ev)
  case Nil
  then obtain m' where "m = Suc m'" by (cases m) auto
  with Nil checkEnd_e [of r rest] show ?case by auto
next
  case (Cons x kvs)
  let ?acc = "case acc of None \<Rightarrow> [] | Some ys \<Rightarrow> ys"
  let ?tl = "concat (map (\<lambda>x. enc_string (fst x) @ ebytes (snd x)) kvs) @ 101 # rest"
  obtain m' where m: "m = Suc m'" using Cons.prems(6) by (cases m) auto
  have p: "rb_post r = enc_string (fst x) @ ebytes (snd x) @ ?tl" using Cons.prems(4) by simp
  obtain r1 where r1: "checkEnd r = (r1, Inr False)"
    "rb_post r1 = enc_string (fst x) @ ebytes (snd x) @ ?tl"
    using checkEnd_enc_string [OF p] by blast
  obtain r2 where r2: "readBenString r1 = (r2, Inr (fst x))" "rb_post r2 = ebytes (snd x) @ ?tl"
    using readBenString_enc [OF r1(2)] Cons.prems(1) by auto
  have "rlen r2 \<le> L" using r2(2) p Cons.prems(5) by simp
  moreover have "reads dec L ev (snd x)" using Cons.prems(1,3) by simp
  ultimately obtain r3 where r3: "dec ev r2 = (snd x, r3, None)" "rb_post r3 = ?tl"
    using readsD [OF _ r2(2)] by blast
  have "SetMapIndex (fst x) (snd x) ?acc = ?acc @ [x]"
    using Cons.prems(2) by (subst SetMapIndex_new) auto
  moreover have "rlen r3 \<le> L" using r3(2) r2(2) \<open>rlen r2 \<le> L\<close> by simp
  ultimately show ?case
    using Cons.IH [of "Some (?acc @ [x])" "snd x" r3 m'] Cons.prems r1 r2 r3 m by auto
qed

text \<open>The state of the fields after the names in \<open>done\<close> have been decoded.\<close>

definition progress :: "bytes set \<Rightarrow> (field_tag \<times> goval) list \<Rightarrow> (field_tag \<times> goval) list" where
  "progress dn fs =
     map (\<lambda>x. (fst x, if sf_name (fst x) \<in> dn then snd x else zero_val (vtype (snd x)))) fs"

lemma map_fst_progress [simp]: "map fst (progress dn fs) = map fst fs"
  by (simp add: progress_def)

lemma FieldByName_progress:
  assumes "x \<in> set fs" "distinct (map (sf_name \<circ> fst) fs)" "sf_name (fst x) \<notin> dn"
  shows "FieldByName (sf_name (fst x)) (progress dn fs) = Some (zero_val (vtype (snd x)))"
  using assms
proof (induction fs)
  case (Cons y fs)
  then show ?case
    by (cases "sf_name (fst y) = sf_name (fst x)") (auto simp: progress_def image_iff)
qed simp

lemma SetField_progress:
  assumes "x \<in> set fs" "distinct (map (sf_name \<circ> fst) fs)"
  shows "SetField (sf_name (fst x)) (snd x) (progress dn fs) =
    progress (insert (sf_name (fst x)) dn) fs"
  using assms
proof (induction fs)
  case (Cons y fs)
  show ?case
  proof (cases "sf_name (fst y) = sf_name (fst x)")
    case True
    with Cons.prems have "y = x" by (intro field_unique [of "y # fs"]) (auto simp: comp_def)
    moreover have "\<forall>z \<in> set fs. sf_name (fst z) \<noteq> sf_name (fst x)"
      using Cons.prems(2) True by (simp add: image_iff) metis
    then have "progress (insert (sf_name (fst x)) dn) fs = progress dn fs"
      by (auto simp: progress_def)
    ultimately show ?thesis by (simp add: progress_def)
  next
    case False
    with Cons show ?thesis by (auto simp: progress_def)
  qed
qed simp

lemma readBenDictStruct_enc:
  assumes gs: "\<forall>x \<in> set gs. x \<in> set fs \<and> length (field_key (fst x)) < 2 ^ 63 \<and>
      reads dec L (zero_val (vtype (snd x))) (snd x) \<and>
      map_of fnames (field_key (fst x)) = Some [sf_name (fst x)]"
    and dist: "distinct (map (sf_name \<circ> fst) fs)"
    and "distinct (map (sf_name \<circ> fst) gs)" "\<forall>x \<in> set gs. sf_name (fst x) \<notin> dn"
      "set nonOmit \<subseteq> (sf_name \<circ> fst) ` set gs"
      "rb_post r = concat (map (\<lambda>x. enc_string (field_key (fst x)) @ ebytes (snd x)) gs) @ 101 # rest"
      "rlen r \<le> L" "length gs < m"
  shows "\<exists>r'. readBenDictStruct dec m fnames nonOmit (progress dn fs) r =
    (progress (dn \<union> (sf_name \<circ> fst) ` set gs) fs, r', None) \<and> rb_post r' = rest"
  using gs assms(3-8)
proof (induction gs arbitrary: m dn nonOmit r)
  case Nil
  then obtain m' where "m = Suc m'" by (cases m) auto
  with Nil checkEnd_e [of r rest] show ?case by auto
next
  case (Cons x gs)
  let ?n = "sf_name (fst x)"
  let ?tl = "concat (map (\<lambda>x. enc_string (field_key (fst x)) @ ebytes (snd x)) gs) @ 101 # rest"
  obtain m' where m: "m = Suc m'" using Cons.prems(7) by (cases m) auto
  have p: "rb_post r = enc_string (field_key (fst x)) @ ebytes (snd x) @ ?tl" using Cons.prems(5) by simp
  obtain r1 where r1: "checkEnd r = (r1, Inr False)"
    "rb_post r1 = enc_string (field_key (fst x)) @ ebytes (snd x) @ ?tl"
    using checkEnd_enc_string [OF p] by blast
  obtain r2 where r2: "readBenString r1 = (r2, Inr (field_key (fst x)))"
    "rb_post r2 = ebytes (snd x) @ ?tl"
    using readBenString_enc [OF r1(2)] Cons.prems(1) by auto
  have "rlen r2 \<le> L" using r2(2) p Cons.prems(6) by simp
  moreover have "reads dec L (zero_val (vtype (snd x))) (snd x)" using Cons.prems(1) by simp
  ultimately obtain r3 where r3: "dec (zero_val (vtype (snd x))) r2 = (snd x, r3, None)"
    "rb_post r3 = ?tl"
    using readsD [OF _ r2(2)] by blast
  have x: "x \<in> set fs" "?n \<notin> dn" using Cons.prems(1,3) by auto
  have "readField dec fnames nonOmit (field_key (fst x)) (progress dn fs) r2 =
    (removeAll ?n nonOmit, progress (insert ?n dn) fs, r3, None)"
    using Cons.prems(1) r3(1) FieldByName_progress [OF x(1) dist x(2)] SetField_progress [OF x(1) dist]
    by (simp add: readField_def)
  then have step: "readBenDictStruct dec m fnames nonOmit (progress dn fs) r =
    readBenDictStruct dec m' fnames (removeAll ?n nonOmit) (progress (insert ?n dn) fs) r3"
    using m r1 r2 by simp
  have "\<exists>r'. readBenDictStruct dec m' fnames (removeAll ?n nonOmit) (progress (insert ?n dn) fs) r3 =
    (progress (insert ?n dn \<union> (sf_name \<circ> fst) ` set gs) fs, r', None) \<and> rb_post r' = rest"
  proof (rule Cons.IH)
    show "rlen r3 \<le> L" using r3(2) r2(2) \<open>rlen r2 \<le> L\<close> by simp
    show "\<forall>y \<in> set gs. sf_name (fst y) \<notin> insert ?n dn" using Cons.prems(2,3) by (simp add: image_iff) metis
  qed (use Cons.prems m r3 in auto)
  with step show ?case by (simp add: insert_commute)
qed

section \<open>The key table of a struct\<close>

lemma structInfo_nonOmit:
  "fst (structInfo fs no fn) = no @ map sf_name (filter (\<lambda>f. sf_bencode f \<noteq> dash \<and> sf_empty f \<noteq> omit) fs)"
  by (induction fs no fn rule: structInfo.induct) auto

lemma structInfo_keeps:
  "k \<notin> field_key ` set (filter (\<lambda>f. sf_bencode f \<noteq> dash) fs) \<Longrightarrow>
   map_of (snd (structInfo fs no fn)) k = map_of fn k"
  by (induction fs no fn rule: structInfo.induct) (auto simp: map_of_add_fname split: if_splits)

lemma structInfo_key:
  assumes "f \<in> set fs" "sf_bencode f \<noteq> dash" "map_of fn (field_key f) = None"
    "distinct (map field_key (filter (\<lambda>f. sf_bencode f \<noteq> dash) fs))"
  shows "map_of (snd (structInfo fs no fn)) (field_key f) = Some [sf_name f]"
  using assms
proof (induction fs no fn rule: structInfo.induct)
  case (2 g fs no fn)
  show ?case
  proof (cases "f = g")
    case True
    with 2 have "field_key f \<notin> field_key ` set (filter (\<lambda>f. sf_bencode f \<noteq> dash) fs)" by simp
    with structInfo_keeps True 2 show ?thesis by (simp add: map_of_add_fname)
  next
    case False
    with 2 have "f \<in> set (filter (\<lambda>f. sf_bencode f \<noteq> dash) fs)" by simp
    then have "field_key f \<in> field_key ` set (filter (\<lambda>f. sf_bencode f \<noteq> dash) fs)" by (rule imageI)
    with 2(6) have "sf_bencode g \<noteq> dash \<Longrightarrow> field_key f \<noteq> field_key g" by auto
    with False 2 show ?thesis by (auto simp: map_of_add_fname split: if_splits)
  qed
qed simp

section \<open>Decoding an encoded value\<close>

lemma overw_start: "overw (vtype x) \<Longrightarrow> vtype s = vtype x \<Longrightarrow> start x s"
  by (cases x) auto

lemma scalar_reads:
  assumes "rt v" "vtype s = vtype v"
    "v = VInt w i \<or> v = VUint w i \<or> v = VString b \<or> v = VBytes (Some b)"
  shows "reads (decode (Suc n)) L s v"
proof -
  have fit: "fits_signed w j \<Longrightarrow> 0 < w \<Longrightarrow> w \<le> 64 \<Longrightarrow> fits_signed 64 j"
    "fits_unsigned w j \<Longrightarrow> w \<le> 64 \<Longrightarrow> fits_unsigned 64 j" for j
  proof -
    have p: "w \<le> 64 \<Longrightarrow> (2::int) ^ (w - 1) \<le> 2 ^ 63" "w \<le> 64 \<Longrightarrow> (2::int) ^ w \<le> 2 ^ 64"
      by (rule power_increasing; simp)+
    show "fits_signed w j \<Longrightarrow> 0 < w \<Longrightarrow> w \<le> 64 \<Longrightarrow> fits_signed 64 j"
      "fits_unsigned w j \<Longrightarrow> w \<le> 64 \<Longrightarrow> fits_unsigned 64 j"
      using p by (auto simp: fits_signed_def fits_unsigned_def)
  qed
  from assms(3) show ?thesis
  proof (elim disjE)
    assume v: "v = VInt w i"
    with assms(2) obtain j where s: "s = VInt w j" by (cases s) auto
    from v assms(1) have "fits_signed w i" "0 < w" "w \<le> 64" by auto
    with fit(1) readBenInt_enc s v to_signed_id show ?thesis
      by (fastforce simp: reads_def set_scalar_def ebytes_def)
  next
    assume v: "v = VUint w i"
    with assms(2) obtain j where s: "s = VUint w j" by (cases s) auto
    from v assms(1) have "fits_unsigned w i" "w \<le> 64" by auto
    with fit(2) readBenUint_enc s v to_unsigned_id show ?thesis
      by (fastforce simp: reads_def set_scalar_def ebytes_def)
  next
    assume v: "v = VString b"
    with assms(2) obtain j where s: "s = VString j" by (cases s) auto
    with v assms(1) readBenString_enc show ?thesis
      by (fastforce simp: reads_def set_scalar_def ebytes_def)
  next
    assume v: "v = VBytes (Some b)"
    with assms(2) obtain j where s: "s = VBytes j" by (cases s) auto
    with v assms(1) readBenString_enc show ?thesis
      by (fastforce simp: reads_def set_scalar_def ebytes_def)
  qed
qed

lemma fuel_inner:
  assumes "L * Suc K + 1 \<le> Suc n" "stay t \<le> K" "0 < L"
  shows "(L - 1) * Suc K + stay t \<le> n" "L - 1 < n"
proof -
  obtain l where l: "L = Suc l" using assms(3) by (cases L) auto
  show "(L - 1) * Suc K + stay t \<le> n" "L - 1 < n"
    using fuel_step [of l L K n] assms l by simp_all
qed

lemma length_concat_ge: "\<forall>x \<in> set xs. f x \<noteq> [] \<Longrightarrow> length xs \<le> length (concat (map f xs))"
proof (induction xs)
  case (Cons x xs)
  then show ?case by (cases "f x") auto
qed simp

lemma slice_reads:
  assumes xs: "\<forall>x \<in> set xs. reads (decode n) (L - 1) (zero_val t) x \<and> ebytes x \<noteq> [] \<and> hd (ebytes x) \<noteq> 101"
    and e: "ebytes (VSlice t (Some xs)) = 108 # concat (map ebytes xs) @ [101]"
    and s: "start (VSlice t (Some xs)) s" and L: "L - 1 < n"
  shows "reads (decode (Suc n)) L s (VSlice t (Some xs))"
  unfolding reads_def
proof (intro allI impI)
  fix r rest
  assume p: "rb_post r = ebytes (VSlice t (Some xs)) @ rest" and len: "rlen r \<le> L"
  then have p': "rb_post r = 108 # concat (map ebytes xs) @ 101 # rest" by (simp add: e)
  then obtain r1 where r1: "assertBenElem WhatList r = (r1, None)"
    "rb_post r1 = concat (map ebytes xs) @ 101 # rest"
    using assertBenElem_Cons [of r 108 _ WhatList] by auto
  have len1: "rlen r1 \<le> L - 1" using p' r1(2) len by simp
  have "length xs \<le> length (concat (map ebytes xs))" using xs by (intro length_concat_ge) auto
  then have "length xs < n" using len1 r1(2) L by simp
  then have loop: "\<exists>r'. readBenList (decode n) n t acc r1 =
    ((if xs = [] then acc else Some ((case acc of None \<Rightarrow> [] | Some ys \<Rightarrow> ys) @ xs)), r', None) \<and>
    rb_post r' = rest" for acc
    using xs r1(2) len1 by (intro readBenList_enc) auto
  from s r1 loop [of None] loop [of "Some []"]
  show "\<exists>r'. decode (Suc n) s r = (VSlice t (Some xs), r', None) \<and> rb_post r' = rest"
    by (auto simp: decode_slice_def split: if_splits)
qed

lemma map_reads:
  assumes m: "\<forall>x \<in> set m. length (fst x) < 2 ^ 63 \<and>
      (\<forall>s. vtype s = t \<longrightarrow> reads (decode n) (L - 1) s (snd x)) \<and> vtype (snd x) = t"
    and d: "distinct (map fst m)"
    and e: "ebytes (VMap True t (Some m)) =
      100 # concat (map (\<lambda>x. enc_string (fst x) @ ebytes (snd x)) m) @ [101]"
    and s: "start (VMap True t (Some m)) s" and L: "L - 1 < n"
  shows "reads (decode (Suc n)) L s (VMap True t (Some m))"
  unfolding reads_def
proof (intro allI impI)
  fix r rest
  let ?c = "concat (map (\<lambda>x. enc_string (fst x) @ ebytes (snd x)) m)"
  assume p: "rb_post r = ebytes (VMap True t (Some m)) @ rest" and len: "rlen r \<le> L"
  then have p': "rb_post r = 100 # ?c @ 101 # rest" by (simp add: e)
  then obtain r1 where r1: "assertBenElem WhatDict r = (r1, None)" "rb_post r1 = ?c @ 101 # rest"
    using assertBenElem_Cons [of r 100 _ WhatDict] by auto
  have len1: "rlen r1 \<le> L - 1" using p' r1(2) len by simp
  have "length m \<le> length ?c"
    using enc_string_Cons by (intro length_concat_ge) (metis append_is_Nil_conv list.distinct(1))
  then have "length m < n" using len1 r1(2) L by simp
  then have loop: "\<exists>r'. readBenDictMap (decode n) n (zero_val t) acc r1 =
    ((if m = [] then acc else Some ((case acc of None \<Rightarrow> [] | Some ys \<Rightarrow> ys) @ m)), r', None) \<and>
    rb_post r' = rest" if "acc = None \<or> acc = Some []" for acc
    using m d r1(2) len1 that by (intro readBenDictMap_enc) auto
  from s r1 loop [of None] loop [of "Some []"]
  show "\<exists>r'. decode (Suc n) s r = (VMap True t (Some m), r', None) \<and> rb_post r' = rest"
    by (auto simp: decode_map_def split: if_splits)
qed

lemma sorted_distinct_keys:
  "sorted_wrt (\<lambda>x y. bytes_less (fst x) (fst y)) m \<Longrightarrow> distinct (map fst m)"
proof (induction m)
  case (Cons a m)
  then have "fst a \<noteq> fst x" if "x \<in> set m" for x
    using that bytes_less_irrefl by (metis sorted_wrt.simps(2))
  with Cons show ?case by auto
qed simp

lemma struct_reads:
  assumes ok: "rt (VStruct fs)"
    and rd: "\<forall>x \<in> set fs. written x \<longrightarrow> reads (decode n) (L - 1) (zero_val (vtype (snd x))) (snd x)"
    and e: "ebytes (VStruct fs) = 100 # concat (map (\<lambda>x. enc_string (field_key (fst x)) @ ebytes (snd x))
      (by_key fs)) @ [101]"
    and L: "L - 1 < n"
  shows "reads (decode (Suc n)) L (zero_val (vtype (VStruct fs))) (VStruct fs)"
  unfolding reads_def
proof (intro allI impI)
  fix r rest
  let ?gs = "by_key fs"
  let ?c = "concat (map (\<lambda>x. enc_string (field_key (fst x)) @ ebytes (snd x)) ?gs)"
  let ?W = "(sf_name \<circ> fst) ` set ?gs"
  assume p: "rb_post r = ebytes (VStruct fs) @ rest" and len: "rlen r \<le> L"
  then have p': "rb_post r = 100 # ?c @ 101 # rest" by (simp add: e)
  then obtain r1 where r1: "assertBenElem WhatDict r = (r1, None)" "rb_post r1 = ?c @ 101 # rest"
    using assertBenElem_Cons [of r 100 _ WhatDict] by auto
  have len1: "rlen r1 \<le> L - 1" using p' r1(2) len by simp
  have "length ?gs \<le> length ?c"
    using enc_string_Cons by (intro length_concat_ge) (metis append_is_Nil_conv list.distinct(1))
  then have lg: "length ?gs < n" using len1 r1(2) L by simp
  obtain no fn where si: "structInfo (map fst fs) [] [] = (no, fn)"
    by (cases "structInfo (map fst fs) [] []") auto
  have dk: "distinct (map field_key (filter (\<lambda>f. sf_bencode f \<noteq> dash) (map fst fs)))"
    using ok by (simp add: filter_map comp_def)
  have keys: "map_of fn (field_key (fst x)) = Some [sf_name (fst x)]" if "x \<in> set ?gs" for x
    using structInfo_key [OF _ _ _ dk, of "fst x" "[]" "[]"] si that by (auto simp: written_def)
  have dn: "distinct (map (sf_name \<circ> fst) fs)" using ok by simp
  then have "distinct (map (sf_name \<circ> fst) (filter written fs))" by (rule distinct_map_filter)
  then have dg: "distinct (map (sf_name \<circ> fst) ?gs)"
    using mset_eq_imp_distinct_iff [of "map (sf_name \<circ> fst) ?gs" "map (sf_name \<circ> fst) (filter written fs)"]
    by simp
  have no: "set no \<subseteq> ?W"
  proof
    fix nm assume "nm \<in> set no"
    then obtain x where "x \<in> set fs" "nm = sf_name (fst x)" "written x"
      using structInfo_nonOmit [of "map fst fs" "[]" "[]"] si by (auto simp: written_def)
    then show "nm \<in> ?W" by auto
  qed
  have gs: "\<forall>x \<in> set ?gs. x \<in> set fs \<and> length (field_key (fst x)) < 2 ^ 63 \<and>
      reads (decode n) (L - 1) (zero_val (vtype (snd x))) (snd x) \<and>
      map_of fn (field_key (fst x)) = Some [sf_name (fst x)]"
    using keys rd ok by auto
  have loop: "\<exists>r'. readBenDictStruct (decode n) n fn no (progress {} fs) r1 =
    (progress ({} \<union> ?W) fs, r', None) \<and> rb_post r' = rest"
    by (rule readBenDictStruct_enc [OF gs dn dg _ no r1(2) len1 lg]) simp
  have z: "zero_val (vtype (VStruct fs)) = VStruct (progress {} fs)"
    by (auto simp: progress_def)
  have "progress ?W fs = fs"
    unfolding progress_def
  proof (rule map_idI)
    fix x assume x: "x \<in> set fs"
    show "(fst x, if sf_name (fst x) \<in> ?W then snd x else zero_val (vtype (snd x))) = x"
      using ok x by (cases "written x") auto
  qed
  with loop r1 si z show "\<exists>r'. decode (Suc n) (zero_val (vtype (VStruct fs))) r = (VStruct fs, r', None) \<and>
    rb_post r' = rest"
    by (auto simp: decode_struct_def simp del: zero_val.simps vtype.simps)
qed

lemma ebytes_slice:
  "\<forall>x \<in> set xs. rt x \<Longrightarrow> ebytes (VSlice t (Some xs)) = 108 # concat (map ebytes xs) @ [101]"
  using encode_rt encode_list_ok [of xs] by (simp add: ebytes_def)

lemma ebytes_map:
  "rt (VMap True t (Some m)) \<Longrightarrow> ebytes (VMap True t (Some m)) =
    100 # concat (map (\<lambda>x. enc_string (fst x) @ ebytes (snd x)) m) @ [101]"
  using encode_map_eq [of m t] encode_rt by (intro ebytesI) auto

lemma ebytes_struct:
  "rt (VStruct fs) \<Longrightarrow> ebytes (VStruct fs) =
    100 # concat (map (\<lambda>x. enc_string (field_key (fst x)) @ ebytes (snd x)) (by_key fs)) @ [101]"
  using encode_struct_eq [of fs] encode_rt by (intro ebytesI) (auto split: if_splits)

lemma eface_facts:
  assumes "eface v" "rt v"
  shows "stay (vtype v) = 1" "bnd K (vtype v)"
    "\<exists>w. eface_target (hd (ebytes v)) = Some w \<and> start v w"
proof -
  have "\<exists>w. eface_target (hd (ebytes v)) = Some w \<and> start v w" if "v = VString s" for s
    using that enc_string_Cons [of s] by (auto simp: ebytes_def is_digit_def)
  moreover have "\<exists>w. eface_target (hd (ebytes v)) = Some w \<and> start v w" if "v = VMap True t (Some m)" for t m
    using ebytes_map [of t m] that assms by (simp add: is_digit_def)
  moreover have "\<exists>w. eface_target (hd (ebytes v)) = Some w \<and> start v w" if "v = VSlice t (Some xs)" for t xs
    using ebytes_slice [of xs t] that assms by (simp add: is_digit_def)
  moreover have "\<exists>w. eface_target (hd (ebytes v)) = Some w \<and> start v w" if "v = VInt 64 i" for i
    using that by (simp add: ebytes_def enc_int_def)
  ultimately show "\<exists>w. eface_target (hd (ebytes v)) = Some w \<and> start v w"
    using assms by (cases v rule: eface.cases) (simp_all del: eface_target.simps start.simps)
qed (use assms in \<open>cases v rule: eface.cases; auto\<close>)+

text \<open>A value of unknown type, into an empty interface or to be skipped.\<close>

lemma nil_interface_reads:
  assumes ok: "eface v" "rt v" and rd: "\<And>s. start v s \<Longrightarrow> reads dec L s v"
    and p: "rb_post r = ebytes v @ rest" and len: "rlen r \<le> L"
  shows "\<exists>r'. handleNilInterface dec r = (Some v, r', None) \<and> rb_post r' = rest"
proof -
  obtain b bs where b: "ebytes v = b # bs" using encode_rt [OF ok(2)] by (cases "ebytes v") auto
  obtain r1 where r1: "ReadByte r = (r1, Some b)" using ReadByte_Cons [of r b "bs @ rest"] p b by auto
  obtain r2 where r2: "UnreadByte r1 = (r2, None)" "rb_post r2 = rb_post r" using Read_Unread [OF r1] by blast
  obtain w where w: "eface_target b = Some w" "start v w" using eface_facts(3) [OF ok] b by auto
  obtain r3 where "dec w r2 = (v, r3, None)" "rb_post r3 = rest"
    using readsD [OF rd [OF w(2)], of r2 rest] r2 p len by auto
  with r1 r2 w show ?thesis by (simp add: handleNilInterface_def setNilInterface_def del: eface_target.simps)
qed

lemma iface_reads:
  assumes ok: "eface v" "rt v" and rd: "\<And>s. start v s \<Longrightarrow> reads (decode n) L s v"
    and s: "vtype s = TIface"
  shows "reads (decode (Suc n)) L s (VIface (Some v))"
proof -
  obtain i where "s = VIface i" using s by (cases s) auto
  with nil_interface_reads [OF ok rd] show ?thesis by (fastforce simp: reads_def ebytes_def)
qed

lemma ptr_reads:
  assumes "reads (decode n) L (zero_val t) v"
  shows "reads (decode (Suc n)) L (VPtr t None) (VPtr t (Some v))"
  using assms by (fastforce simp: reads_def decode_ptr_def ebytes_def)

text \<open>The empty list read into a nil slice leaves it nil.\<close>

lemma nil_slice_reads: "reads (decode (Suc (Suc n))) L (VSlice t None) (VSlice t None)"
  unfolding reads_def
proof (intro allI impI)
  fix r :: rbuf and rest
  assume "rb_post r = ebytes (VSlice t None) @ rest"
  then have "rb_post r = 108 # 101 # rest" by (simp add: ebytes_def)
  then obtain r1 where r1: "assertBenElem WhatList r = (r1, None)" "rb_post r1 = 101 # rest"
    using assertBenElem_Cons [of r 108 _ WhatList] by auto
  with checkEnd_e [of r1 rest]
  show "\<exists>r'. decode (Suc (Suc n)) (VSlice t None) r = (VSlice t None, r', None) \<and> rb_post r' = rest"
    by (auto simp: decode_slice_def)
qed

lemma reads_0: "ebytes v \<noteq> [] \<Longrightarrow> reads dec 0 s v"
  by (simp add: reads_def)

lemma decode_rt:
  assumes "rt v" "start v s" "2 \<le> K" "bnd K (vtype v)" "L * Suc K + stay (vtype v) \<le> n"
  shows "reads (decode n) L s v"
  using assms
proof (induction v arbitrary: s L n)
  case (VSlice t xs)
  show ?case
  proof (cases "L = 0")
    case True
    then show ?thesis using encode_rt [OF VSlice.prems(1)] by (auto intro: reads_0)
  next
    case False
    then obtain m where n: "n = Suc m" "L * Suc K + 1 \<le> Suc m" using VSlice.prems(5) by (cases n) auto
    have "stay t \<le> K" using VSlice.prems by (auto intro: bnd_stay)
    note f = fuel_inner [OF n(2) this] False
    show ?thesis
    proof (cases xs)
      case None
      with VSlice.prems(2) f n(1) show ?thesis by (cases m) (auto intro: nil_slice_reads simp del: decode.simps)
    next
      case (Some ys)
      have "\<forall>x \<in> set ys. reads (decode m) (L - 1) (zero_val t) x \<and> ebytes x \<noteq> [] \<and> hd (ebytes x) \<noteq> 101"
        using VSlice f Some encode_rt by fastforce
      moreover have "ebytes (VSlice t (Some ys)) = 108 # concat (map ebytes ys) @ [101]"
        using VSlice.prems(1) Some by (intro ebytes_slice) auto
      ultimately show ?thesis
        using VSlice.prems(2) f n(1) Some by (auto intro: slice_reads simp del: start.simps decode.simps)
    qed
  qed
next
  case (VMap k t m)
  show ?case
  proof (cases "L = 0")
    case True
    then show ?thesis using encode_rt [OF VMap.prems(1)] by (auto intro: reads_0)
  next
    case False
    then obtain l where n: "n = Suc l" "L * Suc K + 1 \<le> Suc l" using VMap.prems(5) by (cases n) auto
    have "stay t \<le> K" using VMap.prems by (auto intro: bnd_stay)
    note f = fuel_inner [OF n(2) this] False
    obtain ms where m: "m = Some ms" "k" using VMap.prems(1) by (cases m) auto
    then have ms: "overw t" "sorted_wrt (\<lambda>x y. bytes_less (fst x) (fst y)) ms"
      "\<forall>x \<in> set ms. length (fst x) < 2 ^ 63 \<and> vtype (snd x) = t \<and> rt (snd x)"
      using VMap.prems(1) by auto
    have "reads (decode l) (L - 1) s' (snd x)" if "x \<in> set ms" "vtype s' = t" for x s'
      using that ms m f VMap.prems
      by (intro VMap.IH [of ms x]) (auto intro: overw_start simp: snds.simps prod_set_defs)
    moreover have "ebytes (VMap True t (Some ms)) =
        100 # concat (map (\<lambda>x. enc_string (fst x) @ ebytes (snd x)) ms) @ [101]"
      using VMap.prems(1) m by (intro ebytes_map) auto
    ultimately show ?thesis
      using VMap.prems(2) f n(1) m ms sorted_distinct_keys [OF ms(2)]
      by (auto intro!: map_reads simp del: start.simps decode.simps)
  qed
next
  case (VStruct fs)
  show ?case
  proof (cases "L = 0")
    case True
    then show ?thesis using encode_rt [OF VStruct.prems(1)] by (auto intro: reads_0)
  next
    case False
    then obtain l where n: "n = Suc l" "L * Suc K + 1 \<le> Suc l" using VStruct.prems(5) by (cases n) auto
    have s: "s = zero_val (vtype (VStruct fs))" using VStruct.prems(2) by auto
    have "reads (decode l) (L - 1) (zero_val (vtype (snd x))) (snd x)" if x: "x \<in> set fs" "written x" for x
    proof -
      have b: "bnd K (vtype (snd x))" using VStruct.prems(4) x by (force simp: list_all_iff)
      then have "stay (vtype (snd x)) \<le> K" using VStruct.prems(3) by (intro bnd_stay)
      with fuel_inner [OF n(2)] False have "(L - 1) * Suc K + stay (vtype (snd x)) \<le> l" by blast
      with x b VStruct.prems show ?thesis
        by (intro VStruct.IH [of x]) (auto simp: snds.simps split: if_splits)
    qed
    then have "reads (decode (Suc l)) L (zero_val (vtype (VStruct fs))) (VStruct fs)"
      using VStruct.prems(1) ebytes_struct [of fs] fuel_inner(2) [OF n(2), of TBool] VStruct.prems(3) False
      by (intro struct_reads) auto
    then show ?thesis by (simp only: s n(1))
  qed
next
  case (VPtr t p)
  then obtain l where n: "n = Suc l" by (cases n) auto
  obtain v where v: "p = Some v" "vtype v = t" using VPtr.prems(1) by (cases p) auto
  then have "reads (decode l) L (zero_val t) v"
    using VPtr.prems n by (intro VPtr.IH [of v]) auto
  with VPtr.prems(2) v n show ?case by (auto intro: ptr_reads simp del: decode.simps)
next
  case (VIface i)
  then obtain l where n: "n = Suc l" by (cases n) auto
  obtain v where v: "i = Some v" "eface v" "rt v" using VIface.prems(1) by (cases i) auto
  then have "reads (decode l) L s v" if "start v s" for s
    using VIface.prems n that eface_facts(1,2) [OF v(2,3)] by (intro VIface.IH [of v]) auto
  with VIface.prems(2) v n show ?case by (auto intro!: iface_reads simp del: decode.simps)
next
  case (VInt w i)
  then show ?case using scalar_reads [of "VInt w i" s w i] by (cases n) auto
next
  case (VUint w i)
  then show ?case using scalar_reads [of "VUint w i" s w i] by (cases n) auto
next
  case (VString b)
  then show ?case using scalar_reads [of "VString b" s] by (cases n) auto
next
  case (VBytes b)
  then show ?case using scalar_reads [of "VBytes b" s] by (cases n; cases b) auto
qed simp_all

lemma start_vtype: "start v s \<Longrightarrow> vtype s = vtype v"
  by (cases "(v, s)" rule: start.cases) auto

lemma decode_top:
  assumes "rt v" "start v s"
  shows "\<exists>r'. decode (decode_fuel s (ebytes v @ rest)) s (NewBuffer (ebytes v @ rest)) = (v, r', None) \<and>
    rb_post r' = rest"
proof -
  let ?K = "Suc (Suc (tmax (vtype v)))" and ?L = "length (ebytes v @ rest)"
  have "reads (decode (decode_fuel s (ebytes v @ rest))) ?L s v"
  proof (rule decode_rt [OF assms])
    show "bnd ?K (vtype v)" using bnd_tmax by (rule bnd_mono) simp
    show "?L * Suc ?K + stay (vtype v) \<le> decode_fuel s (ebytes v @ rest)"
      using stay_le_tmax [of "vtype v"] start_vtype [OF assms(2)]
      by (simp add: decode_fuel_def add_mult_distrib2)
  qed simp
  then show ?thesis by (simp add: reads_def NewBuffer_def)
qed

lemma Decode_ebytes:
  assumes "rt v" "start v s"
  shows "Decode (ebytes v @ rest) s = (v, if rest = [] then None else Some (LargeBufferErr (length rest)))"
proof -
  obtain r where r: "decode (decode_fuel s (ebytes v @ rest)) s (NewBuffer (ebytes v @ rest)) = (v, r, None)"
    "rb_post r = rest"
    using decode_top [OF assms, of rest] by auto
  then show ?thesis by (cases rest) (simp_all add: Decode_def ReadByte_def)
qed

section \<open>The round trip\<close>

text \<open>
  C14. Decoding the encoding of a value, followed by any bytes, gives the value back and reports
  exactly the number of bytes that were left over. It holds for every value that satisfies
  \<open>rt\<close>: integers of any width, strings, byte slices, slices, maps in key order, structs with
  their tags and omitted fields, pointers and empty interfaces, nested.
\<close>

theorem Decode_Encode:
  assumes "rt v" "start v s" "Encode v = Inr b"
  shows "Decode (b @ rest) s = (v, if rest = [] then None else Some (LargeBufferErr (length rest)))"
proof -
  have "b = ebytes v" using assms(3) encode_rt [OF assms(1)] by (simp add: Encode_def)
  then show ?thesis using Decode_ebytes [OF assms(1,2)] by simp
qed

text \<open>
  The finding on booleans (\<open>decode.go\<close>, \<open>readBenBool\<close>): the length test counts the
  closing delimiter, so no input at all decodes into a boolean, not even what the encoder wrote.
\<close>

lemma Decode_bool_fails: "\<exists>e. Decode data (VBool b) = (VBool b, Some e)"
proof -
  have "\<exists>n. decode_fuel (VBool b) data = Suc n" by (simp add: decode_fuel_def)
  with readBenBool_never show ?thesis
    by (fastforce simp: Decode_def set_scalar_def split: prod.splits sum.splits)
qed

text \<open>
  The finding on nil maps and structs without fields (\<open>encode.go\<close>): the case of the switch
  writes the empty dictionary and does not leave the switch, so that a second one follows it, and
  the decoder rejects the encoding of a nil map with two bytes left over.
\<close>

lemma Encode_nil_map:
  "Encode (VMap True TString None) = Inr [100, 101, 100, 101] \<and>
   Decode [100, 101, 100, 101] (VMap True TString None) =
     (VMap True TString None, Some (LargeBufferErr 2))"
proof
  show "Encode (VMap True TString None) = Inr [100, 101, 100, 101]" by (simp add: Encode_def)
  show "Decode [100, 101, 100, 101] (VMap True TString None) =
     (VMap True TString None, Some (LargeBufferErr 2))" by code_simp
qed

text \<open>A struct with a mandatory, an omitted and an ignored field, holding a list and an interface.\<close>

definition rt_example :: goval where
  "rt_example = VStruct
     [(([109], [120], []), VSlice (TInt 16) (Some [VInt 16 (- 3), VInt 16 7])),
      (([110], [], omit), VPtr TString None),
      (([111], dash, []), VBool False),
      (([112], [97], omit), VIface (Some (VMap True TIface (Some [([107], VIface (Some (VString [1, 2])))]))))]"

theorem Decode_Encode_witness:
  "Decode ([100, 49, 58, 97, 100, 49, 58, 107, 50, 58, 1, 2, 101, 49, 58, 120, 108, 105, 45, 51, 101,
            105, 55, 101, 101, 101] @ [0, 9]) (zero_val (vtype rt_example)) =
     (rt_example, Some (LargeBufferErr 2))"
proof -
  have a: "rt rt_example" by code_simp
  have b: "start rt_example (zero_val (vtype rt_example))" by (simp add: rt_example_def)
  have c: "Encode rt_example = Inr [100, 49, 58, 97, 100, 49, 58, 107, 50, 58, 1, 2, 101, 49, 58,
    120, 108, 105, 45, 51, 101, 105, 55, 101, 101, 101]" by code_simp
  from Decode_Encode [OF a b c, of "[0, 9]"] show ?thesis by (simp add: numeral_2_eq_2)
qed

end
