(* ===== verification/Bencode_Fields.thy ===== *)
theory Bencode_Fields
  imports Bencode_Roundtrip
begin

text \<open>
  How the decoder of package \<open>bencode\<close> fills a struct from a dictionary that another program wrote: with
  keys in any order, keys the struct does not have and keys missing. \<open>filled\<close> and \<open>missing\<close> say, without
  reference to the decoder, what the struct and the error should be; \<open>readBenDictStruct\<close> computes them.
\<close>

section \<open>What should come out\<close>

type_synonym entries = "(bytes \<times> goval) list"


text \<open>A field gets the value of its key; a field without a key in the dictionary, or with the key \<open>-\<close>, keeps its zero value.\<close>

definition filled :: "entries \<Rightarrow> (field_tag \<times> gotype) list \<Rightarrow> (field_tag \<times> goval) list" where
  "filled es ts = map (\<lambda>(f, t). (f, if sf_bencode f = dash then zero_val t
     else case map_of es (field_key f) of None \<Rightarrow> zero_val t | Some v \<Rightarrow> v)) ts"




section \<open>The loop\<close>



lemma map_fst_filled [simp]: "map fst (filled es ts) = map fst ts"
  by (induction ts) (auto simp: filled_def)
















end
