(* ===== verification/Info.thy ===== *)
theory Info
  imports Prelude
begin

text \<open>
  The info dictionary of a torrent (\<open>metainfo/info.go\<close>): its lengths, its pieces and their
  hashes. Lengths come from the decoded file, so sums and products are taken in 64-bit
  arithmetic; a length of zero where the source divides is a panic.
\<close>

section \<open>The dictionary\<close>

record file_info =
  fi_len :: int
  fi_md5 :: "bytes option"
  fi_path :: "bytes list option"

text \<open>\<open>id_files = None\<close>: the dictionary describes a single file.\<close>

record info_dict =
  id_files :: "file_info list option"
  id_len :: int
  id_md5 :: "bytes option"
  id_name :: bytes
  id_pieceLen :: int
  id_pieces :: bytes
  id_private :: int
  id_hash :: bytes

abbreviation pieceSize :: nat where "pieceSize \<equiv> 20"

datatype info_err = ErrPiecesLength

definition info_Parse :: "info_dict \<Rightarrow> (info_err, unit) outcome" where
  "info_Parse info =
     (if length (id_pieces info) mod pieceSize \<noteq> 0 then Error ErrPiecesLength else Return ())"

definition TotalLength :: "info_dict \<Rightarrow> int" where
  "TotalLength info =
     (case id_files info of
        None \<Rightarrow> id_len info
      | Some fs \<Rightarrow> foldl (\<lambda>total f. go_int (total + fi_len f)) 0 fs)"

definition NumPieces :: "info_dict \<Rightarrow> int" where
  "NumPieces info = int (length (id_pieces info) div pieceSize)"

text \<open>The loop of \<open>PiecesHash\<close> slices 20 bytes at a time and panics on a shorter rest.\<close>

function PiecesHash_loop :: "bytes \<Rightarrow> bytes list \<Rightarrow> (unit, bytes list) outcome" where
  "PiecesHash_loop ps h =
     (if ps = [] then Return h
      else if length ps < pieceSize then Panic SliceBounds
      else PiecesHash_loop (drop pieceSize ps) (h @ [take pieceSize ps]))"
  by auto
termination
  by (relation "measure (length \<circ> fst)") (auto simp: neq_Nil_conv)

declare PiecesHash_loop.simps [simp del]

definition PiecesHash :: "info_dict \<Rightarrow> (unit, bytes list) outcome" where
  "PiecesHash info = PiecesHash_loop (id_pieces info) []"

text \<open>The slice expression may reach up to the capacity of \<open>info.Pieces\<close>, which is taken to be its length.\<close>

definition PieceHash :: "info_dict \<Rightarrow> int \<Rightarrow> (unit, bytes) outcome" where
  "PieceHash info i =
     (let a = go_int (i * 20)
      in if a < 0 \<or> int (length (id_pieces info)) < go_int (a + 20) then Panic SliceBounds
         else Return (take 20 (drop (nat a) (id_pieces info))))"

definition FilesInfo :: "info_dict \<Rightarrow> file_info list" where
  "FilesInfo info =
     (case id_files info of
        Some (f # fs) \<Rightarrow> f # fs
      | _ \<Rightarrow> [\<lparr>fi_len = id_len info, fi_md5 = None, fi_path = None\<rparr>])"

definition PieceLength :: "info_dict \<Rightarrow> int \<Rightarrow> (unit, int) outcome" where
  "PieceLength info i =
     (if i = NumPieces info - 1
      then if id_pieceLen info = 0 then Panic DivideByZero
           else Return (go_rem (TotalLength info) (id_pieceLen info))
      else Return (id_pieceLen info))"

definition PieceOffset :: "info_dict \<Rightarrow> int \<Rightarrow> int" where
  "PieceOffset info i = go_int (id_pieceLen info * i)"

section \<open>Well-formed dictionaries\<close>

text \<open>
  What the rest of the client relies on and nothing checks: the lengths are positive, they do not
  overflow, and the number of hashes is the number of pieces the total length divides into.
\<close>

definition info_ok :: "info_dict \<Rightarrow> bool" where
  "info_ok info \<longleftrightarrow>
     0 < id_pieceLen info \<and> id_pieceLen info < 2 ^ 31 \<and>
     (\<forall>f \<in> set (FilesInfo info). 0 \<le> fi_len f) \<and>
     sum_list (map fi_len (FilesInfo info)) < 2 ^ 62 \<and>
     0 < sum_list (map fi_len (FilesInfo info)) \<and>
     length (id_pieces info) mod pieceSize = 0 \<and> NumPieces info < 2 ^ 31 \<and>
     NumPieces info = (sum_list (map fi_len (FilesInfo info)) + id_pieceLen info - 1) div id_pieceLen info \<and>
     id_files info \<noteq> Some []"

lemma go_int_id [simp]: "- (2 ^ 63) \<le> x \<Longrightarrow> x < 2 ^ 63 \<Longrightarrow> go_int x = x"
  by (rule to_signed_id) (simp_all add: fits_signed_def)

lemma foldl_go_int:
  "\<forall>x \<in> set xs. 0 \<le> f x \<Longrightarrow> 0 \<le> a \<Longrightarrow> a + sum_list (map f xs) < 2 ^ 63 \<Longrightarrow>
   foldl (\<lambda>t x. go_int (t + f x)) a xs = a + sum_list (map f xs)"
proof (induction xs arbitrary: a)
  case (Cons x xs)
  have "0 \<le> sum_list (map f xs)" using Cons.prems(1) by (intro sum_list_nonneg) auto
  then have "go_int (a + f x) = a + f x" using Cons.prems by (intro go_int_id) auto
  with Cons show ?case by (simp add: add.assoc)
qed simp

lemma TotalLength_sum:
  assumes "info_ok info"
  shows "TotalLength info = sum_list (map fi_len (FilesInfo info))"
proof (cases "id_files info")
  case (Some fs)
  then obtain g gs where fs: "fs = g # gs" using assms by (cases fs) (auto simp: info_ok_def)
  with Some have "FilesInfo info = fs" by (simp add: FilesInfo_def)
  with assms Some show ?thesis
    using foldl_go_int [of fs fi_len 0] by (simp add: TotalLength_def info_ok_def)
qed (simp add: TotalLength_def FilesInfo_def)

lemma info_ok_pieces:
  assumes "info_ok info"
  shows "(NumPieces info - 1) * id_pieceLen info < TotalLength info"
    "TotalLength info \<le> NumPieces info * id_pieceLen info" "0 < NumPieces info" "0 < TotalLength info"
proof -
  let ?n = "NumPieces info" and ?p = "id_pieceLen info" and ?t = "TotalLength info"
  from assms have p: "0 < ?p" and t: "0 < ?t" and n: "?n = (?t + ?p - 1) div ?p"
    by (auto simp: TotalLength_sum info_ok_def)
  have "?t + ?p - 1 = ?n * ?p + (?t + ?p - 1) mod ?p" unfolding n by simp
  moreover have "0 \<le> (?t + ?p - 1) mod ?p" "(?t + ?p - 1) mod ?p < ?p" using p by simp_all
  ultimately have "?n * ?p \<le> ?t + ?p - 1" "?t \<le> ?n * ?p" by linarith+
  then show "(?n - 1) * ?p < ?t" "?t \<le> ?n * ?p" by (simp_all add: left_diff_distrib)
  show "0 < ?n" using \<open>?t \<le> ?n * ?p\<close> t p by (metis not_le mult_nonpos_nonneg less_imp_le order.trans)
  show "0 < ?t" by (rule t)
qed

end
