(* ===== verification/Bencode_Get.thy ===== *)
theory Bencode_Get
  imports Bencode_Roundtrip Info
begin

text \<open>
  Reading one value of an encoded dictionary without decoding it (\<open>bencode/get_dict.go\<close>): the
  consumer, which skips over elements and counts the bytes, and \<open>Get\<close>. Runtime panics of the
  consumer are errors, because \<open>Get\<close> recovers them. \<open>make\<close> with the length a malformed
  string claims is modelled as the bounds error of the slice expression after it.
\<close>

section \<open>The consumer\<close>

datatype get_error = GetNoDict | GetUnknownValue byte | GetRuntime panic | GetNoFuel

record benConsumer =
  cn_buf :: rbuf
  cn_off :: int

definition cn_readByte :: "benConsumer \<Rightarrow> benConsumer \<times> byte" where
  "cn_readByte c =
     (case ReadByte (cn_buf c) of
        (r, None) \<Rightarrow> (c\<lparr>cn_buf := r\<rparr>, 0)
      | (r, Some b) \<Rightarrow> (\<lparr>cn_buf = r, cn_off = go_int (cn_off c + 1)\<rparr>, b))"

definition cn_readString :: "byte \<Rightarrow> benConsumer \<Rightarrow> benConsumer \<times> bytes" where
  "cn_readString delim c =
     (case ReadString delim (cn_buf c) of
        (r, s, None) \<Rightarrow> (\<lparr>cn_buf = r, cn_off = go_int (cn_off c + int (length s))\<rparr>, s)
      | (r, s, Some e) \<Rightarrow> (c\<lparr>cn_buf := r\<rparr>, []))"

definition cn_next :: "int \<Rightarrow> benConsumer \<Rightarrow> benConsumer" where
  "cn_next n c = \<lparr>cn_buf = fst (Next (nat n) (cn_buf c)), cn_off = go_int (cn_off c + n)\<rparr>"

text \<open>
  The element reader and the loop in it. Every call takes a byte or fails, so twice the number of
  bytes left is enough fuel (\<open>readBenElem_fuel\<close>).
\<close>

fun readBenElem :: "nat \<Rightarrow> benConsumer \<Rightarrow> benConsumer \<times> (get_error + bool)"
and readBenElems :: "nat \<Rightarrow> benConsumer \<Rightarrow> benConsumer \<times> (get_error + bool)"
where
  "readBenElem 0 c = (c, Inl GetNoFuel)"
| "readBenElem (Suc n) c =
     (case cn_readByte c of
        (c1, b) \<Rightarrow>
          if b = 101 then (c1, Inr False)
          else if b = 108 \<or> b = 100 then readBenElems n c1
          else if b = 105 then (fst (cn_readString 101 c1), Inr True)
          else if is_digit b
          then (case cn_readString 58 c1 of
                  (c2, s) \<Rightarrow>
                    if s = [] then (c2, Inl (GetRuntime SliceBounds))
                    else (cn_next (fst (ParseInt (b # butlast s))) c2, Inr True))
          else (c1, Inl (GetUnknownValue b)))"
| "readBenElems 0 c = (c, Inl GetNoFuel)"
| "readBenElems (Suc n) c =
     (case readBenElem n c of
        (c1, Inl e) \<Rightarrow> (c1, Inl e)
      | (c1, Inr True) \<Rightarrow> readBenElems n c1
      | (c1, Inr False) \<Rightarrow> (c1, Inr True))"

text \<open>\<open>read\<close>: the offsets before and after an element.\<close>

definition cn_read :: "benConsumer \<Rightarrow> benConsumer \<times> (get_error + int \<times> int)" where
  "cn_read c =
     (case readBenElem (2 * length (rb_post (cn_buf c)) + 2) c of
        (c1, Inl e) \<Rightarrow> (c1, Inl e)
      | (c1, Inr _) \<Rightarrow> (c1, Inr (cn_off c, cn_off c1)))"

section \<open>Get\<close>

definition subslice :: "bytes \<Rightarrow> int \<Rightarrow> int \<Rightarrow> get_error + bytes" where
  "subslice d a b =
     (if 0 \<le> a \<and> a \<le> b \<and> b \<le> int (length d) then Inr (take (nat (b - a)) (drop (nat a) d))
      else Inl (GetRuntime SliceBounds))"

fun string_of :: "goval \<Rightarrow> bytes" where
  "string_of (VString s) = s"
| "string_of _ = []"

fun get_loop :: "nat \<Rightarrow> bytes \<Rightarrow> bytes \<Rightarrow> benConsumer \<Rightarrow> get_error + bytes option" where
  "get_loop 0 d targetKey c = Inl GetNoFuel"
| "get_loop (Suc n) d targetKey c =
     (if rb_post (cn_buf c) = [] then Inr None
      else case cn_read c of
        (c1, Inl e) \<Rightarrow> Inl e
      | (c1, Inr (a, b)) \<Rightarrow>
          (case subslice d a b of
             Inl e \<Rightarrow> Inl e
           | Inr key \<Rightarrow>
               (case cn_read c1 of
                  (c2, Inl e) \<Rightarrow> Inl e
                | (c2, Inr (a', b')) \<Rightarrow>
                    if string_of (fst (Decode key (VString []))) = targetKey
                    then (case subslice d a' b' of Inl e \<Rightarrow> Inl e | Inr v \<Rightarrow> Inr (Some v))
                    else get_loop n d targetKey c2)))"

definition get_dict :: "bytes \<Rightarrow> bytes \<Rightarrow> get_error + bytes option" where
  "get_dict data targetKey =
     (if data = [] then Inl (GetRuntime IndexOutOfRange)
      else if hd data \<noteq> 100 \<or> last data \<noteq> 101 then Inl GetNoDict
      else let d = butlast (tl data)
           in get_loop (Suc (length d)) d targetKey \<lparr>cn_buf = NewBuffer d, cn_off = 0\<rparr>)"

text \<open>The results \<open>val\<close>, \<open>ok\<close> and \<open>err\<close>.\<close>

definition Get :: "bytes \<Rightarrow> bytes \<Rightarrow> bytes option \<times> bool \<times> get_error option" where
  "Get data targetKey =
     (case get_dict data targetKey of
        Inl e \<Rightarrow> (None, False, Some e)
      | Inr None \<Rightarrow> (None, False, None)
      | Inr (Some v) \<Rightarrow> (Some v, True, None))"

section \<open>The loops end\<close>

definition left :: "benConsumer \<Rightarrow> nat" where
  "left c = length (rb_post (cn_buf c))"

lemma cn_readByte_left: "cn_readByte c = (c1, b) \<Longrightarrow> left c1 = left c - 1 \<and> (left c = 0 \<longrightarrow> b = 0)"
  by (cases "rb_post (cn_buf c)") (auto simp: cn_readByte_def ReadByte_def left_def)

lemma cn_readString_left: "cn_readString d c = (c1, s) \<Longrightarrow> left c1 \<le> left c"
  by (auto simp: cn_readString_def ReadString_def left_def Let_def split: if_splits)

lemma cn_next_left: "left (cn_next n c) \<le> left c"
  by (simp add: cn_next_def Next_def left_def Let_def)

lemma readBenElem_fuel:
  "2 * left c + 1 \<le> n \<Longrightarrow> snd (readBenElem n c) \<noteq> Inl GetNoFuel \<and>
     (\<forall>b. snd (readBenElem n c) = Inr b \<longrightarrow> left (fst (readBenElem n c)) < left c)"
  "2 * left c + 2 \<le> n \<Longrightarrow> snd (readBenElems n c) \<noteq> Inl GetNoFuel \<and>
     (\<forall>b. snd (readBenElems n c) = Inr b \<longrightarrow> left (fst (readBenElems n c)) < left c)"
proof (induction n c and n c rule: readBenElem_readBenElems.induct)
  case (2 n c)
  obtain c1 b where c1: "cn_readByte c = (c1, b)" by fastforce
  note l = cn_readByte_left [OF c1]
  show ?case
  proof (cases "left c = 0")
    case True
    with l have "b = 0" by simp
    then show ?thesis by (simp add: c1 is_digit_def)
  next
    case False
    then have s: "left c1 < left c" "2 * left c1 + 2 \<le> n" using l 2(2) by auto
    have "left (fst (cn_readString 101 c1)) < left c"
      using cn_readString_left [of 101 c1] s(1) by (metis le_less_trans prod.collapse)
    moreover have "left (cn_next m (fst (cn_readString 58 c1))) < left c" for m
      using cn_readString_left [of 58 c1] cn_next_left s(1) by (metis le_less_trans prod.collapse)
    ultimately show ?thesis
      using 2(1) [OF c1 [symmetric]] s by (auto simp: c1 split: prod.splits)
  qed
next
  case (4 n c)
  obtain c1 x where c1: "readBenElem n c = (c1, x)" by fastforce
  have e: "x \<noteq> Inl GetNoFuel" "\<And>b. x = Inr b \<Longrightarrow> left c1 < left c"
    using 4(1,3) c1 by auto
  show ?case
  proof (cases x)
    case (Inr b)
    then have "left c1 < left c" using e(2) by blast
    then show ?thesis using 4(2) [OF c1 [symmetric] Inr] 4(3) Inr c1 by (cases b) auto
  qed (use e c1 in auto)
qed simp_all

lemma cn_read_total: "snd (cn_read c) \<noteq> Inl GetNoFuel \<and> (\<forall>x. snd (cn_read c) = Inr x \<longrightarrow> left (fst (cn_read c)) < left c)"
  using readBenElem_fuel(1) [of c "2 * left c + 2"] by (auto simp: cn_read_def left_def split: prod.splits sum.splits)

lemma subslice_total: "subslice d a b \<noteq> Inl GetNoFuel"
  by (simp add: subslice_def)

lemma get_loop_total: "left c < n \<Longrightarrow> get_loop n d key c \<noteq> Inl GetNoFuel"
proof (induction n arbitrary: c)
  case (Suc n)
  obtain c1 x where c1: "cn_read c = (c1, x)" by fastforce
  obtain c2 y where c2: "cn_read c1 = (c2, y)" by fastforce
  have "x \<noteq> Inl GetNoFuel" "y \<noteq> Inl GetNoFuel" "\<And>z. x = Inr z \<Longrightarrow> left c1 < left c" "\<And>z. y = Inr z \<Longrightarrow> left c2 < left c1"
    using cn_read_total [of c] cn_read_total [of c1] c1 c2 by auto
  then show ?case
    using Suc.IH [of c2] Suc.prems subslice_total by (auto simp: c1 c2 split: sum.splits prod.splits)
qed simp

text \<open>
  \<open>Get\<close> always returns: on any input its loops end, also where the closing delimiters or the
  length prefixes are wrong.
\<close>

lemma Get_returns: "snd (snd (Get data key)) \<noteq> Some GetNoFuel"
proof -
  let ?d = "butlast (tl data)"
  have "get_loop (Suc (length ?d)) ?d key \<lparr>cn_buf = NewBuffer ?d, cn_off = 0\<rparr> \<noteq> Inl GetNoFuel"
    by (rule get_loop_total) (simp add: left_def NewBuffer_def)
  then show ?thesis
    by (auto simp: Get_def get_dict_def Let_def simp del: get_loop.simps split: sum.splits option.splits)
qed

section \<open>The consumer on encoded input\<close>

inductive ben :: "bytes \<Rightarrow> bool" where
  ben_int: "ben (enc_int i)"
| ben_string: "length s < 2 ^ 63 \<Longrightarrow> ben (enc_string s)"
| ben_coll: "b = 108 \<or> b = 100 \<Longrightarrow> \<forall>x \<in> set xs. ben x \<Longrightarrow> ben (b # concat xs @ [101])"

text \<open>\<open>eats bs\<close>: the consumer takes exactly the bytes \<open>bs\<close> off a buffer that begins with them.\<close>

definition eats :: "bytes \<Rightarrow> bool" where
  "eats bs \<longleftrightarrow> bs \<noteq> [] \<and> (\<forall>n c rest. rb_post (cn_buf c) = bs @ rest \<longrightarrow> 2 * length bs \<le> n \<longrightarrow>
     0 \<le> cn_off c \<longrightarrow> cn_off c + int (length bs) < 2 ^ 63 \<longrightarrow>
     (\<exists>c'. readBenElem n c = (c', Inr True) \<and> rb_post (cn_buf c') = rest \<and> cn_off c' = cn_off c + int (length bs)))"

lemma eatsD:
  assumes "eats bs" "rb_post (cn_buf c) = bs @ rest" "2 * length bs \<le> n" "0 \<le> cn_off c" "cn_off c + int (length bs) < 2 ^ 63"
  obtains c' where "readBenElem n c = (c', Inr True)" "rb_post (cn_buf c') = rest" "cn_off c' = cn_off c + int (length bs)"
  using assms unfolding eats_def by blast

lemma concat_pairs: "concat (concat (map (\<lambda>x. [f x, g x]) xs)) = concat (map (\<lambda>x. f x @ g x) xs)"
  by (induction xs) simp_all

lemma cn_readByte_Cons:
  fixes c :: benConsumer
  assumes "rb_post (cn_buf c) = b # bs" "0 \<le> cn_off c" "cn_off c + 1 < 2 ^ 63"
  shows "\<exists>c'. cn_readByte c = (c', b) \<and> rb_post (cn_buf c') = bs \<and> cn_off c' = cn_off c + 1"
  using assms by (simp add: cn_readByte_def ReadByte_def)

lemma cn_readString_append:
  fixes c :: benConsumer
  assumes "rb_post (cn_buf c) = xs @ d # ys" "d \<notin> set xs" "0 \<le> cn_off c" "cn_off c + int (length xs) + 1 < 2 ^ 63"
  shows "\<exists>c'. cn_readString d c = (c', xs @ [d]) \<and> rb_post (cn_buf c') = ys \<and> cn_off c' = cn_off c + int (length xs) + 1"
proof -
  obtain r where r: "ReadString d (cn_buf c) = (r, xs @ [d], None)" "rb_post r = ys"
    using ReadString_append [OF assms(1,2)] by blast
  have "go_int (cn_off c + (1 + int (length xs))) = cn_off c + (1 + int (length xs))" using assms(3,4) by (intro go_int_id) auto
  with r show ?thesis by (simp add: cn_readString_def algebra_simps)
qed

lemma eats_int: "eats (enc_int i)"
  unfolding eats_def
proof (intro conjI allI impI)
  fix n rest and c :: benConsumer
  assume a: "rb_post (cn_buf c) = enc_int i @ rest" "2 * length (enc_int i) \<le> n" "0 \<le> cn_off c"
    "cn_off c + int (length (enc_int i)) < 2 ^ 63"
  then obtain m where n: "n = Suc m" by (cases n) (auto simp: enc_int_def)
  obtain c1 where c1: "cn_readByte c = (c1, 105)" "rb_post (cn_buf c1) = FormatInt i @ 101 # rest" "cn_off c1 = cn_off c + 1"
    using cn_readByte_Cons [of c 105] a by (auto simp: enc_int_def)
  obtain c2 where "cn_readString 101 c1 = (c2, FormatInt i @ [101])" "rb_post (cn_buf c2) = rest"
    "cn_off c2 = cn_off c1 + int (length (FormatInt i)) + 1"
    using cn_readString_append [OF c1(2) FormatInt_no_delim(1)] a(3,4) c1(3) by (auto simp: enc_int_def)
  with c1 n show "\<exists>c'. readBenElem n c = (c', Inr True) \<and> rb_post (cn_buf c') = rest \<and>
      cn_off c' = cn_off c + int (length (enc_int i))" by (simp add: enc_int_def)
qed (simp add: enc_int_def)

lemma eats_string:
  assumes "length s < 2 ^ 63"
  shows "eats (enc_string s)"
  unfolding eats_def
proof (intro conjI allI impI)
  fix n rest and c :: benConsumer
  assume a: "rb_post (cn_buf c) = enc_string s @ rest" "2 * length (enc_string s) \<le> n" "0 \<le> cn_off c"
    "cn_off c + int (length (enc_string s)) < 2 ^ 63"
  then obtain m where n: "n = Suc m" by (cases n) (auto simp: enc_string_def)
  obtain b bs where f: "FormatInt (int (length s)) = b # bs" "is_digit b"
    using format_nat_Cons [of "length s"] by (auto simp: FormatInt_def)
  then have b: "b \<noteq> 101" "b \<noteq> 108" "b \<noteq> 100" "b \<noteq> 105" by (auto simp: is_digit_def word_le_nat_alt)
  have L: "length (enc_string s) = Suc (Suc (length bs + length s))" by (simp add: enc_string_def f)
  obtain c1 where c1: "cn_readByte c = (c1, b)" "rb_post (cn_buf c1) = bs @ 58 # s @ rest" "cn_off c1 = cn_off c + 1"
    using cn_readByte_Cons [of c b "bs @ 58 # s @ rest"] a L by (auto simp: enc_string_def f)
  have "58 \<notin> set bs" using FormatInt_no_delim(2) [of "int (length s)"] f by simp
  then obtain c2 where c2: "cn_readString 58 c1 = (c2, bs @ [58])" "rb_post (cn_buf c2) = s @ rest"
    "cn_off c2 = cn_off c1 + int (length bs) + 1"
    using cn_readString_append [OF c1(2)] a(3,4) c1(3) L by auto
  have "ParseInt (b # bs) = (int (length s), None)"
    using ParseInt_FormatInt [of "int (length s)"] assms f(1) by (simp add: fits_signed_def)
  moreover have "go_int (cn_off c2 + int (length s)) = cn_off c + int (length (enc_string s))"
    using a(3,4) c1(3) c2(3) L by (subst go_int_id) auto
  ultimately show "\<exists>c'. readBenElem n c = (c', Inr True) \<and> rb_post (cn_buf c') = rest \<and>
      cn_off c' = cn_off c + int (length (enc_string s))"
    using n c1 c2 b f(2) by (simp add: cn_next_def Next_def Let_def butlast_append)
qed (simp add: enc_string_def)

lemma eats_elems:
  "\<forall>x \<in> set xs. eats x \<Longrightarrow> rb_post (cn_buf c) = concat xs @ 101 # rest \<Longrightarrow> 2 * length (concat xs) + 2 \<le> n \<Longrightarrow>
   0 \<le> cn_off c \<Longrightarrow> cn_off c + int (length (concat xs)) + 1 < 2 ^ 63 \<Longrightarrow>
   \<exists>c'. readBenElems n c = (c', Inr True) \<and> rb_post (cn_buf c') = rest \<and> cn_off c' = cn_off c + int (length (concat xs)) + 1"
proof (induction xs arbitrary: n c)
  case Nil
  then have "2 \<le> n" by simp
  then obtain m where n: "n = Suc (Suc m)" by (metis Suc_le_D numeral_2_eq_2 Suc_le_mono)
  obtain c1 where "cn_readByte c = (c1, 101)" "rb_post (cn_buf c1) = rest" "cn_off c1 = cn_off c + 1"
    using cn_readByte_Cons [of c 101 rest] Nil by auto
  with n show ?case by simp
next
  case (Cons x xs)
  then obtain m where n: "n = Suc m" by (cases n) auto
  have "eats x" "length x \<ge> 1" using Cons.prems(1) by (auto simp: eats_def Suc_le_eq)
  moreover have "rb_post (cn_buf c) = x @ concat xs @ 101 # rest" "2 * length x \<le> m" using Cons.prems n by auto
  ultimately obtain c1 where c1: "readBenElem m c = (c1, Inr True)" "rb_post (cn_buf c1) = concat xs @ 101 # rest"
    "cn_off c1 = cn_off c + int (length x)"
    using Cons.prems(4,5) by (elim eatsD) auto
  with Cons.IH [of c1 m] Cons.prems \<open>length x \<ge> 1\<close> n show ?case by auto
qed

lemma ben_eats: "ben bs \<Longrightarrow> eats bs"
proof (induction rule: ben.induct)
  case (ben_coll b xs)
  have e: "\<forall>x \<in> set xs. eats x" using ben_coll.IH by blast
  show ?case
    unfolding eats_def
  proof (intro conjI allI impI)
    fix n rest and c :: benConsumer
    assume a: "rb_post (cn_buf c) = (b # concat xs @ [101]) @ rest" "2 * length (b # concat xs @ [101]) \<le> n" "0 \<le> cn_off c"
      "cn_off c + int (length (b # concat xs @ [101])) < 2 ^ 63"
    then obtain m where n: "n = Suc m" by (cases n) auto
    obtain c1 where c1: "cn_readByte c = (c1, b)" "rb_post (cn_buf c1) = concat xs @ 101 # rest" "cn_off c1 = cn_off c + 1"
      using cn_readByte_Cons [of c b] a by auto
    obtain c2 where "readBenElems m c1 = (c2, Inr True)" "rb_post (cn_buf c2) = rest"
      "cn_off c2 = cn_off c1 + int (length (concat xs)) + 1"
      using eats_elems [OF e c1(2), of m] a n c1(3) by auto
    with c1 n ben_coll.hyps(1) show "\<exists>c'. readBenElem n c = (c', Inr True) \<and> rb_post (cn_buf c') = rest \<and>
        cn_off c' = cn_off c + int (length (b # concat xs @ [101]))" by auto
  qed simp
qed (simp_all add: eats_int eats_string)

lemma cn_read_eats:
  assumes "eats bs" "rb_post (cn_buf c) = bs @ rest" "0 \<le> cn_off c" "cn_off c + int (length bs) < 2 ^ 63"
  shows "\<exists>c'. cn_read c = (c', Inr (cn_off c, cn_off c + int (length bs))) \<and> rb_post (cn_buf c') = rest \<and>
    cn_off c' = cn_off c + int (length bs)"
proof -
  have f: "2 * length bs \<le> 2 * length (rb_post (cn_buf c)) + 2" using assms(2) by simp
  obtain c' where "readBenElem (2 * length (rb_post (cn_buf c)) + 2) c = (c', Inr True)" "rb_post (cn_buf c') = rest"
    "cn_off c' = cn_off c + int (length bs)"
    by (rule eatsD [OF assms(1,2) f assms(3,4)])
  then show ?thesis by (simp add: cn_read_def)
qed

lemma subslice_mid: "subslice (xs @ ys @ zs) (int (length xs)) (int (length xs) + int (length ys)) = Inr ys"
  by (simp add: subslice_def)

lemma rt_ben: "rt v \<Longrightarrow> ben (ebytes v)"
proof (induction v)
  case (VSlice t xs)
  then show ?case
  proof (cases xs)
    case (Some ys)
    then have "ebytes (VSlice t xs) = 108 # concat (map ebytes ys) @ [101]"
      using VSlice.prems by (simp add: ebytes_slice)
    with VSlice Some show ?thesis by (auto intro!: ben_coll)
  qed (use ben_coll [of 108 "[]"] in \<open>simp add: ebytes_def\<close>)
next
  case (VMap k t m)
  then obtain kvs where m: "m = Some kvs" "k" by (cases m) auto
  let ?xs = "concat (map (\<lambda>x. [enc_string (fst x), ebytes (snd x)]) kvs)"
  have "ebytes (VMap k t m) = 100 # concat ?xs @ [101]"
    using VMap.prems m by (simp add: ebytes_map concat_pairs)
  moreover have "\<forall>x \<in> set ?xs. ben x" using VMap m by (auto intro!: ben_string)
  ultimately show ?case using ben_coll [of 100 ?xs] by simp
next
  case (VStruct fs)
  let ?xs = "concat (map (\<lambda>x. [enc_string (field_key (fst x)), ebytes (snd x)]) (by_key fs))"
  have "ebytes (VStruct fs) = 100 # concat ?xs @ [101]"
    unfolding concat_pairs by (rule ebytes_struct [OF VStruct.prems])
  moreover have "\<forall>x \<in> set ?xs. ben x"
    using VStruct by (auto intro!: ben_string split: if_splits)
  ultimately show ?case using ben_coll [of 100 ?xs] by simp
next
  case (VPtr t p)
  then show ?case by (cases p) (auto simp: ebytes_def)
next
  case (VIface i)
  then show ?case by (cases i) (auto simp: ebytes_def)
next
  case (VBytes s)
  then show ?case by (cases s) (auto simp: ebytes_def intro: ben_string)
qed (auto simp: ebytes_def intro: ben_string ben_int)

section \<open>The bytes of a field\<close>

abbreviation entries :: "(bytes \<times> bytes) list \<Rightarrow> bytes" where
  "entries kvs \<equiv> concat (map (\<lambda>x. enc_string (fst x) @ snd x) kvs)"

lemma get_loop_entries:
  assumes "\<forall>x \<in> set kvs. length (fst x) < 2 ^ 63 \<and> eats (snd x)" "d = pre @ entries kvs" "length d < 2 ^ 63"
    "rb_post (cn_buf c) = entries kvs" "cn_off c = int (length pre)" "length kvs < n"
  shows "get_loop n d key c = Inr (map_of kvs key)"
  using assms
proof (induction kvs arbitrary: pre c n)
  case (Cons kv kvs)
  obtain k v where kv: "kv = (k, v)" by fastforce
  obtain m where n: "n = Suc m" using Cons.prems(6) by (cases n) auto
  have k: "eats (enc_string k)" "length k < 2 ^ 63" and v: "eats v" using Cons.prems(1) kv eats_string by auto
  have ne: "rb_post (cn_buf c) \<noteq> []" using Cons.prems(4) kv by (simp add: enc_string_def)
  let ?e = "enc_string k"
  have L: "int (length pre) + int (length ?e) + int (length v) < 2 ^ 63" using Cons.prems(2,3) kv by auto
  obtain c1 where c1: "cn_read c = (c1, Inr (int (length pre), int (length pre) + int (length ?e)))"
    "rb_post (cn_buf c1) = v @ entries kvs" "cn_off c1 = int (length (pre @ ?e))"
    using cn_read_eats [OF k(1), of c "v @ entries kvs"] Cons.prems(4,5) kv L by auto
  obtain c2 where c2: "cn_read c1 = (c2, Inr (int (length (pre @ ?e)), int (length (pre @ ?e)) + int (length v)))"
    "rb_post (cn_buf c2) = entries kvs" "cn_off c2 = int (length (pre @ ?e @ v))"
    using cn_read_eats [OF v c1(2)] c1(3) L by auto
  have s: "subslice d (int (length pre)) (int (length pre) + int (length ?e)) = Inr ?e"
    "subslice d (int (length (pre @ ?e))) (int (length (pre @ ?e)) + int (length v)) = Inr v"
    using Cons.prems(2) kv subslice_mid [of pre ?e "v @ entries kvs"] subslice_mid [of "pre @ ?e" v "entries kvs"] by simp_all
  have "Decode ?e (VString []) = (VString k, None)"
    using Decode_ebytes [of "VString k" "VString []" "[]"] k(2) by (simp add: ebytes_def)
  then have "get_loop n d key c = (if k = key then Inr (Some v) else get_loop m d key c2)"
    by (cases "k = key") (use ne c1(1) c2(1) s in \<open>simp_all add: n\<close>)
  moreover have "get_loop m d key c2 = Inr (map_of kvs key)"
    by (rule Cons.IH [of "pre @ ?e @ v"]) (use Cons.prems kv c2 n in auto)
  ultimately show ?case by (simp add: kv)
next
  case Nil
  then obtain m where "n = Suc m" by (cases n) auto
  with Nil show ?case by simp
qed

lemma Get_entries:
  assumes "\<forall>x \<in> set kvs. length (fst x) < 2 ^ 63 \<and> eats (snd x)" "length (entries kvs) < 2 ^ 63"
  shows "Get (100 # entries kvs @ [101]) key = (map_of kvs key, map_of kvs key \<noteq> None, None)"
proof -
  have "length kvs \<le> length (entries kvs)"
    by (induction kvs) (auto simp: enc_string_def)
  then have "get_loop (Suc (length (entries kvs))) (entries kvs) key \<lparr>cn_buf = NewBuffer (entries kvs), cn_off = 0\<rparr> =
      Inr (map_of kvs key)"
    by (intro get_loop_entries [OF assms(1), of _ "[]"]) (use assms(2) in \<open>simp_all add: NewBuffer_def\<close>)
  then show ?thesis
    by (auto simp: Get_def get_dict_def Let_def simp del: get_loop.simps split: option.splits)
qed

lemma Get_struct:
  assumes "rt (VStruct fs)" "length (ebytes (VStruct fs)) < 2 ^ 63"
  shows "Get (ebytes (VStruct fs)) key =
    (let v = map_of (map (\<lambda>x. (field_key (fst x), ebytes (snd x))) (by_key fs)) key in (v, v \<noteq> None, None))"
proof -
  let ?kvs = "map (\<lambda>x. (field_key (fst x), ebytes (snd x))) (by_key fs)"
  have e: "ebytes (VStruct fs) = 100 # entries ?kvs @ [101]" using ebytes_struct [OF assms(1)] by (simp add: o_def)
  have "\<forall>x \<in> set ?kvs. length (fst x) < 2 ^ 63 \<and> eats (snd x)"
  proof
    fix y assume "y \<in> set ?kvs"
    then obtain x where x: "x \<in> set fs" "written x" "y = (field_key (fst x), ebytes (snd x))" by auto
    with assms(1) have "length (field_key (fst x)) < 2 ^ 63" "rt (snd x)" by (auto split: if_splits)
    with x(3) ben_eats [OF rt_ben] show "length (fst y) < 2 ^ 63 \<and> eats (snd y)" by simp
  qed
  moreover have "length (entries ?kvs) < 2 ^ 63" using assms(2) unfolding e by (simp only: length_Cons length_append)
  ultimately show ?thesis unfolding e Let_def by (rule Get_entries)
qed

lemma map_of_unique: "(k, v) \<in> set xs \<Longrightarrow> (\<And>w. (k, w) \<in> set xs \<Longrightarrow> w = v) \<Longrightarrow> map_of xs k = Some v"
  by (metis map_of_SomeD weak_map_of_SomeI)

lemma Get_written:
  assumes "rt (VStruct fs)" "length (ebytes (VStruct fs)) < 2 ^ 63" "x \<in> set fs" "written x"
  shows "Get (ebytes (VStruct fs)) (field_key (fst x)) = (Some (ebytes (snd x)), True, None)"
proof -
  have d: "distinct (map (field_key \<circ> fst) (filter (\<lambda>x. sf_bencode (fst x) \<noteq> dash) fs))" using assms(1) by simp
  have "y = x" if "y \<in> set fs" "written y" "field_key (fst y) = field_key (fst x)" for y
    using inj_onD [OF distinct_map [THEN iffD1, OF d, THEN conjunct2], of y x] that assms(3,4) by (auto simp: written_def)
  then have "map_of (map (\<lambda>x. (field_key (fst x), ebytes (snd x))) (by_key fs)) (field_key (fst x)) = Some (ebytes (snd x))"
    using assms(3,4) by (intro map_of_unique) (auto simp: set_sort_by)
  then show ?thesis by (simp add: Get_struct [OF assms(1,2)])
qed

text \<open>
  C24. \<open>Get\<close> on an encoded struct returns the bytes of the field with that key, exactly as the
  encoder wrote them (the info hash is computed from these bytes), and reports a key that no
  field was written under as missing.
\<close>

theorem Get_Encode:
  assumes "rt (VStruct fs)" "Encode (VStruct fs) = Inr b" "length b < 2 ^ 63"
  shows "(\<forall>x \<in> set fs. written x \<longrightarrow> (\<exists>v. Encode (snd x) = Inr v \<and> Get b (field_key (fst x)) = (Some v, True, None))) \<and>
    (key \<notin> field_key ` fst ` set (filter written fs) \<longrightarrow> Get b key = (None, False, None))"
proof -
  have b: "b = ebytes (VStruct fs)" using assms(2) encode_rt [OF assms(1)] by (simp add: Encode_def)
  have "Encode (snd x) = Inr (ebytes (snd x))" if "x \<in> set fs" "written x" for x
    using encode_rt [of "snd x"] assms(1) that by (auto simp: Encode_def)
  moreover have "Get b key = (None, False, None)" if "key \<notin> field_key ` fst ` set (filter written fs)"
  proof -
    have "map_of (map (\<lambda>x. (field_key (fst x), ebytes (snd x))) (by_key fs)) key = None"
      using that by (auto simp: map_of_eq_None_iff image_iff)
    then show ?thesis using Get_struct [OF assms(1)] assms(3) b by simp
  qed
  ultimately show ?thesis using Get_written [OF assms(1)] assms(3) b by blast
qed

theorem Get_Encode_witness:
  "Get [100, 49, 58, 97, 100, 49, 58, 107, 50, 58, 1, 2, 101, 49, 58, 120, 108, 105, 45, 51, 101,
        105, 55, 101, 101, 101] [120] = (Some [108, 105, 45, 51, 101, 105, 55, 101, 101], True, None)"
proof -
  obtain fs where fs: "rt_example = VStruct fs" "fs ! 0 \<in> set fs" "written (fs ! 0)" "field_key (fst (fs ! 0)) = [120]"
    "Encode (snd (fs ! 0)) = Inr [108, 105, 45, 51, 101, 105, 55, 101, 101]"
  proof (rule that [of "case rt_example of VStruct fs \<Rightarrow> fs"])
    show "rt_example = VStruct (case rt_example of VStruct fs \<Rightarrow> fs)" by (simp add: rt_example_def)
  qed code_simp+
  have r: "rt rt_example" by code_simp
  have e: "Encode rt_example = Inr [100, 49, 58, 97, 100, 49, 58, 107, 50, 58, 1, 2, 101, 49, 58,
    120, 108, 105, 45, 51, 101, 105, 55, 101, 101, 101]" by code_simp
  from Get_Encode [OF r [unfolded fs(1)] e [unfolded fs(1)]] fs show ?thesis by fastforce
qed

end
