(* ===== verification/Metainfo.thy ===== *)
theory Metainfo
  imports Bencode_Get
begin

text \<open>
  Torrent files (\<open>metainfo/metainfo.go\<close>, \<open>metainfo/info.go\<close>) and the other sources a torrent can
  be added from (\<open>metainfo/parser.go\<close>). The structs are values of the bencode model with the tags of
  the source; SHA-1 and \<open>net/url\<close> are parameters, the bytes of a file an argument.
\<close>

section \<open>The structs as bencode values\<close>

text \<open>\<open>length\<close>, \<open>md5sum\<close>, \<open>path\<close>.\<close>

definition file_fields :: "field_tag list" where
  "file_fields =
     [([76, 101, 110], [108, 101, 110, 103, 116, 104], []),
      ([77, 100, 53], [109, 100, 53, 115, 117, 109], omit),
      ([80, 97, 116, 104], [112, 97, 116, 104], [])]"

text \<open>\<open>files\<close>, \<open>length\<close>, \<open>md5sum\<close>, \<open>name\<close>, \<open>piece length\<close>, \<open>pieces\<close>, \<open>private\<close>; the hash is not encoded.\<close>

definition info_fields :: "field_tag list" where
  "info_fields =
     [([70, 105, 108, 101, 115], [102, 105, 108, 101, 115], omit),
      ([76, 101, 110], [108, 101, 110, 103, 116, 104], omit),
      ([77, 100, 53], [109, 100, 53, 115, 117, 109], omit),
      ([78, 97, 109, 101], [110, 97, 109, 101], omit),
      ([80, 105, 101, 99, 101, 76, 101, 110], [112, 105, 101, 99, 101, 32, 108, 101, 110, 103, 116, 104], []),
      ([80, 105, 101, 99, 101, 115], [112, 105, 101, 99, 101, 115], []),
      ([80, 114, 105, 118, 97, 116, 101], [112, 114, 105, 118, 97, 116, 101], omit),
      ([72, 97, 115, 104], dash, [])]"

text \<open>\<open>announce\<close>, \<open>announce-list\<close>, \<open>comment\<close>, \<open>created by\<close>, \<open>creation date\<close>, \<open>encoding\<close>, \<open>info\<close>; \<open>InfoBytes\<close> is not encoded.\<close>

definition meta_fields :: "field_tag list" where
  "meta_fields =
     [([65, 110, 110, 111, 117, 110, 99, 101], [97, 110, 110, 111, 117, 110, 99, 101], []),
      ([65, 110, 110, 111, 117, 110, 99, 101, 76, 105, 115, 116], [97, 110, 110, 111, 117, 110, 99, 101, 45, 108, 105, 115, 116], omit),
      ([67, 111, 109, 109, 101, 110, 116], [99, 111, 109, 109, 101, 110, 116], omit),
      ([67, 114, 101, 97, 116, 101, 100], [99, 114, 101, 97, 116, 101, 100, 32, 98, 121], omit),
      ([67, 114, 101, 97, 116, 105, 111, 110, 68, 97, 116, 101], [99, 114, 101, 97, 116, 105, 111, 110, 32, 100, 97, 116, 101], omit),
      ([69, 110, 99, 111, 100, 105, 110, 103], [101, 110, 99, 111, 100, 105, 110, 103], omit),
      ([73, 110, 102, 111], [105, 110, 102, 111], []),
      ([73, 110, 102, 111, 66, 121, 116, 101, 115], dash, [])]"

definition file_type :: gotype where
  "file_type = TStruct (zip file_fields [TInt 64, TBytes, TSlice TString])"

definition info_type :: gotype where
  "info_type = TStruct (zip info_fields [TSlice file_type, TInt 64, TBytes, TString, TInt 64, TBytes, TInt 64, TOther])"

definition meta_type :: gotype where
  "meta_type = TStruct (zip meta_fields
     [TString, TSlice (TSlice TString), TString, TString, TInt 64, TString, TPtr info_type, TBytes])"

definition strings_val :: "bytes list option \<Rightarrow> goval" where
  "strings_val xs = VSlice TString (map_option (map VString) xs)"

definition file_val :: "file_info \<Rightarrow> goval" where
  "file_val f = VStruct (zip file_fields [VInt 64 (fi_len f), VBytes (fi_md5 f), strings_val (fi_path f)])"

definition zero_hash :: bytes where "zero_hash = replicate 20 0"

definition info_val :: "info_dict \<Rightarrow> goval" where
  "info_val i = VStruct (zip info_fields
     [VSlice file_type (map_option (map file_val) (id_files i)), VInt 64 (id_len i), VBytes (id_md5 i), VString (id_name i),
      VInt 64 (id_pieceLen i), VBytes (Some (id_pieces i)), VInt 64 (id_private i), VOther (id_hash i = zero_hash)])"

record meta_info =
  mi_Announce :: bytes
  mi_AnnounceList :: "bytes list option list option"
  mi_Comment :: bytes
  mi_Created :: bytes
  mi_CreationDate :: int
  mi_Encoding :: bytes
  mi_Info :: "info_dict option"
  mi_InfoBytes :: "bytes option"

definition meta_val :: "meta_info \<Rightarrow> goval" where
  "meta_val m = VStruct (zip meta_fields
     [VString (mi_Announce m), VSlice (TSlice TString) (map_option (map strings_val) (mi_AnnounceList m)),
      VString (mi_Comment m), VString (mi_Created m), VInt 64 (mi_CreationDate m), VString (mi_Encoding m),
      VPtr info_type (map_option info_val (mi_Info m)), VBytes (mi_InfoBytes m)])"

text \<open>The structs of values of their types; decoding keeps the type, so the other cases do not occur.\<close>

fun int_of :: "goval \<Rightarrow> int" where
  "int_of (VInt _ i) = i"
| "int_of _ = 0"

fun bytes_of :: "goval \<Rightarrow> bytes option" where
  "bytes_of (VBytes b) = b"
| "bytes_of _ = None"

fun slice_of :: "goval \<Rightarrow> goval list option" where
  "slice_of (VSlice _ xs) = xs"
| "slice_of _ = None"

fun ptr_of :: "goval \<Rightarrow> goval option" where
  "ptr_of (VPtr _ p) = p"
| "ptr_of _ = None"

fun field_vals :: "goval \<Rightarrow> goval list" where
  "field_vals (VStruct fs) = map snd fs"
| "field_vals _ = []"

definition strings_of :: "goval \<Rightarrow> bytes list option" where
  "strings_of v = map_option (map string_of) (slice_of v)"

definition file_of :: "goval \<Rightarrow> file_info" where
  "file_of v = (let f = (\<lambda>n. field_vals v ! n) in \<lparr>fi_len = int_of (f 0), fi_md5 = bytes_of (f 1), fi_path = strings_of (f 2)\<rparr>)"

text \<open>The hash is the one the struct had before.\<close>

definition info_of :: "bytes \<Rightarrow> goval \<Rightarrow> info_dict" where
  "info_of h v =
     (let f = (\<lambda>n. field_vals v ! n)
      in \<lparr>id_files = map_option (map file_of) (slice_of (f 0)), id_len = int_of (f 1), id_md5 = bytes_of (f 2),
          id_name = string_of (f 3), id_pieceLen = int_of (f 4), id_pieces = (case bytes_of (f 5) of None \<Rightarrow> [] | Some p \<Rightarrow> p),
          id_private = int_of (f 6), id_hash = h\<rparr>)"

definition meta_of :: "goval \<Rightarrow> meta_info" where
  "meta_of v =
     (let f = (\<lambda>n. field_vals v ! n)
      in \<lparr>mi_Announce = string_of (f 0), mi_AnnounceList = map_option (map strings_of) (slice_of (f 1)), mi_Comment = string_of (f 2),
          mi_Created = string_of (f 3), mi_CreationDate = int_of (f 4), mi_Encoding = string_of (f 5),
          mi_Info = map_option (info_of zero_hash) (ptr_of (f 6)), mi_InfoBytes = bytes_of (f 7)\<rparr>)"

definition meta_zero :: meta_info where
  "meta_zero = \<lparr>mi_Announce = [], mi_AnnounceList = None, mi_Comment = [], mi_Created = [], mi_CreationDate = 0,
     mi_Encoding = [], mi_Info = None, mi_InfoBytes = None\<rparr>"

section \<open>Loading and creating a torrent file\<close>

datatype meta_error = MetaBencode berr | MetaInfoErr info_err | MetaNoInfo | MetaGet get_error | MetaRead

definition info_key :: bytes where "info_key = [105, 110, 102, 111]"

definition meta_Parse :: "meta_info \<Rightarrow> (info_err, unit) outcome" where
  "meta_Parse m = (case mi_Info m of None \<Rightarrow> Panic NilDereference | Some i \<Rightarrow> info_Parse i)"

text \<open>Returns the info dictionary with its hash; its error is overwritten by the caller.\<close>

definition setInfoHash :: "(bytes \<Rightarrow> bytes) \<Rightarrow> info_dict \<Rightarrow> bytes \<Rightarrow> info_dict \<times> meta_error option" where
  "setInfoHash sha1 i data =
     (case Get data info_key of
        (_, False, _) \<Rightarrow> (i, Some MetaNoInfo)
      | (v, True, Some e) \<Rightarrow> (i, Some (MetaGet e))
      | (v, True, None) \<Rightarrow> (i\<lparr>id_hash := sha1 (case v of None \<Rightarrow> [] | Some b \<Rightarrow> b)\<rparr>, None))"

definition loadMetainfoFromBytes :: "(bytes \<Rightarrow> bytes) \<Rightarrow> bytes \<Rightarrow> (meta_error, meta_info) outcome" where
  "loadMetainfoFromBytes sha1 data =
     (case Decode data (zero_val meta_type) of
        (_, Some e) \<Rightarrow> Error (MetaBencode e)
      | (v, None) \<Rightarrow>
          let meta = meta_of v
          in (case meta_Parse meta of
                Panic p \<Rightarrow> Panic p
              | Error e \<Rightarrow> Error (MetaInfoErr e)
              | Return _ \<Rightarrow>
                  let info = fst (setInfoHash sha1 (the (mi_Info meta)) data)
                  in (case Get data info_key of
                        (_, False, _) \<Rightarrow> Error MetaNoInfo
                      | (_, True, Some e) \<Rightarrow> Error (MetaGet e)
                      | (ib, True, None) \<Rightarrow>
                          Return (meta\<lparr>mi_InfoBytes := ib,
                            mi_Info := Some (info\<lparr>id_hash := sha1 (case ib of None \<Rightarrow> [] | Some b \<Rightarrow> b)\<rparr>)\<rparr>))))"

text \<open>The bytes \<open>CreateTorrentFile\<close> writes; what reading the file gives is an argument of the loaders.\<close>

definition CreateTorrentFile :: "meta_info \<Rightarrow> (meta_error, bytes) outcome" where
  "CreateTorrentFile m =
     (case Encode (VPtr meta_type (Some (meta_val m))) of Inl e \<Rightarrow> Error (MetaBencode e) | Inr b \<Rightarrow> Return b)"

definition LoadMetainfoFile :: "(bytes \<Rightarrow> bytes) \<Rightarrow> bytes option \<Rightarrow> (meta_error, meta_info) outcome" where
  "LoadMetainfoFile sha1 file = (case file of None \<Rightarrow> Error MetaRead | Some data \<Rightarrow> loadMetainfoFromBytes sha1 data)"

definition info_Bytes :: "bytes option \<Rightarrow> (meta_error, bytes option) outcome" where
  "info_Bytes file =
     (case file of
        None \<Rightarrow> Error MetaRead
      | Some data \<Rightarrow>
          (case Get data info_key of
             (_, False, _) \<Rightarrow> Error MetaNoInfo
           | (_, True, Some e) \<Rightarrow> Error (MetaGet e)
           | (v, True, None) \<Rightarrow> Return v))"

section \<open>Other sources\<close>

definition InfoHash_Parse :: "bytes \<Rightarrow> meta_info" where
  "InfoHash_Parse h = meta_zero\<lparr>mi_Info := Some \<lparr>id_files = None, id_len = 0, id_md5 = None, id_name = [], id_pieceLen = 0,
     id_pieces = [], id_private = 0, id_hash = h\<rparr>\<rparr>"

definition hex_digit :: "byte \<Rightarrow> byte option" where
  "hex_digit c =
     (if 48 \<le> c \<and> c \<le> 57 then Some (c - 48)
      else if 97 \<le> c \<and> c \<le> 102 then Some (c - 97 + 10)
      else if 65 \<le> c \<and> c \<le> 70 then Some (c - 65 + 10) else None)"

fun hex_Decode :: "bytes \<Rightarrow> bytes option" where
  "hex_Decode [] = Some []"
| "hex_Decode [c] = None"
| "hex_Decode (a # b # cs) =
     (case (hex_digit a, hex_digit b, hex_Decode cs) of
        (Some x, Some y, Some r) \<Rightarrow> Some ((x * 16 + y) # r)
      | _ \<Rightarrow> None)"

text \<open>\<open>base32.StdEncoding\<close> on a whole number of groups of eight characters without padding.\<close>

definition base32_digit :: "byte \<Rightarrow> nat option" where
  "base32_digit c =
     (if 65 \<le> c \<and> c \<le> 90 then Some (unat (c - 65))
      else if 50 \<le> c \<and> c \<le> 55 then Some (unat (c - 50) + 26) else None)"

fun base32_value :: "nat \<Rightarrow> bytes \<Rightarrow> nat option" where
  "base32_value acc [] = Some acc"
| "base32_value acc (c # cs) = (case base32_digit c of None \<Rightarrow> None | Some d \<Rightarrow> base32_value (acc * 32 + d) cs)"

fun base32_Decode :: "bytes \<Rightarrow> bytes option" where
  "base32_Decode (a # b # c # d # e # f # g # h # cs) =
     (case (base32_value 0 [a, b, c, d, e, f, g, h], base32_Decode cs) of
        (Some n, Some r) \<Rightarrow> Some (map (\<lambda>i. of_nat (n div 256 ^ i)) [4, 3, 2, 1, 0] @ r)
      | _ \<Rightarrow> None)"
| "base32_Decode [] = Some []"
| "base32_Decode _ = None"

definition xtPrefix :: bytes where "xtPrefix = [117, 114, 110, 58, 98, 116, 105, 104, 58]"

text \<open>
  \<open>url_parse\<close> is \<open>url.Parse\<close> followed by \<open>Query().Get("xt")\<close>: the scheme and the parameter. All
  errors are dropped: the function then returns a nil pointer and no error.
\<close>

definition Magnet_Parse :: "(bytes \<Rightarrow> (bytes \<times> bytes) option) \<Rightarrow> bytes \<Rightarrow> (unit, meta_info option) outcome" where
  "Magnet_Parse url_parse uri =
     (case url_parse uri of
        None \<Rightarrow> Return None
      | Some (scheme, xt) \<Rightarrow>
          if scheme \<noteq> [109, 97, 103, 110, 101, 116] then Return None
          else if take (length xtPrefix) xt \<noteq> xtPrefix then Return None
          else let infoHash = drop (length xtPrefix) xt;
                   decoded = (if length infoHash = 40 then Some (hex_Decode infoHash)
                              else if length infoHash = 32 then Some (base32_Decode infoHash) else None)
               in (case decoded of
                     None \<Rightarrow> Return None
                   | Some None \<Rightarrow> Return None
                   | Some (Some h) \<Rightarrow>
                       if length h \<noteq> 20 then Panic (PanicMsg ''n'') else Return (Some (InfoHash_Parse h))))"

text \<open>The parsers over the content of a file or reader, \<open>None\<close> when it cannot be read.\<close>

definition meta_result :: "(meta_error, meta_info) outcome \<Rightarrow> (unit, meta_info option) outcome" where
  "meta_result x = (case x of Return m \<Rightarrow> Return (Some m) | Error _ \<Rightarrow> Error () | Panic p \<Rightarrow> Panic p)"

definition FileParser_Parse :: "(bytes \<Rightarrow> bytes) \<Rightarrow> bytes option \<Rightarrow> (unit, meta_info option) outcome" where
  "FileParser_Parse sha1 file = meta_result (LoadMetainfoFile sha1 file)"

definition ReaderParser_Parse :: "(bytes \<Rightarrow> bytes) \<Rightarrow> bytes option \<Rightarrow> (unit, meta_info option) outcome" where
  "ReaderParser_Parse sha1 content =
     (case content of None \<Rightarrow> Error () | Some data \<Rightarrow> meta_result (loadMetainfoFromBytes sha1 data))"

section \<open>A created file loads\<close>

lemma string_of_comp [simp]: "string_of \<circ> VString = id"
  by (rule ext) simp

lemma strings_of_val [simp]: "strings_of (strings_val xs) = xs"
  by (cases xs) (simp_all add: strings_of_def strings_val_def)

lemma file_of_val [simp]: "file_of (file_val f) = f"
  by (simp add: file_of_def file_val_def file_fields_def)

lemma info_of_val [simp]: "info_of h (info_val i) = i\<lparr>id_hash := h\<rparr>"
  by (cases "id_files i") (simp_all add: info_of_def info_val_def info_fields_def o_def numeral_eq_Suc)

lemma meta_of_val [simp]: "meta_of (meta_val m) = m\<lparr>mi_Info := map_option (\<lambda>i. i\<lparr>id_hash := zero_hash\<rparr>) (mi_Info m)\<rparr>"
  by (cases "mi_AnnounceList m"; cases "mi_Info m")
    (simp_all add: meta_of_def meta_val_def meta_fields_def o_def numeral_eq_Suc)

text \<open>What is encoded of a file: not the hash and not the bytes of the dictionary.\<close>

definition blank_info :: "info_dict \<Rightarrow> info_dict" where
  "blank_info i = i\<lparr>id_hash := zero_hash\<rparr>"

definition blank :: "meta_info \<Rightarrow> meta_info" where
  "blank m = m\<lparr>mi_InfoBytes := None, mi_Info := map_option blank_info (mi_Info m)\<rparr>"

lemma encode_struct_cong:
  assumes "list_all2 (\<lambda>x y. fst x = fst y \<and>
    (sf_bencode (fst x) = dash \<or> isZero (snd x) = isZero (snd y) \<and> encode (snd x) = encode (snd y))) fs gs"
  shows "encode (VStruct fs) = encode (VStruct gs)"
proof -
  have "encode_fields fs = encode_fields gs" using assms by (induction rule: list_all2_induct) auto
  moreover have "fs = [] \<longleftrightarrow> gs = []" using assms by auto
  ultimately show ?thesis by simp
qed

lemma zip_struct_cong:
  "length ts = length vs \<Longrightarrow> length vs = length ws \<Longrightarrow>
   \<forall>n < length ts. sf_bencode (ts ! n) = dash \<or> isZero (vs ! n) = isZero (ws ! n) \<and> encode (vs ! n) = encode (ws ! n) \<Longrightarrow>
   encode (VStruct (zip ts vs)) = encode (VStruct (zip ts ws))"
  by (rule encode_struct_cong) (auto simp: list_all2_conv_all_nth)

lemma encode_blank_info: "encode (info_val (blank_info i)) = encode (info_val i)"
  unfolding info_val_def
  by (rule zip_struct_cong) (auto simp: info_fields_def blank_info_def less_Suc_eq simp del: encode.simps)

lemma encode_blank: "encode (meta_val (blank m)) = encode (meta_val m)"
proof -
  have "encode (VPtr info_type (map_option info_val (map_option blank_info x))) = encode (VPtr info_type (map_option info_val x))" for x
    by (cases x) (simp_all add: encode_blank_info)
  then show ?thesis
    unfolding meta_val_def
    by (intro zip_struct_cong) (auto simp: meta_fields_def blank_def less_Suc_eq simp del: encode.simps)
qed

lemma zero_meta: "zero_val meta_type = zero_val (vtype (meta_val m))"
  by (simp add: meta_type_def meta_val_def meta_fields_def)

lemma info_field:
  assumes "mi_Info m = Some i"
  shows "\<exists>fs x. meta_val (blank m) = VStruct fs \<and> x \<in> set fs \<and> written x \<and> field_key (fst x) = info_key \<and>
    snd x = VPtr info_type (Some (info_val (blank_info i)))"
proof -
  let ?x = "(meta_fields ! 6, VPtr info_type (Some (info_val (blank_info i))))"
  obtain fs where fs: "meta_val (blank m) = VStruct fs" by (simp add: meta_val_def)
  moreover have "?x \<in> set fs" using fs assms by (auto simp: meta_val_def blank_def meta_fields_def)
  moreover have "written ?x" "field_key (fst ?x) = info_key"
    by (simp_all add: written_def meta_fields_def dash_def omit_def field_key_def info_key_def)
  ultimately show ?thesis by (intro exI [of _ fs] exI [of _ ?x]) simp
qed

text \<open>
  C20. A torrent file written by \<open>CreateTorrentFile\<close> loads again: every field comes back, the info
  bytes are the encoding of the info dictionary as it stands in the file, and the info hash, which
  identifies the torrent, is the SHA-1 sum of exactly these bytes.
\<close>

theorem torrent_file_roundtrip:
  assumes "rt (meta_val (blank m))" "mi_Info m = Some i" "length (id_pieces i) mod pieceSize = 0"
    "CreateTorrentFile m = Return b" "length b < 2 ^ 63"
  shows "\<exists>ib. Encode (info_val i) = Inr ib \<and>
    LoadMetainfoFile sha1 (Some b) = Return (m\<lparr>mi_InfoBytes := Some ib, mi_Info := Some (i\<lparr>id_hash := sha1 ib\<rparr>)\<rparr>)"
proof -
  let ?m = "blank m" and ?i = "blank_info i"
  have b: "b = ebytes (meta_val ?m)"
    using assms(4) encode_rt [OF assms(1)] by (auto simp: CreateTorrentFile_def Encode_def encode_blank split: sum.splits)
  obtain fs x where x: "meta_val ?m = VStruct fs" "x \<in> set fs" "written x" "field_key (fst x) = info_key"
    "snd x = VPtr info_type (Some (info_val ?i))" using info_field [OF assms(2)] by blast
  have "rt (snd x)" using assms(1) x(2,3) by (simp add: x(1) split: if_splits)
  then have r: "rt (info_val ?i)" by (simp add: x(5))
  let ?ib = "ebytes (info_val ?i)"
  have ib: "ebytes (snd x) = ?ib" by (simp add: x(5) ebytes_def)
  have g: "Get b info_key = (Some ?ib, True, None)"
    using Get_written [OF assms(1) [unfolded x(1)] _ x(2,3)] assms(5) b x(1,4) ib by simp
  have "Decode b (zero_val meta_type) = (meta_val ?m, None)"
    using Decode_ebytes [OF assms(1), of "zero_val meta_type" "[]"] b by (simp add: zero_meta [of ?m]) (simp add: meta_val_def)
  moreover have "meta_Parse (meta_of (meta_val ?m)) = Return ()"
    using assms(2,3) by (simp add: meta_Parse_def info_Parse_def blank_def blank_info_def)
  moreover have "Encode (info_val i) = Inr ?ib" using encode_rt [OF r] by (simp add: Encode_def encode_blank_info)
  ultimately show ?thesis
    using g assms(2)
    by (intro exI [of _ ?ib])
      (simp add: LoadMetainfoFile_def loadMetainfoFromBytes_def setInfoHash_def Let_def blank_def blank_info_def)
qed

definition ex_meta :: meta_info where
  "ex_meta = meta_zero\<lparr>mi_Announce := [117], mi_Info := Some \<lparr>id_files = None, id_len = 5, id_md5 = None, id_name = [116],
     id_pieceLen = 8, id_pieces = replicate 20 7, id_private = 0, id_hash = zero_hash\<rparr>\<rparr>"

theorem torrent_file_roundtrip_witness:
  "\<exists>b m. CreateTorrentFile ex_meta = Return b \<and> LoadMetainfoFile (\<lambda>d. take 20 d) (Some b) = Return m \<and>
     mi_Announce m = [117] \<and> map_option id_hash (mi_Info m) = map_option (take 20) (mi_InfoBytes m)"
proof -
  have "map_outcome id (\<lambda>b. length b < 1000) (CreateTorrentFile ex_meta) = Return True" by code_simp
  then obtain b where b: "CreateTorrentFile ex_meta = Return b" "length b < 1000"
    by (cases "CreateTorrentFile ex_meta") auto
  have i: "mi_Info ex_meta = Some (the (mi_Info ex_meta))" by (simp add: ex_meta_def)
  have "rt (meta_val (blank ex_meta))" "length (id_pieces (the (mi_Info ex_meta))) mod pieceSize = 0" by code_simp+
  from torrent_file_roundtrip [OF this(1) i this(2) b(1), of "\<lambda>d. take 20 d"] b show ?thesis
    by (auto simp: ex_meta_def)
qed

text \<open>Reading a file and reading from an open reader give the same torrent.\<close>

lemma ReaderParser_FileParser: "ReaderParser_Parse sha1 content = FileParser_Parse sha1 content"
  by (simp add: ReaderParser_Parse_def FileParser_Parse_def LoadMetainfoFile_def meta_result_def split: option.split)

text \<open>
  The finding on magnet links: every error is dropped, so that a link that cannot be parsed gives a
  nil pointer and no error; adding such a torrent dereferences the pointer.
\<close>

lemma Magnet_Parse_never_fails: "Magnet_Parse url_parse uri \<noteq> Error e"
  by (simp add: Magnet_Parse_def Let_def split: option.split)

end
