(* ===== verification/Bitmap_Lib.thy ===== *)
theory Bitmap_Lib
  imports Prelude
begin

text \<open>
  The code the client calls and this repository does not hold: the bitmaps of
  \<open>anacrolix/missinggo\<close>, and the order \<open>sort.Slice\<close> leaves when its \<open>less\<close> is
  random. Both are parameters of the model: the operations the client calls are the fields of a
  record that the definitions take, and what the client relies on are the laws of a locale. The
  locales are interpreted by a set-as-sorted-list implementation and by insertion sort, which
  shows that the laws can hold and lets examples run.
\<close>

section \<open>Bitmaps\<close>

text \<open>
  Indices are 32 bits wide in the bitmap; the client passes non-negative \<open>int\<close> values below
  \<open>2 ^ 32\<close>, for which the laws are stated. \<open>bm_iter\<close> is the sequence \<open>IterTyped\<close>
  passes to its callback.
\<close>

record 'bm bitmap_ops =
  bm_zero :: "'bm"
  bm_get :: "'bm \<Rightarrow> int \<Rightarrow> bool"
  bm_set :: "'bm \<Rightarrow> int \<Rightarrow> bool \<Rightarrow> 'bm"
  bm_len :: "'bm \<Rightarrow> int"
  bm_iter :: "'bm \<Rightarrow> int list"
  bm_flip :: "'bm \<Rightarrow> int \<Rightarrow> int \<Rightarrow> 'bm"

definition bm_index :: "int \<Rightarrow> bool" where
  "bm_index i \<longleftrightarrow> 0 \<le> i \<and> i < 2 ^ 32"

text \<open>The members of a bitmap.\<close>

definition bm_bits :: "'bm bitmap_ops \<Rightarrow> 'bm \<Rightarrow> int set" where
  "bm_bits B b = set (bm_iter B b)"

locale bitmap_lib =
  fixes B :: "'bm bitmap_ops"
  assumes get_zero: "\<not> bm_get B (bm_zero B) i"
    and get_set: "bm_index i \<Longrightarrow> bm_index j \<Longrightarrow>
      bm_get B (bm_set B b i v) j = (if j = i then v else bm_get B b j)"
    and iter_sorted: "sorted_wrt (<) (bm_iter B b)"
    and iter_iff: "i \<in> set (bm_iter B b) \<longleftrightarrow> bm_index i \<and> bm_get B b i"
    and len_iter: "bm_len B b = int (length (bm_iter B b))"
    and get_flip: "0 \<le> s \<Longrightarrow> e \<le> 2 ^ 32 \<Longrightarrow> bm_index i \<Longrightarrow>
      bm_get B (bm_flip B b s e) i = (if s \<le> i \<and> i < e then \<not> bm_get B b i else bm_get B b i)"
begin

abbreviation bits :: "'bm \<Rightarrow> int set" where
  "bits \<equiv> bm_bits B"

lemma bits_def: "bits b = {i. bm_index i \<and> bm_get B b i}"
  using iter_iff by (auto simp: bm_bits_def)

lemma set_iter [simp]: "set (bm_iter B b) = bits b"
  by (simp add: bm_bits_def)

lemma distinct_iter [simp]: "distinct (bm_iter B b)"
  using iter_sorted [of b] by (simp add: strict_sorted_iff)

lemma finite_bits [simp]: "finite (bits b)"
  using finite_set [of "bm_iter B b"] by simp

lemma len_card: "bm_len B b = int (card (bits b))"
  using distinct_card [OF distinct_iter, of b] by (simp add: len_iter)

lemma bits_zero [simp]: "bits (bm_zero B) = {}"
  by (simp add: bits_def get_zero)

lemma bits_set [simp]:
  "bm_index i \<Longrightarrow> bits (bm_set B b i v) = (if v then insert i (bits b) else bits b - {i})"
  by (auto simp: bits_def get_set split: if_splits)

lemma bits_flip:
  "0 \<le> s \<Longrightarrow> e \<le> 2 ^ 32 \<Longrightarrow>
   bits (bm_flip B b s e) = (bits b - {s..<e}) \<union> ({s..<e} - bits b)"
  by (auto simp: bits_def get_flip bm_index_def)

lemma get_bits: "bm_index i \<Longrightarrow> bm_get B b i \<longleftrightarrow> i \<in> bits b"
  by (simp add: bits_def)

lemma len_pos_iff: "0 < bm_len B b \<longleftrightarrow> bits b \<noteq> {}"
  by (simp add: len_card card_gt_0_iff)

lemma len_eq_card_iff:
  "bits b \<subseteq> S \<Longrightarrow> finite S \<Longrightarrow> bm_len B b = int (card S) \<longleftrightarrow> bits b = S"
  by (auto simp: len_card dest: card_subset_eq)

lemma bits_foldl_set:
  "\<forall>i \<in> set is. bm_index i \<Longrightarrow> bits (foldl (\<lambda>b i. bm_set B b i True) b is) = bits b \<union> set is"
  by (induction "is" arbitrary: b) auto

end

text \<open>An instance: a bitmap as the ascending list of its members.\<close>

definition list_bitmap :: "int list bitmap_ops" where
  "list_bitmap =
     \<lparr>bm_zero = [],
      bm_get = (\<lambda>b i. i \<in> set b),
      bm_set = (\<lambda>b i v. if v then (if 0 \<le> i \<and> i < 2 ^ 32 then insort i (remove1 i (remdups (sort b))) else b)
                        else remove1 i (remdups (sort b))),
      bm_len = (\<lambda>b. int (length (filter bm_index (remdups (sort b))))),
      bm_iter = (\<lambda>b. filter bm_index (remdups (sort b))),
      bm_flip = (\<lambda>b s e. sort (filter (\<lambda>i. i \<notin> set b) [max 0 s..min e (2 ^ 32) - 1] @
                             filter (\<lambda>i. \<not> (s \<le> i \<and> i < e)) (remdups b)))\<rparr>"

interpretation list_bm: bitmap_lib list_bitmap
proof
  fix b :: "int list"
  have "sorted (remdups (sort b))" "distinct (remdups (sort b))" by (simp_all add: sorted_remdups)
  then show "sorted_wrt (<) (bm_iter list_bitmap b)"
    by (simp add: list_bitmap_def strict_sorted_iff sorted_filter [of id, simplified])
qed (auto simp: list_bitmap_def bm_index_def set_insort_key)

section \<open>Sorting\<close>

text \<open>
  \<open>sort.Slice\<close> permutes the slice, whatever \<open>less\<close> answers; when \<open>less\<close> is a strict
  weak order, no element stands before one that is less than it.
\<close>

definition strict_weak :: "('a \<Rightarrow> 'a \<Rightarrow> bool) \<Rightarrow> 'a set \<Rightarrow> bool" where
  "strict_weak lt S \<longleftrightarrow>
     (\<forall>x \<in> S. \<not> lt x x) \<and>
     (\<forall>x \<in> S. \<forall>y \<in> S. \<forall>z \<in> S. \<not> lt x y \<longrightarrow> \<not> lt y z \<longrightarrow> \<not> lt x z) \<and>
     (\<forall>x \<in> S. \<forall>y \<in> S. lt x y \<longrightarrow> \<not> lt y x)"

locale slice_sort =
  fixes srt :: "('a \<Rightarrow> 'a \<Rightarrow> bool) \<Rightarrow> 'a list \<Rightarrow> 'a list"
  assumes srt_perm: "mset (srt lt xs) = mset xs"
    and srt_sorted: "strict_weak lt (set xs) \<Longrightarrow> sorted_wrt (\<lambda>x y. \<not> lt y x) (srt lt xs)"
begin

lemma srt_set [simp]: "set (srt lt xs) = set xs"
  using srt_perm by (metis set_mset_mset)

lemma srt_length [simp]: "length (srt lt xs) = length xs"
  using srt_perm by (metis size_mset)

lemma srt_Nil [simp]: "srt lt [] = []"
  by (metis srt_length length_0_conv)

lemma srt_distinct [simp]: "distinct (srt lt xs) = distinct xs"
  using srt_perm mset_eq_imp_distinct_iff by blast

lemma srt_distinct_map: "distinct (map f (srt lt xs)) = distinct (map f xs)"
  by (rule mset_eq_imp_distinct_iff) (simp add: srt_perm)

end

lemma strict_weak_mono: "strict_weak lt S \<Longrightarrow> T \<subseteq> S \<Longrightarrow> strict_weak lt T"
  unfolding strict_weak_def by blast

lemma strict_weak_asym: "strict_weak lt S \<Longrightarrow> x \<in> S \<Longrightarrow> y \<in> S \<Longrightarrow> lt x y \<Longrightarrow> \<not> lt y x"
  unfolding strict_weak_def by blast

lemma strict_weak_trans:
  "strict_weak lt S \<Longrightarrow> x \<in> S \<Longrightarrow> y \<in> S \<Longrightarrow> z \<in> S \<Longrightarrow> \<not> lt x y \<Longrightarrow> \<not> lt y z \<Longrightarrow> \<not> lt x z"
  unfolding strict_weak_def by blast

lemma insert_by_sorted:
  assumes "strict_weak lt (insert x (set ys))" "sorted_wrt (\<lambda>x y. \<not> lt y x) ys"
  shows "sorted_wrt (\<lambda>x y. \<not> lt y x) (insert_by lt x ys)"
  using assms
proof (induction ys)
  case (Cons y ys)
  have sw: "strict_weak lt (insert x (set ys))"
    by (rule strict_weak_mono [OF Cons.prems(1)]) auto
  show ?case
  proof (cases "lt y x")
    case True
    then have "\<not> lt x y" using strict_weak_asym [OF Cons.prems(1), of y x] by simp
    with Cons sw True show ?thesis by simp
  next
    case False
    have "\<not> lt z x" if "z \<in> set ys" for z
      using strict_weak_trans [OF Cons.prems(1), of z y x] Cons.prems(2) that False by simp
    with Cons.prems False show ?thesis by simp
  qed
qed simp

lemma sort_by_sorted: "strict_weak lt (set xs) \<Longrightarrow> sorted_wrt (\<lambda>x y. \<not> lt y x) (sort_by lt xs)"
proof (induction xs)
  case (Cons x xs)
  have "strict_weak lt (set xs)" by (rule strict_weak_mono [OF Cons.prems]) auto
  with Cons show ?case by (auto intro: insert_by_sorted)
qed simp

interpretation ins_sort: slice_sort sort_by
  by unfold_locales (simp_all add: sort_by_sorted)

end
