(* ===== verification/Conn_State.thy ===== *)
theory Conn_State
  imports Prelude
begin

text \<open>
  The choke and interest flags of a connection (\<open>torrent/conn_state.go\<close>), its statistics
  (\<open>torrent/conn_stats.go\<close>) and the statistics of the torrent
  (\<open>torrent/torrent_stats.go\<close>). A point in time is a number of nanoseconds, and
  \<open>None\<close> is the zero \<open>time.Time\<close>; the functions that read the clock take the current
  time as an argument.
\<close>

type_synonym gotime = "int option"

text \<open>\<open>time.Since\<close>: the difference saturates, and from the zero time it is the maximum.\<close>

definition since :: "int \<Rightarrow> gotime \<Rightarrow> int" where
  "since now t = (case t of None \<Rightarrow> 2 ^ 63 - 1 | Some s \<Rightarrow> min (2 ^ 63 - 1) (max (- (2 ^ 63)) (now - s)))"

record conn_state =
  amInterested :: bool
  amChoking :: bool
  isInterested :: bool
  isChoking :: bool

definition newConnState :: conn_state where
  "newConnState = \<lparr>amInterested = False, amChoking = True, isInterested = False, isChoking = True\<rparr>"

definition canUpload :: "conn_state \<Rightarrow> bool" where
  "canUpload cs \<longleftrightarrow> \<not> amChoking cs \<and> isInterested cs"

definition canDownload :: "conn_state \<Rightarrow> bool" where
  "canDownload cs \<longleftrightarrow> \<not> isChoking cs \<and> amInterested cs"

record conn_stats =
  uploadUsefulBytes :: int
  downloadUsefulBytes :: int
  cs_blocksDownloaded :: int
  cs_blocksUploaded :: int
  verifications :: int
  lastReceivedPieceMsg :: gotime
  lastStartedDownloading :: gotime
  lastStartedUploading :: gotime
  sumDownloading :: int
  sumUploading :: int
  snubbed :: bool
  badPiecesContributions :: int
  goodPiecesContributions :: int

definition zeroConnStats :: conn_stats where
  "zeroConnStats =
     \<lparr>uploadUsefulBytes = 0, downloadUsefulBytes = 0, cs_blocksDownloaded = 0, cs_blocksUploaded = 0,
      verifications = 0, lastReceivedPieceMsg = None, lastStartedDownloading = None,
      lastStartedUploading = None, sumDownloading = 0, sumUploading = 0, snubbed = False,
      badPiecesContributions = 0, goodPiecesContributions = 0\<rparr>"

definition stopDownloading :: "int \<Rightarrow> conn_stats \<Rightarrow> conn_stats" where
  "stopDownloading now cs =
     cs\<lparr>sumDownloading := go_int (sumDownloading cs + since now (lastStartedDownloading cs))\<rparr>"

definition stopUploading :: "int \<Rightarrow> conn_stats \<Rightarrow> conn_stats" where
  "stopUploading now cs =
     cs\<lparr>sumUploading := go_int (sumUploading cs + since now (lastStartedUploading cs))\<rparr>"

definition cs_onBlockDownload :: "int \<Rightarrow> int \<Rightarrow> conn_stats \<Rightarrow> conn_stats" where
  "cs_onBlockDownload now len cs =
     cs\<lparr>downloadUsefulBytes := downloadUsefulBytes cs + len,
        cs_blocksDownloaded := cs_blocksDownloaded cs + 1,
        lastReceivedPieceMsg := Some now\<rparr>"

definition cs_onBlockUpload :: "int \<Rightarrow> conn_stats \<Rightarrow> conn_stats" where
  "cs_onBlockUpload len cs =
     cs\<lparr>cs_blocksUploaded := cs_blocksUploaded cs + 1, uploadUsefulBytes := uploadUsefulBytes cs + len\<rparr>"

definition cs_onPieceHashed :: "conn_stats \<Rightarrow> conn_stats" where
  "cs_onPieceHashed cs = cs\<lparr>verifications := verifications cs + 1\<rparr>"

definition uploadLimitsReached :: "conn_stats \<Rightarrow> bool" where
  "uploadLimitsReached cs \<longleftrightarrow> uploadUsefulBytes cs - downloadUsefulBytes cs > 2 ^ 10 * 200"

abbreviation minute :: int where "minute \<equiv> 60 * 10 ^ 9"

definition cs_isSnubbed :: "int \<Rightarrow> conn_stats \<Rightarrow> conn_stats \<times> bool" where
  "cs_isSnubbed now cs =
     (if snubbed cs then (cs, True)
      else let s = lastReceivedPieceMsg cs \<noteq> None \<and> minute \<le> since now (lastReceivedPieceMsg cs)
           in (cs\<lparr>snubbed := s\<rparr>, s))"

definition malliciousness :: "conn_stats \<Rightarrow> int" where
  "malliciousness cs = badPiecesContributions cs - goodPiecesContributions cs"

section \<open>Statistics of a torrent\<close>

record tstats =
  BlocksDownloaded :: int
  BlocksUploaded :: int
  BytesLeft :: int
  BytesDownloaded :: int
  BytesUploaded :: int

definition zeroStats :: tstats where
  "zeroStats = \<lparr>BlocksDownloaded = 0, BlocksUploaded = 0, BytesLeft = 0, BytesDownloaded = 0, BytesUploaded = 0\<rparr>"

definition st_blockDownloaded :: "int \<Rightarrow> tstats \<Rightarrow> tstats" where
  "st_blockDownloaded bs s = s\<lparr>BlocksDownloaded := BlocksDownloaded s + 1\<rparr>"

definition st_blockUploaded :: "int \<Rightarrow> tstats \<Rightarrow> tstats" where
  "st_blockUploaded bs s =
     s\<lparr>BytesUploaded := BytesUploaded s + bs, BlocksUploaded := BlocksUploaded s + 1\<rparr>"

definition st_onPieceDownload :: "int \<Rightarrow> tstats \<Rightarrow> tstats" where
  "st_onPieceDownload bs s =
     s\<lparr>BytesDownloaded := BytesDownloaded s + bs, BytesLeft := BytesLeft s - bs\<rparr>"

end
