(* ===== verification/Pieces.thy ===== *)
theory Pieces
  imports Bitmap_Lib Conn_State Info
begin

text \<open>
  The request bookkeeping of a torrent: \<open>torrent/piece.go\<close>, \<open>torrent/piece_selector.go\<close>
  and the piece geometry of \<open>torrent/torrent.go\<close>. A piece is a record of two bitmaps over
  block offsets; a pointer to a piece is its position in \<open>pcs\<close>, a pointer to a
  \<open>connInfo\<close> is a number into a store of statistics. \<open>t.blockRequestSize\<close> is the
  argument \<open>bs\<close>, the bitmap library the argument \<open>B\<close>. Messages that
  \<open>setBlockComplete\<close> sends after releasing the lock are returned as a list of actions.

  The contract of one piece is the locale \<open>block_tracker\<close>: every offset is in one of three
  states, and an operation changes the state of one offset. The bookkeeping of many pieces is
  proved against it.
\<close>

section \<open>Geometry\<close>

definition pieceLen :: "info_dict \<Rightarrow> int \<Rightarrow> int \<Rightarrow> (unit, int) outcome" where
  "pieceLen info tlen i =
     (if i = NumPieces info - 1
      then if id_pieceLen info = 0 then Panic DivideByZero
           else Return (go_rem tlen (id_pieceLen info))
      else Return (id_pieceLen info))"

abbreviation maxRequestBlockSz :: int where "maxRequestBlockSz \<equiv> 2 ^ 14"

definition blockSize :: "info_dict \<Rightarrow> int" where
  "blockSize info =
     (if maxRequestBlockSz > id_pieceLen info then id_pieceLen info else maxRequestBlockSz)"

section \<open>One piece\<close>

record block =
  bl_pc :: int
  bl_off :: int
  bl_len :: int

record 'bm piece =
  pc_index :: int
  pc_verified :: bool
  pc_blocks :: int
  pc_lastBlockLen :: int
  pc_rarity :: int
  unrequestedBlocks :: "'bm"
  completeBlocks :: "'bm"
  contributors :: "nat list"

definition newPiece :: "'bm bitmap_ops \<Rightarrow> info_dict \<Rightarrow> int \<Rightarrow> int \<Rightarrow> int \<Rightarrow> (unit, 'bm piece) outcome" where
  "newPiece B info tlen bs i =
     obind (pieceLen info tlen i) (\<lambda>plen.
       if bs = 0 then Panic DivideByZero
       else let lastBytes = go_rem plen bs;
                blocks = (if lastBytes \<noteq> 0 then go_quot plen bs + 1 else go_quot plen bs);
                lastBlockLen = (if lastBytes \<noteq> 0 then lastBytes else bs)
            in Return \<lparr>pc_index = i, pc_verified = False, pc_blocks = blocks,
                 pc_lastBlockLen = lastBlockLen, pc_rarity = 0,
                 unrequestedBlocks =
                   foldl (\<lambda>b j. bm_set B b j True) (bm_zero B) (map (\<lambda>j. j * bs) [0..blocks - 1]),
                 completeBlocks = bm_zero B, contributors = []\<rparr>)"

definition PendingBlocks :: "'bm bitmap_ops \<Rightarrow> 'bm piece \<Rightarrow> int" where
  "PendingBlocks B p =
     pc_blocks p - (bm_len B (unrequestedBlocks p) + bm_len B (completeBlocks p))"

definition UnrequestedBlocks :: "'bm bitmap_ops \<Rightarrow> 'bm piece \<Rightarrow> int" where
  "UnrequestedBlocks B p = bm_len B (unrequestedBlocks p)"

definition CompletedBlocks :: "'bm bitmap_ops \<Rightarrow> 'bm piece \<Rightarrow> int" where
  "CompletedBlocks B p = bm_len B (completeBlocks p)"

definition piece_length :: "int \<Rightarrow> 'bm piece \<Rightarrow> int" where
  "piece_length bs p = bs * (pc_blocks p - 1) + pc_lastBlockLen p"

definition blockLen :: "int \<Rightarrow> 'bm piece \<Rightarrow> int \<Rightarrow> int" where
  "blockLen bs p off = (if go_quot off bs = pc_blocks p - 1 then pc_lastBlockLen p else bs)"

datatype off_err = errLargeOffset | errDivOffset

definition blockLenSafe :: "int \<Rightarrow> 'bm piece \<Rightarrow> int \<Rightarrow> off_err + int" where
  "blockLenSafe bs p off =
     (if go_rem off bs \<noteq> 0 then Inl errDivOffset
      else let bl = go_quot off bs
           in if bl = pc_blocks p - 1 then Inr (pc_lastBlockLen p)
              else if bl < pc_blocks p - 1 then Inr bs
              else Inl errLargeOffset)"

definition toBlock :: "int \<Rightarrow> 'bm piece \<Rightarrow> int \<Rightarrow> block" where
  "toBlock bs p off = \<lparr>bl_pc = pc_index p, bl_off = off, bl_len = blockLen bs p off\<rparr>"

text \<open>The callback of \<open>IterTyped\<close> stops the iteration once \<open>limit\<close> blocks are taken.\<close>

definition unrequestedBlocksSlc :: "'bm bitmap_ops \<Rightarrow> int \<Rightarrow> 'bm piece \<Rightarrow> nat \<Rightarrow> block list" where
  "unrequestedBlocksSlc B bs p limit = map (toBlock bs p) (take limit (bm_iter B (unrequestedBlocks p)))"

definition hasUnrequestedBlocks :: "'bm bitmap_ops \<Rightarrow> 'bm piece \<Rightarrow> bool" where
  "hasUnrequestedBlocks B p \<longleftrightarrow> bm_len B (unrequestedBlocks p) > 0"

definition pendingGet :: "'bm bitmap_ops \<Rightarrow> 'bm piece \<Rightarrow> int \<Rightarrow> bool" where
  "pendingGet B p off \<longleftrightarrow> \<not> (bm_get B (unrequestedBlocks p) off \<or> bm_get B (completeBlocks p) off)"

definition setBlockUnrequsted :: "'bm bitmap_ops \<Rightarrow> 'bm piece \<Rightarrow> int \<Rightarrow> 'bm piece" where
  "setBlockUnrequsted B p off =
     (if \<not> bm_get B (completeBlocks p) off
      then p\<lparr>unrequestedBlocks := bm_set B (unrequestedBlocks p) off True\<rparr> else p)"

definition setBlockPending :: "'bm bitmap_ops \<Rightarrow> 'bm piece \<Rightarrow> int \<Rightarrow> 'bm piece" where
  "setBlockPending B p off =
     (if \<not> bm_get B (completeBlocks p) off
      then p\<lparr>unrequestedBlocks := bm_set B (unrequestedBlocks p) off False\<rparr> else p)"

definition piece_setBlockComplete :: "'bm bitmap_ops \<Rightarrow> nat \<Rightarrow> 'bm piece \<Rightarrow> int \<Rightarrow> 'bm piece" where
  "piece_setBlockComplete B ci p off =
     p\<lparr>completeBlocks := bm_set B (completeBlocks p) off True,
       unrequestedBlocks := bm_set B (unrequestedBlocks p) off False,
       contributors := contributors p @ [ci]\<rparr>"

definition setAllUnrequested :: "'bm bitmap_ops \<Rightarrow> int \<Rightarrow> 'bm piece \<Rightarrow> 'bm piece" where
  "setAllUnrequested B bs p =
     foldl (setBlockUnrequsted B) p (map (\<lambda>i. i * bs) [0..pc_blocks p - 1])"

definition complete :: "'bm bitmap_ops \<Rightarrow> 'bm piece \<Rightarrow> bool" where
  "complete B p \<longleftrightarrow> bm_len B (completeBlocks p) = pc_blocks p"

text \<open>The store of connection statistics; one contribution is counted per block received.\<close>

type_synonym stats_store = "nat \<Rightarrow> conn_stats"

definition add_bad :: "stats_store \<Rightarrow> nat \<Rightarrow> stats_store" where
  "add_bad st c = st(c := (st c)\<lparr>badPiecesContributions := badPiecesContributions (st c) + 1\<rparr>)"

definition add_good :: "stats_store \<Rightarrow> nat \<Rightarrow> stats_store" where
  "add_good st c = st(c := (st c)\<lparr>goodPiecesContributions := goodPiecesContributions (st c) + 1\<rparr>)"

definition verificationFailed ::
  "'bm bitmap_ops \<Rightarrow> 'bm piece \<Rightarrow> stats_store \<Rightarrow> (unit, 'bm piece \<times> stats_store) outcome" where
  "verificationFailed B p st =
     (if \<not> complete B p then Panic (PanicMsg ''pieceVerificationFailed: piece was not complete'')
      else Return (p\<lparr>unrequestedBlocks := completeBlocks p, completeBlocks := unrequestedBlocks p\<rparr>,
                   foldl add_bad st (contributors p)))"

definition verificationSuccess ::
  "'bm piece \<Rightarrow> stats_store \<Rightarrow> (unit, 'bm piece \<times> stats_store) outcome" where
  "verificationSuccess p st =
     (if pc_verified p then Panic (PanicMsg ''already verified'')
      else Return (p\<lparr>pc_verified := True\<rparr>, foldl add_good st (contributors p)))"

section \<open>The piece selector\<close>

datatype nextF = nextRand | nextByRarity

definition completeness :: "'bm bitmap_ops \<Rightarrow> 'bm piece \<Rightarrow> int" where
  "completeness B p = CompletedBlocks B p + PendingBlocks B p - UnrequestedBlocks B p"

text \<open>\<open>coin\<close> is the value \<open>rand.Intn(2) == 1\<close> has in this call.\<close>

definition next_less :: "nextF \<Rightarrow> bool \<Rightarrow> 'bm piece \<Rightarrow> 'bm piece \<Rightarrow> bool" where
  "next_less nx coin p1 p2 =
     (case nx of nextRand \<Rightarrow> coin | nextByRarity \<Rightarrow> pc_rarity p1 < pc_rarity p2)"

definition Less :: "'bm bitmap_ops \<Rightarrow> nextF \<Rightarrow> bool \<Rightarrow> 'bm piece \<Rightarrow> 'bm piece \<Rightarrow> bool" where
  "Less B nx coin p1 p2 =
     (if UnrequestedBlocks B p1 = pc_blocks p1 \<and> UnrequestedBlocks B p2 = pc_blocks p2
      then next_less nx coin p1 p2
      else completeness B p1 > completeness B p2)"

definition OnPieceDownload :: "nextF \<Rightarrow> int \<Rightarrow> nextF" where
  "OnPieceDownload nx i = nextByRarity"

section \<open>All pieces\<close>

record 'bm pieces =
  ownedPieces :: "'bm"
  pcs :: "'bm piece list"
  selector :: nextF
  endGame :: bool
  ps_downloadEnabled :: bool

fun newPieces_loop :: "'bm bitmap_ops \<Rightarrow> info_dict \<Rightarrow> int \<Rightarrow> int \<Rightarrow> int list
    \<Rightarrow> (unit, 'bm piece list) outcome" where
  "newPieces_loop B info tlen bs [] = Return []"
| "newPieces_loop B info tlen bs (i # is) =
     obind (newPiece B info tlen bs i) (\<lambda>p.
     obind (newPieces_loop B info tlen bs is) (\<lambda>ps. Return (p # ps)))"

definition newPieces :: "'bm bitmap_ops \<Rightarrow> info_dict \<Rightarrow> int \<Rightarrow> int \<Rightarrow> (unit, 'bm pieces) outcome" where
  "newPieces B info tlen bs =
     obind (newPieces_loop B info tlen bs [0..NumPieces info - 1]) (\<lambda>ps.
       Return \<lparr>ownedPieces = bm_zero B, pcs = ps, selector = nextRand, endGame = False,
               ps_downloadEnabled = False\<rparr>)"

text \<open>\<open>p.pcs[i] = f(p.pcs[i])\<close>, a panic outside the range.\<close>

definition upd_piece :: "'bm pieces \<Rightarrow> int \<Rightarrow> ('bm piece \<Rightarrow> 'bm piece) \<Rightarrow> (unit, 'bm pieces) outcome" where
  "upd_piece p i f =
     (if 0 \<le> i \<and> i < int (length (pcs p))
      then Return (p\<lparr>pcs := (pcs p)[nat i := f (pcs p ! nat i)]\<rparr>) else Panic IndexOutOfRange)"

definition onHave :: "'bm pieces \<Rightarrow> int \<Rightarrow> (unit, 'bm pieces) outcome" where
  "onHave p i = upd_piece p i (\<lambda>pc. pc\<lparr>pc_rarity := pc_rarity pc + 1\<rparr>)"

fun upd_each :: "('bm piece \<Rightarrow> 'bm piece) \<Rightarrow> 'bm pieces \<Rightarrow> int list \<Rightarrow> (unit, 'bm pieces) outcome" where
  "upd_each f p [] = Return p"
| "upd_each f p (i # is) = obind (upd_piece p i f) (\<lambda>p'. upd_each f p' is)"

definition onBitfield :: "'bm bitmap_ops \<Rightarrow> 'bm pieces \<Rightarrow> 'bm \<Rightarrow> (unit, 'bm pieces) outcome" where
  "onBitfield B p bm = upd_each (\<lambda>pc. pc\<lparr>pc_rarity := pc_rarity pc + 1\<rparr>) p (bm_iter B bm)"

definition setDownloadEnabled :: "'bm pieces \<Rightarrow> bool \<Rightarrow> 'bm pieces" where
  "setDownloadEnabled p v = p\<lparr>ps_downloadEnabled := v\<rparr>"

text \<open>
  The slice \<open>requests\<close> that the loop re-slices is kept in two parts: \<open>done\<close> is the filled
  prefix, \<open>requests\<close> the rest; \<open>js\<close> are the pieces still to visit.
\<close>

fun fill_loop :: "'bm bitmap_ops \<Rightarrow> int \<Rightarrow> bool \<Rightarrow> nat \<Rightarrow> nat list \<Rightarrow> 'bm piece list \<Rightarrow> block list
    \<Rightarrow> block list \<Rightarrow> (unit, 'bm piece list \<times> block list \<times> nat) outcome" where
  "fill_loop B bs eg tot [] ps done requests = Return (ps, done @ requests, length done)"
| "fill_loop B bs eg tot (j # js) ps done requests =
     (let unreq = unrequestedBlocksSlc B bs (ps ! j) (length requests);
          ps' = (if eg then ps
                 else ps[j := foldl (\<lambda>p b. setBlockPending B p (bl_off b)) (ps ! j) unreq]);
          m = min (length requests) (length unreq);
          done' = done @ take m unreq
      in if length done' > tot then Panic (PanicMsg ''filled with more requests than conn wanted'')
         else if length done' = tot then Return (ps', done' @ drop m requests, length done')
         else fill_loop B bs eg tot js ps' done' (drop m requests))"

definition fillRequests :: "'bm bitmap_ops \<Rightarrow> ((nat \<Rightarrow> nat \<Rightarrow> bool) \<Rightarrow> nat list \<Rightarrow> nat list)
    \<Rightarrow> (nat \<Rightarrow> nat \<Rightarrow> bool) \<Rightarrow> int \<Rightarrow> 'bm pieces \<Rightarrow> 'bm \<Rightarrow> block list
    \<Rightarrow> (unit, 'bm pieces \<times> block list \<times> nat) outcome" where
  "fillRequests B srt coin bs p peerPieces requests =
     (if \<not> ps_downloadEnabled p then Return (p, requests, 0)
      else let unrequested = filter (\<lambda>j. UnrequestedBlocks B (pcs p ! j) > 0 \<and>
                                        bm_get B peerPieces (pc_index (pcs p ! j))) [0..<length (pcs p)]
           in if unrequested = [] then Return (p, requests, 0)
              else obind (fill_loop B bs (endGame p) (length requests)
                     (srt (\<lambda>i j. Less B (selector p) (coin i j) (pcs p ! i) (pcs p ! j)) unrequested)
                     (pcs p) [] requests)
                   (\<lambda>(ps, reqs, n). Return (p\<lparr>pcs := ps\<rparr>, reqs, n)))"

fun discardRequests :: "'bm bitmap_ops \<Rightarrow> 'bm pieces \<Rightarrow> block list \<Rightarrow> (unit, 'bm pieces) outcome" where
  "discardRequests B p [] = Return p"
| "discardRequests B p (req # reqs) =
     obind (upd_piece p (bl_pc req) (\<lambda>pc. setBlockUnrequsted B pc (bl_off req)))
       (\<lambda>p'. discardRequests B p' reqs)"

definition allRequested :: "'bm bitmap_ops \<Rightarrow> 'bm pieces \<Rightarrow> bool" where
  "allRequested B p \<longleftrightarrow> list_all (\<lambda>pc. \<not> hasUnrequestedBlocks B pc) (pcs p)"

definition maybeStartEndgame :: "'bm bitmap_ops \<Rightarrow> int \<Rightarrow> int \<Rightarrow> 'bm pieces
    \<Rightarrow> (unit, 'bm pieces \<times> bool) outcome" where
  "maybeStartEndgame B bs numPieces p =
     (if endGame p \<or> \<not> allRequested B p then Return (p, False)
      else obind (upd_each (setAllUnrequested B bs) (p\<lparr>endGame := True\<rparr>)
                    (bm_iter B (bm_flip B (ownedPieces p) 0 numPieces)))
             (\<lambda>p'. Return (p', True)))"

datatype paction =
    QueuePieceForHashing int
  | BroadcastRequestsAvailable
  | SendCancels block

definition setBlockComplete :: "'bm bitmap_ops \<Rightarrow> int \<Rightarrow> int \<Rightarrow> 'bm pieces \<Rightarrow> int \<Rightarrow> int \<Rightarrow> nat
    \<Rightarrow> (unit, 'bm pieces \<times> paction list) outcome" where
  "setBlockComplete B bs numPieces p i off ci =
     obind (upd_piece p i (\<lambda>pc. piece_setBlockComplete B ci pc off)) (\<lambda>p1.
     obind (maybeStartEndgame B bs numPieces p1) (\<lambda>(p2, transitionIntoEndGame).
       Return (p2,
         (if complete B (pcs p2 ! nat i) then [QueuePieceForHashing i] else []) @
         (if transitionIntoEndGame then [BroadcastRequestsAvailable]
          else if endGame p2
          then [SendCancels \<lparr>bl_pc = i, bl_off = off, bl_len = blockLen bs (pcs p2 ! nat i) off\<rparr>]
          else []))))"

definition pieceHashed :: "'bm bitmap_ops \<Rightarrow> 'bm pieces \<Rightarrow> stats_store \<Rightarrow> int \<Rightarrow> bool
    \<Rightarrow> (unit, 'bm pieces \<times> stats_store) outcome" where
  "pieceHashed B p st i correct =
     (if \<not> (0 \<le> i \<and> i < int (length (pcs p))) then Panic IndexOutOfRange
      else obind (if correct then verificationSuccess (pcs p ! nat i) st
                  else verificationFailed B (pcs p ! nat i) st)
             (\<lambda>(pc, st').
                let p' = p\<lparr>pcs := (pcs p)[nat i := pc\<lparr>contributors := []\<rparr>]\<rparr>
                in Return (if correct
                           then p'\<lparr>ownedPieces := bm_set B (ownedPieces p) i True,
                                   selector := OnPieceDownload (selector p) i\<rparr>
                           else p', st')))"

definition blocks :: "'bm pieces \<Rightarrow> int list" where
  "blocks p = map pc_blocks (pcs p)"

definition isValid :: "'bm pieces \<Rightarrow> int \<Rightarrow> bool" where
  "isValid p i \<longleftrightarrow> 0 \<le> i \<and> i < int (length (pcs p))"

definition isLast :: "'bm pieces \<Rightarrow> int \<Rightarrow> bool" where
  "isLast p i \<longleftrightarrow> i = int (length (pcs p)) - 1"

definition pieces_haveAll :: "'bm bitmap_ops \<Rightarrow> int \<Rightarrow> 'bm pieces \<Rightarrow> bool" where
  "pieces_haveAll B numPieces p \<longleftrightarrow> bm_len B (ownedPieces p) = numPieces"

end
