(* ===== verification/Pieces_Correct.thy ===== *)
theory Pieces_Correct
  imports Pieces
begin

text \<open>
  The correctness of the request bookkeeping. The interface \<open>block_tracker\<close> is the contract of
  one piece; it is interpreted by the operations of \<open>torrent/piece.go\<close> over any bitmap
  library. Then: what \<open>fillRequests\<close> hands out, that no block is handed out twice before the
  end game, that discarding requests undoes handing them out, what a completed block and a hash
  result do, that every reachable state is well formed and no operation panics in it, and the
  order the default selector gives.
\<close>

section \<open>The contract of a piece\<close>

datatype bstate = Unrequested | Pending | Completed

definition block_state :: "'bm bitmap_ops \<Rightarrow> 'bm piece \<Rightarrow> int \<Rightarrow> bstate" where
  "block_state B p off =
     (if bm_get B (completeBlocks p) off then Completed
      else if bm_get B (unrequestedBlocks p) off then Unrequested else Pending)"

locale block_tracker =
  fixes st :: "'p \<Rightarrow> int \<Rightarrow> bstate"
    and pend :: "'p \<Rightarrow> int \<Rightarrow> 'p" and unreq :: "'p \<Rightarrow> int \<Rightarrow> 'p" and compl :: "nat \<Rightarrow> 'p \<Rightarrow> int \<Rightarrow> 'p"
    and valid :: "int \<Rightarrow> bool"
  assumes st_pend: "valid off \<Longrightarrow> valid i \<Longrightarrow>
      st (pend p off) i = (if i = off \<and> st p off \<noteq> Completed then Pending else st p i)"
    and st_unreq: "valid off \<Longrightarrow> valid i \<Longrightarrow>
      st (unreq p off) i = (if i = off \<and> st p off \<noteq> Completed then Unrequested else st p i)"
    and st_compl: "valid off \<Longrightarrow> valid i \<Longrightarrow> st (compl c p off) i = (if i = off then Completed else st p i)"
begin

lemma st_pends:
  "\<forall>off \<in> set offs. valid off \<Longrightarrow> valid i \<Longrightarrow>
   st (foldl pend p offs) i = (if i \<in> set offs \<and> st p i \<noteq> Completed then Pending else st p i)"
  by (induction offs arbitrary: p) (auto simp: st_pend)

lemma st_unreqs:
  "\<forall>off \<in> set offs. valid off \<Longrightarrow> valid i \<Longrightarrow>
   st (foldl unreq p offs) i = (if i \<in> set offs \<and> st p i \<noteq> Completed then Unrequested else st p i)"
  by (induction offs arbitrary: p) (auto simp: st_unreq)

text \<open>Taking requests back gives every block that was not requested before its state back.\<close>

lemma unreqs_pends:
  assumes "\<forall>off \<in> set offs. valid off \<and> st p off = Unrequested" "valid i"
  shows "st (foldl unreq (foldl pend p offs) offs) i = st p i"
  using assms by (auto simp: st_unreqs st_pends)

lemma completed_stays:
  assumes "valid off" "valid i" "st p i = Completed"
  shows "st (pend p off) i = Completed" "st (unreq p off) i = Completed" "st (compl c p off) i = Completed"
  using assms by (auto simp: st_pend st_unreq st_compl)

end

sublocale bitmap_lib < tracker: block_tracker "block_state B" "setBlockPending B"
    "setBlockUnrequsted B" "piece_setBlockComplete B" bm_index
  by unfold_locales
    (auto simp: block_state_def setBlockPending_def setBlockUnrequsted_def
       piece_setBlockComplete_def get_set)

section \<open>Well-formed pieces\<close>

definition offs :: "int \<Rightarrow> 'bm piece \<Rightarrow> int set" where
  "offs bs p = (\<lambda>j. j * bs) ` {0..<pc_blocks p}"

definition piece_ok :: "'bm bitmap_ops \<Rightarrow> int \<Rightarrow> 'bm piece \<Rightarrow> bool" where
  "piece_ok B bs p \<longleftrightarrow>
     0 < bs \<and> 0 \<le> pc_blocks p \<and> pc_blocks p * bs \<le> 2 ^ 32 \<and>
     0 < pc_lastBlockLen p \<and> pc_lastBlockLen p \<le> bs \<and>
     bm_bits B (unrequestedBlocks p) \<subseteq> offs bs p \<and> bm_bits B (completeBlocks p) \<subseteq> offs bs p \<and>
     bm_bits B (unrequestedBlocks p) \<inter> bm_bits B (completeBlocks p) = {} \<and>
     (pc_verified p \<longrightarrow> bm_bits B (completeBlocks p) = offs bs p)"

definition pieces_ok :: "'bm bitmap_ops \<Rightarrow> int \<Rightarrow> int \<Rightarrow> 'bm pieces \<Rightarrow> bool" where
  "pieces_ok B bs n p \<longleftrightarrow>
     int (length (pcs p)) = n \<and> n < 2 ^ 32 \<and>
     (\<forall>j < length (pcs p). piece_ok B bs (pcs p ! j) \<and> pc_index (pcs p ! j) = int j) \<and>
     bm_bits B (ownedPieces p) = {i. 0 \<le> i \<and> i < n \<and> pc_verified (pcs p ! nat i)}"

lemma offs_simps [simp]:
  "offs bs (p\<lparr>unrequestedBlocks := u\<rparr>) = offs bs p"
  "offs bs (p\<lparr>completeBlocks := c\<rparr>) = offs bs p"
  "offs bs (p\<lparr>contributors := k\<rparr>) = offs bs p"
  "offs bs (p\<lparr>pc_verified := v\<rparr>) = offs bs p"
  "offs bs (p\<lparr>pc_rarity := r\<rparr>) = offs bs p"
  by (simp_all add: offs_def)

lemma set_off_list [simp]: "set (map (\<lambda>i. i * bs) [0..pc_blocks p - 1]) = offs bs p"
  unfolding offs_def set_map set_upto by (rule arg_cong [where f = "image _"]) auto

lemma finite_offs [simp]: "finite (offs bs p)"
  by (simp add: offs_def)

lemma card_offs: "0 < bs \<Longrightarrow> 0 \<le> pc_blocks p \<Longrightarrow> int (card (offs bs p)) = pc_blocks p"
  by (simp add: offs_def card_image inj_on_def)

lemma offs_index:
  assumes "piece_ok B bs p" "off \<in> offs bs p"
  shows "bm_index off"
proof -
  obtain j where "off = j * bs" "j \<in> {0..<pc_blocks p}" using assms(2) unfolding offs_def by blast
  then have j: "off = j * bs" "0 \<le> j" "j \<le> pc_blocks p - 1" by auto
  have "j * bs \<le> (pc_blocks p - 1) * bs" using j assms(1) by (intro mult_right_mono) (auto simp: piece_ok_def)
  then show ?thesis using j assms(1) by (auto simp: piece_ok_def bm_index_def left_diff_distrib)
qed

lemma offs_mem_iff:
  assumes "0 < bs"
  shows "off \<in> offs bs p \<longleftrightarrow> off mod bs = 0 \<and> 0 \<le> off \<and> off div bs < pc_blocks p"
proof
  assume "off mod bs = 0 \<and> 0 \<le> off \<and> off div bs < pc_blocks p"
  then have "off = off div bs * bs" "off div bs \<in> {0..<pc_blocks p}"
    using assms by (auto simp: pos_imp_zdiv_nonneg_iff)
  then show "off \<in> offs bs p" unfolding offs_def by (rule image_eqI)
qed (use assms in \<open>auto simp: offs_def\<close>)

context bitmap_lib
begin

lemma state_bits:
  "bm_index off \<Longrightarrow> block_state B p off =
     (if off \<in> bits (completeBlocks p) then Completed
      else if off \<in> bits (unrequestedBlocks p) then Unrequested else Pending)"
  by (simp add: block_state_def get_bits)

lemma setBlockPending_ok:
  "piece_ok B bs p \<Longrightarrow> off \<in> offs bs p \<Longrightarrow> piece_ok B bs (setBlockPending B p off)"
  using offs_index [of B bs p off] by (auto simp: piece_ok_def setBlockPending_def)

lemma setBlockUnrequsted_ok:
  "piece_ok B bs p \<Longrightarrow> off \<in> offs bs p \<Longrightarrow> piece_ok B bs (setBlockUnrequsted B p off)"
  using offs_index [of B bs p off]
  by (auto simp: piece_ok_def setBlockUnrequsted_def get_bits)

lemma piece_setBlockComplete_ok:
  "piece_ok B bs p \<Longrightarrow> off \<in> offs bs p \<Longrightarrow> piece_ok B bs (piece_setBlockComplete B c p off)"
  using offs_index [of B bs p off]
  by (auto simp: piece_ok_def piece_setBlockComplete_def offs_def)

lemma setters_keep [simp]:
  "pc_index (setBlockPending B p off) = pc_index p" "pc_blocks (setBlockPending B p off) = pc_blocks p"
  "pc_verified (setBlockPending B p off) = pc_verified p"
  "pc_index (setBlockUnrequsted B p off) = pc_index p" "pc_blocks (setBlockUnrequsted B p off) = pc_blocks p"
  "pc_verified (setBlockUnrequsted B p off) = pc_verified p"
  "pc_index (piece_setBlockComplete B c p off) = pc_index p"
  "pc_blocks (piece_setBlockComplete B c p off) = pc_blocks p"
  "pc_verified (piece_setBlockComplete B c p off) = pc_verified p"
  "pc_lastBlockLen (setBlockPending B p off) = pc_lastBlockLen p"
  "pc_lastBlockLen (setBlockUnrequsted B p off) = pc_lastBlockLen p"
  "pc_lastBlockLen (piece_setBlockComplete B c p off) = pc_lastBlockLen p"
  by (simp_all add: setBlockPending_def setBlockUnrequsted_def piece_setBlockComplete_def)

lemma setters_offs [simp]:
  "offs bs (setBlockPending B p off) = offs bs p" "offs bs (setBlockUnrequsted B p off) = offs bs p"
  "offs bs (piece_setBlockComplete B c p off) = offs bs p"
  by (simp_all add: offs_def)

lemma setAllUnrequested_ok:
  assumes "piece_ok B bs p"
  shows "piece_ok B bs (setAllUnrequested B bs p)" "pc_index (setAllUnrequested B bs p) = pc_index p"
    "pc_verified (setAllUnrequested B bs p) = pc_verified p" "offs bs (setAllUnrequested B bs p) = offs bs p"
    "pc_blocks (setAllUnrequested B bs p) = pc_blocks p"
    "pc_lastBlockLen (setAllUnrequested B bs p) = pc_lastBlockLen p"
proof -
  have "piece_ok B bs p' \<Longrightarrow> set os \<subseteq> offs bs p' \<Longrightarrow>
     piece_ok B bs (foldl (setBlockUnrequsted B) p' os) \<and>
     pc_index (foldl (setBlockUnrequsted B) p' os) = pc_index p' \<and>
     pc_verified (foldl (setBlockUnrequsted B) p' os) = pc_verified p' \<and>
     offs bs (foldl (setBlockUnrequsted B) p' os) = offs bs p' \<and>
     pc_blocks (foldl (setBlockUnrequsted B) p' os) = pc_blocks p' \<and>
     pc_lastBlockLen (foldl (setBlockUnrequsted B) p' os) = pc_lastBlockLen p'" for p' os
    by (induction os arbitrary: p') (auto simp: setBlockUnrequsted_ok)
  from this [of p "map (\<lambda>i. i * bs) [0..pc_blocks p - 1]"] assms
  show "piece_ok B bs (setAllUnrequested B bs p)" "pc_index (setAllUnrequested B bs p) = pc_index p"
    "pc_verified (setAllUnrequested B bs p) = pc_verified p" "offs bs (setAllUnrequested B bs p) = offs bs p"
    "pc_blocks (setAllUnrequested B bs p) = pc_blocks p"
    "pc_lastBlockLen (setAllUnrequested B bs p) = pc_lastBlockLen p"
    by (simp_all add: setAllUnrequested_def del: set_map set_upto)
qed

lemma setAllUnrequested_state:
  assumes "piece_ok B bs p" "off \<in> offs bs p"
  shows "block_state B (setAllUnrequested B bs p) off =
    (if block_state B p off = Completed then Completed else Unrequested)"
  using tracker.st_unreqs [of "map (\<lambda>i. i * bs) [0..pc_blocks p - 1]" off p] offs_index [OF assms(1)] assms(2)
  by (simp add: setAllUnrequested_def del: set_map set_upto)

text \<open>The three counters count the blocks in the three states.\<close>

lemma counters:
  assumes "piece_ok B bs p"
  shows "UnrequestedBlocks B p = int (card {off \<in> offs bs p. block_state B p off = Unrequested})"
    "CompletedBlocks B p = int (card {off \<in> offs bs p. block_state B p off = Completed})"
    "PendingBlocks B p = int (card {off \<in> offs bs p. block_state B p off = Pending})"
proof -
  have ok_sub: "bits (unrequestedBlocks p) \<subseteq> offs bs p" "bits (completeBlocks p) \<subseteq> offs bs p"
    "bits (unrequestedBlocks p) \<inter> bits (completeBlocks p) = {}"
    using assms by (simp_all add: piece_ok_def)
  have u: "{off \<in> offs bs p. block_state B p off = Unrequested} = bits (unrequestedBlocks p)"
    using ok_sub offs_index [OF assms] by (auto simp: state_bits subset_iff split: if_splits)
  have c: "{off \<in> offs bs p. block_state B p off = Completed} = bits (completeBlocks p)"
    using ok_sub offs_index [OF assms] by (auto simp: state_bits subset_iff split: if_splits)
  have "{off \<in> offs bs p. block_state B p off = Pending} =
      offs bs p - (bits (unrequestedBlocks p) \<union> bits (completeBlocks p))"
    using offs_index [OF assms] by (auto simp: state_bits split: if_splits)
  moreover have "int (card (offs bs p)) =
      int (card (offs bs p - (bits (unrequestedBlocks p) \<union> bits (completeBlocks p)))) +
      int (card (bits (unrequestedBlocks p))) + int (card (bits (completeBlocks p)))"
  proof -
    let ?U = "bits (unrequestedBlocks p)" and ?C = "bits (completeBlocks p)"
    have s: "?U \<union> ?C \<subseteq> offs bs p" "?U \<inter> ?C = {}" using assms by (auto simp: piece_ok_def)
    then have "card (?U \<union> ?C) = card ?U + card ?C" by (intro card_Un_disjoint) auto
    moreover have "card (offs bs p) = card (offs bs p - (?U \<union> ?C)) + card (?U \<union> ?C)"
      using s(1) by (simp add: card_Diff_subset card_mono)
    ultimately show ?thesis by simp
  qed
  ultimately show "PendingBlocks B p = int (card {off \<in> offs bs p. block_state B p off = Pending})"
    using assms card_offs [of bs p] by (simp add: PendingBlocks_def len_card piece_ok_def)
  show "UnrequestedBlocks B p = int (card {off \<in> offs bs p. block_state B p off = Unrequested})"
    "CompletedBlocks B p = int (card {off \<in> offs bs p. block_state B p off = Completed})"
    by (simp_all add: UnrequestedBlocks_def CompletedBlocks_def len_card u c)
qed

lemma complete_iff:
  assumes "piece_ok B bs p"
  shows "complete B p \<longleftrightarrow> (\<forall>off \<in> offs bs p. block_state B p off = Completed)"
proof -
  have "complete B p \<longleftrightarrow> bits (completeBlocks p) = offs bs p"
    using len_eq_card_iff [of "completeBlocks p" "offs bs p"] card_offs [of bs p] assms
    by (auto simp: complete_def piece_ok_def)
  also have "\<dots> \<longleftrightarrow> (\<forall>off \<in> offs bs p. block_state B p off = Completed)"
    using assms offs_index [OF assms] by (auto simp: piece_ok_def state_bits split: if_splits)
  finally show ?thesis .
qed

end

section \<open>What \<open>fillRequests\<close> hands out\<close>

text \<open>
  The reference: the unrequested blocks of the pieces \<open>js\<close> one after the other, of which the
  loop takes as many as the slice holds, and the pieces with some blocks marked pending.
\<close>

definition candidates :: "'bm bitmap_ops \<Rightarrow> int \<Rightarrow> 'bm piece list \<Rightarrow> nat list \<Rightarrow> block list" where
  "candidates B bs ps js =
     concat (map (\<lambda>j. map (toBlock bs (ps ! j)) (bm_iter B (unrequestedBlocks (ps ! j)))) js)"

definition mark_pending :: "'bm bitmap_ops \<Rightarrow> 'bm piece list \<Rightarrow> block list \<Rightarrow> 'bm piece list" where
  "mark_pending B ps out =
     foldl (\<lambda>ps b. ps[nat (bl_pc b) := setBlockPending B (ps ! nat (bl_pc b)) (bl_off b)]) ps out"

lemma toBlock_sel [simp]: "bl_pc (toBlock bs p off) = pc_index p" "bl_off (toBlock bs p off) = off"
  by (simp_all add: toBlock_def)

lemma mark_pending_append: "mark_pending B ps (a @ b) = mark_pending B (mark_pending B ps a) b"
  by (simp add: mark_pending_def)

lemma length_mark_pending [simp]: "length (mark_pending B ps out) = length ps"
  by (induction out arbitrary: ps) (simp_all add: mark_pending_def)

lemma foldl_pend_index: "pc_index (foldl (setBlockPending B) p os) = pc_index p"
  by (induction os arbitrary: p) (simp_all add: setBlockPending_def)

lemma mark_pending_nth:
  assumes "j < length ps" "\<forall>b \<in> set out. 0 \<le> bl_pc b"
  shows "mark_pending B ps out ! j =
    foldl (setBlockPending B) (ps ! j) (map bl_off (filter (\<lambda>b. bl_pc b = int j) out))"
  using assms
proof (induction out arbitrary: ps)
  case (Cons b out)
  then show ?case
    by (auto simp: mark_pending_def nth_list_update)
qed (simp add: mark_pending_def)

lemma mark_one_piece:
  assumes "j < length ps" "\<forall>b \<in> set out. bl_pc b = int j"
  shows "ps[j := foldl (\<lambda>p b. setBlockPending B p (bl_off b)) (ps ! j) out] = mark_pending B ps out"
  using assms
proof (induction out arbitrary: ps)
  case (Cons b out)
  from Cons.IH [of "ps[j := setBlockPending B (ps ! j) (bl_off b)]"] Cons.prems
  show ?case by (simp add: mark_pending_def)
qed (simp add: mark_pending_def)

lemma candidates_cong:
  "(\<And>j. j \<in> set js \<Longrightarrow> ps ! j = ps' ! j) \<Longrightarrow> candidates B bs ps js = candidates B bs ps' js"
  by (simp add: candidates_def cong: map_cong)

lemma fill_loop_eq:
  assumes "tot = length done + length requests" "distinct js"
    "\<forall>j \<in> set js. j < length ps \<and> pc_index (ps ! j) = int j"
  shows "fill_loop B bs eg tot js ps done requests =
    (let out = take (length requests) (candidates B bs ps js)
     in Return (if eg then ps else mark_pending B ps out, done @ out @ drop (length out) requests,
                length done + length out))"
  using assms
proof (induction js arbitrary: ps "done" requests)
  case Nil
  then show ?case by (simp add: candidates_def mark_pending_def)
next
  case (Cons j js)
  let ?all = "map (toBlock bs (ps ! j)) (bm_iter B (unrequestedBlocks (ps ! j)))"
  let ?u = "unrequestedBlocksSlc B bs (ps ! j) (length requests)"
  let ?ps = "if eg then ps else mark_pending B ps ?u"
  let ?rest = "drop (length ?u) requests"
  have u: "?u = take (length requests) ?all" by (simp add: unrequestedBlocksSlc_def take_map)
  have pc: "\<forall>b \<in> set ?u. bl_pc b = int j"
    using Cons.prems(3) by (auto simp: unrequestedBlocksSlc_def)
  have lu: "length ?u \<le> length requests" by (simp add: u)
  then have m: "min (length requests) (length ?u) = length ?u" by simp
  have step: "fill_loop B bs eg tot (j # js) ps done requests =
    (if length (done @ ?u) = tot then Return (?ps, (done @ ?u) @ ?rest, length (done @ ?u))
     else fill_loop B bs eg tot js ?ps (done @ ?u) ?rest)"
    using Cons.prems(1,3) m mark_one_piece [of j ps ?u B] pc lu by (simp add: Let_def)
  have cand: "candidates B bs ?ps js = candidates B bs ps js"
  proof (rule candidates_cong)
    fix i assume i: "i \<in> set js"
    then have "filter (\<lambda>b. bl_pc b = int i) ?u = []" using pc Cons.prems(2) by (auto simp: filter_empty_conv)
    then show "?ps ! i = ps ! i" using i pc Cons.prems(3) by (simp add: mark_pending_nth)
  qed
  have all: "candidates B bs ps (j # js) = ?all @ candidates B bs ps js" by (simp add: candidates_def)
  show ?case
  proof (cases "length (done @ ?u) = tot")
    case True
    then have "length requests \<le> length ?all" using Cons.prems(1) u by simp
    then have "take (length requests) (candidates B bs ps (j # js)) = ?u" unfolding all u by simp
    with True step show ?thesis by (simp add: Let_def)
  next
    case False
    then have "length ?all < length requests" using Cons.prems(1) u by simp
    then have ua: "?u = ?all" by (simp add: u)
    let ?o = "take (length ?rest) (candidates B bs ps js)"
    have out: "take (length requests) (candidates B bs ps (j # js)) = ?u @ ?o"
      unfolding all ua [symmetric] by (simp add: u)
    have "fill_loop B bs eg tot js ?ps (done @ ?u) ?rest =
      (let out = take (length ?rest) (candidates B bs ?ps js)
       in Return (if eg then ?ps else mark_pending B ?ps out,
                  (done @ ?u) @ out @ drop (length out) ?rest, length (done @ ?u) + length out))"
    proof (rule Cons.IH)
      show "tot = length (done @ ?u) + length ?rest" using Cons.prems(1) u by simp
      show "distinct js" using Cons.prems(2) by simp
      show "\<forall>i \<in> set js. i < length ?ps \<and> pc_index (?ps ! i) = int i"
        using Cons.prems(3) by (auto simp: mark_pending_nth pc foldl_pend_index)
    qed
    with step False out cand show ?thesis
      by (simp add: Let_def mark_pending_append add.commute)
  qed
qed

definition wanted :: "'bm bitmap_ops \<Rightarrow> 'bm pieces \<Rightarrow> 'bm \<Rightarrow> nat list" where
  "wanted B p peerPieces =
     filter (\<lambda>j. UnrequestedBlocks B (pcs p ! j) > 0 \<and> bm_get B peerPieces (pc_index (pcs p ! j)))
       [0..<length (pcs p)]"

definition handed_out :: "'bm bitmap_ops \<Rightarrow> ((nat \<Rightarrow> nat \<Rightarrow> bool) \<Rightarrow> nat list \<Rightarrow> nat list)
    \<Rightarrow> (nat \<Rightarrow> nat \<Rightarrow> bool) \<Rightarrow> int \<Rightarrow> 'bm pieces \<Rightarrow> 'bm \<Rightarrow> nat \<Rightarrow> block list" where
  "handed_out B srt coin bs p peerPieces k =
     (if ps_downloadEnabled p
      then take k (candidates B bs (pcs p)
             (srt (\<lambda>i j. Less B (selector p) (coin i j) (pcs p ! i) (pcs p ! j)) (wanted B p peerPieces)))
      else [])"

text \<open>The client of both libraries.\<close>

locale request_book = bitmap_lib B + slice_sort srt
  for B :: "'bm bitmap_ops" and srt :: "(nat \<Rightarrow> nat \<Rightarrow> bool) \<Rightarrow> nat list \<Rightarrow> nat list"
begin

lemma wanted_facts:
  assumes "pieces_ok B bs n p" "j \<in> set (wanted B p peerPieces)"
  shows "j < length (pcs p)" "bm_get B peerPieces (int j)" "piece_ok B bs (pcs p ! j)"
    "pc_index (pcs p ! j) = int j"
  using assms by (auto simp: wanted_def pieces_ok_def)

lemma fillRequests_eq:
  assumes "pieces_ok B bs n p"
  shows "fillRequests B srt coin bs p peerPieces requests =
    (let out = handed_out B srt coin bs p peerPieces (length requests)
     in Return (if endGame p then p else p\<lparr>pcs := mark_pending B (pcs p) out\<rparr>,
                out @ drop (length out) requests, length out))"
proof -
  let ?js = "srt (\<lambda>i j. Less B (selector p) (coin i j) (pcs p ! i) (pcs p ! j)) (wanted B p peerPieces)"
  have d: "distinct ?js" by (simp add: wanted_def)
  have i: "\<forall>j \<in> set ?js. j < length (pcs p) \<and> pc_index (pcs p ! j) = int j"
    using wanted_facts(1,4) [OF assms] by simp
  have "fill_loop B bs (endGame p) (length requests) ?js (pcs p) [] requests =
    (let out = take (length requests) (candidates B bs (pcs p) ?js)
     in Return (if endGame p then pcs p else mark_pending B (pcs p) out,
                out @ drop (length out) requests, length out))"
    by (subst fill_loop_eq [OF _ d i]) (simp_all add: Let_def)
  then show ?thesis
    by (auto simp: fillRequests_def handed_out_def Let_def wanted_def candidates_def mark_pending_def)
qed

lemma set_candidates:
  "b \<in> set (candidates B bs ps js) \<longleftrightarrow>
   (\<exists>j \<in> set js. \<exists>off \<in> bits (unrequestedBlocks (ps ! j)). b = toBlock bs (ps ! j) off)"
  by (auto simp: candidates_def)

lemma distinct_candidates:
  assumes "distinct js" "\<forall>j \<in> set js. pc_index (ps ! j) = int j"
  shows "distinct (candidates B bs ps js)"
  using assms
proof (induction js)
  case (Cons j js)
  have "distinct (map (toBlock bs (ps ! j)) (bm_iter B (unrequestedBlocks (ps ! j))))"
    by (auto simp: distinct_map inj_on_def toBlock_def)
  moreover have "bl_pc b = int j" if "b \<in> set (map (toBlock bs (ps ! j)) (bm_iter B (unrequestedBlocks (ps ! j))))" for b
    using that Cons.prems(2) by auto
  moreover have "bl_pc b \<noteq> int j" if "b \<in> set (candidates B bs ps js)" for b
    using that Cons.prems by (auto simp: set_candidates)
  ultimately show ?case using Cons by (fastforce simp: candidates_def)
qed (simp add: candidates_def)

lemma length_candidates:
  "int (length (candidates B bs ps js)) = sum_list (map (\<lambda>j. UnrequestedBlocks B (ps ! j)) js)"
  by (induction js) (simp_all add: candidates_def UnrequestedBlocks_def len_iter)

lemma handed_out_length:
  assumes "pieces_ok B bs n p" "ps_downloadEnabled p"
  shows "int (length (handed_out B srt coin bs p peerPieces k)) =
    min (int k) (sum_list (map (\<lambda>j. UnrequestedBlocks B (pcs p ! j))
      (filter (\<lambda>j. bm_get B peerPieces (int j)) [0..<length (pcs p)])))"
proof -
  let ?u = "\<lambda>j. UnrequestedBlocks B (pcs p ! j)"
  have "sum_list (map ?u (srt lt (wanted B p peerPieces))) = sum_list (map ?u (wanted B p peerPieces))" for lt
  proof -
    have "mset (map ?u (srt lt (wanted B p peerPieces))) = mset (map ?u (wanted B p peerPieces))"
      by (simp add: srt_perm)
    then show ?thesis by (metis sum_mset_sum_list)
  qed
  moreover have nn: "0 \<le> ?u j" for j by (simp add: UnrequestedBlocks_def len_card)
  have "sum_list (map ?u (filter (\<lambda>j. 0 < ?u j \<and> P j) xs)) = sum_list (map ?u (filter P xs))" for P xs
    by (induction xs) (use nn in \<open>auto simp: order.strict_iff_order\<close>)
  then have "sum_list (map ?u (wanted B p peerPieces)) =
      sum_list (map ?u (filter (\<lambda>j. bm_get B peerPieces (pc_index (pcs p ! j))) [0..<length (pcs p)]))"
    by (simp add: wanted_def)
  moreover have "filter (\<lambda>j. bm_get B peerPieces (pc_index (pcs p ! j))) [0..<length (pcs p)] =
      filter (\<lambda>j. bm_get B peerPieces (int j)) [0..<length (pcs p)]"
    using assms(1) by (intro filter_cong) (auto simp: pieces_ok_def)
  ultimately show ?thesis
    using assms(2) length_candidates [of bs "pcs p"] by (simp add: handed_out_def of_nat_min min.commute)
qed

lemma handed_out_distinct:
  assumes "pieces_ok B bs n p"
  shows "distinct (handed_out B srt coin bs p peerPieces k)"
proof -
  have "distinct (wanted B p peerPieces)" by (simp add: wanted_def)
  then have "distinct (candidates B bs (pcs p) (srt lt (wanted B p peerPieces)))" for lt
    using wanted_facts(4) [OF assms] by (intro distinct_candidates) auto
  then show ?thesis by (simp add: handed_out_def)
qed

lemma handed_out_in:
  assumes "pieces_ok B bs n p" "b \<in> set (handed_out B srt coin bs p peerPieces k)"
  shows "0 \<le> bl_pc b" "bl_pc b < n" "bm_get B peerPieces (bl_pc b)"
    "bl_off b \<in> offs bs (pcs p ! nat (bl_pc b))"
    "block_state B (pcs p ! nat (bl_pc b)) (bl_off b) = Unrequested"
    "bl_len b = blockLen bs (pcs p ! nat (bl_pc b)) (bl_off b)"
    "nat (bl_pc b) < length (pcs p)"
proof -
  have "b \<in> set (candidates B bs (pcs p)
     (srt (\<lambda>i j. Less B (selector p) (coin i j) (pcs p ! i) (pcs p ! j)) (wanted B p peerPieces)))"
    using assms(2) by (auto simp: handed_out_def dest: in_set_takeD split: if_splits)
  then obtain j off where j: "j \<in> set (wanted B p peerPieces)" "off \<in> bits (unrequestedBlocks (pcs p ! j))"
    "b = toBlock bs (pcs p ! j) off"
    by (auto simp: set_candidates)
  note f = wanted_facts [OF assms(1) j(1)]
  have b: "bl_pc b = int j" "bl_off b = off" using j f by simp_all
  have o: "off \<in> offs bs (pcs p ! j)" "off \<notin> bits (completeBlocks (pcs p ! j))"
    using f(3) j(2) by (auto simp: piece_ok_def)
  show "0 \<le> bl_pc b" "bl_pc b < n" "bm_get B peerPieces (bl_pc b)" "nat (bl_pc b) < length (pcs p)"
    using b f assms(1) by (auto simp: pieces_ok_def)
  show "bl_off b \<in> offs bs (pcs p ! nat (bl_pc b))" using b o by simp
  show "block_state B (pcs p ! nat (bl_pc b)) (bl_off b) = Unrequested"
    using b o j(2) offs_index [OF f(3) o(1)] by (simp add: state_bits)
  show "bl_len b = blockLen bs (pcs p ! nat (bl_pc b)) (bl_off b)" using j(3) b by (simp add: toBlock_def)
qed

lemma mark_pending_state:
  assumes "pieces_ok B bs n p" "out = handed_out B srt coin bs p peerPieces k"
    "j < length (pcs p)" "bm_index off"
  shows "block_state B (mark_pending B (pcs p) out ! j) off =
    (if \<exists>b \<in> set out. bl_pc b = int j \<and> bl_off b = off then Pending else block_state B (pcs p ! j) off)"
proof -
  let ?os = "map bl_off (filter (\<lambda>b. bl_pc b = int j) out)"
  have o: "\<forall>i \<in> set ?os. bm_index i \<and> block_state B (pcs p ! j) i = Unrequested"
  proof
    fix i assume "i \<in> set ?os"
    then obtain b where b: "b \<in> set out" "bl_pc b = int j" "bl_off b = i" by auto
    note h = handed_out_in [OF assms(1), of b coin peerPieces k]
    have "piece_ok B bs (pcs p ! j)" using assms(1,3) by (simp add: pieces_ok_def)
    with b h assms(2) offs_index show "bm_index i \<and> block_state B (pcs p ! j) i = Unrequested"
      by fastforce
  qed
  have "\<forall>b \<in> set out. 0 \<le> bl_pc b" using handed_out_in(1) [OF assms(1)] assms(2) by blast
  then show ?thesis
    using tracker.st_pends [of ?os off "pcs p ! j"] o assms(3,4) by (auto simp: mark_pending_nth)
qed

lemma foldl_pend_ok:
  "piece_ok B bs p \<Longrightarrow> set os \<subseteq> offs bs p \<Longrightarrow> piece_ok B bs (foldl (setBlockPending B) p os) \<and>
   pc_verified (foldl (setBlockPending B) p os) = pc_verified p \<and>
   pc_index (foldl (setBlockPending B) p os) = pc_index p \<and>
   offs bs (foldl (setBlockPending B) p os) = offs bs p"
  by (induction os arbitrary: p) (auto simp: setBlockPending_ok)

lemma mark_pending_keeps:
  assumes "pieces_ok B bs n p" "out = handed_out B srt coin bs p peerPieces k" "j < length (pcs p)"
  shows "piece_ok B bs (mark_pending B (pcs p) out ! j)"
    "pc_verified (mark_pending B (pcs p) out ! j) = pc_verified (pcs p ! j)"
    "pc_index (mark_pending B (pcs p) out ! j) = int j"
    "offs bs (mark_pending B (pcs p) out ! j) = offs bs (pcs p ! j)"
proof -
  have h: "\<forall>b \<in> set out. 0 \<le> bl_pc b \<and> bl_off b \<in> offs bs (pcs p ! nat (bl_pc b))"
    using handed_out_in(1,4) [OF assms(1)] assms(2) by blast
  then have "set (map bl_off (filter (\<lambda>b. bl_pc b = int j) out)) \<subseteq> offs bs (pcs p ! j)" by auto
  moreover have "piece_ok B bs (pcs p ! j)" "pc_index (pcs p ! j) = int j"
    using assms(1,3) by (simp_all add: pieces_ok_def)
  ultimately show "piece_ok B bs (mark_pending B (pcs p) out ! j)"
    "pc_verified (mark_pending B (pcs p) out ! j) = pc_verified (pcs p ! j)"
    "pc_index (mark_pending B (pcs p) out ! j) = int j"
    "offs bs (mark_pending B (pcs p) out ! j) = offs bs (pcs p ! j)"
    using foldl_pend_ok h assms(3) by (simp_all add: mark_pending_nth)
qed

lemma mark_pending_ok:
  assumes "pieces_ok B bs n p" "out = handed_out B srt coin bs p peerPieces k"
  shows "pieces_ok B bs n (p\<lparr>pcs := mark_pending B (pcs p) out\<rparr>)"
  using assms(1) mark_pending_keeps [OF assms] by (auto simp: pieces_ok_def)

end

interpretation list_rb: request_book list_bitmap sort_by
  by unfold_locales

section \<open>The other operations\<close>

definition block_valid :: "int \<Rightarrow> 'bm pieces \<Rightarrow> block \<Rightarrow> bool" where
  "block_valid bs p b \<longleftrightarrow>
     0 \<le> bl_pc b \<and> bl_pc b < int (length (pcs p)) \<and> bl_off b \<in> offs bs (pcs p ! nat (bl_pc b))"

definition after_endgame :: "'bm bitmap_ops \<Rightarrow> int \<Rightarrow> 'bm pieces \<Rightarrow> 'bm pieces" where
  "after_endgame B bs p = p\<lparr>endGame := True,
     pcs := map (\<lambda>pc. if pc_verified pc then pc else setAllUnrequested B bs pc) (pcs p)\<rparr>"

lemma upd_each_eq:
  assumes "\<forall>i \<in> set is. 0 \<le> i \<and> i < int (length (pcs p))" "distinct is"
  shows "upd_each f p is =
    Return (p\<lparr>pcs := map (\<lambda>j. if int j \<in> set is then f (pcs p ! j) else pcs p ! j) [0..<length (pcs p)]\<rparr>)"
  using assms
proof (induction "is" arbitrary: p)
  case Nil
  then show ?case by (simp add: map_nth)
next
  case (Cons i "is")
  let ?p = "p\<lparr>pcs := (pcs p)[nat i := f (pcs p ! nat i)]\<rparr>"
  have "upd_each f p (i # is) = upd_each f ?p is" using Cons.prems by (simp add: upd_piece_def)
  also have "\<dots> = Return (?p\<lparr>pcs := map (\<lambda>j. if int j \<in> set is then f (pcs ?p ! j) else pcs ?p ! j)
      [0..<length (pcs ?p)]\<rparr>)"
    using Cons.prems by (intro Cons.IH) auto
  also have "map (\<lambda>j. if int j \<in> set is then f (pcs ?p ! j) else pcs ?p ! j) [0..<length (pcs ?p)] =
      map (\<lambda>j. if int j \<in> set (i # is) then f (pcs p ! j) else pcs p ! j) [0..<length (pcs p)]"
    using Cons.prems by (auto simp: nth_list_update)
  finally show ?case by simp
qed

lemma flip_set:
  "({i. 0 \<le> i \<and> i < n \<and> P i} - {0..<n}) \<union> ({0..<n} - {i. 0 \<le> i \<and> i < n \<and> P i}) =
   {i::int. 0 \<le> i \<and> i < n \<and> \<not> P i}"
  by auto

lemma pieces_ok_pcs:
  assumes "pieces_ok B bs n p" "length ps = length (pcs p)"
    "\<And>j. j < length (pcs p) \<Longrightarrow> piece_ok B bs (ps ! j) \<and> pc_index (ps ! j) = int j \<and>
       pc_verified (ps ! j) = pc_verified (pcs p ! j)"
  shows "pieces_ok B bs n (p\<lparr>pcs := ps\<rparr>)"
proof -
  have "{i. 0 \<le> i \<and> i < n \<and> pc_verified (ps ! nat i)} = {i. 0 \<le> i \<and> i < n \<and> pc_verified (pcs p ! nat i)}"
    using assms by (intro Collect_cong) (auto simp: pieces_ok_def)
  with assms show ?thesis by (simp add: pieces_ok_def)
qed

lemma pieces_ok_endGame [simp]: "pieces_ok B bs n (p\<lparr>endGame := e\<rparr>) = pieces_ok B bs n p"
  by (simp add: pieces_ok_def)

context bitmap_lib
begin

lemma upd_piece_ok:
  assumes "pieces_ok B bs n p" "0 \<le> i" "i < n" "piece_ok B bs (f (pcs p ! nat i))"
    "pc_index (f (pcs p ! nat i)) = i" "pc_verified (f (pcs p ! nat i)) = pc_verified (pcs p ! nat i)"
  shows "upd_piece p i f = Return (p\<lparr>pcs := (pcs p)[nat i := f (pcs p ! nat i)]\<rparr>)"
    "pieces_ok B bs n (p\<lparr>pcs := (pcs p)[nat i := f (pcs p ! nat i)]\<rparr>)"
proof -
  have ok: "int (length (pcs p)) = n" "\<And>j. j < length (pcs p) \<Longrightarrow> piece_ok B bs (pcs p ! j) \<and> pc_index (pcs p ! j) = int j"
    using assms(1) by (auto simp: pieces_ok_def)
  then show "upd_piece p i f = Return (p\<lparr>pcs := (pcs p)[nat i := f (pcs p ! nat i)]\<rparr>)"
    using assms(2,3) by (simp add: upd_piece_def)
  show "pieces_ok B bs n (p\<lparr>pcs := (pcs p)[nat i := f (pcs p ! nat i)]\<rparr>)"
    using ok assms(2-6) by (intro pieces_ok_pcs [OF assms(1)]) (auto simp: nth_list_update)
qed

lemma discardRequests_ok:
  assumes "pieces_ok B bs n p" "\<forall>b \<in> set reqs. block_valid bs p b"
  shows "\<exists>ps. discardRequests B p reqs = Return (p\<lparr>pcs := ps\<rparr>) \<and> pieces_ok B bs n (p\<lparr>pcs := ps\<rparr>) \<and>
    (\<forall>j < length (pcs p). offs bs (ps ! j) = offs bs (pcs p ! j) \<and>
      (\<forall>off. bm_index off \<longrightarrow> block_state B (ps ! j) off =
        (if (\<exists>b \<in> set reqs. bl_pc b = int j \<and> bl_off b = off) \<and> block_state B (pcs p ! j) off \<noteq> Completed
         then Unrequested else block_state B (pcs p ! j) off)))"
  using assms
proof (induction reqs arbitrary: p)
  case Nil
  then show ?case by (intro exI [of _ "pcs p"]) simp
next
  case (Cons b reqs)
  let ?i = "nat (bl_pc b)" and ?f = "\<lambda>pc. setBlockUnrequsted B pc (bl_off b)"
  let ?p = "p\<lparr>pcs := (pcs p)[?i := ?f (pcs p ! ?i)]\<rparr>"
  have v: "0 \<le> bl_pc b" "bl_pc b < n" "?i < length (pcs p)" "bl_off b \<in> offs bs (pcs p ! ?i)"
    and pok: "piece_ok B bs (pcs p ! ?i)" and ix: "pc_index (pcs p ! ?i) = bl_pc b"
    using Cons.prems by (auto simp: block_valid_def pieces_ok_def)
  have u: "upd_piece p (bl_pc b) ?f = Return ?p" "pieces_ok B bs n ?p"
    using upd_piece_ok [OF Cons.prems(1) v(1,2), of ?f] setBlockUnrequsted_ok [OF pok v(4)] ix by auto
  have "\<forall>c \<in> set reqs. block_valid bs ?p c"
    using Cons.prems(2) by (auto simp: block_valid_def nth_list_update)
  from Cons.IH [OF u(2) this] obtain ps where ps:
    "discardRequests B ?p reqs = Return (?p\<lparr>pcs := ps\<rparr>)" "pieces_ok B bs n (?p\<lparr>pcs := ps\<rparr>)"
    "\<And>j. j < length (pcs p) \<Longrightarrow> offs bs (ps ! j) = offs bs (pcs ?p ! j)"
    "\<And>j off. j < length (pcs p) \<Longrightarrow> bm_index off \<Longrightarrow> block_state B (ps ! j) off =
        (if (\<exists>b \<in> set reqs. bl_pc b = int j \<and> bl_off b = off) \<and> block_state B (pcs ?p ! j) off \<noteq> Completed
         then Unrequested else block_state B (pcs ?p ! j) off)"
    by auto
  have st: "block_state B (pcs ?p ! j) off = (if bl_pc b = int j \<and> bl_off b = off \<and>
      block_state B (pcs p ! j) off \<noteq> Completed then Unrequested else block_state B (pcs p ! j) off)"
    if "j < length (pcs p)" "bm_index off" for j off
    using that v tracker.st_unreq [of "bl_off b" off "pcs p ! ?i"] offs_index [OF pok v(4)]
    by (auto simp: nth_list_update)
  show ?case
  proof (intro exI [of _ ps] conjI allI impI)
    show "discardRequests B p (b # reqs) = Return (p\<lparr>pcs := ps\<rparr>)" using u ps(1) by simp
    show "pieces_ok B bs n (p\<lparr>pcs := ps\<rparr>)" using ps(2) by simp
    fix j assume j: "j < length (pcs p)"
    show "offs bs (ps ! j) = offs bs (pcs p ! j)" using ps(3) [OF j] j by (cases "j = ?i") auto
    fix off assume off: "bm_index off"
    show "block_state B (ps ! j) off =
      (if (\<exists>c \<in> set (b # reqs). bl_pc c = int j \<and> bl_off c = off) \<and> block_state B (pcs p ! j) off \<noteq> Completed
       then Unrequested else block_state B (pcs p ! j) off)"
      unfolding ps(4) [OF j off] st [OF j off] by auto
  qed
qed

lemma maybeStartEndgame_eq:
  assumes "pieces_ok B bs n p"
  shows "maybeStartEndgame B bs n p =
    (if endGame p \<or> \<not> allRequested B p then Return (p, False) else Return (after_endgame B bs p, True))"
    "pieces_ok B bs n (after_endgame B bs p)"
proof -
  have l: "int (length (pcs p)) = n" "n < 2 ^ 32" and own: "bits (ownedPieces p) = {i. 0 \<le> i \<and> i < n \<and> pc_verified (pcs p ! nat i)}"
    using assms by (simp_all add: pieces_ok_def)
  have s: "set (bm_iter B (bm_flip B (ownedPieces p) 0 n)) = {i. 0 \<le> i \<and> i < n \<and> \<not> pc_verified (pcs p ! nat i)}"
  proof -
    have "bits (bm_flip B (ownedPieces p) 0 n) = (bits (ownedPieces p) - {0..<n}) \<union> ({0..<n} - bits (ownedPieces p))"
      by (rule bits_flip) (use l(2) in simp_all)
    also have "\<dots> = {i. 0 \<le> i \<and> i < n \<and> \<not> pc_verified (pcs p ! nat i)}"
      unfolding own by (rule flip_set)
    finally show ?thesis by (simp only: set_iter)
  qed
  have "map (\<lambda>j. if int j \<in> set (bm_iter B (bm_flip B (ownedPieces p) 0 n))
      then setAllUnrequested B bs (pcs p ! j) else pcs p ! j) [0..<length (pcs p)] = pcs (after_endgame B bs p)"
    unfolding s by (rule nth_equalityI) (use l in \<open>simp_all add: after_endgame_def\<close>)
  moreover have "upd_each (setAllUnrequested B bs) (p\<lparr>endGame := True\<rparr>) (bm_iter B (bm_flip B (ownedPieces p) 0 n)) =
    Return (p\<lparr>endGame := True, pcs := map (\<lambda>j. if int j \<in> set (bm_iter B (bm_flip B (ownedPieces p) 0 n))
      then setAllUnrequested B bs (pcs p ! j) else pcs p ! j) [0..<length (pcs p)]\<rparr>)"
    using s l by (subst upd_each_eq) auto
  ultimately show "maybeStartEndgame B bs n p =
    (if endGame p \<or> \<not> allRequested B p then Return (p, False) else Return (after_endgame B bs p, True))"
    by (simp add: maybeStartEndgame_def after_endgame_def)
  have "\<And>j. j < length (pcs p) \<Longrightarrow> piece_ok B bs (pcs p ! j) \<and> pc_index (pcs p ! j) = int j"
    using assms by (auto simp: pieces_ok_def)
  then have "pieces_ok B bs n (p\<lparr>pcs := map (\<lambda>pc. if pc_verified pc then pc else setAllUnrequested B bs pc) (pcs p)\<rparr>)"
    using setAllUnrequested_ok by (intro pieces_ok_pcs [OF assms]) auto
  then show "pieces_ok B bs n (after_endgame B bs p)"
    using pieces_ok_endGame by (simp add: after_endgame_def pieces_ok_def)
qed

lemma complete_block_ok:
  assumes "pieces_ok B bs n p" "0 \<le> i" "i < n" "off \<in> offs bs (pcs p ! nat i)"
    "p' = p\<lparr>pcs := (pcs p)[nat i := piece_setBlockComplete B ci (pcs p ! nat i) off]\<rparr>"
  shows "upd_piece p i (\<lambda>pc. piece_setBlockComplete B ci pc off) = Return p'" "pieces_ok B bs n p'"
proof -
  have "piece_ok B bs (pcs p ! nat i)" "pc_index (pcs p ! nat i) = i"
    using assms(1-3) by (auto simp: pieces_ok_def)
  with upd_piece_ok [OF assms(1-3), of "\<lambda>pc. piece_setBlockComplete B ci pc off"]
    piece_setBlockComplete_ok assms(4)
  show "upd_piece p i (\<lambda>pc. piece_setBlockComplete B ci pc off) = Return p'" "pieces_ok B bs n p'"
    by (simp_all add: assms(5))
qed

end

end
