(* ===== verification/Pieces_Theorems.thy ===== *)
theory Pieces_Theorems
  imports Pieces_Correct
begin

text \<open>
  The properties of the request bookkeeping, over any bitmap library and any sort that keep
  their contracts, and an example torrent of two pieces on which they are applied.
\<close>

lemma pieces_ok_piece:
  "pieces_ok B bs n p \<Longrightarrow> j < length (pcs p) \<Longrightarrow> piece_ok B bs (pcs p ! j) \<and> pc_index (pcs p ! j) = int j"
  by (simp add: pieces_ok_def)

lemma pieces_ok_index:
  "pieces_ok B bs n p \<Longrightarrow> j < length (pcs p) \<Longrightarrow> off \<in> offs bs (pcs p ! j) \<Longrightarrow> bm_index off"
  using pieces_ok_piece offs_index by blast

section \<open>Fresh pieces\<close>

lemma newPiece_shape:
  assumes "0 \<le> plen" "0 < bs"
  defines "lastBytes \<equiv> go_rem plen bs"
  defines "n \<equiv> if lastBytes \<noteq> 0 then go_quot plen bs + 1 else go_quot plen bs"
  defines "l \<equiv> if lastBytes \<noteq> 0 then lastBytes else bs"
  shows "bs * (n - 1) + l = plen" "0 \<le> n" "0 < l" "l \<le> bs" "n * bs < plen + bs"
proof -
  have r: "lastBytes = plen mod bs" "go_quot plen bs = plen div bs"
    using assms(1,2) by (simp_all add: lastBytes_def go_simps)
  have d: "bs * (plen div bs) + plen mod bs = plen" "0 \<le> plen mod bs" "plen mod bs < bs" "0 \<le> plen div bs"
    using assms(1,2) by (simp_all add: pos_imp_zdiv_nonneg_iff)
  then show "0 \<le> n" "0 < l" "l \<le> bs" using r by (auto simp: n_def l_def)
  show "bs * (n - 1) + l = plen" using d r by (auto simp: n_def l_def right_diff_distrib distrib_left)
  have "n * bs \<le> plen div bs * bs + bs" "plen mod bs = 0 \<Longrightarrow> n * bs = plen div bs * bs"
    using assms(2) r by (auto simp: n_def distrib_right)
  moreover have "plen div bs * bs = plen - plen mod bs" by (rule div_mult_mod_eq [THEN eq_diff_eq [THEN iffD2]])
  ultimately show "n * bs < plen + bs" using d(2) assms(2) by (cases "plen mod bs = 0") (simp, linarith)
qed

lemma pieceLen_eq:
  assumes "info_ok info" "0 \<le> i" "i < NumPieces info"
  shows "pieceLen info (TotalLength info) i =
    Return (if i = NumPieces info - 1 then TotalLength info mod id_pieceLen info else id_pieceLen info)"
proof -
  have "0 < id_pieceLen info" using assms(1) by (simp add: info_ok_def)
  with info_ok_pieces(4) [OF assms(1)] show ?thesis by (simp add: pieceLen_def go_simps)
qed

lemma blockSize_ok:
  "info_ok info \<Longrightarrow> 0 < blockSize info \<and> blockSize info \<le> id_pieceLen info \<and> blockSize info \<le> 2 ^ 14"
  by (auto simp: blockSize_def info_ok_def)

context bitmap_lib
begin

lemma newPiece_ok:
  assumes "info_ok info" "0 \<le> i" "i < NumPieces info"
  shows "\<exists>pc. newPiece B info (TotalLength info) (blockSize info) i = Return pc \<and>
    piece_ok B (blockSize info) pc \<and> pc_index pc = i \<and> \<not> pc_verified pc \<and>
    piece_length (blockSize info) pc =
      (if i = NumPieces info - 1 then TotalLength info mod id_pieceLen info else id_pieceLen info) \<and>
    (\<forall>off \<in> offs (blockSize info) pc. block_state B pc off = Unrequested)"
proof -
  let ?bs = "blockSize info"
  let ?plen = "if i = NumPieces info - 1 then TotalLength info mod id_pieceLen info else id_pieceLen info"
  have P: "0 < id_pieceLen info" "id_pieceLen info < 2 ^ 31" using assms(1) by (auto simp: info_ok_def)
  have bs: "0 < ?bs" "?bs \<le> id_pieceLen info" using blockSize_ok [OF assms(1)] by auto
  obtain plen where plen: "plen = ?plen" by blast
  have pl: "0 \<le> plen" "plen \<le> id_pieceLen info"
    unfolding plen using P pos_mod_bound [OF P(1), of "TotalLength info"] by (auto intro: less_imp_le)
  obtain n l where nl: "n = (if go_rem plen ?bs \<noteq> 0 then go_quot plen ?bs + 1 else go_quot plen ?bs)"
    "l = (if go_rem plen ?bs \<noteq> 0 then go_rem plen ?bs else ?bs)" by blast
  note sh = newPiece_shape [OF pl(1) bs(1), folded nl]
  define pc where "pc = \<lparr>pc_index = i, pc_verified = False, pc_blocks = n, pc_lastBlockLen = l,
    pc_rarity = 0, unrequestedBlocks = foldl (\<lambda>b j. bm_set B b j True) (bm_zero B) (map (\<lambda>j. j * ?bs) [0..n - 1]),
    completeBlocks = bm_zero B, contributors = []\<rparr>"
  have new: "newPiece B info (TotalLength info) ?bs i = Return pc"
    using bs(1) unfolding newPiece_def pieceLen_eq [OF assms] plen [symmetric] by (simp add: pc_def Let_def nl)
  have sel: "pc_blocks pc = n" "pc_lastBlockLen pc = l" "pc_index pc = i" "\<not> pc_verified pc"
    by (simp_all add: pc_def)
  have big: "pc_blocks pc * ?bs \<le> 2 ^ 32" unfolding sel(1) using sh(5) pl(2) bs(2) P(2) by simp
  have ix: "bm_index off" if "off \<in> offs ?bs pc" for off
  proof (rule offs_index)
    show "off \<in> offs ?bs (pc\<lparr>unrequestedBlocks := bm_zero B\<rparr>)" using that by simp
    show "piece_ok B ?bs (pc\<lparr>unrequestedBlocks := bm_zero B\<rparr>)"
      using bs(1) sh(2-4) big by (simp add: piece_ok_def pc_def)
  qed
  have "bits (unrequestedBlocks pc) = bits (bm_zero B) \<union> set (map (\<lambda>j. j * ?bs) [0..pc_blocks pc - 1])"
    unfolding sel(1) using ix unfolding set_off_list [symmetric] sel(1)
    by (subst bits_foldl_set [symmetric]) (simp_all add: pc_def)
  then have u: "bits (unrequestedBlocks pc) = offs ?bs pc" by (simp only: set_off_list bits_zero) simp
  have c: "bits (completeBlocks pc) = {}" by (simp add: pc_def)
  have "piece_ok B ?bs pc" unfolding piece_ok_def u c using bs(1) sh(2-4) big sel by simp
  moreover have "\<forall>off \<in> offs ?bs pc. block_state B pc off = Unrequested"
    using ix by (simp add: state_bits u c)
  moreover have "piece_length ?bs pc = ?plen" using sh(1) by (simp only: piece_length_def sel plen)
  ultimately show ?thesis using new sel(3,4) by blast
qed

lemma newPieces_loop_ok:
  assumes "info_ok info" "\<forall>i \<in> set is. 0 \<le> i \<and> i < NumPieces info"
  shows "\<exists>ps. newPieces_loop B info (TotalLength info) (blockSize info) is = Return ps \<and>
    length ps = length is \<and>
    (\<forall>k < length is. piece_ok B (blockSize info) (ps ! k) \<and> pc_index (ps ! k) = is ! k \<and>
       \<not> pc_verified (ps ! k) \<and>
       piece_length (blockSize info) (ps ! k) =
         (if is ! k = NumPieces info - 1 then TotalLength info mod id_pieceLen info else id_pieceLen info) \<and>
       (\<forall>off \<in> offs (blockSize info) (ps ! k). block_state B (ps ! k) off = Unrequested))"
  using assms(2)
proof (induction "is")
  case (Cons i "is")
  obtain pc where pc: "newPiece B info (TotalLength info) (blockSize info) i = Return pc"
    "piece_ok B (blockSize info) pc \<and> pc_index pc = i \<and> \<not> pc_verified pc \<and>
     piece_length (blockSize info) pc =
      (if i = NumPieces info - 1 then TotalLength info mod id_pieceLen info else id_pieceLen info) \<and>
     (\<forall>off \<in> offs (blockSize info) pc. block_state B pc off = Unrequested)"
    using newPiece_ok [OF assms(1), of i] Cons.prems by auto
  from Cons obtain ps where ps: "newPieces_loop B info (TotalLength info) (blockSize info) is = Return ps"
    "length ps = length is"
    "\<forall>k < length is. piece_ok B (blockSize info) (ps ! k) \<and> pc_index (ps ! k) = is ! k \<and>
       \<not> pc_verified (ps ! k) \<and>
       piece_length (blockSize info) (ps ! k) =
         (if is ! k = NumPieces info - 1 then TotalLength info mod id_pieceLen info else id_pieceLen info) \<and>
       (\<forall>off \<in> offs (blockSize info) (ps ! k). block_state B (ps ! k) off = Unrequested)"
    by auto
  show ?case
  proof (intro exI [of _ "pc # ps"] conjI allI impI)
    fix k assume "k < length (i # is)"
    with pc(2) ps(3) show "piece_ok B (blockSize info) ((pc # ps) ! k)"
      "pc_index ((pc # ps) ! k) = (i # is) ! k" "\<not> pc_verified ((pc # ps) ! k)"
      "piece_length (blockSize info) ((pc # ps) ! k) =
         (if (i # is) ! k = NumPieces info - 1 then TotalLength info mod id_pieceLen info else id_pieceLen info)"
      "\<forall>off \<in> offs (blockSize info) ((pc # ps) ! k). block_state B ((pc # ps) ! k) off = Unrequested"
      by (cases k; simp)+
  qed (use pc(1) ps(1,2) in simp_all)
qed simp

lemma newPieces_facts:
  assumes "info_ok info"
  shows "\<exists>p. newPieces B info (TotalLength info) (blockSize info) = Return p \<and>
    pieces_ok B (blockSize info) (NumPieces info) p \<and> \<not> endGame p \<and> \<not> ps_downloadEnabled p \<and>
    (\<forall>j < length (pcs p).
       piece_length (blockSize info) (pcs p ! j) =
         (if int j = NumPieces info - 1 then TotalLength info mod id_pieceLen info else id_pieceLen info) \<and>
       (\<forall>off \<in> offs (blockSize info) (pcs p ! j). block_state B (pcs p ! j) off = Unrequested))"
proof -
  let ?is = "[0..NumPieces info - 1]"
  have N: "0 < NumPieces info" "NumPieces info < 2 ^ 32"
    using info_ok_pieces(3) [OF assms] assms by (auto simp: info_ok_def)
  obtain ps where ps: "newPieces_loop B info (TotalLength info) (blockSize info) ?is = Return ps"
    "length ps = length ?is"
    "\<forall>k < length ?is. piece_ok B (blockSize info) (ps ! k) \<and> pc_index (ps ! k) = ?is ! k \<and>
       \<not> pc_verified (ps ! k) \<and>
       piece_length (blockSize info) (ps ! k) =
         (if ?is ! k = NumPieces info - 1 then TotalLength info mod id_pieceLen info else id_pieceLen info) \<and>
       (\<forall>off \<in> offs (blockSize info) (ps ! k). block_state B (ps ! k) off = Unrequested)"
    using newPieces_loop_ok [OF assms, of ?is] by auto
  define p where "p = \<lparr>ownedPieces = bm_zero B, pcs = ps, selector = nextRand, endGame = False,
    ps_downloadEnabled = False\<rparr>"
  have len: "int (length (pcs p)) = NumPieces info" using ps(2) N by (simp add: p_def)
  have "?is ! k = int k" if "k < length ps" for k using that ps(2) by (simp add: nth_upto)
  with ps(2,3) have f: "\<forall>j < length (pcs p). piece_ok B (blockSize info) (pcs p ! j) \<and>
      pc_index (pcs p ! j) = int j \<and> \<not> pc_verified (pcs p ! j) \<and>
      piece_length (blockSize info) (pcs p ! j) =
        (if int j = NumPieces info - 1 then TotalLength info mod id_pieceLen info else id_pieceLen info) \<and>
      (\<forall>off \<in> offs (blockSize info) (pcs p ! j). block_state B (pcs p ! j) off = Unrequested)"
    by (simp add: p_def)
  have "bits (ownedPieces p) = {i. 0 \<le> i \<and> i < NumPieces info \<and> pc_verified (pcs p ! nat i)}"
    using f len by (auto simp: p_def)
  with f len N have "pieces_ok B (blockSize info) (NumPieces info) p" by (auto simp: pieces_ok_def)
  moreover have "newPieces B info (TotalLength info) (blockSize info) = Return p"
    using ps(1) by (simp add: newPieces_def p_def)
  ultimately show ?thesis using f by (intro exI [of _ p]) (simp add: p_def)
qed

end

section \<open>An example torrent\<close>

definition ex_info :: info_dict where
  "ex_info = \<lparr>id_files = None, id_len = 40000, id_md5 = None, id_name = [], id_pieceLen = 32768,
     id_pieces = replicate 40 0, id_private = 0, id_hash = []\<rparr>"

definition ex_pieces :: "int list pieces" where
  "ex_pieces = (case newPieces list_bitmap ex_info (TotalLength ex_info) (blockSize ex_info) of
     Return p \<Rightarrow> setDownloadEnabled p True)"

lemma ex_info_ok: "info_ok ex_info"
  by (simp add: info_ok_def ex_info_def FilesInfo_def NumPieces_def)

lemma ex_pieces_ok: "pieces_ok list_bitmap 16384 2 ex_pieces" "ps_downloadEnabled ex_pieces" "\<not> endGame ex_pieces"
proof -
  obtain p where p: "newPieces list_bitmap ex_info (TotalLength ex_info) (blockSize ex_info) = Return p"
    "pieces_ok list_bitmap (blockSize ex_info) (NumPieces ex_info) p" "\<not> endGame p"
    using list_bm.newPieces_facts [OF ex_info_ok] by blast
  moreover have "blockSize ex_info = 16384" "NumPieces ex_info = 2"
    by (simp_all add: blockSize_def ex_info_def NumPieces_def)
  ultimately show "pieces_ok list_bitmap 16384 2 ex_pieces" "ps_downloadEnabled ex_pieces" "\<not> endGame ex_pieces"
    by (simp_all add: ex_pieces_def setDownloadEnabled_def pieces_ok_def)
qed

section \<open>Geometry\<close>

text \<open>
  C31. The blocks of a piece tile it: \<open>blockLenSafe\<close> accepts exactly the offsets of the piece's
  blocks, gives each its length, and a block ends where the next one starts or, if it is the last,
  at the end of the piece; the two lookups of a block length agree.
\<close>

theorem blocks_tile_piece:
  assumes "piece_ok B bs p" "0 \<le> off"
  shows "blockLenSafe bs p off =
      (if off mod bs \<noteq> 0 then Inl errDivOffset
       else if off \<in> offs bs p then Inr (blockLen bs p off) else Inl errLargeOffset) \<and>
    (off \<in> offs bs p \<longrightarrow> 0 < blockLen bs p off \<and>
       off + blockLen bs p off =
         (if off + bs \<in> offs bs p then off + bs else piece_length bs p))"
proof -
  have ok: "0 < bs" "0 < pc_lastBlockLen p" using assms(1) by (auto simp: piece_ok_def)
  have q: "go_rem off bs = off mod bs" "go_quot off bs = off div bs" using assms(2) ok by (simp_all add: go_simps)
  have nxt: "off + bs \<in> offs bs p \<longleftrightarrow> off div bs + 1 < pc_blocks p" if "off mod bs = 0"
    using that ok assms(2) by (simp add: offs_mem_iff div_add_self2)
  have "off + pc_lastBlockLen p = piece_length bs p" if "off mod bs = 0" "off div bs = pc_blocks p - 1"
  proof -
    have "off = bs * (pc_blocks p - 1)" using that mult_div_mod_eq [of bs off] by simp
    then show ?thesis by (simp add: piece_length_def)
  qed
  with q ok nxt assms(2) show ?thesis
    by (auto simp: blockLenSafe_def blockLen_def offs_mem_iff Let_def)
qed

theorem blocks_tile_piece_witness:
  "blockLenSafe 16384 (pcs ex_pieces ! 1) 0 = Inr 7232 \<and>
   blockLenSafe 16384 (pcs ex_pieces ! 0) 16384 = Inr 16384 \<and>
   blockLenSafe 16384 (pcs ex_pieces ! 0) 32768 = Inl errLargeOffset"
proof -
  have ok: "piece_ok list_bitmap 16384 (pcs ex_pieces ! 0)" "piece_ok list_bitmap 16384 (pcs ex_pieces ! 1)"
    using ex_pieces_ok(1) by (auto simp: pieces_ok_def)
  have sh: "pc_blocks (pcs ex_pieces ! 0) = 2" "pc_lastBlockLen (pcs ex_pieces ! 0) = 16384"
    "pc_blocks (pcs ex_pieces ! 1) = 1" "pc_lastBlockLen (pcs ex_pieces ! 1) = 7232"
    by code_simp+
  show ?thesis
    using blocks_tile_piece [OF ok(2), of 0] blocks_tile_piece [OF ok(1), of 16384]
      blocks_tile_piece [OF ok(1), of 32768]
    by (simp add: offs_mem_iff sh sh(3,4) [simplified] blockLen_def go_simps)
qed

lemma sum_list_const: "sum_list (map (\<lambda>j. c) xs) = int (length xs) * c"
  by (induction xs) (simp_all add: distrib_right)

text \<open>
  C33. The pieces of a new torrent cover its content exactly when the piece length does not divide
  the total length; when it does, the last piece comes out empty and the last
  \<open>PieceLen\<close> bytes belong to no block (\<open>pieceLen\<close>, \<open>torrent.go\<close>, takes the
  remainder, which is zero then).
\<close>

theorem pieces_cover_content:
  assumes "bitmap_lib B" "info_ok info"
  shows "\<exists>p. newPieces B info (TotalLength info) (blockSize info) = Return p \<and>
    pieces_ok B (blockSize info) (NumPieces info) p \<and>
    sum_list (map (piece_length (blockSize info)) (pcs p)) =
      (if id_pieceLen info dvd TotalLength info then TotalLength info - id_pieceLen info
       else TotalLength info)"
proof -
  let ?N = "NumPieces info" and ?P = "id_pieceLen info" and ?T = "TotalLength info"
  obtain p where p: "newPieces B info ?T (blockSize info) = Return p" "pieces_ok B (blockSize info) ?N p"
    "\<forall>j < length (pcs p). piece_length (blockSize info) (pcs p ! j) = (if int j = ?N - 1 then ?T mod ?P else ?P)"
    using bitmap_lib.newPieces_facts [OF assms] by blast
  have N: "0 < ?N" and len: "int (length (pcs p)) = ?N" and P: "0 < ?P"
    using info_ok_pieces(3) [OF assms(2)] p(2) assms(2) by (auto simp: pieces_ok_def info_ok_def)
  obtain m where m1: "length (pcs p) = Suc m" using N len by (cases "length (pcs p)") auto
  then have m: "length (pcs p) = Suc m" "?N = int m + 1" using len by simp_all
  have "map (piece_length (blockSize info)) (pcs p) =
      map (\<lambda>j. if int j = ?N - 1 then ?T mod ?P else ?P) [0..<length (pcs p)]"
    using p(3) by (intro nth_equalityI) simp_all
  also have "\<dots> = map (\<lambda>j. ?P) [0..<m] @ [?T mod ?P]" using m by simp
  finally have s: "sum_list (map (piece_length (blockSize info)) (pcs p)) = int m * ?P + ?T mod ?P"
    by (simp only: sum_list_append sum_list_const) simp
  have b: "int m * ?P < ?T" "?T \<le> int m * ?P + ?P"
    using info_ok_pieces(1,2) [OF assms(2)] m(2) by (simp_all add: distrib_right)
  have "int m * ?P + ?T mod ?P = (if ?P dvd ?T then ?T - ?P else ?T)"
  proof (cases "?P dvd ?T")
    case True
    then obtain k where k: "?T = ?P * k" ..
    with b have "?P * int m < ?P * k" "?P * k \<le> ?P * (int m + 1)" by (simp_all add: algebra_simps)
    then have "int m < k" "k \<le> int m + 1" using P by simp_all
    then have "k = int m + 1" by simp
    with k True show ?thesis by (simp add: algebra_simps)
  next
    case False
    have "?T \<noteq> int m * ?P + ?P" using False by (metis dvd_add dvd_refl dvd_triv_right)
    with b have "(?T - int m * ?P) mod ?P = ?T - int m * ?P" by (intro mod_pos_pos_trivial) auto
    then have "?T mod ?P = ?T - int m * ?P" by (metis mod_mult_self4 diff_add_cancel mod_mult_self1 add.commute)
    with False show ?thesis by simp
  qed
  with p s show ?thesis by auto
qed

definition ex_info_div :: info_dict where
  "ex_info_div = ex_info\<lparr>id_len := 65536\<rparr>"

theorem pieces_cover_content_witness:
  "(\<exists>p. newPieces list_bitmap ex_info_div 65536 16384 = Return p \<and>
     sum_list (map (piece_length 16384) (pcs p)) = 32768) \<and>
   (\<exists>p. newPieces list_bitmap ex_info 40000 16384 = Return p \<and>
     sum_list (map (piece_length 16384) (pcs p)) = 40000)"
proof -
  have "info_ok ex_info_div"
    by (simp add: info_ok_def ex_info_div_def ex_info_def FilesInfo_def NumPieces_def)
  from pieces_cover_content [OF list_bm.bitmap_lib_axioms this]
    pieces_cover_content [OF list_bm.bitmap_lib_axioms ex_info_ok]
  show ?thesis by (auto simp: ex_info_div_def ex_info_def TotalLength_def blockSize_def)
qed

section \<open>Handing out requests\<close>

text \<open>
  C1. \<open>fillRequests\<close> never panics. It fills the slice with as many blocks as fit and as the
  peer can serve, no block twice, each an unrequested block of a piece the peer has, with its
  right length, and leaves the rest of the slice alone. This holds for whatever order the piece
  selector gives.
\<close>

theorem fillRequests_exact:
  assumes "bitmap_lib B" "slice_sort srt" "pieces_ok B bs n p" "ps_downloadEnabled p"
  shows "\<exists>p' out. fillRequests B srt coin bs p peerPieces requests =
      Return (p', out @ drop (length out) requests, length out) \<and>
    distinct out \<and>
    int (length out) = min (int (length requests))
      (sum_list (map (\<lambda>j. UnrequestedBlocks B (pcs p ! j))
        (filter (\<lambda>j. bm_get B peerPieces (int j)) [0..<length (pcs p)]))) \<and>
    (\<forall>b \<in> set out. 0 \<le> bl_pc b \<and> bl_pc b < n \<and> bm_get B peerPieces (bl_pc b) \<and>
       bl_off b \<in> offs bs (pcs p ! nat (bl_pc b)) \<and>
       block_state B (pcs p ! nat (bl_pc b)) (bl_off b) = Unrequested \<and>
       bl_len b = blockLen bs (pcs p ! nat (bl_pc b)) (bl_off b))"
proof -
  have rb: "request_book B srt" using assms(1,2) by (rule request_book.intro)
  let ?out = "handed_out B srt coin bs p peerPieces (length requests)"
  show ?thesis
  proof (intro exI conjI ballI)
    show "fillRequests B srt coin bs p peerPieces requests =
      Return (if endGame p then p else p\<lparr>pcs := mark_pending B (pcs p) ?out\<rparr>,
        ?out @ drop (length ?out) requests, length ?out)"
      by (simp add: request_book.fillRequests_eq [OF rb assms(3)] Let_def)
  qed (auto simp: request_book.handed_out_distinct [OF rb assms(3)]
      request_book.handed_out_length [OF rb assms(3,4)] request_book.handed_out_in(1-6) [OF rb assms(3)])
qed

definition ex_slots :: "nat \<Rightarrow> block list" where
  "ex_slots k = replicate k \<lparr>bl_pc = 0, bl_off = 0, bl_len = 0\<rparr>"

theorem fillRequests_exact_witness:
  "\<exists>p' out. fillRequests list_bitmap sort_by (\<lambda>i j. False) 16384 ex_pieces [0, 1] (ex_slots 5) =
     Return (p', out @ drop 3 (ex_slots 5), 3) \<and> distinct out \<and> length out = 3"
proof -
  have "sum_list (map (\<lambda>j. UnrequestedBlocks list_bitmap (pcs ex_pieces ! j))
      (filter (\<lambda>j. bm_get list_bitmap [0, 1] (int j)) [0..<length (pcs ex_pieces)])) = 3"
    by code_simp
  moreover have "length (ex_slots 5) = 5" by (simp add: ex_slots_def)
  ultimately show ?thesis
    using fillRequests_exact [OF list_bm.bitmap_lib_axioms ins_sort.slice_sort_axioms ex_pieces_ok(1,2),
      of "\<lambda>i j. False" "[0, 1]" "ex_slots 5"]
    by fastforce
qed

text \<open>
  C11. What \<open>fillRequests\<close> changes: before the end game exactly the blocks it hands out become
  pending, in the end game nothing changes (so that every connection is given the same blocks);
  the well-formedness of all pieces is kept.
\<close>

theorem fillRequests_marks:
  assumes "bitmap_lib B" "slice_sort srt" "pieces_ok B bs n p"
    "fillRequests B srt coin bs p peerPieces requests = Return (p', requests', k)"
  shows "pieces_ok B bs n p' \<and>
    (\<forall>j < length (pcs p). \<forall>off \<in> offs bs (pcs p ! j). block_state B (pcs p' ! j) off =
      (if \<not> endGame p \<and> (\<exists>b \<in> set (take k requests'). bl_pc b = int j \<and> bl_off b = off)
       then Pending else block_state B (pcs p ! j) off))"
proof -
  have rb: "request_book B srt" using assms(1,2) by (rule request_book.intro)
  obtain out where out: "out = handed_out B srt coin bs p peerPieces (length requests)" by blast
  with assms(4) have r: "p' = (if endGame p then p else p\<lparr>pcs := mark_pending B (pcs p) out\<rparr>)"
    "take k requests' = out"
    unfolding request_book.fillRequests_eq [OF rb assms(3)] by (auto simp: Let_def)
  show ?thesis
    using pieces_ok_index [OF assms(3)] request_book.mark_pending_ok [OF rb assms(3) out]
      request_book.mark_pending_state [OF rb assms(3) out] assms(3) r
    by (cases "endGame p") simp_all
qed

theorem fillRequests_marks_witness:
  "\<exists>p'. fillRequests list_bitmap sort_by (\<lambda>i j. False) 16384 ex_pieces [1] (ex_slots 5) =
      Return (p', \<lparr>bl_pc = 1, bl_off = 0, bl_len = 7232\<rparr> # ex_slots 4, 1) \<and>
    block_state list_bitmap (pcs p' ! 1) 0 = Pending \<and> block_state list_bitmap (pcs p' ! 0) 16384 = Unrequested"
proof -
  have "map_outcome id (\<lambda>(p', r). r) (fillRequests list_bitmap sort_by (\<lambda>i j. False) 16384 ex_pieces [1] (ex_slots 5)) =
      Return (\<lparr>bl_pc = 1, bl_off = 0, bl_len = 7232\<rparr> # ex_slots 4, 1)"
    by code_simp
  then obtain p' where p': "fillRequests list_bitmap sort_by (\<lambda>i j. False) 16384 ex_pieces [1] (ex_slots 5) =
      Return (p', \<lparr>bl_pc = 1, bl_off = 0, bl_len = 7232\<rparr> # ex_slots 4, 1)"
    by (cases "fillRequests list_bitmap sort_by (\<lambda>i j. False) 16384 ex_pieces [1] (ex_slots 5)") auto
  have l: "length (pcs ex_pieces) = 2" using ex_pieces_ok(1) by (simp add: pieces_ok_def)
  have o: "0 \<in> offs 16384 (pcs ex_pieces ! 1)" "16384 \<in> offs 16384 (pcs ex_pieces ! 0)"
    by (simp add: offs_mem_iff, code_simp)+
  have "block_state list_bitmap (pcs ex_pieces ! 0) 16384 = Unrequested" by code_simp
  with fillRequests_marks [OF list_bm.bitmap_lib_axioms ins_sort.slice_sort_axioms ex_pieces_ok(1) p'] l o p'
    ex_pieces_ok(3)
  show ?thesis by (intro exI [of _ p']) auto
qed

lemma fill_result:
  assumes "bitmap_lib B" "slice_sort srt" "pieces_ok B bs n p"
    "fillRequests B srt coin bs p peerPieces requests = Return (p', requests', k)"
  shows "take k requests' = handed_out B srt coin bs p peerPieces (length requests)"
    "p' = (if endGame p then p else p\<lparr>pcs := mark_pending B (pcs p) (take k requests')\<rparr>)"
  using assms(4)
  unfolding request_book.fillRequests_eq [OF request_book.intro [OF assms(1,2)] assms(3)]
  by (auto simp: Let_def)

text \<open>
  C8. Discarding the requests a connection was given undoes \<open>fillRequests\<close>: every block is
  again in the state it was in before.
\<close>

theorem discard_undoes_fill:
  assumes "bitmap_lib B" "slice_sort srt" "pieces_ok B bs n p"
    "fillRequests B srt coin bs p peerPieces requests = Return (p1, requests', k)"
  shows "\<exists>p2. discardRequests B p1 (take k requests') = Return p2 \<and> pieces_ok B bs n p2 \<and>
    (\<forall>j < length (pcs p). \<forall>off \<in> offs bs (pcs p ! j).
       block_state B (pcs p2 ! j) off = block_state B (pcs p ! j) off)"
proof -
  let ?out = "take k requests'"
  have rb: "request_book B srt" using assms(1,2) by (rule request_book.intro)
  note r = fill_result [OF assms]
  note h = request_book.handed_out_in [OF rb assms(3), of _ coin peerPieces "length requests", folded r(1)]
  have p1: "pieces_ok B bs n p1" "length (pcs p1) = length (pcs p)"
    "\<And>j. j < length (pcs p) \<Longrightarrow> offs bs (pcs p1 ! j) = offs bs (pcs p ! j)"
    using request_book.mark_pending_ok [OF rb assms(3) r(1)]
      request_book.mark_pending_keeps(4) [OF rb assms(3) r(1)] assms(3) by (auto simp: r(2))
  have st1: "block_state B (pcs p1 ! j) off = (if \<not> endGame p \<and> (\<exists>b \<in> set ?out. bl_pc b = int j \<and> bl_off b = off)
      then Pending else block_state B (pcs p ! j) off)" if "j < length (pcs p)" "bm_index off" for j off
    using request_book.mark_pending_state [OF rb assms(3) r(1) that] by (auto simp: r(2))
  have st0: "block_state B (pcs p ! j) off = Unrequested" if "b \<in> set ?out" "bl_pc b = int j" "bl_off b = off" for b j off
    using h(5) [OF that(1)] that(2,3) by simp
  have "\<forall>b \<in> set ?out. block_valid bs p1 b"
    using h(1,4,7) p1 by (fastforce simp: block_valid_def nat_less_iff)
  from bitmap_lib.discardRequests_ok [OF assms(1) p1(1) this] obtain ps where ps:
    "discardRequests B p1 ?out = Return (p1\<lparr>pcs := ps\<rparr>)" "pieces_ok B bs n (p1\<lparr>pcs := ps\<rparr>)"
    "\<And>j off. j < length (pcs p1) \<Longrightarrow> bm_index off \<Longrightarrow> block_state B (ps ! j) off =
        (if (\<exists>b \<in> set ?out. bl_pc b = int j \<and> bl_off b = off) \<and> block_state B (pcs p1 ! j) off \<noteq> Completed
         then Unrequested else block_state B (pcs p1 ! j) off)"
    by auto
  have "block_state B (ps ! j) off = block_state B (pcs p ! j) off"
    if "j < length (pcs p)" "off \<in> offs bs (pcs p ! j)" for j off
  proof -
    have i: "bm_index off" by (rule pieces_ok_index [OF assms(3) that])
    show ?thesis
      using ps(3) [of j off] st1 [OF that(1) i] st0 [of _ j off] that(1) i p1(2) by auto
  qed
  with ps show ?thesis by (intro exI [of _ "p1\<lparr>pcs := ps\<rparr>"]) simp
qed

theorem discard_undoes_fill_witness:
  "\<exists>p1 reqs p2. fillRequests list_bitmap sort_by (\<lambda>i j. True) 16384 ex_pieces [0, 1] (ex_slots 2) = Return (p1, reqs, 2) \<and>
     discardRequests list_bitmap p1 (take 2 reqs) = Return p2 \<and> pieces_ok list_bitmap 16384 2 p2"
proof -
  have "map_outcome id (\<lambda>(p, r, k). k)
      (fillRequests list_bitmap sort_by (\<lambda>i j. True) 16384 ex_pieces [0, 1] (ex_slots 2)) = Return 2"
    by code_simp
  then obtain p1 r1 where 1: "fillRequests list_bitmap sort_by (\<lambda>i j. True) 16384 ex_pieces [0, 1] (ex_slots 2) = Return (p1, r1, 2)"
    by (cases "fillRequests list_bitmap sort_by (\<lambda>i j. True) 16384 ex_pieces [0, 1] (ex_slots 2)") auto
  from discard_undoes_fill [OF list_bm.bitmap_lib_axioms ins_sort.slice_sort_axioms ex_pieces_ok(1) 1] 1
  show ?thesis by blast
qed

section \<open>Blocks that arrive\<close>

context bitmap_lib
begin

lemma unrequested_bits:
  assumes "piece_ok B bs pc"
  shows "bits (unrequestedBlocks pc) = {off \<in> offs bs pc. block_state B pc off = Unrequested}"
proof -
  have "bits (unrequestedBlocks pc) \<subseteq> offs bs pc" "bits (unrequestedBlocks pc) \<inter> bits (completeBlocks pc) = {}"
    using assms by (simp_all add: piece_ok_def)
  then show ?thesis using offs_index [OF assms] by (auto simp: state_bits subset_iff split: if_splits)
qed

lemma allRequested_iff:
  assumes "pieces_ok B bs n p"
  shows "allRequested B p \<longleftrightarrow>
    (\<forall>j < length (pcs p). \<forall>off \<in> offs bs (pcs p ! j). block_state B (pcs p ! j) off \<noteq> Unrequested)"
proof -
  have "hasUnrequestedBlocks B (pcs p ! j) \<longleftrightarrow> (\<exists>off \<in> offs bs (pcs p ! j). block_state B (pcs p ! j) off = Unrequested)"
    if "j < length (pcs p)" for j
    using unrequested_bits [of bs "pcs p ! j"] pieces_ok_piece [OF assms that]
    by (auto simp: hasUnrequestedBlocks_def len_pos_iff)
  then show ?thesis by (auto simp: allRequested_def list_all_length)
qed

lemma verified_state:
  "pieces_ok B bs n p \<Longrightarrow> j < length (pcs p) \<Longrightarrow> pc_verified (pcs p ! j) \<Longrightarrow> off \<in> offs bs (pcs p ! j) \<Longrightarrow>
   block_state B (pcs p ! j) off = Completed"
  using pieces_ok_index pieces_ok_piece state_bits by (fastforce simp: piece_ok_def)

lemma after_endgame_state:
  assumes "pieces_ok B bs n p" "j < length (pcs p)" "off \<in> offs bs (pcs p ! j)"
  shows "block_state B (pcs (after_endgame B bs p) ! j) off =
    (if block_state B (pcs p ! j) off = Completed then Completed else Unrequested)"
  using assms setAllUnrequested_state pieces_ok_piece [OF assms(1,2)] verified_state [OF assms(1,2)]
  by (auto simp: after_endgame_def)

lemma setBlockComplete_ok:
  assumes "pieces_ok B bs n p" "0 \<le> i" "i < n" "off \<in> offs bs (pcs p ! nat i)"
  shows "\<exists>p' acts. setBlockComplete B bs n p i off ci = Return (p', acts) \<and> pieces_ok B bs n p' \<and>
    (\<forall>j < length (pcs p). \<forall>o' \<in> offs bs (pcs p ! j).
       block_state B (pcs p' ! j) o' = Completed \<longleftrightarrow>
       block_state B (pcs p ! j) o' = Completed \<or> j = nat i \<and> o' = off) \<and>
    (QueuePieceForHashing i \<in> set acts \<longleftrightarrow>
       (\<forall>o' \<in> offs bs (pcs p ! nat i). o' = off \<or> block_state B (pcs p ! nat i) o' = Completed)) \<and>
    (endGame p' \<longleftrightarrow> endGame p \<or> (\<forall>j < length (pcs p). \<forall>o' \<in> offs bs (pcs p ! j).
       block_state B (pcs p ! j) o' = Unrequested \<longrightarrow> j = nat i \<and> o' = off)) \<and>
    (endGame p' \<and> \<not> endGame p \<longrightarrow> BroadcastRequestsAvailable \<in> set acts \<and>
       (\<forall>j < length (pcs p). \<forall>o' \<in> offs bs (pcs p ! j). block_state B (pcs p' ! j) o' \<noteq> Pending))"
proof -
  define p1 where "p1 = p\<lparr>pcs := (pcs p)[nat i := piece_setBlockComplete B ci (pcs p ! nat i) off]\<rparr>"
  note c = complete_block_ok [OF assms p1_def]
  have i: "nat i < length (pcs p)" using assms(1-3) by (auto simp: pieces_ok_def)
  have l1: "length (pcs p1) = length (pcs p)" "endGame p1 = endGame p"
    "\<And>j. j < length (pcs p) \<Longrightarrow> offs bs (pcs p1 ! j) = offs bs (pcs p ! j)"
    using i by (auto simp: p1_def nth_list_update)
  have st1: "block_state B (pcs p1 ! j) o' = (if j = nat i \<and> o' = off then Completed else block_state B (pcs p ! j) o')"
    if "j < length (pcs p)" "o' \<in> offs bs (pcs p ! j)" for j o'
    using that i pieces_ok_index [OF assms(1) i assms(4)] pieces_ok_index [OF assms(1) that]
    by (auto simp: p1_def nth_list_update tracker.st_compl)
  define go where "go = (\<not> endGame p \<and> allRequested B p1)"
  define p2 where "p2 = (if go then after_endgame B bs p1 else p1)"
  have m: "maybeStartEndgame B bs n p1 = Return (p2, go)" "pieces_ok B bs n p2"
    using maybeStartEndgame_eq [OF c(2)] c(2) l1(2) by (auto simp: go_def p2_def)
  have st2: "block_state B (pcs p2 ! j) o' =
      (if go \<and> block_state B (pcs p1 ! j) o' \<noteq> Completed then Unrequested else block_state B (pcs p1 ! j) o')"
    if "j < length (pcs p)" "o' \<in> offs bs (pcs p ! j)" for j o'
    using after_endgame_state [OF c(2), of j o'] that l1 by (auto simp: p2_def)
  have l2: "length (pcs p2) = length (pcs p)" "endGame p2 \<longleftrightarrow> endGame p \<or> go" "nat i < length (pcs p2)"
    using l1 i by (auto simp: p2_def after_endgame_def)
  have o2: "offs bs (pcs p2 ! nat i) = offs bs (pcs p ! nat i)"
    using l1 i setAllUnrequested_ok(4) pieces_ok_piece [OF c(2), of "nat i"] by (auto simp: p2_def after_endgame_def)
  have q: "complete B (pcs p2 ! nat i) \<longleftrightarrow>
      (\<forall>o' \<in> offs bs (pcs p ! nat i). o' = off \<or> block_state B (pcs p ! nat i) o' = Completed)"
    using complete_iff [of bs "pcs p2 ! nat i"] pieces_ok_piece [OF m(2) l2(3)] o2 st2 [OF i] st1 [OF i] by auto
  have g: "allRequested B p1 \<longleftrightarrow> (\<forall>j < length (pcs p). \<forall>o' \<in> offs bs (pcs p ! j).
       block_state B (pcs p ! j) o' = Unrequested \<longrightarrow> j = nat i \<and> o' = off)"
    unfolding allRequested_iff [OF c(2)] l1(1) using l1(3) st1 by (auto split: if_splits)
  let ?acts = "(if complete B (pcs p2 ! nat i) then [QueuePieceForHashing i] else []) @
    (if go then [BroadcastRequestsAvailable] else if endGame p2
     then [SendCancels \<lparr>bl_pc = i, bl_off = off, bl_len = blockLen bs (pcs p2 ! nat i) off\<rparr>] else [])"
  show ?thesis
  proof (intro exI conjI)
    show "setBlockComplete B bs n p i off ci = Return (p2, ?acts)"
      using c(1) m(1) by (simp add: setBlockComplete_def)
    show "pieces_ok B bs n p2" by (rule m(2))
    show "\<forall>j < length (pcs p). \<forall>o' \<in> offs bs (pcs p ! j). block_state B (pcs p2 ! j) o' = Completed \<longleftrightarrow>
       block_state B (pcs p ! j) o' = Completed \<or> j = nat i \<and> o' = off"
      using st1 st2 by auto
    have "QueuePieceForHashing i \<in> set ?acts \<longleftrightarrow> complete B (pcs p2 ! nat i)" by auto
    with q show "QueuePieceForHashing i \<in> set ?acts \<longleftrightarrow>
       (\<forall>o' \<in> offs bs (pcs p ! nat i). o' = off \<or> block_state B (pcs p ! nat i) o' = Completed)" by (rule trans [rotated])
    show "endGame p2 \<longleftrightarrow> endGame p \<or> (\<forall>j < length (pcs p). \<forall>o' \<in> offs bs (pcs p ! j).
       block_state B (pcs p ! j) o' = Unrequested \<longrightarrow> j = nat i \<and> o' = off)"
      unfolding l2(2) go_def g [symmetric] by blast
    show "endGame p2 \<and> \<not> endGame p \<longrightarrow> BroadcastRequestsAvailable \<in> set ?acts \<and>
       (\<forall>j < length (pcs p). \<forall>o' \<in> offs bs (pcs p ! j). block_state B (pcs p2 ! j) o' \<noteq> Pending)"
    proof (intro impI conjI allI ballI)
      assume "endGame p2 \<and> \<not> endGame p"
      then have "go" using l2(2) by blast
      then show "BroadcastRequestsAvailable \<in> set ?acts" by simp
      show "block_state B (pcs p2 ! j) o' \<noteq> Pending" if "j < length (pcs p)" "o' \<in> offs bs (pcs p ! j)" for j o'
        using st2 [OF that] \<open>go\<close> by simp
    qed
  qed
qed

end

text \<open>
  C7. A block that arrives is completed and no other block gains or loses completion. The piece
  is queued for hashing exactly when this was its last block. The end game starts exactly when no
  other block of the torrent is left to request; then every block that is not complete can be
  requested again, and the connections are told.
\<close>

theorem setBlockComplete_spec:
  assumes "bitmap_lib B" "pieces_ok B bs n p" "0 \<le> i" "i < n" "off \<in> offs bs (pcs p ! nat i)"
  shows "\<exists>p' acts. setBlockComplete B bs n p i off ci = Return (p', acts) \<and> pieces_ok B bs n p' \<and>
    (\<forall>j < length (pcs p). \<forall>o' \<in> offs bs (pcs p ! j).
       block_state B (pcs p' ! j) o' = Completed \<longleftrightarrow>
       block_state B (pcs p ! j) o' = Completed \<or> j = nat i \<and> o' = off) \<and>
    (QueuePieceForHashing i \<in> set acts \<longleftrightarrow>
       (\<forall>o' \<in> offs bs (pcs p ! nat i). o' = off \<or> block_state B (pcs p ! nat i) o' = Completed)) \<and>
    (endGame p' \<longleftrightarrow> endGame p \<or> (\<forall>j < length (pcs p). \<forall>o' \<in> offs bs (pcs p ! j).
       block_state B (pcs p ! j) o' = Unrequested \<longrightarrow> j = nat i \<and> o' = off)) \<and>
    (endGame p' \<and> \<not> endGame p \<longrightarrow> BroadcastRequestsAvailable \<in> set acts \<and>
       (\<forall>j < length (pcs p). \<forall>o' \<in> offs bs (pcs p ! j). block_state B (pcs p' ! j) o' \<noteq> Pending))"
  by (rule bitmap_lib.setBlockComplete_ok [OF assms])

theorem setBlockComplete_spec_witness:
  "\<exists>p' acts. setBlockComplete list_bitmap 16384 2 ex_pieces 1 0 7 = Return (p', acts) \<and>
     QueuePieceForHashing 1 \<in> set acts \<and> \<not> endGame p'"
proof -
  have o: "0 \<in> offs 16384 (pcs ex_pieces ! nat 1)" "\<forall>o' \<in> offs 16384 (pcs ex_pieces ! nat 1). o' = 0"
    "16384 \<in> offs 16384 (pcs ex_pieces ! 0)"
  proof -
    have "pc_blocks (pcs ex_pieces ! nat 1) = 1" "pc_blocks (pcs ex_pieces ! 0) = 2" by code_simp+
    then show "0 \<in> offs 16384 (pcs ex_pieces ! nat 1)" "\<forall>o' \<in> offs 16384 (pcs ex_pieces ! nat 1). o' = 0"
      "16384 \<in> offs 16384 (pcs ex_pieces ! 0)" by (auto simp: offs_def)
  qed
  have "block_state list_bitmap (pcs ex_pieces ! 0) 16384 = Unrequested" "0 < length (pcs ex_pieces)"
    by code_simp+
  then have u: "\<not> (\<forall>j < length (pcs ex_pieces). \<forall>o' \<in> offs 16384 (pcs ex_pieces ! j).
      block_state list_bitmap (pcs ex_pieces ! j) o' = Unrequested \<longrightarrow> j = nat 1 \<and> o' = 0)"
    using o(3) by (intro notI) (drule spec [of _ 0], auto)
  from setBlockComplete_spec [OF list_bm.bitmap_lib_axioms ex_pieces_ok(1) _ _ o(1), of 7] obtain p' acts where
    "setBlockComplete list_bitmap 16384 2 ex_pieces 1 0 7 = Return (p', acts)"
    "QueuePieceForHashing 1 \<in> set acts \<longleftrightarrow> (\<forall>o' \<in> offs 16384 (pcs ex_pieces ! nat 1).
       o' = 0 \<or> block_state list_bitmap (pcs ex_pieces ! nat 1) o' = Completed)"
    "endGame p' \<longleftrightarrow> endGame ex_pieces \<or> (\<forall>j < length (pcs ex_pieces). \<forall>o' \<in> offs 16384 (pcs ex_pieces ! j).
      block_state list_bitmap (pcs ex_pieces ! j) o' = Unrequested \<longrightarrow> j = nat 1 \<and> o' = 0)"
    by (auto simp del: nat_1 One_nat_def nat_one_as_int)
  with o(2) u ex_pieces_ok(3) show ?thesis by blast
qed

section \<open>Hash results\<close>

lemma swapped_ok:
  assumes "bitmap_lib B" "piece_ok B bs pc" "complete B pc" "\<not> pc_verified pc"
  defines "pc' \<equiv> pc\<lparr>unrequestedBlocks := completeBlocks pc, completeBlocks := unrequestedBlocks pc, contributors := []\<rparr>"
  shows "piece_ok B bs pc'" "off \<in> offs bs pc \<Longrightarrow> block_state B pc' off = Unrequested"
proof -
  have c: "\<forall>off \<in> offs bs pc. block_state B pc off = Completed"
    using bitmap_lib.complete_iff [OF assms(1,2)] assms(3) by blast
  have b: "bm_bits B (unrequestedBlocks pc) = {}"
    using bitmap_lib.unrequested_bits [OF assms(1,2)] c by auto
  show "piece_ok B bs pc'" using assms(2,4) by (auto simp: piece_ok_def pc'_def)
  show "block_state B pc' off = Unrequested" if "off \<in> offs bs pc"
  proof -
    have "bm_index off" by (rule offs_index [OF assms(2) that])
    moreover have "off \<in> bm_bits B (completeBlocks pc)"
      using bitmap_lib.state_bits [OF assms(1) \<open>bm_index off\<close>, of pc] c that b by (auto split: if_splits)
    ultimately show ?thesis using bitmap_lib.state_bits [OF assms(1) \<open>bm_index off\<close>, of pc'] b by (simp add: pc'_def)
  qed
qed

lemma foldl_add_bad:
  "badPiecesContributions (foldl add_bad st cs c) = badPiecesContributions (st c) + int (count_list cs c)"
  by (induction cs arbitrary: st) (auto simp: add_bad_def)

definition failed_piece :: "'bm piece \<Rightarrow> 'bm piece" where
  "failed_piece pc = pc\<lparr>unrequestedBlocks := completeBlocks pc, completeBlocks := unrequestedBlocks pc, contributors := []\<rparr>"

lemma pieceHashed_failed_eq:
  assumes "bitmap_lib B" "pieces_ok B bs n p" "0 \<le> i" "i < n" "complete B (pcs p ! nat i)"
    "\<not> pc_verified (pcs p ! nat i)"
  shows "pieceHashed B p st i False =
      Return (p\<lparr>pcs := (pcs p)[nat i := failed_piece (pcs p ! nat i)]\<rparr>, foldl add_bad st (contributors (pcs p ! nat i)))"
    "pieces_ok B bs n (p\<lparr>pcs := (pcs p)[nat i := failed_piece (pcs p ! nat i)]\<rparr>)"
    "\<forall>off \<in> offs bs (pcs p ! nat i). block_state B (failed_piece (pcs p ! nat i)) off = Unrequested"
    "nat i < length (pcs p)"
proof -
  let ?pc = "pcs p ! nat i"
  show i: "nat i < length (pcs p)" using assms(2-4) by (auto simp: pieces_ok_def)
  have pc: "piece_ok B bs ?pc" "pc_index ?pc = i" using pieces_ok_piece [OF assms(2) i] assms(3) by auto
  note sw = swapped_ok [OF assms(1) pc(1) assms(5,6), folded failed_piece_def]
  have v: "pc_verified (failed_piece ?pc) = pc_verified ?pc" "pc_index (failed_piece ?pc) = pc_index ?pc"
    by (simp_all add: failed_piece_def)
  show "pieces_ok B bs n (p\<lparr>pcs := (pcs p)[nat i := failed_piece ?pc]\<rparr>)"
    using sw(1) pc(2) v assms(3) i pieces_ok_piece [OF assms(2)]
    by (intro pieces_ok_pcs [OF assms(2)]) (auto simp: nth_list_update)
  show "pieceHashed B p st i False =
      Return (p\<lparr>pcs := (pcs p)[nat i := failed_piece ?pc]\<rparr>, foldl add_bad st (contributors ?pc))"
    using i assms(3,5) by (simp add: pieceHashed_def verificationFailed_def Let_def failed_piece_def)
  show "\<forall>off \<in> offs bs ?pc. block_state B (failed_piece ?pc) off = Unrequested" using sw(2) by blast
qed

text \<open>
  C9. A complete piece whose hash is wrong starts again: all its blocks are unrequested, every
  other piece keeps its blocks, and each connection is charged once for every block it
  contributed.
\<close>

theorem pieceHashed_failed:
  assumes "bitmap_lib B" "pieces_ok B bs n p" "0 \<le> i" "i < n" "complete B (pcs p ! nat i)"
    "\<not> pc_verified (pcs p ! nat i)"
  shows "\<exists>p' st'. pieceHashed B p st i False = Return (p', st') \<and> pieces_ok B bs n p' \<and>
    (\<forall>off \<in> offs bs (pcs p ! nat i). block_state B (pcs p' ! nat i) off = Unrequested) \<and>
    (\<forall>j < length (pcs p). j \<noteq> nat i \<longrightarrow> pcs p' ! j = pcs p ! j) \<and> ownedPieces p' = ownedPieces p \<and>
    contributors (pcs p' ! nat i) = [] \<and>
    (\<forall>c. badPiecesContributions (st' c) =
      badPiecesContributions (st c) + int (count_list (contributors (pcs p ! nat i)) c))"
  using pieceHashed_failed_eq(1) [OF assms, of st] pieceHashed_failed_eq(2-4) [OF assms] foldl_add_bad
  by (intro exI [of _ "p\<lparr>pcs := (pcs p)[nat i := failed_piece (pcs p ! nat i)]\<rparr>"]
      exI [of _ "foldl add_bad st (contributors (pcs p ! nat i))"]) (simp add: failed_piece_def)

text \<open>The example with every block of its second piece received from connection 7.\<close>

definition ex_full :: "int list pieces" where
  "ex_full = (case setBlockComplete list_bitmap 16384 2 ex_pieces 1 0 7 of Return (p, acts) \<Rightarrow> p)"

lemma ex_full_ok: "pieces_ok list_bitmap 16384 2 ex_full" "complete list_bitmap (pcs ex_full ! nat 1)"
  "\<not> pc_verified (pcs ex_full ! nat 1)" "ps_downloadEnabled ex_full"
proof -
  have "pc_blocks (pcs ex_pieces ! nat 1) = 1" by code_simp
  then have "0 \<in> offs 16384 (pcs ex_pieces ! nat 1)" by (simp add: offs_def)
  from list_bm.setBlockComplete_ok [OF ex_pieces_ok(1) _ _ this, of 7]
  show "pieces_ok list_bitmap 16384 2 ex_full" by (auto simp: ex_full_def)
qed code_simp+

theorem pieceHashed_failed_witness:
  "\<exists>p' st'. pieceHashed list_bitmap ex_full (\<lambda>_. zeroConnStats) 1 False = Return (p', st') \<and>
     block_state list_bitmap (pcs p' ! nat 1) 0 = Unrequested \<and> badPiecesContributions (st' 7) = 1"
proof -
  have "pc_blocks (pcs ex_full ! nat 1) = 1" "contributors (pcs ex_full ! nat 1) = [7]" by code_simp+
  then have o: "0 \<in> offs 16384 (pcs ex_full ! nat 1)" "count_list (contributors (pcs ex_full ! nat 1)) 7 = 1"
    by (simp_all add: offs_def)
  from pieceHashed_failed [OF list_bm.bitmap_lib_axioms ex_full_ok(1) _ _ ex_full_ok(2,3), of "\<lambda>_. zeroConnStats"]
  obtain p' st' where r: "pieceHashed list_bitmap ex_full (\<lambda>_. zeroConnStats) 1 False = Return (p', st')"
    "\<forall>off \<in> offs 16384 (pcs ex_full ! nat 1). block_state list_bitmap (pcs p' ! nat 1) off = Unrequested"
    "\<forall>c. badPiecesContributions (st' c) = badPiecesContributions zeroConnStats +
       int (count_list (contributors (pcs ex_full ! nat 1)) c)"
    by (auto simp del: nat_1 nat_one_as_int)
  have "badPiecesContributions (st' 7) = 1" using r(3) o(2) by (simp add: zeroConnStats_def)
  with r o(1) show ?thesis by blast
qed

definition owned_piece :: "'bm bitmap_ops \<Rightarrow> 'bm pieces \<Rightarrow> int \<Rightarrow> 'bm pieces" where
  "owned_piece B p i = p\<lparr>pcs := (pcs p)[nat i := (pcs p ! nat i)\<lparr>pc_verified := True, contributors := []\<rparr>],
     ownedPieces := bm_set B (ownedPieces p) i True, selector := nextByRarity\<rparr>"

lemma pieceHashed_correct_eq:
  assumes "bitmap_lib B" "pieces_ok B bs n p" "0 \<le> i" "i < n" "complete B (pcs p ! nat i)"
    "\<not> pc_verified (pcs p ! nat i)"
  shows "pieceHashed B p st i True = Return (owned_piece B p i, foldl add_good st (contributors (pcs p ! nat i)))"
    "bm_bits B (ownedPieces (owned_piece B p i)) = insert i (bm_bits B (ownedPieces p))"
    "pieces_ok B bs n (owned_piece B p i)" "nat i < length (pcs p)"
    "\<forall>off \<in> offs bs (pcs p ! nat i). block_state B (pcs (owned_piece B p i) ! nat i) off = Completed"
proof -
  let ?pc = "pcs p ! nat i" and ?p' = "owned_piece B p i"
  let ?pc' = "?pc\<lparr>pc_verified := True, contributors := []\<rparr>"
  have n: "int (length (pcs p)) = n" "n < 2 ^ 32"
    and own: "bm_bits B (ownedPieces p) = {i. 0 \<le> i \<and> i < n \<and> pc_verified (pcs p ! nat i)}"
    using assms(2) by (simp_all add: pieces_ok_def)
  then show i: "nat i < length (pcs p)" using assms(3,4) by auto
  have ix: "bm_index i" using assms(3,4) n(2) by (simp add: bm_index_def)
  have pc: "piece_ok B bs ?pc" "pc_index ?pc = i" using pieces_ok_piece [OF assms(2) i] assms(3) by auto
  have c: "\<forall>off \<in> offs bs ?pc. block_state B ?pc off = Completed"
    using bitmap_lib.complete_iff [OF assms(1) pc(1)] assms(5) by blast
  then show "\<forall>off \<in> offs bs ?pc. block_state B (pcs ?p' ! nat i) off = Completed"
    using i by (auto simp: owned_piece_def block_state_def split: if_splits)
  have "bm_bits B (completeBlocks ?pc) = offs bs ?pc"
    using c bitmap_lib.state_bits [OF assms(1) offs_index [OF pc(1)], of _ ?pc] pc(1)
    by (auto simp: piece_ok_def split: if_splits)
  then have pc': "piece_ok B bs ?pc'" using pc(1) by (simp add: piece_ok_def)
  show set_own: "bm_bits B (ownedPieces ?p') = insert i (bm_bits B (ownedPieces p))"
    using bitmap_lib.bits_set [OF assms(1) ix] by (simp add: owned_piece_def)
  also have "\<dots> = {k. 0 \<le> k \<and> k < n \<and> pc_verified (pcs ?p' ! nat k)}"
    unfolding own using assms(3,4) i by (auto simp: nth_list_update owned_piece_def)
  finally show "pieces_ok B bs n ?p'"
    using n pc' pc(2) assms(3) i pieces_ok_piece [OF assms(2)]
    by (auto simp: pieces_ok_def nth_list_update owned_piece_def)
  show "pieceHashed B p st i True = Return (?p', foldl add_good st (contributors ?pc))"
    using i assms(3,6) by (simp add: pieceHashed_def verificationSuccess_def Let_def OnPieceDownload_def owned_piece_def)
qed

text \<open>
  C10. A complete piece whose hash is right is owned from then on, the selector switches to
  rarest-first, and \<open>fillRequests\<close> hands out none of its blocks.
\<close>

theorem pieceHashed_correct:
  assumes "bitmap_lib B" "slice_sort srt" "pieces_ok B bs n p" "0 \<le> i" "i < n" "complete B (pcs p ! nat i)"
    "\<not> pc_verified (pcs p ! nat i)"
  shows "\<exists>p' st'. pieceHashed B p st i True = Return (p', st') \<and> pieces_ok B bs n p' \<and>
    bm_bits B (ownedPieces p') = insert i (bm_bits B (ownedPieces p)) \<and> selector p' = nextByRarity \<and>
    (\<forall>coin peerPieces requests p'' requests' k.
       fillRequests B srt coin bs p' peerPieces requests = Return (p'', requests', k) \<longrightarrow>
       (\<forall>b \<in> set (take k requests'). bl_pc b \<noteq> i))"
proof -
  let ?p' = "owned_piece B p i"
  note e = pieceHashed_correct_eq(1) [OF assms(1,3-7), of st] pieceHashed_correct_eq(2-) [OF assms(1,3-7)]
  have "bl_pc b \<noteq> i" if "fillRequests B srt coin bs ?p' peerPieces requests = Return (p'', requests', k)"
    "b \<in> set (take k requests')" for coin peerPieces requests p'' requests' k b
  proof
    assume b: "bl_pc b = i"
    note h = request_book.handed_out_in [OF request_book.intro [OF assms(1,2)] e(3)
        that(2) [unfolded fill_result(1) [OF assms(1,2) e(3) that(1)]]]
    have "offs bs (pcs ?p' ! nat i) = offs bs (pcs p ! nat i)" using e(4) by (simp add: owned_piece_def)
    with e(5) h(4,5) b show False by simp
  qed
  with e(1-3) show ?thesis
    by (intro exI [of _ ?p'] exI [of _ "foldl add_good st (contributors (pcs p ! nat i))"])
      (simp add: owned_piece_def)
qed

theorem pieceHashed_correct_witness:
  "\<exists>p' st'. pieceHashed list_bitmap ex_full (\<lambda>_. zeroConnStats) 1 True = Return (p', st') \<and>
     1 \<in> bm_bits list_bitmap (ownedPieces p')"
  using pieceHashed_correct [OF list_bm.bitmap_lib_axioms ins_sort.slice_sort_axioms ex_full_ok(1) _ _ ex_full_ok(2,3),
      of "\<lambda>_. zeroConnStats"]
  by fastforce

section \<open>The default selector\<close>

text \<open>
  Among pieces with the same number of blocks the default selector, once a piece has been
  downloaded, is a strict weak order: pieces with fewer unrequested blocks first, and untouched
  pieces by rarity. So the sort of \<open>fillRequests\<close> is well defined.
\<close>

lemma Less_strict_weak:
  assumes "bitmap_lib B" "\<forall>p \<in> S. piece_ok B bs p \<and> pc_blocks p = m"
  shows "strict_weak (Less B nextByRarity coin) S \<and>
    (\<forall>p \<in> S. \<forall>q \<in> S. Less B nextByRarity coin p q \<longleftrightarrow>
       UnrequestedBlocks B p < UnrequestedBlocks B q \<or>
       UnrequestedBlocks B p = m \<and> UnrequestedBlocks B q = m \<and> pc_rarity p < pc_rarity q)"
proof -
  have c: "completeness B p = m - 2 * UnrequestedBlocks B p" if "p \<in> S" for p
    using assms(2) that
    by (simp add: completeness_def PendingBlocks_def UnrequestedBlocks_def CompletedBlocks_def)
  have le: "UnrequestedBlocks B p \<le> m" if "p \<in> S" for p
  proof -
    have ok: "piece_ok B bs p" "pc_blocks p = m" using assms(2) that by auto
    have "0 \<le> PendingBlocks B p" "0 \<le> CompletedBlocks B p"
      using bitmap_lib.counters(2,3) [OF assms(1) ok(1)] by simp_all
    then show ?thesis using ok(2) by (simp add: PendingBlocks_def UnrequestedBlocks_def CompletedBlocks_def)
  qed
  have l: "Less B nextByRarity coin p q \<longleftrightarrow> UnrequestedBlocks B p < UnrequestedBlocks B q \<or>
       UnrequestedBlocks B p = m \<and> UnrequestedBlocks B q = m \<and> pc_rarity p < pc_rarity q"
    if "p \<in> S" "q \<in> S" for p q
    using that assms(2) le [of p] le [of q] by (auto simp: Less_def next_less_def c)
  moreover have "strict_weak (Less B nextByRarity coin) S"
    unfolding strict_weak_def
    using l le by (intro conjI ballI impI; simp; linarith?)
  ultimately show ?thesis by blast
qed

lemma Less_strict_weak_witness:
  "strict_weak (Less list_bitmap nextByRarity False) {pcs ex_pieces ! 0}"
  using Less_strict_weak [OF list_bm.bitmap_lib_axioms, of "{pcs ex_pieces ! 0}" 16384 "pc_blocks (pcs ex_pieces ! 0)"]
    ex_pieces_ok(1) by (simp add: pieces_ok_def)

definition cycle_piece :: "int \<Rightarrow> int \<Rightarrow> int list \<Rightarrow> int list piece" where
  "cycle_piece bls rar un = \<lparr>pc_index = 0, pc_verified = False, pc_blocks = bls, pc_lastBlockLen = 1,
     pc_rarity = rar, unrequestedBlocks = un, completeBlocks = [], contributors = []\<rparr>"

text \<open>
  The finding on \<open>DefaultPieceSelector.Less\<close>: with a last piece that has fewer blocks it
  is not an order. An untouched full piece comes before the short last piece when it is rarer, the
  last piece comes before a piece with one pending block, and that one before the untouched piece.
\<close>

lemma Less_cycle:
  "let A = cycle_piece 4 0 [0, 1, 2, 3]; L = cycle_piece 1 1 [0]; P = cycle_piece 4 0 [1, 2, 3];
       less = Less list_bitmap nextByRarity False
   in less A L \<and> less L P \<and> less P A"
  by code_simp

end
