(* ===== verification/Pieces_History.thy ===== *)
theory Pieces_History
  imports Pieces_Theorems
begin

text \<open>
  The bookkeeping of requests as a state machine: its steps are the calls of the connections and of the
  Torrent, each with an event that says which blocks went out, came back, arrived or were judged. Every
  reachable state is well formed and the operations return in it for the arguments their callers pass;
  and over a whole history no block is handed out twice before the end game, unless it was given back or
  its piece failed verification in between.
\<close>

section \<open>Reachable states and histories\<close>

text \<open>
  The guards are what the callers check: a connection discards only requests it was given, a received
  block passed \<open>blockLenSafe\<close>, and a piece is hashed only when it is complete and not yet verified.
\<close>

datatype book_ev =
    HandedOut "block list"
  | GivenBack "block list"
  | Received int int
  | HashResult int bool
  | PeerHas
  | Enabled bool

inductive pieces_step :: "'bm bitmap_ops \<Rightarrow> ((nat \<Rightarrow> nat \<Rightarrow> bool) \<Rightarrow> nat list \<Rightarrow> nat list) \<Rightarrow> int \<Rightarrow> int
    \<Rightarrow> 'bm pieces \<Rightarrow> book_ev \<Rightarrow> 'bm pieces \<Rightarrow> bool" for B srt bs n p where
  step_fill: "fillRequests B srt coin bs p peerPieces reqs = Return (p', reqs', k) \<Longrightarrow>
    pieces_step B srt bs n p (HandedOut (take k reqs')) p'"
| step_discard: "\<forall>b \<in> set reqs. block_valid bs p b \<Longrightarrow> discardRequests B p reqs = Return p' \<Longrightarrow>
    pieces_step B srt bs n p (GivenBack reqs) p'"
| step_complete: "0 \<le> i \<Longrightarrow> i < n \<Longrightarrow> off \<in> offs bs (pcs p ! nat i) \<Longrightarrow>
    setBlockComplete B bs n p i off ci = Return (p', acts) \<Longrightarrow> pieces_step B srt bs n p (Received i off) p'"
| step_hashed: "0 \<le> i \<Longrightarrow> i < n \<Longrightarrow> complete B (pcs p ! nat i) \<Longrightarrow> \<not> pc_verified (pcs p ! nat i) \<Longrightarrow>
    pieceHashed B p st i correct = Return (p', st') \<Longrightarrow> pieces_step B srt bs n p (HashResult i correct) p'"
| step_have: "onHave p i = Return p' \<Longrightarrow> pieces_step B srt bs n p PeerHas p'"
| step_bitfield: "onBitfield B p bm = Return p' \<Longrightarrow> pieces_step B srt bs n p PeerHas p'"
| step_enable: "pieces_step B srt bs n p (Enabled v) (setDownloadEnabled p v)"

text \<open>The history of a torrent, oldest event first, and the state after it.\<close>

inductive pieces_history :: "'bm bitmap_ops \<Rightarrow> ((nat \<Rightarrow> nat \<Rightarrow> bool) \<Rightarrow> nat list \<Rightarrow> nat list) \<Rightarrow> info_dict
    \<Rightarrow> book_ev list \<Rightarrow> 'bm pieces \<Rightarrow> bool" for B srt info where
  history_new: "newPieces B info (TotalLength info) (blockSize info) = Return p \<Longrightarrow> pieces_history B srt info [] p"
| history_step: "pieces_history B srt info evs p \<Longrightarrow> pieces_step B srt (blockSize info) (NumPieces info) p ev p' \<Longrightarrow>
    pieces_history B srt info (evs @ [ev]) p'"

lemma rarity_ok [simp]: "piece_ok B bs (pc\<lparr>pc_rarity := r\<rparr>) = piece_ok B bs pc"
  by (simp add: piece_ok_def)

lemma upd_rarity_ok:
  assumes "pieces_ok B bs n p" "upd_piece p i (\<lambda>pc. pc\<lparr>pc_rarity := pc_rarity pc + 1\<rparr>) = Return p'"
  shows "pieces_ok B bs n p'"
proof -
  have i: "0 \<le> i" "i < int (length (pcs p))"
    "p' = p\<lparr>pcs := (pcs p)[nat i := (pcs p ! nat i)\<lparr>pc_rarity := pc_rarity (pcs p ! nat i) + 1\<rparr>]\<rparr>"
    using assms(2) by (auto simp: upd_piece_def split: if_splits)
  show ?thesis
    unfolding i(3) using pieces_ok_piece [OF assms(1)] by (intro pieces_ok_pcs [OF assms(1)]) (use i(1,2) in \<open>auto simp: nth_list_update\<close>)
qed

lemma upd_each_rarity_ok:
  "pieces_ok B bs n p \<Longrightarrow> upd_each (\<lambda>pc. pc\<lparr>pc_rarity := pc_rarity pc + 1\<rparr>) p is = Return p' \<Longrightarrow> pieces_ok B bs n p'"
  by (induction "is" arbitrary: p) (auto simp: obind_Return_iff dest: upd_rarity_ok)

lemma pieceHashed_ok:
  assumes "bitmap_lib B" "pieces_ok B bs n p" "0 \<le> i" "i < n" "complete B (pcs p ! nat i)"
    "\<not> pc_verified (pcs p ! nat i)"
  shows "\<exists>p' st'. pieceHashed B p st i correct = Return (p', st') \<and> pieces_ok B bs n p'"
  using pieceHashed_correct_eq(1) [OF assms, of st] pieceHashed_correct_eq(3) [OF assms]
    pieceHashed_failed_eq(1) [OF assms, of st] pieceHashed_failed_eq(2) [OF assms]
  by (cases correct) auto

lemma pieces_step_ok:
  assumes "bitmap_lib B" "slice_sort srt" "pieces_ok B bs n p" "pieces_step B srt bs n p ev p'"
  shows "pieces_ok B bs n p'"
  using assms(4)
proof cases
  case (step_fill coin peerPieces reqs reqs' k)
  note r = fill_result [OF assms(1-3) step_fill(2)]
  show ?thesis
    using request_book.mark_pending_ok [OF request_book.intro [OF assms(1,2)] assms(3) r(1)] assms(3)
    by (simp add: r(2))
next
  case (step_discard reqs)
  then show ?thesis using bitmap_lib.discardRequests_ok [OF assms(1,3) step_discard(2)] by auto
next
  case (step_complete i off ci acts)
  then show ?thesis using bitmap_lib.setBlockComplete_ok [OF assms(1,3) step_complete(2-4), of ci] by auto
next
  case (step_hashed i st correct st')
  then show ?thesis using pieceHashed_ok [OF assms(1,3) step_hashed(2-5), of st correct] by auto
next
  case (step_have i)
  then show ?thesis using upd_rarity_ok [OF assms(3)] by (simp add: onHave_def)
next
  case (step_bitfield bm)
  then show ?thesis using upd_each_rarity_ok [OF assms(3)] by (simp add: onBitfield_def)
next
  case (step_enable v)
  then show ?thesis using assms(3) by (simp add: setDownloadEnabled_def pieces_ok_def)
qed

lemma history_ok:
  assumes "bitmap_lib B" "slice_sort srt" "info_ok info"
  shows "pieces_history B srt info evs p \<Longrightarrow> pieces_ok B (blockSize info) (NumPieces info) p"
proof (induction rule: pieces_history.induct)
  case (history_new p)
  then show ?case using bitmap_lib.newPieces_facts [OF assms(1,3)] by auto
next
  case (history_step evs p ev p')
  then show ?case using pieces_step_ok [OF assms(1,2)] by blast
qed

text \<open>The operations that only count peers return exactly for pieces the torrent has.\<close>

lemma onHave_returns:
  "pieces_ok B bs n p \<Longrightarrow> (\<exists>p'. onHave p i = Return p') \<longleftrightarrow> 0 \<le> i \<and> i < n"
  "pieces_ok B bs n p \<Longrightarrow> \<not> (0 \<le> i \<and> i < n) \<Longrightarrow> onHave p i = Panic IndexOutOfRange"
  by (auto simp: onHave_def upd_piece_def pieces_ok_def)

lemma onBitfield_returns:
  assumes "bitmap_lib B" "pieces_ok B bs n p" "bm_bits B bm \<subseteq> {0..<n}"
  shows "\<exists>p'. onBitfield B p bm = Return p'"
  unfolding onBitfield_def
  by (subst upd_each_eq) (use assms bitmap_lib.distinct_iter bitmap_lib.set_iter in \<open>fastforce simp: pieces_ok_def\<close>)+

text \<open>
  C2. Every state the bookkeeping can reach from a new torrent, whatever the connections and the hasher
  do, is well formed: every piece has its blocks split into unrequested, pending and completed ones, a
  verified piece is complete, and the owned pieces are the verified ones. In such a state every operation
  returns for the arguments its caller has checked: filling requests always; discarding blocks and
  completing a block for blocks of the torrent; a hash result for a complete piece that is not verified;
  a bit field without bits behind the last piece. Counting a \<open>have\<close> returns exactly for the index of a
  piece and panics for every other one.
\<close>

theorem pieces_reach_ok:
  assumes "bitmap_lib B" "slice_sort srt" "info_ok info" "pieces_history B srt info evs p"
  shows "pieces_ok B (blockSize info) (NumPieces info) p \<and>
    (\<exists>p' reqs' k. fillRequests B srt coin (blockSize info) p peerPieces requests = Return (p', reqs', k)) \<and>
    ((\<forall>b \<in> set reqs. block_valid (blockSize info) p b) \<longrightarrow> (\<exists>p'. discardRequests B p reqs = Return p')) \<and>
    (\<forall>i off. 0 \<le> i \<and> i < NumPieces info \<and> off \<in> offs (blockSize info) (pcs p ! nat i) \<longrightarrow>
       (\<exists>p' acts. setBlockComplete B (blockSize info) (NumPieces info) p i off ci = Return (p', acts))) \<and>
    (\<forall>i. 0 \<le> i \<and> i < NumPieces info \<and> complete B (pcs p ! nat i) \<and> \<not> pc_verified (pcs p ! nat i) \<longrightarrow>
       (\<exists>p' st'. pieceHashed B p st i correct = Return (p', st'))) \<and>
    (bm_bits B bm \<subseteq> {0..<NumPieces info} \<longrightarrow> (\<exists>p'. onBitfield B p bm = Return p')) \<and>
    (\<forall>i. if 0 \<le> i \<and> i < NumPieces info then \<exists>p'. onHave p i = Return p' else onHave p i = Panic IndexOutOfRange)"
proof -
  have ok: "pieces_ok B (blockSize info) (NumPieces info) p" by (rule history_ok [OF assms])
  have "\<exists>p' reqs' k. fillRequests B srt coin (blockSize info) p peerPieces requests = Return (p', reqs', k)"
    by (simp add: request_book.fillRequests_eq [OF request_book.intro [OF assms(1,2)] ok] Let_def)
  moreover have "\<exists>p'. discardRequests B p reqs = Return p'" if "\<forall>b \<in> set reqs. block_valid (blockSize info) p b"
    using bitmap_lib.discardRequests_ok [OF assms(1) ok that] by blast
  moreover have "\<exists>p' acts. setBlockComplete B (blockSize info) (NumPieces info) p i off ci = Return (p', acts)"
    if "0 \<le> i" "i < NumPieces info" "off \<in> offs (blockSize info) (pcs p ! nat i)" for i off
    using bitmap_lib.setBlockComplete_ok [OF assms(1) ok that, of ci] by blast
  moreover have "\<exists>p' st'. pieceHashed B p st i correct = Return (p', st')"
    if "0 \<le> i" "i < NumPieces info" "complete B (pcs p ! nat i)" "\<not> pc_verified (pcs p ! nat i)" for i
    using pieceHashed_ok [OF assms(1) ok that, of st correct] by blast
  moreover have "\<exists>p'. onBitfield B p bm = Return p'" if "bm_bits B bm \<subseteq> {0..<NumPieces info}"
    by (rule onBitfield_returns [OF assms(1) ok that])
  moreover have "if 0 \<le> i \<and> i < NumPieces info then \<exists>p'. onHave p i = Return p' else onHave p i = Panic IndexOutOfRange" for i
    using onHave_returns [OF ok, of i] by simp
  ultimately show ?thesis using ok by blast
qed

lemma ex_history: obtains p where "newPieces list_bitmap ex_info (TotalLength ex_info) (blockSize ex_info) = Return p"
    "pieces_history list_bitmap sort_by ex_info [Enabled True] (setDownloadEnabled p True)"
proof -
  obtain p where p: "newPieces list_bitmap ex_info (TotalLength ex_info) (blockSize ex_info) = Return p"
    using list_bm.newPieces_facts [OF ex_info_ok] by blast
  from history_step [OF history_new [OF p] step_enable [of _ _ _ _ p True]]
  have "pieces_history list_bitmap sort_by ex_info [Enabled True] (setDownloadEnabled p True)" by simp
  with p that show ?thesis by blast
qed

theorem pieces_reach_ok_witness:
  "\<exists>p. pieces_history list_bitmap sort_by ex_info [Enabled True] p \<and> NumPieces ex_info = 2 \<and>
     pieces_ok list_bitmap (blockSize ex_info) (NumPieces ex_info) p \<and>
     (\<exists>p'. onHave p 1 = Return p') \<and> onHave p 2 = Panic IndexOutOfRange"
proof -
  obtain p where r: "pieces_history list_bitmap sort_by ex_info [Enabled True] (setDownloadEnabled p True)"
    by (rule ex_history)
  have n: "NumPieces ex_info = 2" by code_simp
  have h: "if 0 \<le> i \<and> i < NumPieces ex_info then \<exists>p'. onHave (setDownloadEnabled p True) i = Return p'
      else onHave (setDownloadEnabled p True) i = Panic IndexOutOfRange" for i
    using pieces_reach_ok [OF list_bm.bitmap_lib_axioms ins_sort.slice_sort_axioms ex_info_ok r] by blast
  then have "\<exists>p'. onHave (setDownloadEnabled p True) 1 = Return p'" "onHave (setDownloadEnabled p True) 2 = Panic IndexOutOfRange"
    using h [of 1] h [of 2] n by simp_all
  with r n pieces_reach_ok [OF list_bm.bitmap_lib_axioms ins_sort.slice_sort_axioms ex_info_ok r] show ?thesis by blast
qed

section \<open>No block is handed out twice\<close>

text \<open>\<open>taken\<close>: the block is one of the torrent and is not there to be requested.\<close>

definition taken :: "'bm bitmap_ops \<Rightarrow> int \<Rightarrow> 'bm pieces \<Rightarrow> block \<Rightarrow> bool" where
  "taken B bs p b \<longleftrightarrow> block_valid bs p b \<and> block_state B (pcs p ! nat (bl_pc b)) (bl_off b) \<noteq> Unrequested"

text \<open>What lets a block be requested again: it is given back, or its piece fails verification.\<close>

fun releases :: "block \<Rightarrow> book_ev \<Rightarrow> bool" where
  "releases b (GivenBack reqs) \<longleftrightarrow> (\<exists>r \<in> set reqs. bl_pc r = bl_pc b \<and> bl_off r = bl_off b)"
| "releases b (HashResult i ok) \<longleftrightarrow> i = bl_pc b \<and> \<not> ok"
| "releases b _ \<longleftrightarrow> False"

lemma takenI:
  assumes "taken B bs p b" "length (pcs p') = length (pcs p)"
    "\<And>j. j = nat (bl_pc b) \<Longrightarrow> offs bs (pcs p' ! j) = offs bs (pcs p ! j)"
    "block_state B (pcs p ! nat (bl_pc b)) (bl_off b) \<noteq> Unrequested \<Longrightarrow>
     block_state B (pcs p' ! nat (bl_pc b)) (bl_off b) \<noteq> Unrequested"
  shows "taken B bs p' b"
  using assms by (auto simp: taken_def block_valid_def)

lemma upd_rarity_taken:
  "taken B bs p b \<Longrightarrow> upd_piece p i (\<lambda>pc. pc\<lparr>pc_rarity := pc_rarity pc + 1\<rparr>) = Return p' \<Longrightarrow> taken B bs p' b \<and> endGame p' = endGame p"
  by (auto simp: taken_def block_valid_def upd_piece_def nth_list_update block_state_def offs_def split: if_splits)

lemma upd_each_rarity_taken:
  "taken B bs p b \<Longrightarrow> upd_each (\<lambda>pc. pc\<lparr>pc_rarity := pc_rarity pc + 1\<rparr>) p is = Return p' \<Longrightarrow> taken B bs p' b"
  by (induction "is" arbitrary: p) (auto simp: obind_Return_iff dest: upd_rarity_taken)

context bitmap_lib
begin

lemma st_compl_block:
  "bm_index off \<Longrightarrow> bm_index i \<Longrightarrow>
   block_state B (piece_setBlockComplete B ci pc off) i = (if i = off then Completed else block_state B pc i)"
  by (rule tracker.st_compl)

end

lemma setBlockComplete_taken:
  assumes "bitmap_lib B" "pieces_ok B bs n p" "0 \<le> i" "i < n" "off \<in> offs bs (pcs p ! nat i)"
    "setBlockComplete B bs n p i off ci = Return (p', acts)" "\<not> endGame p'" "taken B bs p b"
  shows "taken B bs p' b"
proof -
  define p1 where "p1 = p\<lparr>pcs := (pcs p)[nat i := piece_setBlockComplete B ci (pcs p ! nat i) off]\<rparr>"
  note c = bitmap_lib.complete_block_ok [OF assms(1-5) p1_def]
  have i: "nat i < length (pcs p)" using assms(2-4) by (auto simp: pieces_ok_def)
  have "p' = p1"
    using assms(6,7) c(1) bitmap_lib.maybeStartEndgame_eq(1) [OF assms(1) c(2)]
    by (auto simp: setBlockComplete_def after_endgame_def split: if_splits)
  moreover have "block_state B (pcs p1 ! nat (bl_pc b)) (bl_off b) \<noteq> Unrequested"
    if "block_state B (pcs p ! nat (bl_pc b)) (bl_off b) \<noteq> Unrequested"
  proof -
    have "bm_index off" by (rule pieces_ok_index [OF assms(2) i assms(5)])
    moreover have "bm_index (bl_off b)"
      using assms(8) pieces_ok_index [OF assms(2), of "nat (bl_pc b)"] by (auto simp: taken_def block_valid_def nat_less_iff)
    ultimately show ?thesis
      using that i bitmap_lib.st_compl_block [OF assms(1)]
      by (auto simp: p1_def nth_list_update)
  qed
  ultimately show ?thesis
    using assms(8) i by (intro takenI [OF assms(8)]) (auto simp: p1_def nth_list_update offs_def piece_setBlockComplete_def)
qed

lemma step_endGame:
  assumes "bitmap_lib B" "slice_sort srt" "pieces_ok B bs n p" "pieces_step B srt bs n p ev p'" "endGame p"
  shows "endGame p'"
  using assms(4)
proof cases
  case (step_fill coin peerPieces reqs reqs' k)
  then show ?thesis using fill_result(2) [OF assms(1-3) step_fill(2)] assms(5) by simp
next
  case (step_discard reqs)
  then show ?thesis using bitmap_lib.discardRequests_ok [OF assms(1,3) step_discard(2)] assms(5) by auto
next
  case (step_complete i off ci acts)
  then show ?thesis using bitmap_lib.setBlockComplete_ok [OF assms(1,3) step_complete(2-4), of ci] assms(5) by auto
next
  case (step_hashed i st correct st')
  then show ?thesis
    using pieceHashed_correct_eq(1) [OF assms(1,3) step_hashed(2-5), of st] pieceHashed_failed_eq(1) [OF assms(1,3) step_hashed(2-5), of st] assms(5)
    by (cases correct) (auto simp: owned_piece_def)
next
  case (step_bitfield bm)
  have "upd_each (\<lambda>pc. pc\<lparr>pc_rarity := pc_rarity pc + 1\<rparr>) q is = Return p' \<Longrightarrow> endGame p' = endGame q" for q "is"
    by (induction "is" arbitrary: q) (auto simp: obind_Return_iff upd_piece_def split: if_splits)
  with step_bitfield assms(5) show ?thesis by (auto simp: onBitfield_def)
qed (use assms(5) in \<open>auto simp: onHave_def upd_piece_def setDownloadEnabled_def split: if_splits\<close>)

text \<open>Before the end game a step keeps a block taken unless it releases it, and does not hand it out.\<close>

lemma step_taken:
  assumes "bitmap_lib B" "slice_sort srt" "pieces_ok B bs n p" "pieces_step B srt bs n p ev p'" "\<not> endGame p'"
    "taken B bs p b" "\<not> releases b ev"
  shows "taken B bs p' b"
  using assms(4)
proof cases
  case (step_fill coin peerPieces reqs reqs' k)
  note rb = request_book.intro [OF assms(1,2)] and r = fill_result [OF assms(1-3) step_fill(2)]
  have b: "nat (bl_pc b) < length (pcs p)" using assms(6) by (auto simp: taken_def block_valid_def)
  have "bm_index (bl_off b)" using assms(6) pieces_ok_index [OF assms(3) b] by (auto simp: taken_def block_valid_def)
  with request_book.mark_pending_state [OF rb assms(3) r(1) b] request_book.mark_pending_keeps(4) [OF rb assms(3) r(1) b] r(2)
  show ?thesis by (intro takenI [OF assms(6)]) auto
next
  case (step_discard reqs)
  have b: "nat (bl_pc b) < length (pcs p)" "int (nat (bl_pc b)) = bl_pc b"
    using assms(6) by (auto simp: taken_def block_valid_def)
  have "bm_index (bl_off b)" using assms(6) pieces_ok_index [OF assms(3) b(1)] by (auto simp: taken_def block_valid_def)
  moreover obtain ps where ps: "p' = p\<lparr>pcs := ps\<rparr>" "pieces_ok B bs n p'"
    "offs bs (ps ! nat (bl_pc b)) = offs bs (pcs p ! nat (bl_pc b))"
    "\<And>off. bm_index off \<Longrightarrow> block_state B (ps ! nat (bl_pc b)) off =
        (if (\<exists>r \<in> set reqs. bl_pc r = bl_pc b \<and> bl_off r = off) \<and> block_state B (pcs p ! nat (bl_pc b)) off \<noteq> Completed
         then Unrequested else block_state B (pcs p ! nat (bl_pc b)) off)"
    using bitmap_lib.discardRequests_ok [OF assms(1,3) step_discard(2)] step_discard(3) b by auto
  moreover have "length (pcs p') = length (pcs p)" using assms(3) ps(2) by (simp add: pieces_ok_def)
  ultimately show ?thesis using assms(7) step_discard(1) by (intro takenI [OF assms(6)]) auto
next
  case (step_complete i off ci acts)
  then show ?thesis using setBlockComplete_taken [OF assms(1,3) step_complete(2-5) assms(5,6)] by blast
next
  case (step_hashed i st correct st')
  note e = pieceHashed_correct_eq(1) [OF assms(1,3) step_hashed(2-5), of st] pieceHashed_failed_eq(1) [OF assms(1,3) step_hashed(2-5), of st]
    pieceHashed_failed_eq(4) [OF assms(1,3) step_hashed(2-5)]
  show ?thesis
  proof (cases correct)
    case True
    then have "p' = owned_piece B p i" using e(1) step_hashed(6) by simp
    with e(3) show ?thesis
      by (intro takenI [OF assms(6)]) (simp_all add: owned_piece_def nth_list_update block_state_def offs_def split: if_splits)
  next
    case False
    then have "nat i \<noteq> nat (bl_pc b)"
      using assms(6,7) step_hashed(1,2) by (auto simp: taken_def block_valid_def)
    moreover have "p' = p\<lparr>pcs := (pcs p)[nat i := failed_piece (pcs p ! nat i)]\<rparr>" using e(2) step_hashed(6) False by simp
    ultimately show ?thesis by (intro takenI [OF assms(6)]) simp_all
  qed
next
  case (step_have i)
  then show ?thesis using upd_rarity_taken [OF assms(6)] by (simp add: onHave_def)
next
  case (step_bitfield bm)
  then show ?thesis using upd_each_rarity_taken [OF assms(6)] by (simp add: onBitfield_def)
next
  case (step_enable v)
  then show ?thesis using assms(6) by (simp add: setDownloadEnabled_def taken_def block_valid_def)
qed

lemma step_hands_out:
  assumes "bitmap_lib B" "slice_sort srt" "pieces_ok B bs n p" "pieces_step B srt bs n p (HandedOut out) p'" "b \<in> set out"
  shows "\<not> taken B bs p b" "\<not> endGame p \<Longrightarrow> taken B bs p' b"
proof -
  obtain coin peer reqs reqs' k where f: "fillRequests B srt coin bs p peer reqs = Return (p', reqs', k)" "out = take k reqs'"
    using assms(4) by (auto elim: pieces_step.cases)
  note rb = request_book.intro [OF assms(1,2)] and r = fill_result [OF assms(1-3) f(1)]
  note h = request_book.handed_out_in [OF rb assms(3) assms(5) [unfolded f(2) r(1)]]
  show "\<not> taken B bs p b" using h(5) by (simp add: taken_def)
  have "bm_index (bl_off b)" by (rule pieces_ok_index [OF assms(3) h(7,4)])
  with request_book.mark_pending_state [OF rb assms(3) r(1) h(7)] request_book.mark_pending_keeps(4) [OF rb assms(3) r(1) h(7)] r(2) h
  show "taken B bs p' b" if "\<not> endGame p"
    using that assms(5) f(2) by (auto simp: taken_def block_valid_def)
qed

lemma history_prefix:
  assumes "bitmap_lib B" "slice_sort srt" "info_ok info"
  shows "pieces_history B srt info evs p \<Longrightarrow> evs = xs @ ys \<Longrightarrow> \<exists>q. pieces_history B srt info xs q \<and> (endGame q \<longrightarrow> endGame p)"
proof (induction arbitrary: ys rule: pieces_history.induct)
  case (history_new p)
  then show ?case using pieces_history.history_new by fastforce
next
  case (history_step evs p ev p')
  show ?case
  proof (cases ys rule: rev_cases)
    case Nil
    then show ?thesis using pieces_history.history_step [OF history_step.hyps] history_step.prems by auto
  next
    case (snoc zs z)
    then show ?thesis
      using history_step.IH [of zs] history_step.prems step_endGame [OF assms(1,2) history_ok [OF assms history_step.hyps(1)] history_step.hyps(2)]
      by auto
  qed
qed

lemma history_taken:
  assumes "bitmap_lib B" "slice_sort srt" "info_ok info"
  shows "pieces_history B srt info evs p \<Longrightarrow> evs = pre @ HandedOut out # rest \<Longrightarrow> b \<in> set out \<Longrightarrow> \<not> endGame p \<Longrightarrow>
    \<forall>ev \<in> set rest. \<not> releases b ev \<Longrightarrow> taken B (blockSize info) p b"
proof (induction arbitrary: rest rule: pieces_history.induct)
  case (history_step evs p ev p')
  note ok = history_ok [OF assms history_step.hyps(1)]
  have e: "\<not> endGame p" using step_endGame [OF assms(1,2) ok history_step.hyps(2)] history_step.prems(3) by blast
  show ?case
  proof (cases rest rule: rev_cases)
    case Nil
    then have "ev = HandedOut out" using history_step.prems(1) by simp
    with step_hands_out(2) [OF assms(1,2) ok] history_step.hyps(2) history_step.prems(2) e show ?thesis by blast
  next
    case (snoc zs z)
    then have "taken B (blockSize info) p b" "z = ev"
      using history_step.IH [of zs] history_step.prems e by auto
    with step_taken [OF assms(1,2) ok history_step.hyps(2) history_step.prems(3)] history_step.prems(4) snoc show ?thesis by simp
  qed
qed simp

text \<open>
  C4. Before the end game no block is requested twice. Take any history of a torrent in which the end
  game has not begun, with any calls of all connections, and a block that was handed out two times in it:
  between the two the block was given back by a connection that discarded its requests, or its piece
  failed verification.
\<close>

theorem fillRequests_no_duplicates:
  assumes "bitmap_lib B" "slice_sort srt" "info_ok info"
    "pieces_history B srt info (pre @ HandedOut out1 # mid @ HandedOut out2 # post) p" "\<not> endGame p"
    "b \<in> set out1" "b \<in> set out2"
  shows "\<exists>ev \<in> set mid. releases b ev"
proof (rule ccontr)
  assume c: "\<not> (\<exists>ev \<in> set mid. releases b ev)"
  let ?h = "pre @ HandedOut out1 # mid"
  have "pre @ HandedOut out1 # mid @ HandedOut out2 # post = (?h @ [HandedOut out2]) @ post" by simp
  from history_prefix [OF assms(1-4) this] assms(5) obtain q2
    where q2: "pieces_history B srt info (?h @ [HandedOut out2]) q2" "\<not> endGame q2" by blast
  from q2(1) obtain q where q: "pieces_history B srt info ?h q"
    "pieces_step B srt (blockSize info) (NumPieces info) q (HandedOut out2) q2"
    by (cases rule: pieces_history.cases) auto
  note ok = history_ok [OF assms(1-3) q(1)]
  have "\<not> endGame q" using step_endGame [OF assms(1,2) ok q(2)] q2(2) by blast
  from history_taken [OF assms(1-3) q(1) refl assms(6) this] c have "taken B (blockSize info) q b" by blast
  with step_hands_out(1) [OF assms(1,2) ok q(2) assms(7)] show False by blast
qed

text \<open>The block of the second piece of the example is requested, given back and requested again.\<close>

definition ex_block :: block where
  "ex_block = \<lparr>bl_pc = 1, bl_off = 0, bl_len = 7232\<rparr>"

definition ex_fill :: "int list pieces \<Rightarrow> (unit, int list pieces \<times> block list \<times> nat) outcome" where
  "ex_fill p = fillRequests list_bitmap sort_by (\<lambda>i j. False) 16384 p [1] (ex_slots 2)"

lemma ex_again:
  obtains p1 r1 k1 p2 p3 r3 k3 where "ex_fill ex_pieces = Return (p1, r1, k1)" "take k1 r1 = [ex_block]"
    "discardRequests list_bitmap p1 [ex_block] = Return p2"
    "ex_fill p2 = Return (p3, r3, k3)" "take k3 r3 = [ex_block]" "\<not> endGame p3"
proof -
  have "obind (ex_fill ex_pieces) (\<lambda>(p1, r1, k1). obind (discardRequests list_bitmap p1 (take k1 r1)) (\<lambda>p2.
      obind (ex_fill p2) (\<lambda>(p3, r3, k3). Return (take k1 r1, take k3 r3, endGame p3)))) =
    Return ([ex_block], [ex_block], False)" by code_simp
  then show ?thesis using that by (auto simp: obind_Return_iff)
qed

lemma ex_again_history:
  obtains p where "pieces_history list_bitmap sort_by ex_info
    [Enabled True, HandedOut [ex_block], GivenBack [ex_block], HandedOut [ex_block]] p" "\<not> endGame p"
proof -
  have bs: "blockSize ex_info = 16384" "NumPieces ex_info = 2" by code_simp+
  obtain p where "newPieces list_bitmap ex_info (TotalLength ex_info) (blockSize ex_info) = Return p"
    and h: "pieces_history list_bitmap sort_by ex_info [Enabled True] (setDownloadEnabled p True)"
    by (rule ex_history)
  then have p: "setDownloadEnabled p True = ex_pieces" by (simp add: ex_pieces_def)
  obtain p1 r1 k1 p2 p3 r3 k3 where e: "ex_fill ex_pieces = Return (p1, r1, k1)" "take k1 r1 = [ex_block]"
    "discardRequests list_bitmap p1 [ex_block] = Return p2"
    "ex_fill p2 = Return (p3, r3, k3)" "take k3 r3 = [ex_block]" "\<not> endGame p3"
    by (rule ex_again)
  have s1: "pieces_step list_bitmap sort_by 16384 2 ex_pieces (HandedOut [ex_block]) p1"
    using step_fill [OF e(1) [unfolded ex_fill_def]] e(2) by simp
  have "block_valid 16384 p1 ex_block"
    using step_hands_out(2) [OF list_bm.bitmap_lib_axioms ins_sort.slice_sort_axioms ex_pieces_ok(1) s1 _ ex_pieces_ok(3), of ex_block]
    by (simp add: taken_def)
  then have s2: "pieces_step list_bitmap sort_by 16384 2 p1 (GivenBack [ex_block]) p2"
    using step_discard [OF _ e(3)] by simp
  have s3: "pieces_step list_bitmap sort_by 16384 2 p2 (HandedOut [ex_block]) p3"
    using step_fill [OF e(4) [unfolded ex_fill_def]] e(5) by simp
  have "pieces_history list_bitmap sort_by ex_info ((([Enabled True] @ [HandedOut [ex_block]]) @ [GivenBack [ex_block]]) @ [HandedOut [ex_block]]) p3"
    using h s1 s2 s3 by (intro history_step) (simp_all add: p bs)
  then show ?thesis using that e(6) by simp
qed

theorem fillRequests_no_duplicates_witness:
  "\<exists>p. pieces_history list_bitmap sort_by ex_info
       [Enabled True, HandedOut [ex_block], GivenBack [ex_block], HandedOut [ex_block]] p \<and> \<not> endGame p \<and>
     releases ex_block (GivenBack [ex_block])"
proof -
  obtain p where h: "pieces_history list_bitmap sort_by ex_info
    [Enabled True, HandedOut [ex_block], GivenBack [ex_block], HandedOut [ex_block]] p" "\<not> endGame p"
    by (rule ex_again_history)
  from h(1) have "pieces_history list_bitmap sort_by ex_info
    ([Enabled True] @ HandedOut [ex_block] # [GivenBack [ex_block]] @ HandedOut [ex_block] # []) p" by simp
  from fillRequests_no_duplicates [OF list_bm.bitmap_lib_axioms ins_sort.slice_sort_axioms ex_info_ok this h(2), of ex_block]
  obtain ev where "ev \<in> set [GivenBack [ex_block]]" "releases ex_block ev" by auto
  then have "releases ex_block (GivenBack [ex_block])" by (simp only: list.set insert_iff empty_iff simp_thms)
  with h show ?thesis by blast
qed

end
