(* ===== verification/Storage.thy ===== *)
theory Storage
  imports Info
begin

text \<open>
  The file storage of torrent data: \<open>torrent/storage/filestorage.go\<close>,
  \<open>torrent/storage/piece.go\<close> and the interface \<open>torrent/storage/interface.go\<close>.
  The file system is a map from paths to contents; which paths cannot be opened and where a write
  stops short are given by \<open>os_env\<close>. \<open>sha1\<close> is a parameter. The length of a
  read is the length of the caller's buffer, and the model returns the bytes put into it.
  \<open>logger.Fatal\<close> ends the process and is a panic.
\<close>

section \<open>Paths and files\<close>

text \<open>
  \<open>filepath.Join\<close> with its \<open>Clean\<close>: a path is absolute or not and has components;
  empty components and dots vanish, a double dot removes the component before it.
\<close>

type_synonym path = "bool \<times> bytes list"

fun split_slash :: "bytes \<Rightarrow> bytes list" where
  "split_slash [] = [[]]"
| "split_slash (c # cs) =
     (if c = 47 then [] # split_slash cs
      else case split_slash cs of [] \<Rightarrow> [[c]] | w # ws \<Rightarrow> (c # w) # ws)"

fun clean :: "bool \<Rightarrow> bytes list \<Rightarrow> bytes list \<Rightarrow> bytes list" where
  "clean rooted out [] = rev out"
| "clean rooted out (c # cs) =
     (if c = [] \<or> c = [46] then clean rooted out cs
      else if c = [46, 46]
      then (case out of
              [] \<Rightarrow> clean rooted (if rooted then [] else [c]) cs
            | d # ds \<Rightarrow> if d = [46, 46] then clean rooted (c # out) cs else clean rooted ds cs)
      else clean rooted (c # out) cs)"

definition Join :: "bytes list \<Rightarrow> path" where
  "Join elems =
     (let rooted = (case concat elems of c # _ \<Rightarrow> c = 47 | [] \<Rightarrow> False)
      in (rooted, clean rooted [] (concat (map split_slash elems))))"

definition fileInfoName :: "bytes \<Rightarrow> info_dict \<Rightarrow> file_info \<Rightarrow> path" where
  "fileInfoName dir info fi =
     Join ([dir, id_name info] @ (case fi_path fi of None \<Rightarrow> [] | Some ps \<Rightarrow> ps))"

type_synonym fsys = "path \<Rightarrow> bytes option"

datatype ioerr = EOF | ErrUnexpectedEOF | ErrOpen | ErrWrite | ErrNegativeOffset
  | ErrReadNonVerified | ErrAlreadyWritten

record os_env =
  open_fails :: "path \<Rightarrow> bool"
  write_stops :: "path \<Rightarrow> nat option"

text \<open>\<open>os.File.ReadAt\<close> and \<open>os.File.WriteAt\<close> on the contents of a file.\<close>

definition file_ReadAt :: "bytes \<Rightarrow> nat \<Rightarrow> int \<Rightarrow> bytes \<times> ioerr option" where
  "file_ReadAt c k off =
     (if off < 0 then ([], Some ErrNegativeOffset)
      else let d = take k (drop (nat off) c) in (d, if length d < k then Some EOF else None))"

definition file_put :: "bytes \<Rightarrow> bytes \<Rightarrow> nat \<Rightarrow> bytes" where
  "file_put c p off =
     (if p = [] then c
      else take off (c @ replicate (off - length c) 0) @ p @ drop (off + length p) c)"

definition file_WriteAt :: "nat option \<Rightarrow> bytes \<Rightarrow> bytes \<Rightarrow> int \<Rightarrow> bytes \<times> nat \<times> ioerr option" where
  "file_WriteAt stops c p off =
     (if off < 0 then (c, 0, Some ErrNegativeOffset)
      else case stops of
        None \<Rightarrow> (file_put c p (nat off), length p, None)
      | Some m \<Rightarrow> if m < length p then (file_put c (take m p) (nat off), m, Some ErrWrite)
                  else (file_put c p (nat off), length p, None))"

section \<open>Reading\<close>

function readFileAt_loop :: "bytes \<Rightarrow> int \<Rightarrow> nat \<Rightarrow> int \<Rightarrow> bytes \<times> ioerr option" where
  "readFileAt_loop c flen k off =
     (if off < flen \<and> k \<noteq> 0
      then (case file_ReadAt c k off of
              (d, e) \<Rightarrow>
                if d = [] then ([], e)
                else (case readFileAt_loop c flen (k - length d) (off + int (length d)) of
                        (d', e') \<Rightarrow> (d @ d', e')))
      else ([], None))"
  by auto
termination
  by (relation "measure (\<lambda>(c, flen, k, off). k)") (auto simp: file_ReadAt_def Let_def split: if_splits)

declare readFileAt_loop.simps [simp del]

definition readFileAt :: "os_env \<Rightarrow> bytes \<Rightarrow> info_dict \<Rightarrow> fsys \<Rightarrow> file_info \<Rightarrow> nat \<Rightarrow> int
    \<Rightarrow> bytes \<times> ioerr option" where
  "readFileAt env dir info fs fi k off =
     (let name = fileInfoName dir info fi
      in if open_fails env name then ([], Some ErrOpen)
         else case fs name of
           None \<Rightarrow> ([], Some EOF)
         | Some c \<Rightarrow>
             let k' = (if int k > fi_len fi - off then nat (fi_len fi - off) else k)
             in readFileAt_loop c (fi_len fi) k' off)"

lemma readFileAt_loop_progress:
  "readFileAt_loop c flen k off = (d, e) \<Longrightarrow> length d \<le> k"
proof (induction c flen k off arbitrary: d e rule: readFileAt_loop.induct)
  case (1 c flen k off)
  obtain d1 e1 where f: "file_ReadAt c k off = (d1, e1)" by (cases "file_ReadAt c k off") auto
  have l: "length d1 \<le> k" using f by (auto simp: file_ReadAt_def Let_def split: if_splits)
  show ?case
  proof (cases "off < flen \<and> k \<noteq> 0 \<and> d1 \<noteq> []")
    case True
    obtain d2 e2 where r: "readFileAt_loop c flen (k - length d1) (off + int (length d1)) = (d2, e2)"
      by (cases "readFileAt_loop c flen (k - length d1) (off + int (length d1))") auto
    have "length d2 \<le> k - length d1" using 1(1) [OF _ f [symmetric] _ r] True by simp
    moreover have "d = d1 @ d2" using 1(2) True f r by (simp add: readFileAt_loop.simps [of c flen k off])
    ultimately show ?thesis using l by simp
  next
    case False
    with 1(2) f show ?thesis by (auto simp: readFileAt_loop.simps [of c flen k off] split: if_splits)
  qed
qed

lemma readFileAt_length: "readFileAt env dir info fs fi k off = (d, e) \<Longrightarrow> length d \<le> k"
  by (fastforce simp: readFileAt_def Let_def dest: readFileAt_loop_progress split: if_splits option.splits)

text \<open>
  The two nested loops of \<open>ReadAt\<close>: the inner one stays in a file while it makes progress.
\<close>

function read_files :: "os_env \<Rightarrow> bytes \<Rightarrow> info_dict \<Rightarrow> fsys \<Rightarrow> file_info list \<Rightarrow> nat \<Rightarrow> int
    \<Rightarrow> bytes \<times> ioerr option" where
  "read_files env dir info fs [] k off = ([], Some EOF)"
| "read_files env dir info fs (fi # fis) k off =
     (if off < fi_len fi
      then (case readFileAt env dir info fs fi k off of
              (d, e) \<Rightarrow>
                if k - length d = 0 then (d, None)
                else if d \<noteq> []
                then (case read_files env dir info fs (fi # fis) (k - length d) (off + int (length d)) of
                        (d', e') \<Rightarrow> (d @ d', e'))
                else (d, if e = Some EOF then Some ErrUnexpectedEOF else e))
      else read_files env dir info fs fis k (off - fi_len fi))"
  by pat_completeness auto
termination
  by (relation "measures [\<lambda>(env, dir, info, fs, fis, k, off). length fis, \<lambda>(env, dir, info, fs, fis, k, off). k]")
    auto

declare read_files.simps(2) [simp del]

definition ReadAt :: "os_env \<Rightarrow> bytes \<Rightarrow> info_dict \<Rightarrow> fsys \<Rightarrow> nat \<Rightarrow> int \<Rightarrow> bytes \<times> ioerr option" where
  "ReadAt env dir info fs k off = read_files env dir info fs (FilesInfo info) k off"

section \<open>Writing\<close>

fun write_files :: "os_env \<Rightarrow> bytes \<Rightarrow> info_dict \<Rightarrow> fsys \<Rightarrow> file_info list \<Rightarrow> bytes \<Rightarrow> int
    \<Rightarrow> fsys \<times> nat \<times> ioerr option" where
  "write_files env dir info fs [] p off = (fs, 0, None)"
| "write_files env dir info fs (fi # fis) p off =
     (if off \<ge> fi_len fi then write_files env dir info fs fis p (off - fi_len fi)
      else let n1 = (if int (length p) > fi_len fi - off then nat (fi_len fi - off) else length p);
               name = fileInfoName dir info fi
           in if open_fails env name then (fs, 0, Some ErrOpen)
              else case file_WriteAt (write_stops env name) (case fs name of None \<Rightarrow> [] | Some c \<Rightarrow> c) (take n1 p) off of
                (c', m, Some e) \<Rightarrow> (fs(name \<mapsto> c'), 0, Some e)
              | (c', m, None) \<Rightarrow>
                  if drop m p = [] then (fs(name \<mapsto> c'), m, None)
                  else (case write_files env dir info (fs(name \<mapsto> c')) fis (drop m p) 0 of
                          (fs', n, e) \<Rightarrow> (fs', m + n, e)))"

definition WriteAt :: "os_env \<Rightarrow> bytes \<Rightarrow> info_dict \<Rightarrow> fsys \<Rightarrow> bytes \<Rightarrow> int \<Rightarrow> fsys \<times> nat \<times> ioerr option" where
  "WriteAt env dir info fs p off = write_files env dir info fs (FilesInfo info) p off"

section \<open>Pieces of the storage\<close>

record spiece =
  sp_blocks :: int
  dirtyBlocks :: "int set"
  sp_verified :: bool

definition reserveOffset :: "spiece \<Rightarrow> int \<Rightarrow> spiece \<times> bool" where
  "reserveOffset p off =
     (if off \<in> dirtyBlocks p \<or> sp_verified p then (p, False)
      else (p\<lparr>dirtyBlocks := insert off (dirtyBlocks p)\<rparr>, True))"

definition readyForVerification :: "spiece \<Rightarrow> bool" where
  "readyForVerification p \<longleftrightarrow> int (card (dirtyBlocks p)) = sp_blocks p"

definition markComplete :: "spiece \<Rightarrow> (unit, spiece) outcome" where
  "markComplete p =
     (if sp_verified p then Panic (PanicMsg ''storage: already verified'')
      else Return (p\<lparr>sp_verified := True, dirtyBlocks := {}\<rparr>))"

definition markNotComplete :: "spiece \<Rightarrow> spiece" where
  "markNotComplete p = p\<lparr>sp_verified := False, dirtyBlocks := {}\<rparr>"

section \<open>The storage\<close>

record storage =
  st_fs :: fsys
  st_pieces :: "spiece list"

definition pieceIndex :: "info_dict \<Rightarrow> int \<Rightarrow> (unit, int) outcome" where
  "pieceIndex info off =
     (if id_pieceLen info = 0 then Panic DivideByZero else Return (go_quot off (id_pieceLen info)))"

definition pieceOff :: "info_dict \<Rightarrow> int \<Rightarrow> int" where
  "pieceOff info i = go_int (i * id_pieceLen info)"

definition piece_at :: "info_dict \<Rightarrow> storage \<Rightarrow> int \<Rightarrow> (unit, nat) outcome" where
  "piece_at info s off =
     obind (pieceIndex info off) (\<lambda>i.
       if 0 \<le> i \<and> i < int (length (st_pieces s)) then Return (nat i) else Panic IndexOutOfRange)"

definition ReadBlock :: "os_env \<Rightarrow> bytes \<Rightarrow> info_dict \<Rightarrow> storage \<Rightarrow> nat \<Rightarrow> int
    \<Rightarrow> (unit, bytes \<times> ioerr option) outcome" where
  "ReadBlock env dir info s k off =
     obind (piece_at info s off) (\<lambda>i.
       if \<not> sp_verified (st_pieces s ! i) then Return ([], Some ErrReadNonVerified)
       else Return (ReadAt env dir info (st_fs s) k off))"

text \<open>Reserving the offset is the step that other writers see; the write that follows it is taken together with it.\<close>

definition WriteBlock :: "os_env \<Rightarrow> bytes \<Rightarrow> info_dict \<Rightarrow> storage \<Rightarrow> bytes \<Rightarrow> int
    \<Rightarrow> (unit, storage \<times> nat \<times> ioerr option) outcome" where
  "WriteBlock env dir info s p off =
     obind (piece_at info s off) (\<lambda>i.
       case reserveOffset (st_pieces s ! i) off of
         (pc, False) \<Rightarrow> Return (s, 0, Some ErrAlreadyWritten)
       | (pc, True) \<Rightarrow>
           (case WriteAt env dir info (st_fs s) p off of
              (fs', n, e) \<Rightarrow> Return (s\<lparr>st_pieces := (st_pieces s)[i := pc], st_fs := fs'\<rparr>, n, e)))"

text \<open>
  \<open>io.Copy\<close> from the section reader hashes what \<open>ReadAt\<close> yields of the section, up to
  the first error.
\<close>

fun compare_bytes :: "bytes \<Rightarrow> bytes \<Rightarrow> bool" where
  "compare_bytes (x # xs) (y # ys) = (if x \<noteq> y then False else compare_bytes xs ys)"
| "compare_bytes _ _ = True"

definition compareHashes :: "bytes option \<Rightarrow> bytes option \<Rightarrow> (unit, bool) outcome" where
  "compareHashes a b =
     (case (a, b) of
        (Some x, Some y) \<Rightarrow> Return (if length x \<noteq> length y then False else compare_bytes x y)
      | _ \<Rightarrow> Panic (PanicMsg ''expecting non nil hash''))"

lemma compareHashes_eq [simp]: "compareHashes (Some x) (Some y) = Return (x = y)"
proof -
  have "length x = length y \<Longrightarrow> compare_bytes x y = (x = y)" by (induction x y rule: list_induct2) auto
  then show ?thesis by (auto simp: compareHashes_def)
qed

definition hashPiece :: "(bytes \<Rightarrow> bytes) \<Rightarrow> os_env \<Rightarrow> bytes \<Rightarrow> info_dict \<Rightarrow> storage \<Rightarrow> int \<Rightarrow> int
    \<Rightarrow> (unit, storage \<times> bool) outcome" where
  "hashPiece sha1 env dir info s i len =
     (if \<not> (0 \<le> i \<and> i < int (length (st_pieces s))) then Panic IndexOutOfRange
      else let d = fst (ReadAt env dir info (st_fs s) (nat len) (pieceOff info i))
      in obind (if int (length d) = len
                then obind (PieceHash info i) (\<lambda>actualHash. compareHashes (Some (sha1 d)) (Some actualHash))
                else Return False)
           (\<lambda>correct.
              if correct
              then obind (markComplete (st_pieces s ! nat i)) (\<lambda>pc.
                     Return (s\<lparr>st_pieces := (st_pieces s)[nat i := pc]\<rparr>, True))
              else Return (s\<lparr>st_pieces := (st_pieces s)[nat i := markNotComplete (st_pieces s ! nat i)]\<rparr>, False)))"

definition HashPiece :: "(bytes \<Rightarrow> bytes) \<Rightarrow> os_env \<Rightarrow> bytes \<Rightarrow> info_dict \<Rightarrow> storage \<Rightarrow> int \<Rightarrow> int
    \<Rightarrow> (unit, storage \<times> bool) outcome" where
  "HashPiece sha1 env dir info s i len =
     (if \<not> (0 \<le> i \<and> i < int (length (st_pieces s))) then Panic IndexOutOfRange
      else if sp_verified (st_pieces s ! nat i) then Panic (PanicMsg ''storage: piece already verified'')
      else if \<not> readyForVerification (st_pieces s ! nat i)
      then Panic (PanicMsg ''storage: not all piece's blocks are written'')
      else hashPiece sha1 env dir info s i len)"

definition dataComplete :: "os_env \<Rightarrow> bytes \<Rightarrow> info_dict \<Rightarrow> storage \<Rightarrow> bool" where
  "dataComplete env dir info s \<longleftrightarrow>
     (\<forall>fi \<in> set (FilesInfo info).
        case st_fs s (fileInfoName dir info fi) of None \<Rightarrow> False | Some c \<Rightarrow> fi_len fi \<le> int (length c))"

fun dataVerified_loop :: "(bytes \<Rightarrow> bytes) \<Rightarrow> os_env \<Rightarrow> bytes \<Rightarrow> info_dict \<Rightarrow> storage \<Rightarrow> int list
    \<Rightarrow> (unit, storage \<times> bool) outcome" where
  "dataVerified_loop sha1 env dir info s [] = Return (s, True)"
| "dataVerified_loop sha1 env dir info s (i # is) =
     obind (PieceLength info i) (\<lambda>len.
     obind (hashPiece sha1 env dir info s i len) (\<lambda>(s', ok).
       if ok then dataVerified_loop sha1 env dir info s' is else Return (s', False)))"

definition dataVerified :: "(bytes \<Rightarrow> bytes) \<Rightarrow> os_env \<Rightarrow> bytes \<Rightarrow> info_dict \<Rightarrow> storage
    \<Rightarrow> (unit, storage \<times> bool) outcome" where
  "dataVerified sha1 env dir info s =
     dataVerified_loop sha1 env dir info s [0..int (length (st_pieces s)) - 1]"

definition OpenFileStorage :: "(bytes \<Rightarrow> bytes) \<Rightarrow> os_env \<Rightarrow> bytes \<Rightarrow> info_dict \<Rightarrow> fsys \<Rightarrow> int list
    \<Rightarrow> (unit, storage \<times> bool) outcome" where
  "OpenFileStorage sha1 env dir info fs blocks =
     (if int (length blocks) < NumPieces info then Panic IndexOutOfRange
      else let s = \<lparr>st_fs = fs,
                    st_pieces = map (\<lambda>b. \<lparr>sp_blocks = b, dirtyBlocks = {}, sp_verified = False\<rparr>)
                                  (take (nat (NumPieces info)) blocks)\<rparr>
           in if dataComplete env dir info s then dataVerified sha1 env dir info s else Return (s, False))"

end
