(* ===== verification/Storage_Correct.thy ===== *)
theory Storage_Correct
  imports Storage
begin

text \<open>
  The file storage implements an array of bytes indexed by the offset in the torrent. The
  abstraction \<open>byte_at\<close> finds the file a torrent offset falls into; \<open>WriteAt\<close> and
  \<open>ReadAt\<close> split at file boundaries and refine update and lookup of that array. On top of
  it, the contract of the \<open>Storage\<close> interface: a block is written once, only verified pieces
  are read, and verified data does not change.
\<close>

section \<open>The array of bytes\<close>

fun byte_at :: "(file_info \<Rightarrow> path) \<Rightarrow> fsys \<Rightarrow> file_info list \<Rightarrow> int \<Rightarrow> byte option" where
  "byte_at nm fs [] i = None"
| "byte_at nm fs (fi # fis) i =
     (if i < fi_len fi
      then (case fs (nm fi) of
              None \<Rightarrow> None
            | Some c \<Rightarrow> if 0 \<le> i \<and> i < int (length c) then Some (c ! nat i) else None)
      else byte_at nm fs fis (i - fi_len fi))"

definition env_ok :: "os_env \<Rightarrow> bool" where
  "env_ok env \<longleftrightarrow> (\<forall>p. \<not> open_fails env p \<and> write_stops env p = None)"

lemma env_okD: "env_ok env \<Longrightarrow> \<not> open_fails env p" "env_ok env \<Longrightarrow> write_stops env p = None"
  unfolding env_ok_def by blast+

definition files_ok :: "(file_info \<Rightarrow> path) \<Rightarrow> file_info list \<Rightarrow> bool" where
  "files_ok nm fis \<longleftrightarrow> distinct (map nm fis) \<and> (\<forall>f \<in> set fis. 0 \<le> fi_len f)"

lemma byte_at_cong: "(\<And>f. f \<in> set fis \<Longrightarrow> fs (nm f) = fs' (nm f)) \<Longrightarrow> byte_at nm fs fis i = byte_at nm fs' fis i"
  by (induction fis arbitrary: i) auto

lemma byte_at_upd_other: "nm fi \<notin> nm ` set fis \<Longrightarrow> byte_at nm (fs(nm fi \<mapsto> c)) fis i = byte_at nm fs fis i"
  by (intro byte_at_cong) (auto simp: image_iff)

lemma byte_at_first:
  "fs (nm fi) = Some c \<Longrightarrow> 0 \<le> i \<Longrightarrow> i < fi_len fi \<Longrightarrow> nat i < length c \<Longrightarrow>
   byte_at nm fs (fi # fis) i = Some (c ! nat i)"
  by simp linarith?

lemma byte_at_range:
  "byte_at nm fs fis i = Some b \<Longrightarrow> \<forall>f \<in> set fis. 0 \<le> fi_len f \<Longrightarrow> 0 \<le> i \<and> i < sum_list (map fi_len fis)"
proof (induction fis arbitrary: i)
  case (Cons f fis)
  have "0 \<le> sum_list (map fi_len fis)" using Cons.prems(2) by (intro sum_list_nonneg) auto
  with Cons show ?case by (fastforce split: if_splits option.splits)
qed simp

section \<open>Files\<close>

lemma file_put_length: "p \<noteq> [] \<Longrightarrow> length (file_put c p off) = max (length c) (off + length p)"
  by (auto simp: file_put_def max_def)

lemma file_put_in:
  "off \<le> i \<Longrightarrow> i < off + length p \<Longrightarrow> i < length (file_put c p off) \<and> file_put c p off ! i = p ! (i - off)"
  by (cases "p = []") (auto simp: file_put_length, auto simp: file_put_def nth_append min_def)

lemma file_put_out:
  "i < length c \<Longrightarrow> \<not> (off \<le> i \<and> i < off + length p) \<Longrightarrow>
   i < length (file_put c p off) \<and> file_put c p off ! i = c ! i"
  by (cases "p = []") (auto simp: file_put_def nth_append min_def)

lemma readFileAt_loop_eq:
  assumes "0 \<le> off" "off + int k \<le> flen"
  shows "readFileAt_loop c flen k off =
    (take k (drop (nat off) c), if length (take k (drop (nat off) c)) < k then Some EOF else None)"
proof (cases "k = 0")
  case True
  then show ?thesis by (simp add: readFileAt_loop.simps)
next
  case False
  let ?d = "take k (drop (nat off) c)"
  have step: "readFileAt_loop c flen k off =
    (if ?d = [] then ([], if length ?d < k then Some EOF else None)
     else case readFileAt_loop c flen (k - length ?d) (off + int (length ?d)) of (d', e') \<Rightarrow> (?d @ d', e'))"
    using False assms by (simp add: readFileAt_loop.simps [of c flen k off] file_ReadAt_def Let_def)
  show ?thesis
  proof (cases "?d = []")
    case True
    then show ?thesis using step False by simp
  next
    case d: False
    have off': "nat (off + int (length ?d)) = nat off + length ?d" using assms(1) by simp
    show ?thesis
    proof (cases "length ?d = k")
      case True
      then have "readFileAt_loop c flen (k - length ?d) (off + int (length ?d)) = ([], None)"
        by (simp add: readFileAt_loop.simps)
      with step d True show ?thesis by simp
    next
      case short: False
      then have "length c \<le> nat off + length ?d" by auto
      then have "drop (nat (off + int (length ?d))) c = []" unfolding off' by simp
      then have "readFileAt_loop c flen (k - length ?d) (off + int (length ?d)) = ([], Some EOF)"
        using short assms by (subst readFileAt_loop.simps) (auto simp: file_ReadAt_def Let_def)
      with step d short show ?thesis by simp
    qed
  qed
qed

section \<open>Reading and writing refine the array\<close>

lemma off_bound: "0 \<le> off \<Longrightarrow> 0 < m \<Longrightarrow> off + int (m - 1) < int l \<Longrightarrow> nat off + m \<le> l"
  by linarith

lemma out_bound:
  "0 \<le> i \<Longrightarrow> 0 \<le> off \<Longrightarrow> \<not> (off \<le> i \<and> i < off + int m) \<Longrightarrow> \<not> (nat off \<le> nat i \<and> nat i < nat off + m)"
  by linarith

lemma read_files_ok:
  assumes "env_ok env" "\<forall>f \<in> set fis. 0 \<le> fi_len f" "0 \<le> off" "0 < k"
    "\<forall>j < k. byte_at (fileInfoName dir info) fs fis (off + int j) = Some (g j)"
  shows "read_files env dir info fs fis k off = (map g [0..<k], None)"
  using assms(2-5)
proof (induction fis arbitrary: k off g)
  case Nil
  then show ?case by simp
next
  case (Cons fi fis)
  let ?nm = "fileInfoName dir info"
  have flen: "0 \<le> fi_len fi" using Cons.prems(1) by simp
  have skip: "read_files env dir info fs (fi # fis) k off = (map g [0..<k], None)"
    if "\<not> off < fi_len fi" "0 < k" "0 \<le> off"
      "\<forall>j < k. byte_at ?nm fs (fi # fis) (off + int j) = Some (g j)" for k off g
  proof -
    have "read_files env dir info fs fis k (off - fi_len fi) = (map g [0..<k], None)"
      using that Cons.prems(1) by (intro Cons.IH) (auto simp: algebra_simps)
    with that(1) show ?thesis by (simp add: read_files.simps(2))
  qed
  show ?case
  proof (cases "off < fi_len fi")
    case False
    then show ?thesis using skip Cons.prems by blast
  next
    case True
    let ?k = "if int k > fi_len fi - off then nat (fi_len fi - off) else k"
    have k: "?k \<le> k" "0 < ?k" "off + int ?k \<le> fi_len fi" using True Cons.prems(3) by auto
    have "byte_at ?nm fs (fi # fis) off = Some (g 0)" using Cons.prems(3) Cons.prems(4) [rule_format, of 0] by simp
    with True obtain c where c: "fs (?nm fi) = Some c" by (auto split: option.splits)
    have in_c: "off + int j < int (length c) \<and> c ! (nat off + j) = g j" if "j < ?k" for j
    proof -
      have "byte_at ?nm fs (fi # fis) (off + int j) = Some (g j)" using Cons.prems(4) that k(1) by simp
      moreover have "off + int j < fi_len fi" using that k(3) by simp
      ultimately show ?thesis using c Cons.prems(2) by (auto simp: nat_add_distrib split: if_splits)
    qed
    have len: "nat off + ?k \<le> length c"
      by (rule off_bound [OF Cons.prems(2) k(2)]) (use in_c [of "?k - 1"] k(2) in \<open>simp only: diff_less zero_less_one\<close>)
    have d: "take ?k (drop (nat off) c) = map g [0..<?k]"
      using in_c len by (intro nth_equalityI) auto
    have rf: "readFileAt env dir info fs fi k off = (map g [0..<?k], None)"
      using assms(1) c d len readFileAt_loop_eq [OF Cons.prems(2) k(3), of c]
      by (simp add: readFileAt_def env_okD Let_def)
    show ?thesis
    proof (cases "?k = k")
      case True': True
      then show ?thesis using True rf by (simp add: read_files.simps(2))
    next
      case False
      then have kk: "int ?k = fi_len fi - off" using \<open>off < fi_len fi\<close> by auto
      have "read_files env dir info fs (fi # fis) (k - ?k) (off + int ?k) = (map (\<lambda>j. g (j + ?k)) [0..<k - ?k], None)"
      proof (rule skip)
        show "\<not> off + int ?k < fi_len fi" using kk by simp
        show "0 < k - ?k" using False k(1) by simp
        show "0 \<le> off + int ?k" using Cons.prems(2) by simp
        show "\<forall>j < k - ?k. byte_at ?nm fs (fi # fis) (off + int ?k + int j) = Some (g (j + ?k))"
        proof (intro allI impI)
          fix j assume "j < k - ?k"
          then have "j + ?k < k" by linarith
          then have "byte_at ?nm fs (fi # fis) (off + int (j + ?k)) = Some (g (j + ?k))" using Cons.prems(4) by blast
          moreover have "off + int ?k + int j = off + int (j + ?k)" by simp
          ultimately show "byte_at ?nm fs (fi # fis) (off + int ?k + int j) = Some (g (j + ?k))" by (simp only:)
        qed
      qed
      moreover have "map g [0..<?k] @ map (\<lambda>j. g (j + ?k)) [0..<k - ?k] = map g [0..<k]"
        using k(1) by (intro nth_equalityI) (auto simp: nth_append)
      ultimately show ?thesis using True rf k False by (simp add: read_files.simps(2))
    qed
  qed
qed

lemma write_files_ok:
  assumes "env_ok env" "files_ok (fileInfoName dir info) fis" "0 \<le> off"
    "off + int (length p) \<le> sum_list (map fi_len fis)"
  shows "\<exists>fs'. write_files env dir info fs fis p off = (fs', length p, None) \<and>
    (\<forall>j < length p. byte_at (fileInfoName dir info) fs' fis (off + int j) = Some (p ! j)) \<and>
    (\<forall>i b. \<not> (off \<le> i \<and> i < off + int (length p)) \<longrightarrow>
       byte_at (fileInfoName dir info) fs fis i = Some b \<longrightarrow> byte_at (fileInfoName dir info) fs' fis i = Some b) \<and>
    (\<forall>q. q \<notin> fileInfoName dir info ` set fis \<longrightarrow> fs' q = fs q)"
  using assms(2-4)
proof (induction fis arbitrary: fs p off)
  case Nil
  then have "off + int (length p) \<le> 0" "0 \<le> off" by simp_all
  then have "length p = 0" by linarith
  then show ?case by simp
next
  case (Cons fi fis)
  let ?nm = "fileInfoName dir info"
  have ok: "files_ok ?nm fis" "0 \<le> fi_len fi" "?nm fi \<notin> ?nm ` set fis"
    using Cons.prems(1) by (auto simp: files_ok_def)
  show ?case
  proof (cases "fi_len fi \<le> off")
    case True
    obtain fs' where fs': "write_files env dir info fs fis p (off - fi_len fi) = (fs', length p, None)"
      "\<forall>j < length p. byte_at ?nm fs' fis (off - fi_len fi + int j) = Some (p ! j)"
      "\<forall>i b. \<not> (off - fi_len fi \<le> i \<and> i < off - fi_len fi + int (length p)) \<longrightarrow>
         byte_at ?nm fs fis i = Some b \<longrightarrow> byte_at ?nm fs' fis i = Some b"
      "\<forall>q. q \<notin> ?nm ` set fis \<longrightarrow> fs' q = fs q"
      using Cons.IH [OF ok(1), of "off - fi_len fi" p fs] Cons.prems True by auto
    have "fs' (?nm fi) = fs (?nm fi)" using fs'(4) ok(3) by blast
    with fs' True ok(2) show ?thesis
      by (intro exI [of _ fs']) (auto simp: algebra_simps)
  next
    case False
    let ?n = "if int (length p) > fi_len fi - off then nat (fi_len fi - off) else length p"
    let ?c = "case fs (?nm fi) of None \<Rightarrow> [] | Some c \<Rightarrow> c"
    let ?c' = "file_put ?c (take ?n p) (nat off)"
    let ?fs = "fs(?nm fi \<mapsto> ?c')"
    have n: "?n \<le> length p" "off + int ?n \<le> fi_len fi" using False by auto
    have fw: "file_WriteAt (write_stops env (?nm fi)) ?c (take ?n p) off = (?c', ?n, None)"
      using assms(1) Cons.prems(2) n(1) by (simp add: file_WriteAt_def env_okD)
    have first: "byte_at ?nm fs' (fi # fis) (off + int j) = Some (p ! j)"
      if "fs' (?nm fi) = Some ?c'" "j < ?n" for fs' j
    proof -
      have "nat (off + int j) = nat off + j" using Cons.prems(2) by simp
      moreover have "nat off + j < length ?c' \<and> ?c' ! (nat off + j) = p ! j"
        using file_put_in [of "nat off" "nat off + j" "take ?n p" ?c] that(2) n(1) by simp
      moreover have "off + int j < fi_len fi" using that(2) n(2) by linarith
      ultimately show ?thesis
        using byte_at_first [of fs' ?nm fi ?c' "off + int j" fis] that(1) Cons.prems(2) by (simp only:)
    qed
    have keep: "byte_at ?nm fs' (fi # fis) i = Some b"
      if "fs' (?nm fi) = Some ?c'" "i < fi_len fi" "byte_at ?nm fs (fi # fis) i = Some b"
        "\<not> (off \<le> i \<and> i < off + int ?n)" for fs' i b
    proof -
      note t = that
      obtain c where c: "fs (?nm fi) = Some c" "0 \<le> i" "i < int (length c)" "b = c ! nat i"
        using t(2,3) by (auto split: option.splits if_splits)
      have "\<not> (nat off \<le> nat i \<and> nat i < nat off + length (take ?n p))"
        using out_bound [OF c(2) Cons.prems(2) t(4)] n(1) by (simp only: length_take min_absorb2) simp
      moreover have "?c = c" "nat i < length c" using c(1-3) by simp_all
      ultimately have "nat i < length ?c' \<and> ?c' ! nat i = b"
        using file_put_out [of "nat i" c "nat off" "take ?n p"] c(4) by (simp only:) blast
      then show ?thesis using byte_at_first [of fs' ?nm fi ?c' i fis] t(1,2) c(2) by (simp only:)
    qed
    show ?thesis
    proof (cases "drop ?n p = []")
      case True
      then have np: "?n = length p" using n(1) by auto
      have w: "write_files env dir info fs (fi # fis) p off = (?fs, length p, None)"
        using assms(1) False fw True np by (simp add: env_okD Let_def)
      have rest: "byte_at ?nm ?fs fis i = byte_at ?nm fs fis i" for i
        using ok(3) by (rule byte_at_upd_other)
      show ?thesis
      proof (intro exI [of _ ?fs] conjI allI impI)
        show "write_files env dir info fs (fi # fis) p off = (?fs, length p, None)" by (rule w)
        show "byte_at ?nm ?fs (fi # fis) (off + int j) = Some (p ! j)" if "j < length p" for j
          using first [of ?fs j] that np by simp
        show "byte_at ?nm ?fs (fi # fis) i = Some b" if "\<not> (off \<le> i \<and> i < off + int (length p))"
          "byte_at ?nm fs (fi # fis) i = Some b" for i b
          using keep [of ?fs i b] that np rest by (cases "i < fi_len fi") auto
        show "?fs q = fs q" if "q \<notin> ?nm ` set (fi # fis)" for q using that by auto
      qed
    next
      case more: False
      then have kk: "int ?n = fi_len fi - off" using False by (auto split: if_splits)
      let ?p = "drop ?n p"
      have "0 + int (length ?p) \<le> sum_list (map fi_len fis)" using Cons.prems(3) kk n(1) by simp
      then obtain fs' where fs': "write_files env dir info ?fs fis ?p 0 = (fs', length ?p, None)"
        "\<forall>j < length ?p. byte_at ?nm fs' fis (0 + int j) = Some (?p ! j)"
        "\<forall>i b. \<not> (0 \<le> i \<and> i < 0 + int (length ?p)) \<longrightarrow>
           byte_at ?nm ?fs fis i = Some b \<longrightarrow> byte_at ?nm fs' fis i = Some b"
        "\<forall>q. q \<notin> ?nm ` set fis \<longrightarrow> fs' q = ?fs q"
        using Cons.IH [OF ok(1) order.refl, of ?p ?fs] by blast
      have w: "write_files env dir info fs (fi # fis) p off = (fs', length p, None)"
        using assms(1) False fw more fs'(1) n(1) by (simp add: env_okD Let_def)
      have f1: "fs' (?nm fi) = Some ?c'" using fs'(4) [rule_format, OF ok(3)] by (simp only: fun_upd_same)
      have rest: "byte_at ?nm ?fs fis i = byte_at ?nm fs fis i" for i
        using ok(3) by (rule byte_at_upd_other)
      show ?thesis
      proof (intro exI [of _ fs'] conjI allI impI)
        show "write_files env dir info fs (fi # fis) p off = (fs', length p, None)" by (rule w)
        show "byte_at ?nm fs' (fi # fis) (off + int j) = Some (p ! j)" if "j < length p" for j
        proof (cases "j < ?n")
          case True
          with first [of fs' j] f1 show ?thesis by blast
        next
          case False
          then have e: "off + int j - fi_len fi = 0 + int (j - ?n)" "\<not> off + int j < fi_len fi"
            using kk by (simp_all only: of_nat_diff not_less)
          have "j - ?n < length ?p" "?p ! (j - ?n) = p ! j"
            using that False n(1) by (simp_all only: length_drop nth_drop le_add_diff_inverse not_less diff_less_mono)
          then have "byte_at ?nm fs' fis (0 + int (j - ?n)) = Some (p ! j)" using fs'(2) by metis
          then show ?thesis using e by (simp only: byte_at.simps if_False)
        qed
        show "byte_at ?nm fs' (fi # fis) i = Some b" if "\<not> (off \<le> i \<and> i < off + int (length p))"
          "byte_at ?nm fs (fi # fis) i = Some b" for i b
        proof (cases "i < fi_len fi")
          case True
          moreover have "\<not> (off \<le> i \<and> i < off + int ?n)" using that(1) n(1) by linarith
          ultimately show ?thesis using keep [of fs' i b] f1 that(2) by blast
        next
          case False
          with that fs'(3) [rule_format, of "i - fi_len fi" b] rest [of "i - fi_len fi"] kk n(1) show ?thesis by auto
        qed
        show "fs' q = fs q" if "q \<notin> ?nm ` set (fi # fis)" for q
          using that fs'(4) [rule_format, of q] by (auto simp del: split_paired_All)
      qed
    qed
  qed
qed

lemma readFileAt_bytes:
  assumes "readFileAt env dir info fs fi k off = (d, e)" "0 \<le> off" "off < fi_len fi" "j < length d"
  shows "byte_at (fileInfoName dir info) fs (fi # fis) (off + int j) = Some (d ! j)"
proof -
  let ?k = "if int k > fi_len fi - off then nat (fi_len fi - off) else k"
  have k: "off + int ?k \<le> fi_len fi" using assms(3) by auto
  obtain c where c: "fs (fileInfoName dir info fi) = Some c" "readFileAt_loop c (fi_len fi) ?k off = (d, e)"
    using assms(1,4) by (auto simp: readFileAt_def Let_def split: if_splits option.splits)
  then have d: "d = take ?k (drop (nat off) c)" using readFileAt_loop_eq [OF assms(2) k, of c] by simp
  then have "length d \<le> ?k" "nat off + j < length c" using assms(4) by auto
  moreover have "nat (off + int j) = nat off + j" using assms(2) by simp
  moreover have "off + int j < fi_len fi" using assms(4) \<open>length d \<le> ?k\<close> k by linarith
  moreover have "d ! j = c ! (nat off + j)" using d assms(4) \<open>nat off + j < length c\<close> by simp
  ultimately show ?thesis
    using byte_at_first [of fs "fileInfoName dir info" fi c "off + int j" fis] c(1) assms(2) by (simp only:)
qed

lemma readFileAt_stuck:
  assumes "readFileAt env dir info fs fi k off = (d, e)" "0 \<le> off" "off < fi_len fi" "d = []" "0 < k"
  shows "e \<noteq> None"
proof -
  let ?k = "if int k > fi_len fi - off then nat (fi_len fi - off) else k"
  have k: "off + int ?k \<le> fi_len fi" "0 < ?k" using assms(3,5) by auto
  with assms(1,4) readFileAt_loop_eq [OF assms(2) k(1)] show ?thesis
    by (auto simp: readFileAt_def Let_def split: if_splits option.splits)
qed

lemma read_files_conv:
  "read_files env dir info fs fis k off = (d, None) \<Longrightarrow> 0 \<le> off \<Longrightarrow>
   length d = k \<and> (\<forall>j < k. byte_at (fileInfoName dir info) fs fis (off + int j) = Some (d ! j))"
proof (induction env dir info fs fis k off arbitrary: d rule: read_files.induct)
  case (2 env dir info fs fi fis k off)
  let ?nm = "fileInfoName dir info"
  show ?case
  proof (cases "off < fi_len fi")
    case True
    obtain d1 e1 where r: "readFileAt env dir info fs fi k off = (d1, e1)"
      by (cases "readFileAt env dir info fs fi k off") auto
    note l = readFileAt_length [OF r] and b = readFileAt_bytes [OF r 2(4) True]
    show ?thesis
    proof (cases "k - length d1 = 0")
      case True': True
      then have "d = d1" "length d1 = k" using 2(3) True r l by (simp_all add: read_files.simps(2))
      with b show ?thesis by blast
    next
      case False
      obtain d2 e2 where r2: "read_files env dir info fs (fi # fis) (k - length d1) (off + int (length d1)) = (d2, e2)"
        by (cases "read_files env dir info fs (fi # fis) (k - length d1) (off + int (length d1))") auto
      have "d1 \<noteq> []"
        using 2(3) True r False readFileAt_stuck [OF r 2(4) True]
        by (auto simp: read_files.simps(2) [of env dir info fs fi fis k off] split: if_splits)
      then have d: "d = d1 @ d2" "e2 = None"
        using 2(3) True r r2 False by (simp_all add: read_files.simps(2) [of env dir info fs fi fis k off])
      have ih: "length d2 = k - length d1"
        "\<forall>j < k - length d1. byte_at ?nm fs (fi # fis) (off + int (length d1) + int j) = Some (d2 ! j)"
        using 2(1) [OF True r [symmetric] False \<open>d1 \<noteq> []\<close>, of d2] r2 d(2) 2(4) by simp_all
      have "byte_at ?nm fs (fi # fis) (off + int j) = Some (d ! j)" if "j < k" for j
      proof (cases "j < length d1")
        case True
        then show ?thesis using b [OF True] d(1) by (simp only: nth_append if_True)
      next
        case False': False
        then have "byte_at ?nm fs (fi # fis) (off + int (length d1) + int (j - length d1)) = Some (d2 ! (j - length d1))"
          using ih(2) that by (metis diff_less_mono not_less)
        moreover have "off + int (length d1) + int (j - length d1) = off + int j" using False' by simp
        ultimately show ?thesis using False' d(1) by (simp only: nth_append if_False)
      qed
      then show ?thesis using d(1) ih(1) False by auto
    qed
  next
    case False
    then have "length d = k \<and> (\<forall>j < k. byte_at ?nm fs fis (off - fi_len fi + int j) = Some (d ! j))"
      using 2(2) [OF False, of d] 2(3,4) by (simp add: read_files.simps(2))
    then show ?thesis using False by (auto simp: algebra_simps)
  qed
qed simp

section \<open>The round trip\<close>

text \<open>
  C18. What \<open>WriteAt\<close> writes \<open>ReadAt\<close> reads back, also across file boundaries and into
  files that did not exist, and a range that could be read before and does not overlap the write
  still reads the same.
\<close>

theorem WriteAt_ReadAt:
  assumes "env_ok env" "files_ok (fileInfoName dir info) (FilesInfo info)" "0 \<le> off" "p \<noteq> []"
    "off + int (length p) \<le> sum_list (map fi_len (FilesInfo info))"
  shows "\<exists>fs'. WriteAt env dir info fs p off = (fs', length p, None) \<and>
    ReadAt env dir info fs' (length p) off = (p, None) \<and>
    (\<forall>k off' d. 0 \<le> off' \<and> (off' + int k \<le> off \<or> off + int (length p) \<le> off') \<and>
       ReadAt env dir info fs k off' = (d, None) \<longrightarrow> k = 0 \<or> ReadAt env dir info fs' k off' = (d, None))"
proof -
  let ?nm = "fileInfoName dir info" and ?fis = "FilesInfo info"
  have nn: "\<forall>f \<in> set ?fis. 0 \<le> fi_len f" using assms(2) by (simp add: files_ok_def)
  obtain fs' where fs': "write_files env dir info fs ?fis p off = (fs', length p, None)"
    "\<forall>j < length p. byte_at ?nm fs' ?fis (off + int j) = Some (p ! j)"
    "\<forall>i b. \<not> (off \<le> i \<and> i < off + int (length p)) \<longrightarrow> byte_at ?nm fs ?fis i = Some b \<longrightarrow>
       byte_at ?nm fs' ?fis i = Some b"
    using write_files_ok [OF assms(1,2,3,5), of fs] by auto
  have "ReadAt env dir info fs' (length p) off = (map ((!) p) [0..<length p], None)"
    unfolding ReadAt_def using fs'(2) assms(3,4) by (intro read_files_ok [OF assms(1) nn]) auto
  then have rd: "ReadAt env dir info fs' (length p) off = (p, None)" by (simp add: map_nth)
  have "ReadAt env dir info fs' k off' = (d, None)"
    if o: "0 \<le> off'" "off' + int k \<le> off \<or> off + int (length p) \<le> off'" "0 < k"
      and r: "ReadAt env dir info fs k off' = (d, None)" for k off' d
  proof -
    have c: "length d = k" "\<forall>j < k. byte_at ?nm fs ?fis (off' + int j) = Some (d ! j)"
      using read_files_conv [OF r [unfolded ReadAt_def] o(1)] by auto
    have "byte_at ?nm fs' ?fis (off' + int j) = Some (d ! j)" if "j < k" for j
      using fs'(3) [rule_format, of "off' + int j" "d ! j"] c(2) that o(2) by auto
    then have "ReadAt env dir info fs' k off' = (map ((!) d) [0..<k], None)"
      unfolding ReadAt_def using o by (intro read_files_ok [OF assms(1) nn]) auto
    then show ?thesis using c(1) map_nth [of d] by simp
  qed
  then have "\<forall>k off' d. 0 \<le> off' \<and> (off' + int k \<le> off \<or> off + int (length p) \<le> off') \<and>
      ReadAt env dir info fs k off' = (d, None) \<longrightarrow> k = 0 \<or> ReadAt env dir info fs' k off' = (d, None)"
    by blast
  with fs'(1) rd show ?thesis by (intro exI [of _ fs']) (simp add: WriteAt_def)
qed

definition ex_env :: os_env where
  "ex_env = \<lparr>open_fails = (\<lambda>_. False), write_stops = (\<lambda>_. None)\<rparr>"

definition ex_files :: info_dict where
  "ex_files = \<lparr>id_files = Some [\<lparr>fi_len = 3, fi_md5 = None, fi_path = Some [[97]]\<rparr>,
     \<lparr>fi_len = 4, fi_md5 = None, fi_path = Some [[98]]\<rparr>], id_len = 0, id_md5 = None, id_name = [116],
     id_pieceLen = 4, id_pieces = replicate 40 0, id_private = 0, id_hash = []\<rparr>"

lemma ex_files_ok: "files_ok (fileInfoName [47, 100] ex_files) (FilesInfo ex_files)"
  by code_simp

theorem WriteAt_ReadAt_witness:
  "\<exists>fs'. WriteAt ex_env [47, 100] ex_files Map.empty [1, 2, 3, 4] 2 = (fs', 4, None) \<and>
     ReadAt ex_env [47, 100] ex_files fs' 4 2 = ([1, 2, 3, 4], None)"
proof -
  have "env_ok ex_env" by (simp add: env_ok_def ex_env_def)
  moreover have "2 + int (length [1, 2, 3, 4 :: byte]) \<le> sum_list (map fi_len (FilesInfo ex_files))" by code_simp
  ultimately show ?thesis
    using WriteAt_ReadAt [OF _ ex_files_ok, of ex_env 2 "[1, 2, 3, 4]" Map.empty] by (auto simp: numeral_eq_Suc)
qed

section \<open>The contract of the storage interface\<close>

text \<open>
  What the client relies on (\<open>storage/interface.go\<close>), stated on the bytes of the torrent and
  the set of verified pieces: \<open>inside\<close> is a write that stays in one piece.
\<close>

locale block_storage =
  fixes byte :: "'s \<Rightarrow> int \<Rightarrow> byte option"
    and verified :: "'s \<Rightarrow> int \<Rightarrow> bool"
    and piece_of :: "int \<Rightarrow> int"
    and put :: "'s \<Rightarrow> bytes \<Rightarrow> int \<Rightarrow> ('s \<times> bool) option"
    and inside :: "bytes \<Rightarrow> int \<Rightarrow> bool"
  assumes write_data: "inside p off \<Longrightarrow> put s p off = Some (s', True) \<Longrightarrow> j < length p \<Longrightarrow>
      byte s' (off + int j) = Some (p ! j)"
    and write_frame: "inside p off \<Longrightarrow> put s p off = Some (s', ok) \<Longrightarrow>
      \<not> (off \<le> i \<and> i < off + int (length p)) \<Longrightarrow> byte s i = Some b \<Longrightarrow> byte s' i = Some b"
    and write_refused: "inside p off \<Longrightarrow> put s p off = Some (s', False) \<Longrightarrow> s' = s"
    and write_verified: "verified s (piece_of off) \<Longrightarrow> put s p off = Some (s', ok) \<Longrightarrow> \<not> ok"
    and keeps_verified: "put s p off = Some (s', ok) \<Longrightarrow> verified s' = verified s"
    and inside_piece: "inside p off \<Longrightarrow> off \<le> i \<Longrightarrow> i < off + int (length p) \<Longrightarrow> piece_of i = piece_of off"
begin

text \<open>The data of a verified piece survives any write.\<close>

lemma verified_immutable:
  assumes "verified s (piece_of i)" "byte s i = Some b" "inside p off" "put s p off = Some (s', ok)"
  shows "byte s' i = Some b"
proof (cases "off \<le> i \<and> i < off + int (length p)")
  case True
  then have "verified s (piece_of off)" using inside_piece [OF assms(3)] assms(1) by simp
  with write_verified assms(4) have "\<not> ok" by blast
  with write_refused [OF assms(3)] assms(2,4) show ?thesis by (cases ok) auto
next
  case False
  with write_frame [OF assms(3,4)] assms(2) show ?thesis by blast
qed

fun writes :: "'s \<Rightarrow> (bytes \<times> int) list \<Rightarrow> 's option" where
  "writes s [] = Some s"
| "writes s ((p, off) # ws) = (case put s p off of None \<Rightarrow> None | Some (s', ok) \<Rightarrow> writes s' ws)"

lemma verified_immutable_writes:
  assumes "verified s (piece_of i)" "byte s i = Some b" "\<forall>(p, off) \<in> set ws. inside p off" "writes s ws = Some s'"
  shows "byte s' i = Some b \<and> verified s' = verified s"
  using assms
proof (induction ws arbitrary: s)
  case (Cons w ws)
  obtain p off where w: "w = (p, off)" by (cases w)
  then obtain s1 ok where s1: "put s p off = Some (s1, ok)" "writes s1 ws = Some s'"
    using Cons.prems(4) by (auto split: option.splits)
  have "byte s1 i = Some b" "verified s1 = verified s"
    using verified_immutable [OF Cons.prems(1,2) _ s1(1)] keeps_verified [OF s1(1)] Cons.prems(3) w by auto
  with Cons.IH [of s1] Cons.prems(1,3) s1(2) show ?case by simp
qed simp

end

text \<open>
  The file storage keeps the contract, for any torrent with sensible lengths and distinct file
  names and a file system that does not fail.
\<close>

definition storage_ok :: "os_env \<Rightarrow> bytes \<Rightarrow> info_dict \<Rightarrow> bool" where
  "storage_ok env dir info \<longleftrightarrow>
     env_ok env \<and> info_ok info \<and> distinct (map (fileInfoName dir info) (FilesInfo info))"

definition in_piece :: "info_dict \<Rightarrow> bytes \<Rightarrow> int \<Rightarrow> bool" where
  "in_piece info p off \<longleftrightarrow>
     0 \<le> off \<and> p \<noteq> [] \<and> off + int (length p) \<le> TotalLength info \<and>
     (off + int (length p) - 1) div id_pieceLen info = off div id_pieceLen info"

definition put_block :: "os_env \<Rightarrow> bytes \<Rightarrow> info_dict \<Rightarrow> storage \<Rightarrow> bytes \<Rightarrow> int \<Rightarrow> (storage \<times> bool) option" where
  "put_block env dir info s p off =
     (case WriteBlock env dir info s p off of Return (s', n, e) \<Rightarrow> Some (s', e = None) | _ \<Rightarrow> None)"

definition is_verified :: "storage \<Rightarrow> int \<Rightarrow> bool" where
  "is_verified s i \<longleftrightarrow> 0 \<le> i \<and> i < int (length (st_pieces s)) \<and> sp_verified (st_pieces s ! nat i)"

locale file_storage =
  fixes env :: os_env and dir :: bytes and info :: info_dict
  assumes storage_ok: "storage_ok env dir info"
begin

lemma env: "env_ok env" and plen: "0 < id_pieceLen info"
  and files: "files_ok (fileInfoName dir info) (FilesInfo info)"
  and total: "TotalLength info = sum_list (map fi_len (FilesInfo info))"
  using storage_ok TotalLength_sum [of info] by (auto simp: storage_ok_def info_ok_def files_ok_def)

lemma WriteBlock_cases:
  assumes "WriteBlock env dir info s p off = Return (s', n, e)"
  shows "\<exists>i. piece_at info s off = Return i \<and> i < length (st_pieces s) \<and>
    (0 \<le> off \<longrightarrow> int i = off div id_pieceLen info) \<and>
    (let pc = st_pieces s ! i in
     if off \<in> dirtyBlocks pc \<or> sp_verified pc then s' = s \<and> e = Some ErrAlreadyWritten
     else WriteAt env dir info (st_fs s) p off = (st_fs s', n, e) \<and>
       st_pieces s' = (st_pieces s)[i := pc\<lparr>dirtyBlocks := insert off (dirtyBlocks pc)\<rparr>])"
proof -
  obtain i where i: "piece_at info s off = Return i" using assms by (auto simp: WriteBlock_def obind_Return_iff)
  then have "i < length (st_pieces s)" "0 \<le> off \<longrightarrow> int i = off div id_pieceLen info"
    using plen by (auto simp: piece_at_def pieceIndex_def go_simps pos_imp_zdiv_nonneg_iff obind_Return_iff split: if_splits)
  with i assms show ?thesis
    by (auto simp: WriteBlock_def reserveOffset_def Let_def split: if_splits prod.splits)
qed

lemma WriteBlock_data:
  assumes "in_piece info p off" "WriteBlock env dir info s p off = Return (s', n, e)"
  shows "e = None \<longrightarrow> (\<forall>j < length p. byte_at (fileInfoName dir info) (st_fs s') (FilesInfo info) (off + int j) = Some (p ! j))"
    "e \<noteq> None \<longrightarrow> s' = s"
    "\<not> (off \<le> i \<and> i < off + int (length p)) \<Longrightarrow> byte_at (fileInfoName dir info) (st_fs s) (FilesInfo info) i = Some b \<Longrightarrow>
      byte_at (fileInfoName dir info) (st_fs s') (FilesInfo info) i = Some b"
proof -
  have r: "0 \<le> off" "off + int (length p) \<le> sum_list (map fi_len (FilesInfo info))"
    using assms(1) total by (auto simp: in_piece_def)
  note c = WriteBlock_cases [OF assms(2)]
  note w = write_files_ok [OF env files r, of "st_fs s"]
  show "e = None \<longrightarrow> (\<forall>j < length p. byte_at (fileInfoName dir info) (st_fs s') (FilesInfo info) (off + int j) = Some (p ! j))"
    using c w by (auto simp: WriteAt_def Let_def split: if_splits)
  show "e \<noteq> None \<longrightarrow> s' = s" using c w by (auto simp: WriteAt_def Let_def split: if_splits)
  show "byte_at (fileInfoName dir info) (st_fs s') (FilesInfo info) i = Some b"
    if "\<not> (off \<le> i \<and> i < off + int (length p))" "byte_at (fileInfoName dir info) (st_fs s) (FilesInfo info) i = Some b"
    using c w that by (auto simp: WriteAt_def Let_def split: if_splits)
qed

lemma WriteBlock_verified:
  assumes "WriteBlock env dir info s p off = Return (s', n, e)"
  shows "is_verified s' = is_verified s" "0 \<le> off \<Longrightarrow> is_verified s (off div id_pieceLen info) \<Longrightarrow> e \<noteq> None"
proof -
  note c = WriteBlock_cases [OF assms]
  show "is_verified s' = is_verified s"
    using c by (auto simp: is_verified_def fun_eq_iff nth_list_update Let_def split: if_splits)
  show "e \<noteq> None" if o: "0 \<le> off" "is_verified s (off div id_pieceLen info)"
  proof -
    obtain i where i: "int i = off div id_pieceLen info" "sp_verified (st_pieces s ! i) \<longrightarrow> e = Some ErrAlreadyWritten"
      using c o(1) by (auto simp: Let_def split: if_splits)
    then have "nat (off div id_pieceLen info) = i" by (metis nat_int)
    with o(2) i(2) show ?thesis by (simp add: is_verified_def)
  qed
qed

lemma in_piece_index:
  assumes "in_piece info p off" "off \<le> i" "i < off + int (length p)"
  shows "i div id_pieceLen info = off div id_pieceLen info"
proof -
  have "off div id_pieceLen info \<le> i div id_pieceLen info" using assms(2) plen by (rule zdiv_mono1)
  moreover have "i div id_pieceLen info \<le> (off + int (length p) - 1) div id_pieceLen info"
    using assms(3) plen by (intro zdiv_mono1) auto
  ultimately show ?thesis using assms(1) by (simp add: in_piece_def)
qed

end

sublocale file_storage < contract: block_storage
    "\<lambda>s. byte_at (fileInfoName dir info) (st_fs s) (FilesInfo info)" is_verified "\<lambda>i. i div id_pieceLen info"
    "\<lambda>s p off. if in_piece info p off then put_block env dir info s p off else None" "in_piece info"
proof (unfold_locales, goal_cases)
  case (1 p off s s' j)
  then show ?case using WriteBlock_data(1) by (fastforce simp: put_block_def split: outcome.splits)
next
  case (2 p off s s' ok i b)
  then show ?case using WriteBlock_data(3) by (fastforce simp: put_block_def split: outcome.splits)
next
  case (3 p off s s')
  then show ?case using WriteBlock_data(2) by (fastforce simp: put_block_def split: outcome.splits)
next
  case (4 s off p s' ok)
  then show ?case using WriteBlock_verified(2) by (fastforce simp: put_block_def in_piece_def split: outcome.splits if_splits)
next
  case (5 s p off s' ok)
  then show ?case using WriteBlock_verified(1) by (fastforce simp: put_block_def split: outcome.splits if_splits)
next
  case (6 p off i)
  then show ?case by (rule in_piece_index)
qed

interpretation ex_fs: file_storage ex_env "[47, 100]" ex_files
  by unfold_locales (simp add: storage_ok_def env_ok_def ex_env_def, code_simp)

fun write_blocks :: "os_env \<Rightarrow> bytes \<Rightarrow> info_dict \<Rightarrow> storage \<Rightarrow> (bytes \<times> int) list \<Rightarrow> (unit, storage) outcome" where
  "write_blocks env dir info s [] = Return s"
| "write_blocks env dir info s ((p, off) # ws) =
     obind (WriteBlock env dir info s p off) (\<lambda>(s', n, e). write_blocks env dir info s' ws)"

context file_storage
begin

lemma write_blocks_writes:
  assumes "\<forall>(p, off) \<in> set ws. in_piece info p off" "write_blocks env dir info s ws = Return s'"
  shows "contract.writes s ws = Some s'"
  using assms
proof (induction ws arbitrary: s)
  case (Cons w ws)
  obtain p off where w: "w = (p, off)" by (cases w)
  then obtain s1 n e where s1: "WriteBlock env dir info s p off = Return (s1, n, e)" "write_blocks env dir info s1 ws = Return s'"
    using Cons.prems(2) by (auto simp: obind_Return_iff)
  with Cons w show ?case by (simp add: put_block_def)
qed simp

lemma write_blocks_verified:
  assumes "is_verified s (i div id_pieceLen info)"
    "byte_at (fileInfoName dir info) (st_fs s) (FilesInfo info) i = Some b"
    "\<forall>(p, off) \<in> set ws. in_piece info p off" "write_blocks env dir info s ws = Return s'"
  shows "byte_at (fileInfoName dir info) (st_fs s') (FilesInfo info) i = Some b \<and> is_verified s' = is_verified s"
  using contract.verified_immutable_writes [OF assms(1-3) write_blocks_writes [OF assms(3,4)]] .

lemma ReadAt_bytes:
  assumes "0 \<le> off" "0 < k"
  shows "ReadAt env dir info fs k off = (d, None) \<longleftrightarrow>
    length d = k \<and> (\<forall>j < k. byte_at (fileInfoName dir info) fs (FilesInfo info) (off + int j) = Some (d ! j))"
    (is "?l \<longleftrightarrow> ?r")
proof
  assume ?r
  then have "ReadAt env dir info fs k off = (map ((!) d) [0..<k], None)"
    unfolding ReadAt_def using files assms by (intro read_files_ok [OF env]) (auto simp: files_ok_def)
  then show ?l using \<open>?r\<close> map_nth [of d] by simp
qed (use read_files_conv assms in \<open>auto simp: ReadAt_def\<close>)

lemma piece_at_index:
  "0 \<le> off \<Longrightarrow> piece_at info s off =
    (if off div id_pieceLen info < int (length (st_pieces s)) then Return (nat (off div id_pieceLen info))
     else Panic IndexOutOfRange)"
  using plen by (simp add: piece_at_def pieceIndex_def go_simps pos_imp_zdiv_nonneg_iff)

lemma ReadBlock_iff:
  assumes "0 \<le> off" "0 < k"
  shows "ReadBlock env dir info s k off = Return (d, None) \<longleftrightarrow>
    is_verified s (off div id_pieceLen info) \<and> length d = k \<and>
    (\<forall>j < k. byte_at (fileInfoName dir info) (st_fs s) (FilesInfo info) (off + int j) = Some (d ! j))"
  using ReadAt_bytes [OF assms, of "st_fs s" d] piece_at_index [OF assms(1), of s] plen assms(1)
  by (auto simp: ReadBlock_def is_verified_def pos_imp_zdiv_nonneg_iff)

end

text \<open>
  C21. The data of a verified piece cannot be changed: whatever blocks are written afterwards,
  in whatever order, a block that could be read is read again with the same bytes.
\<close>

theorem verified_block_immutable:
  assumes "storage_ok env dir info" "0 \<le> off" "0 < k"
    "(off + int k - 1) div id_pieceLen info = off div id_pieceLen info"
    "ReadBlock env dir info s k off = Return (d, None)"
    "\<forall>(p, off') \<in> set ws. in_piece info p off'" "write_blocks env dir info s ws = Return s'"
  shows "ReadBlock env dir info s' k off = Return (d, None)"
proof -
  have st: "file_storage env dir info" using assms(1) by (rule file_storage.intro)
  let ?byte = "\<lambda>s. byte_at (fileInfoName dir info) (st_fs s) (FilesInfo info)"
  note r = file_storage.ReadBlock_iff [OF st assms(2,3)]
  have v: "is_verified s (off div id_pieceLen info)" "length d = k" "\<forall>j < k. ?byte s (off + int j) = Some (d ! j)"
    using r assms(5) by blast+
  have ix: "(off + int j) div id_pieceLen info = off div id_pieceLen info" if "j < k" for j
    using assms(4) that file_storage.plen [OF st] zdiv_mono1 [of off "off + int j" "id_pieceLen info"]
      zdiv_mono1 [of "off + int j" "off + int k - 1" "id_pieceLen info"] by simp
  have "?byte s' (off + int j) = Some (d ! j) \<and> is_verified s' = is_verified s" if "j < k" for j
    using file_storage.write_blocks_verified [OF st _ _ assms(6,7), of "off + int j" "d ! j"] v(1,3) ix [OF that] that
    by simp
  with v assms(3) r show ?thesis by metis
qed

text \<open>The example storage with both pieces written and the first one verified.\<close>

definition ex_storage :: storage where
  "ex_storage =
     \<lparr>st_fs = [(True, [[100], [116], [97]]) \<mapsto> [1, 2, 3], (True, [[100], [116], [98]]) \<mapsto> [4, 5, 6, 7]],
      st_pieces = [\<lparr>sp_blocks = 1, dirtyBlocks = {}, sp_verified = True\<rparr>,
                   \<lparr>sp_blocks = 1, dirtyBlocks = {}, sp_verified = False\<rparr>]\<rparr>"

theorem verified_block_immutable_witness:
  "\<exists>s'. write_blocks ex_env [47, 100] ex_files ex_storage [([9, 9], 0), ([8, 8, 8], 4)] = Return s' \<and>
     ReadBlock ex_env [47, 100] ex_files s' 4 0 = Return ([1, 2, 3, 4], None)"
proof -
  obtain s' where w: "write_blocks ex_env [47, 100] ex_files ex_storage [([9, 9], 0), ([8, 8, 8], 4)] = Return s'"
  proof -
    have "map_outcome id (\<lambda>_. ()) (write_blocks ex_env [47, 100] ex_files ex_storage [([9, 9], 0), ([8, 8, 8], 4)]) = Return ()"
      by code_simp
    then show ?thesis
      using that by (cases "write_blocks ex_env [47, 100] ex_files ex_storage [([9, 9], 0), ([8, 8, 8], 4)]") auto
  qed
  have r: "ReadBlock ex_env [47, 100] ex_files ex_storage 4 0 = Return ([1, 2, 3, 4], None)"
    "\<forall>(p, off') \<in> set [([9, 9 :: byte], 0), ([8, 8, 8], 4)]. in_piece ex_files p off'"
    "(0 + int 4 - 1) div id_pieceLen ex_files = 0 div id_pieceLen ex_files"
    by code_simp+
  from verified_block_immutable [OF ex_fs.storage_ok _ _ r(3,1,2) w] w show ?thesis by simp
qed

text \<open>What the connections and the hasher do with a storage, in any order.\<close>

datatype storage_op = OpWrite bytes int | OpHash int int

fun storage_run :: "(bytes \<Rightarrow> bytes) \<Rightarrow> os_env \<Rightarrow> bytes \<Rightarrow> info_dict \<Rightarrow> storage \<Rightarrow> storage_op list \<Rightarrow> (unit, storage) outcome" where
  "storage_run sha1 env dir info s [] = Return s"
| "storage_run sha1 env dir info s (OpWrite p off # ops) =
     obind (WriteBlock env dir info s p off) (\<lambda>(s', n, e). storage_run sha1 env dir info s' ops)"
| "storage_run sha1 env dir info s (OpHash i len # ops) =
     obind (HashPiece sha1 env dir info s i len) (\<lambda>(s', correct). storage_run sha1 env dir info s' ops)"

definition off_reserved :: "storage \<Rightarrow> nat \<Rightarrow> int \<Rightarrow> bool" where
  "off_reserved s i off \<longleftrightarrow> i < length (st_pieces s) \<and> off \<in> dirtyBlocks (st_pieces s ! i) \<and> \<not> sp_verified (st_pieces s ! i)"

lemma hashPiece_other:
  "HashPiece sha1 env dir info s j len = Return (s', correct) \<Longrightarrow> j \<noteq> int i \<Longrightarrow> off_reserved s i off \<Longrightarrow> off_reserved s' i off"
  by (auto simp: HashPiece_def hashPiece_def Let_def obind_Return_iff off_reserved_def nth_list_update split: if_splits)

lemma storage_run_keeps:
  assumes "file_storage env dir info"
  shows "storage_run sha1 env dir info s ops = Return s' \<Longrightarrow> \<forall>len. OpHash (int i) len \<notin> set ops \<Longrightarrow>
    off_reserved s i off \<Longrightarrow> off_reserved s' i off"
proof (induction ops arbitrary: s)
  case (Cons op ops)
  show ?case
  proof (cases op)
    case (OpWrite p off')
    with Cons.prems obtain s1 n e where w: "WriteBlock env dir info s p off' = Return (s1, n, e)"
      "storage_run sha1 env dir info s1 ops = Return s'" by (auto simp: obind_Return_iff)
    have "off_reserved s1 i off"
      using file_storage.WriteBlock_cases [OF assms w(1)] Cons.prems(3)
      by (auto simp: off_reserved_def Let_def nth_list_update split: if_splits)
    with Cons.IH w(2) Cons.prems(2) show ?thesis by simp
  next
    case (OpHash j len)
    with Cons.prems obtain s1 c where h: "HashPiece sha1 env dir info s j len = Return (s1, c)"
      "storage_run sha1 env dir info s1 ops = Return s'" by (auto simp: obind_Return_iff)
    with Cons.IH hashPiece_other Cons.prems(2,3) OpHash show ?thesis by fastforce
  qed
qed simp

text \<open>
  C25. A block is written once in an attempt to get its piece: after a write that was accepted, and
  whatever is written at whatever offsets, accepted or refused, and whatever other pieces are hashed
  afterwards, until the piece of the block is hashed every further write at that offset is refused and
  leaves the storage alone, and the block is not read.
\<close>

theorem WriteBlock_once:
  assumes "storage_ok env dir info" "in_piece info p off"
    "WriteBlock env dir info s p off = Return (s1, n, None)"
    "storage_run sha1 env dir info s1 ops = Return s2" "\<forall>len. OpHash (off div id_pieceLen info) len \<notin> set ops"
  shows "n = length p \<and> WriteBlock env dir info s2 q off = Return (s2, 0, Some ErrAlreadyWritten) \<and>
    ReadBlock env dir info s2 k off = Return ([], Some ErrReadNonVerified)"
proof -
  have st: "file_storage env dir info" using assms(1) by (rule file_storage.intro)
  have r: "0 \<le> off" "off + int (length p) \<le> sum_list (map fi_len (FilesInfo info))"
    using assms(2) file_storage.total [OF st] by (auto simp: in_piece_def)
  obtain i where i: "i < length (st_pieces s)" "int i = off div id_pieceLen info"
    "\<not> sp_verified (st_pieces s ! i)" "WriteAt env dir info (st_fs s) p off = (st_fs s1, n, None)"
    "st_pieces s1 = (st_pieces s)[i := (st_pieces s ! i)\<lparr>dirtyBlocks := insert off (dirtyBlocks (st_pieces s ! i))\<rparr>]"
    using file_storage.WriteBlock_cases [OF st assms(3)] r(1) by (auto simp: Let_def split: if_splits)
  then have "off_reserved s1 i off" by (simp add: off_reserved_def)
  with storage_run_keeps [OF st assms(4)] assms(5) i(2) have s2: "off_reserved s2 i off" by simp
  then have "piece_at info s2 off = Return i"
    using i(2) by (auto simp: file_storage.piece_at_index [OF st r(1)] off_reserved_def simp flip: i(2))
  moreover have "n = length p"
    using i(4) write_files_ok [OF file_storage.env [OF st] file_storage.files [OF st] r, of "st_fs s"]
    by (auto simp: WriteAt_def)
  ultimately show ?thesis
    using s2 by (simp add: WriteBlock_def ReadBlock_def reserveOffset_def off_reserved_def)
qed

text \<open>Two blocks of the second piece are written in turn; the first one is refused the second time.\<close>

theorem WriteBlock_once_witness:
  "\<exists>s1 s2. WriteBlock ex_env [47, 100] ex_files ex_storage [8, 8] 4 = Return (s1, 2, None) \<and>
     WriteBlock ex_env [47, 100] ex_files s1 [7] 6 = Return (s2, 1, None) \<and>
     WriteBlock ex_env [47, 100] ex_files s2 [9] 4 = Return (s2, 0, Some ErrAlreadyWritten)"
proof -
  have "obind (WriteBlock ex_env [47, 100] ex_files ex_storage [8, 8] 4) (\<lambda>(s1, n, e).
      obind (WriteBlock ex_env [47, 100] ex_files s1 [7] 6) (\<lambda>(s2, r). Return ((n, e), r))) = Return ((2, None), (1, None))"
    by code_simp
  then obtain s1 s2 where w: "WriteBlock ex_env [47, 100] ex_files ex_storage [8, 8] 4 = Return (s1, 2, None)"
    "WriteBlock ex_env [47, 100] ex_files s1 [7] 6 = Return (s2, 1, None)"
    by (auto simp: obind_Return_iff)
  moreover have "in_piece ex_files [8, 8] 4" by code_simp
  moreover have "storage_run (\<lambda>_. []) ex_env [47, 100] ex_files s1 [OpWrite [7] 6] = Return s2" using w(2) by simp
  ultimately show ?thesis using WriteBlock_once [OF ex_fs.storage_ok _ w(1), of _ "[OpWrite [7] 6]" s2] by auto
qed

text \<open>
  C27. Hashing a piece whose data has been written: the result is whether the SHA-1 sum of the data
  is the one of the torrent file. On success the data can be read, on failure every block of the
  piece can be written again, and the content of the files is never touched.
\<close>

theorem HashPiece_verifies:
  assumes "storage_ok env dir info" "0 \<le> i" "i < int (length (st_pieces s))" "D \<noteq> []"
    "\<not> sp_verified (st_pieces s ! nat i)" "readyForVerification (st_pieces s ! nat i)"
    "i * id_pieceLen info + int (length D) \<le> TotalLength info"
    "\<forall>j < length D. byte_at (fileInfoName dir info) (st_fs s) (FilesInfo info) (i * id_pieceLen info + int j) = Some (D ! j)"
    "PieceHash info i = Return h"
  shows "\<exists>s'. HashPiece sha1 env dir info s i (int (length D)) = Return (s', sha1 D = h) \<and> st_fs s' = st_fs s \<and>
    dirtyBlocks (st_pieces s' ! nat i) = {} \<and>
    (\<forall>j < length (st_pieces s). j \<noteq> nat i \<longrightarrow> st_pieces s' ! j = st_pieces s ! j) \<and>
    (if sha1 D = h then ReadBlock env dir info s' (length D) (i * id_pieceLen info) = Return (D, None)
     else \<not> sp_verified (st_pieces s' ! nat i))"
proof -
  have st: "file_storage env dir info" using assms(1) by (rule file_storage.intro)
  have P: "0 < id_pieceLen info" by (rule file_storage.plen [OF st])
  have o: "0 \<le> i * id_pieceLen info" using assms(2) P by simp
  have len: "0 < length D" using assms(4) by simp
  have "TotalLength info < 2 ^ 62"
    using assms(1) TotalLength_sum [of info] by (auto simp: storage_ok_def info_ok_def)
  then have "i * id_pieceLen info < 2 ^ 63" using assms(7) by simp
  then have off: "pieceOff info i = i * id_pieceLen info" using o unfolding pieceOff_def by (intro go_int_id) auto
  have rd: "ReadAt env dir info (st_fs s) (length D) (i * id_pieceLen info) = (D, None)"
    using file_storage.ReadAt_bytes [OF st o len] assms(8) by blast
  let ?pc = "(st_pieces s ! nat i)\<lparr>sp_verified := (sha1 D = h), dirtyBlocks := {}\<rparr>"
  let ?s' = "s\<lparr>st_pieces := (st_pieces s)[nat i := ?pc]\<rparr>"
  have h: "HashPiece sha1 env dir info s i (int (length D)) = Return (?s', sha1 D = h)"
    using assms(2,3,5,6,9) rd off
    by (auto simp: HashPiece_def hashPiece_def Let_def markComplete_def markNotComplete_def)
  have "nat i < length (st_pieces s)" using assms(2,3) by simp
  then have "ReadBlock env dir info ?s' (length D) (i * id_pieceLen info) = Return (D, None)" if "sha1 D = h"
    using that P assms(2,3,8) by (subst file_storage.ReadBlock_iff [OF st o len]) (simp add: is_verified_def)
  with h \<open>nat i < length (st_pieces s)\<close> show ?thesis by (intro exI [of _ ?s']) simp
qed

definition ex_storage1 :: storage where
  "ex_storage1 = ex_storage\<lparr>st_pieces :=
     [\<lparr>sp_blocks = 1, dirtyBlocks = {0}, sp_verified = False\<rparr>,
      \<lparr>sp_blocks = 1, dirtyBlocks = {}, sp_verified = False\<rparr>]\<rparr>"

theorem HashPiece_verifies_witness:
  "\<exists>s'. HashPiece (\<lambda>d. replicate 20 (of_nat (length d - 4))) ex_env [47, 100] ex_files ex_storage1 0 4 =
       Return (s', True) \<and>
     ReadBlock ex_env [47, 100] ex_files s' 4 0 = Return ([1, 2, 3, 4], None)"
proof -
  let ?nm = "fileInfoName [47, 100] ex_files"
  have a: "(0::int) < int (length (st_pieces ex_storage1))" "\<not> sp_verified (st_pieces ex_storage1 ! nat 0)"
    "readyForVerification (st_pieces ex_storage1 ! nat 0)"
    "0 * id_pieceLen ex_files + int (length [1, 2, 3, 4 :: byte]) \<le> TotalLength ex_files"
    "PieceHash ex_files 0 = Return (replicate 20 0)"
    by code_simp+
  have b: "\<forall>j < length [1, 2, 3, 4 :: byte].
      byte_at ?nm (st_fs ex_storage1) (FilesInfo ex_files) (0 * id_pieceLen ex_files + int j) = Some ([1, 2, 3, 4] ! j)"
    by code_simp
  from HashPiece_verifies [OF ex_fs.storage_ok order.refl a(1) _ a(2,3,4) b a(5),
      of "\<lambda>d. replicate 20 (of_nat (length d - 4))"]
  show ?thesis by (auto simp: numeral_eq_Suc)
qed

text \<open>
  The finding on file names: the path components of a torrent file are joined and cleaned
  but not checked, so a torrent can name a file outside the download directory.
\<close>

lemma fileInfoName_escapes:
  "fileInfoName [47, 100] ex_files \<lparr>fi_len = 1, fi_md5 = None, fi_path = Some [[46, 46], [46, 46], [120]]\<rparr> =
     (True, [[120]])"
  by code_simp

end
