(* ===== verification/Bitfield.thy ===== *)
theory Bitfield
  imports Prelude
begin

text \<open>
  The piece bit field of the wire protocol (\<open>peer_wire/bitfield.go\<close>) and the reserved
  bytes of the handshake (\<open>peer_wire/reserved.go\<close>). Bit 0 of a field is the highest bit of
  its first byte.
\<close>

section \<open>Bit fields\<close>

text \<open>\<open>math.Ceil\<close> of a piece count over 8; the count is far below the 53 bits of a float.\<close>

definition BfLen :: "int \<Rightarrow> int" where
  "BfLen numPieces = - (- numPieces div 8)"

definition NewBitField :: "int \<Rightarrow> bytes" where
  "NewBitField numPieces = replicate (nat (BfLen numPieces)) 0"

definition bf_Valid :: "bytes \<Rightarrow> int \<Rightarrow> bool" where
  "bf_Valid bf expectedLen \<longleftrightarrow> int (length bf) = BfLen expectedLen"

definition bf_mask :: "int \<Rightarrow> byte" where
  "bf_mask i = push_bit (nat (7 - go_rem i 8)) 1"

definition HasPiece :: "bytes \<Rightarrow> int \<Rightarrow> (unit, bool) outcome" where
  "HasPiece bf i =
     (let index = go_quot i 8
      in if index < 0 \<or> int (length bf) \<le> index then Panic IndexOutOfRange
         else Return ((bf ! nat index) AND bf_mask i > 0))"

definition SetPiece :: "bytes \<Rightarrow> int \<Rightarrow> (unit, bytes) outcome" where
  "SetPiece bf i =
     (let index = go_quot i 8
      in if index < 0 \<or> int (length bf) \<le> index then Panic IndexOutOfRange
         else Return (bf[nat index := (bf ! nat index) OR bf_mask i]))"

definition FilterNotSet :: "bytes \<Rightarrow> int list" where
  "FilterNotSet bf = filter (\<lambda>i. HasPiece bf i = Return True) [0..int (length bf) * 8 - 1]"

definition OnesCount :: "byte \<Rightarrow> nat" where
  "OnesCount b = length (filter (bit b) [0..<8])"

definition BitsSet :: "bytes \<Rightarrow> nat" where
  "BitsSet bf = sum_list (map OnesCount bf)"

section \<open>Reserved bytes\<close>

definition SupportDHT :: "bytes \<Rightarrow> bool" where
  "SupportDHT r \<longleftrightarrow> (r ! 7) AND 1 \<noteq> 0"

definition SetDHT :: "bytes \<Rightarrow> bytes" where
  "SetDHT r = r[7 := (r ! 7) OR 1]"

definition SetExtended :: "bytes \<Rightarrow> bytes" where
  "SetExtended r = r[5 := (r ! 5) OR 16]"

definition SupportExtended :: "bytes \<Rightarrow> bool" where
  "SupportExtended r \<longleftrightarrow> (r ! 5) AND 16 \<noteq> 0"

section \<open>Reading and setting bits\<close>

lemma BfLen_bounds:
  assumes "0 \<le> n"
  shows "n \<le> 8 * BfLen n" "8 * BfLen n < n + 8" "0 \<le> BfLen n"
proof -
  have "- n = 8 * (- n div 8) + - n mod 8" "0 \<le> - n mod 8" "- n mod 8 < 8" by simp_all
  then show "n \<le> 8 * BfLen n" "8 * BfLen n < n + 8" by (simp_all add: BfLen_def)
  then show "0 \<le> BfLen n" using assms by simp
qed

lemma mask_bit:
  assumes "0 \<le> i"
  shows "w AND bf_mask i > 0 \<longleftrightarrow> bit (w :: byte) (nat (7 - i mod 8))"
    "bit (bf_mask i) k \<longleftrightarrow> k = nat (7 - i mod 8)"
proof -
  let ?m = "nat (7 - i mod 8)"
  have m: "?m < 8" by simp
  have e: "bf_mask i = push_bit ?m 1" using assms by (simp add: bf_mask_def go_simps)
  show b: "bit (bf_mask i) k \<longleftrightarrow> k = ?m" for k
    unfolding e using m by (auto simp: push_bit_of_1 bit_exp_iff possible_bit_word)
  have "w AND bf_mask i = (if bit w ?m then bf_mask i else 0)"
    by (rule bit_word_eqI) (auto simp: bit_and_iff b)
  moreover have "bf_mask i \<noteq> 0" using b [of ?m] by auto
  ultimately show "w AND bf_mask i > 0 \<longleftrightarrow> bit w ?m" by (simp add: word_gt_0)
qed

lemma HasPiece_eq:
  assumes "0 \<le> i" "i < 8 * int (length bf)"
  shows "HasPiece bf i = Return (bit (bf ! nat (i div 8)) (nat (7 - i mod 8)))"
proof -
  have "i div 8 < int (length bf)" "0 \<le> i div 8" using assms by (simp_all add: pos_imp_zdiv_nonneg_iff)
  then show ?thesis using assms(1) by (simp add: HasPiece_def go_simps mask_bit)
qed

lemma SetPiece_eq:
  assumes "0 \<le> i" "i < 8 * int (length bf)"
  shows "SetPiece bf i = Return (bf[nat (i div 8) := (bf ! nat (i div 8)) OR bf_mask i])"
proof -
  have "i div 8 < int (length bf)" "0 \<le> i div 8" using assms by (simp_all add: pos_imp_zdiv_nonneg_iff)
  then show ?thesis using assms(1) by (simp add: SetPiece_def Let_def go_simps)
qed

lemma same_bit:
  assumes "0 \<le> i" "0 \<le> (j::int)" "nat (i div 8) = nat (j div 8)" "nat (7 - i mod 8) = nat (7 - j mod 8)"
  shows "i = j"
proof -
  have "i div 8 = j div 8" using assms(1-3) by (simp add: nat_eq_iff2 pos_imp_zdiv_nonneg_iff)
  moreover have "7 - i mod 8 \<ge> 0" "7 - j mod 8 \<ge> 0" by simp_all
  then have "i mod 8 = j mod 8" using assms(4) by simp
  ultimately show ?thesis by (metis div_mult_mod_eq)
qed

text \<open>
  What the rest of the client relies on: a set of indices below a bound, read and extended
  element by element.
\<close>

locale index_set =
  fixes has :: "'s \<Rightarrow> int \<Rightarrow> bool" and add :: "'s \<Rightarrow> int \<Rightarrow> 's" and size :: "'s \<Rightarrow> int"
  assumes size_add: "size (add s i) = size s"
    and has_add: "0 \<le> i \<Longrightarrow> i < size s \<Longrightarrow> 0 \<le> j \<Longrightarrow> j < size s \<Longrightarrow> has (add s i) j \<longleftrightarrow> j = i \<or> has s j"
begin

lemma size_adds: "size (foldl add s is) = size s"
  by (induction "is" arbitrary: s) (simp_all add: size_add)

lemma has_adds:
  "\<forall>i \<in> set is. 0 \<le> i \<and> i < size s \<Longrightarrow> 0 \<le> j \<Longrightarrow> j < size s \<Longrightarrow> has (foldl add s is) j \<longleftrightarrow> j \<in> set is \<or> has s j"
  by (induction "is" arbitrary: s) (auto simp: size_add has_add)

end

definition bf_has :: "bytes \<Rightarrow> int \<Rightarrow> bool" where
  "bf_has bf i \<longleftrightarrow> HasPiece bf i = Return True"

definition bf_set :: "bytes \<Rightarrow> int \<Rightarrow> bytes" where
  "bf_set bf i = (case SetPiece bf i of Return bf' \<Rightarrow> bf' | _ \<Rightarrow> bf)"

interpretation bf: index_set bf_has bf_set "\<lambda>bf. 8 * int (length bf)"
proof
  show l: "8 * int (length (bf_set s i)) = 8 * int (length s)" for s i
    by (simp add: bf_set_def SetPiece_def Let_def split: outcome.splits)
  fix s :: bytes and i j :: int
  assume i: "0 \<le> i" "i < 8 * int (length s)" and j: "0 \<le> j" "j < 8 * int (length s)"
  have "nat (i div 8) < length s" "nat (j div 8) < length s" using i j by (simp_all add: nat_less_iff pos_imp_zdiv_nonneg_iff)
  then show "bf_has (bf_set s i) j \<longleftrightarrow> j = i \<or> bf_has s j"
    using i j l [of s i] same_bit [OF j(1) i(1)]
    by (auto simp: bf_has_def HasPiece_eq bf_set_def SetPiece_eq nth_list_update bit_or_iff mask_bit)
qed

section \<open>Counting\<close>

lemma bits_upto_byte:
  "filter (\<lambda>i. bit (b :: byte) (nat (7 - i mod 8))) [8 * k..8 * k + 7] =
   map (\<lambda>m. 8 * k + 7 - int m) (rev (filter (bit b) [0..<8]))"
proof -
  have "[8 * k..8 * k + 7] = map (\<lambda>m. 8 * k + 7 - int m) (rev [0..<8])"
    by (simp add: upt_rec upto_rec1 numeral_eq_Suc)
  moreover have "nat (7 - (8 * k + 7 - int m) mod 8) = m" if "m < 8" for m
  proof -
    have "(8 * k + (7 - int m)) mod 8 = 7 - int m" using that by simp
    then show ?thesis by (simp add: algebra_simps)
  qed
  then have "filter (\<lambda>x. bit b (nat (7 - (8 * k + 7 - int x) mod 8))) [0..<8] = filter (bit b) [0..<8]"
    by (intro filter_cong) auto
  ultimately show ?thesis by (simp add: filter_map rev_filter [symmetric] comp_def)
qed

lemma bits_of_field:
  "length (filter (\<lambda>i. bit (bf ! nat (i div 8)) (nat (7 - i mod 8))) [0..8 * int (length bf) - 1]) = BitsSet bf"
proof (induction bf rule: rev_induct)
  case Nil
  then show ?case by (simp add: BitsSet_def)
next
  case (snoc b bf)
  let ?n = "int (length bf)"
  let ?P = "\<lambda>bf i. bit (bf ! nat (i div 8)) (nat (7 - i mod 8))"
  have sp: "[0..8 * int (length (bf @ [b])) - 1] = [0..8 * ?n - 1] @ [8 * ?n..8 * ?n + 7]"
    using upto_split1 [of 0 "8 * ?n" "8 * ?n + 7"] by (simp add: upto_split2 algebra_simps)
  have "filter (?P (bf @ [b])) [0..8 * ?n - 1] = filter (?P bf) [0..8 * ?n - 1]"
    by (intro filter_cong) (auto simp: nth_append nat_less_iff pos_imp_zdiv_nonneg_iff)
  moreover have "filter (?P (bf @ [b])) [8 * ?n..8 * ?n + 7] = filter (\<lambda>i. bit b (nat (7 - i mod 8))) [8 * ?n..8 * ?n + 7]"
  proof (intro filter_cong refl)
    fix i assume "i \<in> set [8 * ?n..8 * ?n + 7]"
    then have "i div 8 = ?n" by auto
    then show "?P (bf @ [b]) i = bit b (nat (7 - i mod 8))" by simp
  qed
  ultimately show ?case
    unfolding sp using snoc by (simp add: bits_upto_byte BitsSet_def OnesCount_def)
qed

lemma FilterNotSet_eq:
  "FilterNotSet bf = filter (\<lambda>i. bit (bf ! nat (i div 8)) (nat (7 - i mod 8))) [0..8 * int (length bf) - 1]"
  unfolding FilterNotSet_def by (intro filter_cong) (auto simp: HasPiece_eq mult.commute)

lemma HasPiece_NewBitField:
  "0 \<le> i \<Longrightarrow> i < 8 * BfLen n \<Longrightarrow> HasPiece (NewBitField n) i = Return False"
  by (simp add: HasPiece_eq NewBitField_def nat_less_iff pos_imp_zdiv_nonneg_iff)

lemma foldl_bf_set_length [simp]: "length (foldl bf_set bf is) = length bf"
  using bf.size_adds [of bf "is"] by simp

lemma bitfield_laws:
  assumes "0 \<le> n" "\<forall>i \<in> set is. 0 \<le> i \<and> i < n"
  defines "bf \<equiv> foldl bf_set (NewBitField n) is"
  shows "bf_Valid bf n"
    and "\<And>k. k < length is \<Longrightarrow> SetPiece (foldl bf_set (NewBitField n) (take k is)) (is ! k) =
           Return (foldl bf_set (NewBitField n) (take (Suc k) is))"
    and "\<And>j. 0 \<le> j \<Longrightarrow> j < 8 * BfLen n \<Longrightarrow> HasPiece bf j = Return (j \<in> set is)"
    and "FilterNotSet bf = sorted_list_of_set (set is)"
    and "BitsSet bf = card (set is)"
    and "\<And>j. 8 * BfLen n \<le> j \<Longrightarrow> HasPiece bf j = Panic IndexOutOfRange \<and> SetPiece bf j = Panic IndexOutOfRange"
proof -
  note b = BfLen_bounds [OF assms(1)]
  have len: "int (length (foldl bf_set (NewBitField n) js)) = BfLen n" for js
    using b(3) by (simp add: NewBitField_def)
  then show "bf_Valid bf n" by (simp add: bf_Valid_def bf_def)
  show "SetPiece (foldl bf_set (NewBitField n) (take k is)) (is ! k) =
           Return (foldl bf_set (NewBitField n) (take (Suc k) is))" if "k < length is" for k
  proof -
    have "0 \<le> is ! k" "is ! k < 8 * int (length (foldl bf_set (NewBitField n) (take k is)))"
      unfolding len using assms(2) b(1) nth_mem [OF that] by (auto intro: less_le_trans)
    then show ?thesis using that by (simp add: SetPiece_eq bf_set_def take_Suc_conv_app_nth)
  qed
  have rng: "\<forall>i \<in> set is. 0 \<le> i \<and> i < 8 * int (length (NewBitField n))"
    using assms(2) b len [of "[]"] by auto
  show has: "HasPiece bf j = Return (j \<in> set is)" if j: "0 \<le> j" "j < 8 * BfLen n" for j
  proof -
    have l: "j < 8 * int (length bf)" "j < 8 * int (length (NewBitField n))"
      using j len [of "is"] len [of "[]"] unfolding bf_def by simp_all
    have "bf_has bf j = (j \<in> set is)"
      unfolding bf_def using bf.has_adds [OF rng j(1) l(2)] HasPiece_NewBitField [OF j]
      by (simp add: bf_has_def)
    then show ?thesis using HasPiece_eq [OF j(1) l(1)] by (simp add: bf_has_def)
  qed
  have f: "FilterNotSet bf = filter (\<lambda>i. i \<in> set is) [0..8 * BfLen n - 1]"
    unfolding FilterNotSet_def using len [of "is"]
    by (intro filter_cong) (auto simp: has bf_def [symmetric] mult.commute)
  have "set (filter (\<lambda>i. i \<in> set is) [0..8 * BfLen n - 1]) = set is" using assms(2) b by force
  then show s: "FilterNotSet bf = sorted_list_of_set (set is)"
    unfolding f
    by (metis distinct_filter distinct_upto sorted_list_of_set.idem_if_sorted_distinct sorted_upto sorted_wrt_filter)
  show "BitsSet bf = card (set is)"
    using bits_of_field [of bf] s by (simp add: FilterNotSet_eq [symmetric])
  show "HasPiece bf j = Panic IndexOutOfRange \<and> SetPiece bf j = Panic IndexOutOfRange" if "8 * BfLen n \<le> j" for j
  proof -
    have "BfLen n \<le> j div 8" "0 \<le> j" using that b(3) by (auto simp: zdiv_mono1)
    then show ?thesis using len [of "is"] by (simp add: HasPiece_def SetPiece_def Let_def go_simps bf_def)
  qed
qed

text \<open>
  C35. A bit field is a faithful set of piece indices: set the pieces of a list of indices below
  the piece count in a new field, one \<open>SetPiece\<close> after the other, and no call panics, the
  field keeps its valid length, \<open>HasPiece\<close> of every index of the field answers whether it is
  on the list, \<open>FilterNotSet\<close> lists exactly the set ones in increasing order, and
  \<open>BitsSet\<close> is their number. An index outside the field panics.
\<close>

theorem bitfield_is_index_set:
  assumes "0 \<le> n" "\<forall>i \<in> set is. 0 \<le> i \<and> i < n"
  defines "bf \<equiv> foldl bf_set (NewBitField n) is"
  shows "bf_Valid bf n \<and>
    (\<forall>k < length is. SetPiece (foldl bf_set (NewBitField n) (take k is)) (is ! k) =
       Return (foldl bf_set (NewBitField n) (take (Suc k) is))) \<and>
    (\<forall>j. 0 \<le> j \<and> j < 8 * BfLen n \<longrightarrow> HasPiece bf j = Return (j \<in> set is)) \<and>
    FilterNotSet bf = sorted_list_of_set (set is) \<and> BitsSet bf = card (set is) \<and>
    (\<forall>j \<ge> 8 * BfLen n. HasPiece bf j = Panic IndexOutOfRange \<and> SetPiece bf j = Panic IndexOutOfRange)"
  using bitfield_laws [OF assms(1,2)] unfolding bf_def by blast

theorem bitfield_is_index_set_witness:
  "HasPiece (foldl bf_set (NewBitField 9) [3, 8]) 8 = Return True \<and> BitsSet (foldl bf_set (NewBitField 9) [3, 8]) = 2"
proof -
  have "HasPiece (foldl bf_set (NewBitField 9) [3, 8]) 8 = Return (8 \<in> set [3, 8::int])"
    using bitfield_is_index_set [of 9 "[3, 8]"] by (simp add: BfLen_def)
  moreover have "BitsSet (foldl bf_set (NewBitField 9) [3, 8]) = card (set [3, 8::int])"
    using bitfield_is_index_set [of 9 "[3, 8]"] by simp
  ultimately show ?thesis by simp
qed

section \<open>A field from a list of flags\<close>

text \<open>\<open>writeBinaryBitField\<close> of \<open>peer_wire/message.go\<close>.\<close>

fun write_bits :: "nat \<Rightarrow> bool list \<Rightarrow> bytes \<Rightarrow> (unit, bytes) outcome" where
  "write_bits i [] bf = Return bf"
| "write_bits i (v # vs) bf =
     (if \<not> v then write_bits (Suc i) vs bf
      else if length bf \<le> i div 8 then Panic IndexOutOfRange
      else write_bits (Suc i) vs (bf[i div 8 := bf ! (i div 8) OR push_bit (7 - i mod 8) 1]))"

definition writeBinaryBitField :: "bool list \<Rightarrow> (unit, bytes) outcome" where
  "writeBinaryBitField bytefield = write_bits 0 bytefield (replicate (nat (BfLen (int (length bytefield)))) 0)"

lemma bf_set_nat: "i div 8 < length bf \<Longrightarrow> bf_set bf (int i) = bf[i div 8 := bf ! (i div 8) OR push_bit (7 - i mod 8) 1]"
proof -
  assume a: "i div 8 < length bf"
  have "nat (7 - int i mod 8) = 7 - i mod 8" "nat (int i div 8) = i div 8" 
    by (simp_all add: nat_diff_distrib nat_mod_distrib nat_div_distrib)
  moreover have "int i < 8 * int (length bf)" using a by linarith
  ultimately show ?thesis by (simp add: bf_set_def SetPiece_eq bf_mask_def go_simps)
qed

lemma write_bits_set:
  "i + length vs \<le> 8 * length bf \<Longrightarrow>
   write_bits i vs bf = Return (foldl bf_set bf (map (\<lambda>j. int (i + j)) (filter (\<lambda>j. vs ! j) [0..<length vs])))"
proof (induction vs arbitrary: i bf)
  case (Cons v vs)
  have f: "filter (\<lambda>j. (v # vs) ! j) [0..<length (v # vs)] = (if v then [0] else []) @ map Suc (filter (\<lambda>j. vs ! j) [0..<length vs])"
    by (simp add: upt_conv_Cons map_Suc_upt [symmetric] filter_map comp_def del: upt_Suc)
  have "i div 8 < length bf" using Cons.prems by simp
  then show ?case using Cons.IH [of "Suc i"] Cons.prems unfolding f by (simp add: comp_def bf_set_nat add_ac)
qed simp

text \<open>It writes the field that the operations above read back: bit \<open>j\<close> is set exactly for a true flag \<open>j\<close>.\<close>

lemma writeBinaryBitField_reads:
  "\<exists>bf. writeBinaryBitField vs = Return bf \<and> bf_Valid bf (int (length vs)) \<and>
     (\<forall>j < length vs. HasPiece bf (int j) = Return (vs ! j))"
proof -
  let ?n = "int (length vs)" and ?is = "map int (filter (\<lambda>j. vs ! j) [0..<length vs])"
  have r: "\<forall>i \<in> set ?is. 0 \<le> i \<and> i < ?n" by auto
  note b = BfLen_bounds [of ?n] and laws = bitfield_laws [OF _ r]
  have "writeBinaryBitField vs = Return (foldl bf_set (NewBitField ?n) ?is)"
    using write_bits_set [of 0 vs "NewBitField ?n"] b by (simp add: writeBinaryBitField_def NewBitField_def)
  moreover have "HasPiece (foldl bf_set (NewBitField ?n) ?is) (int j) = Return (vs ! j)" if "j < length vs" for j
    using laws(3) [of "int j"] b that by (auto simp: image_iff)
  ultimately show ?thesis using laws(1) by auto
qed

end
