(* ===== verification/Handshake.thy ===== *)
theory Handshake
  imports Bitfield
begin

text \<open>
  The handshake of the peer wire protocol (\<open>peer_wire/handshake.go\<close>) over one end of a
  connection: the bytes the peer has sent and will send before it closes, the bytes written so
  far, and whether the connection still takes writes.
\<close>

section \<open>One end of a connection\<close>

datatype rw_error = IOEof | IOUnexpectedEOF | IOWriteFailed | IOReadFailed

record rw =
  rx :: bytes
  tx :: bytes
  rw_open :: bool

text \<open>\<open>io.ReadFull\<close> into a slice of \<open>n > 0\<close> bytes; a short read consumes what there is.\<close>

definition ReadFull :: "nat \<Rightarrow> bytes \<Rightarrow> bytes \<times> (rw_error, bytes) outcome" where
  "ReadFull n r =
     (if n \<le> length r then (drop n r, Return (take n r))
      else ([], Error (if r = [] then IOEof else IOUnexpectedEOF)))"

definition rw_read :: "nat \<Rightarrow> rw \<Rightarrow> rw \<times> (rw_error, bytes) outcome" where
  "rw_read n c = (case ReadFull n (rx c) of (r, res) \<Rightarrow> (c\<lparr>rx := r\<rparr>, res))"

definition rw_write :: "bytes \<Rightarrow> rw \<Rightarrow> rw \<times> rw_error option" where
  "rw_write b c = (if rw_open c then (c\<lparr>tx := tx c @ b\<rparr>, None) else (c, Some IOWriteFailed))"

lemma ReadFull_append [simp]: "n = length b \<Longrightarrow> 0 < n \<Longrightarrow> ReadFull n (b @ r) = (r, Return b)"
  by (simp add: ReadFull_def)

lemma rw_read_append: "rx c = b @ r \<Longrightarrow> n = length b \<Longrightarrow> rw_read n c = (c\<lparr>rx := r\<rparr>, Return b)"
  by (simp add: rw_read_def ReadFull_def)

section \<open>The handshake\<close>

definition protoLen :: byte where "protoLen = 19"

definition proto :: bytes where
  "proto = [66, 105, 116, 84, 111, 114, 114, 101, 110, 116, 32, 112, 114, 111, 116, 111, 99, 111, 108]"

text \<open>The arrays of the struct have 8, 20 and 20 bytes: \<open>hs_ok\<close>.\<close>

record HandShake =
  Reserved :: bytes
  InfoHash :: bytes
  PeerID :: bytes

definition hs_ok :: "HandShake \<Rightarrow> bool" where
  "hs_ok h \<longleftrightarrow> length (Reserved h) = 8 \<and> length (InfoHash h) = 20 \<and> length (PeerID h) = 20"

datatype hs_error = HsIO rw_error | BadProto | InfoHashMismatch

definition hs_bytes :: "HandShake \<Rightarrow> bytes" where
  "hs_bytes h = protoLen # proto @ Reserved h @ InfoHash h @ PeerID h"

definition hs_write :: "HandShake \<Rightarrow> rw \<Rightarrow> rw \<times> hs_error option" where
  "hs_write h conn = (case rw_write (hs_bytes h) conn of (c, e) \<Rightarrow> (c, map_option HsIO e))"

definition readHsWithoutPeerID :: "rw \<Rightarrow> rw \<times> (hs_error, HandShake) outcome" where
  "readHsWithoutPeerID conn =
     (case rw_read 20 conn of
        (c1, Panic p) \<Rightarrow> (c1, Panic p)
      | (c1, Error e) \<Rightarrow> (c1, Error (HsIO e))
      | (c1, Return pstr) \<Rightarrow>
          if hd pstr \<noteq> 19 \<and> tl pstr = proto then (c1, Error BadProto)
          else (case rw_read 28 c1 of
                  (c2, Panic p) \<Rightarrow> (c2, Panic p)
                | (c2, Error e) \<Rightarrow> (c2, Error (HsIO e))
                | (c2, Return buf) \<Rightarrow>
                    (c2, Return \<lparr>Reserved = take 8 buf, InfoHash = take 20 (drop 8 buf),
                                 PeerID = replicate 20 0\<rparr>)))"

definition readPeerID :: "HandShake \<Rightarrow> rw \<Rightarrow> rw \<times> (hs_error, HandShake) outcome" where
  "readPeerID h conn =
     (case rw_read 20 conn of
        (c, Panic p) \<Rightarrow> (c, Panic p)
      | (c, Error e) \<Rightarrow> (c, Error (HsIO e))
      | (c, Return buf) \<Rightarrow> (c, Return (h\<lparr>PeerID := buf\<rparr>)))"

definition readHs :: "rw \<Rightarrow> rw \<times> (hs_error, HandShake) outcome" where
  "readHs conn =
     (case readHsWithoutPeerID conn of
        (c, Return hs) \<Rightarrow> readPeerID hs c
      | (c, e) \<Rightarrow> (c, e))"

definition initiate :: "HandShake \<Rightarrow> rw \<Rightarrow> rw \<times> (hs_error, HandShake) outcome" where
  "initiate h c =
     (case hs_write h c of
        (c1, Some e) \<Rightarrow> (c1, Error e)
      | (c1, None) \<Rightarrow>
          (case readHs c1 of
             (c2, Return h') \<Rightarrow>
               if InfoHash h \<noteq> InfoHash h' then (c2, Error InfoHashMismatch) else (c2, Return h')
           | (c2, e) \<Rightarrow> (c2, e)))"

text \<open>The recipient also stores the info hash it received in its own handshake.\<close>

definition receipt :: "HandShake \<Rightarrow> rw \<Rightarrow> HandShake \<times> rw \<times> (hs_error, HandShake) outcome" where
  "receipt h c =
     (case readHsWithoutPeerID c of
        (c1, Return h') \<Rightarrow>
          (let h1 = h\<lparr>InfoHash := InfoHash h'\<rparr>
           in case hs_write h1 c1 of
                (c2, Some e) \<Rightarrow> (h1, c2, Error e)
              | (c2, None) \<Rightarrow> (case readPeerID h' c2 of (c3, res) \<Rightarrow> (h1, c3, res)))
      | (c1, e) \<Rightarrow> (h, c1, e))"

definition hs_Do :: "HandShake \<Rightarrow> rw \<Rightarrow> HandShake \<times> rw \<times> (hs_error, HandShake) outcome" where
  "hs_Do h c =
     (if InfoHash h \<noteq> replicate 20 0 then (h, initiate h c) else receipt h c)"

section \<open>Reading what was written\<close>

lemma length_proto [simp]: "length proto = 19"
  by (simp add: proto_def)

lemma hs_bytes_eq: "hs_bytes h = (19 # proto) @ (Reserved h @ InfoHash h) @ PeerID h"
  by (simp add: hs_bytes_def protoLen_def)

text \<open>
  The whole header is read by length only: every first part of 20 bytes passes except the
  protocol name behind a wrong length byte.
\<close>

lemma readHsWithoutPeerID_ok:
  assumes "rx c = p @ (r @ i) @ rest" "length p = 20" "length r = 8" "length i = 20"
    "\<not> (hd p \<noteq> 19 \<and> tl p = proto)"
  shows "readHsWithoutPeerID c = (c\<lparr>rx := rest\<rparr>, Return \<lparr>Reserved = r, InfoHash = i, PeerID = replicate 20 0\<rparr>)"
proof -
  have "rw_read 20 c = (c\<lparr>rx := (r @ i) @ rest\<rparr>, Return p)"
    by (rule rw_read_append) (use assms in simp_all)
  moreover have "rw_read 28 (c\<lparr>rx := (r @ i) @ rest\<rparr>) = (c\<lparr>rx := rest\<rparr>, Return (r @ i))"
    using rw_read_append [of "c\<lparr>rx := (r @ i) @ rest\<rparr>" "r @ i" rest 28] assms by simp
  ultimately show ?thesis using assms by (simp add: readHsWithoutPeerID_def)
qed

lemma readPeerID_ok:
  "rx c = i @ rest \<Longrightarrow> length i = 20 \<Longrightarrow> readPeerID h c = (c\<lparr>rx := rest\<rparr>, Return (h\<lparr>PeerID := i\<rparr>))"
  by (simp add: readPeerID_def rw_read_append)

lemma readHs_ok:
  assumes "rx c = p @ (r @ i) @ k @ rest" "length p = 20" "length r = 8" "length i = 20" "length k = 20"
    "\<not> (hd p \<noteq> 19 \<and> tl p = proto)"
  shows "readHs c = (c\<lparr>rx := rest\<rparr>, Return \<lparr>Reserved = r, InfoHash = i, PeerID = k\<rparr>)"
  using readHsWithoutPeerID_ok [OF assms(1-4,6)] readPeerID_ok [of "c\<lparr>rx := k @ rest\<rparr>" k rest] assms(5)
  by (simp add: readHs_def)

lemma readHs_hs_bytes:
  assumes "hs_ok h" "rx c = hs_bytes h @ rest"
  shows "readHs c = (c\<lparr>rx := rest\<rparr>, Return h)"
  using assms readHs_ok [of c "19 # proto" "Reserved h" "InfoHash h" "PeerID h" rest]
  by (simp add: hs_bytes_eq hs_ok_def)

text \<open>
  Both sides of a handshake agree. Let the initiator \<open>h\<close> (with an info hash) and the
  recipient \<open>r\<close> (with none yet) run \<open>Do\<close> on the two ends of a connection, each reading what
  the other one wrote: the initiator returns exactly the recipient's handshake with the
  initiator's info hash filled in, the recipient returns exactly the initiator's handshake, and
  each writes the 68 bytes of its own.
\<close>

lemma handshake_agreement:
  assumes "hs_ok h" "hs_ok r" "InfoHash h \<noteq> replicate 20 0" "InfoHash r = replicate 20 0"
  defines "r' \<equiv> r\<lparr>InfoHash := InfoHash h\<rparr>"
  shows "hs_Do h \<lparr>rx = hs_bytes r', tx = [], rw_open = True\<rparr> =
      (h, \<lparr>rx = [], tx = hs_bytes h, rw_open = True\<rparr>, Return r') \<and>
    hs_Do r \<lparr>rx = hs_bytes h, tx = [], rw_open = True\<rparr> =
      (r', \<lparr>rx = [], tx = hs_bytes r', rw_open = True\<rparr>, Return h) \<and>
    length (hs_bytes h) = 68"
proof (intro conjI)
  have r': "hs_ok r'" using assms by (simp add: hs_ok_def r'_def)
  show "hs_Do h \<lparr>rx = hs_bytes r', tx = [], rw_open = True\<rparr> =
      (h, \<lparr>rx = [], tx = hs_bytes h, rw_open = True\<rparr>, Return r')"
    using assms(3) readHs_hs_bytes [OF r', of "\<lparr>rx = hs_bytes r', tx = hs_bytes h, rw_open = True\<rparr>" "[]"]
    by (simp add: hs_Do_def initiate_def hs_write_def rw_write_def) (simp add: r'_def)
  have "readHsWithoutPeerID \<lparr>rx = hs_bytes h, tx = [], rw_open = True\<rparr> =
    (\<lparr>rx = PeerID h, tx = [], rw_open = True\<rparr>, Return (h\<lparr>PeerID := replicate 20 0\<rparr>))"
    using readHsWithoutPeerID_ok [of "\<lparr>rx = hs_bytes h, tx = [], rw_open = True\<rparr>" "19 # proto" "Reserved h" "InfoHash h" "PeerID h"]
      assms(1) by (simp add: hs_bytes_eq hs_ok_def)
  then show "hs_Do r \<lparr>rx = hs_bytes h, tx = [], rw_open = True\<rparr> =
      (r', \<lparr>rx = [], tx = hs_bytes r', rw_open = True\<rparr>, Return h)"
    using assms(1,4) readPeerID_ok [of "\<lparr>rx = PeerID h, tx = hs_bytes r', rw_open = True\<rparr>" "PeerID h" "[]"]
    by (simp add: hs_Do_def receipt_def hs_write_def rw_write_def Let_def r'_def [symmetric] hs_ok_def)
  show "length (hs_bytes h) = 68" using assms(1) by (simp add: hs_bytes_def hs_ok_def)
qed

lemma handshake_agreement_witness:
  "snd (snd (hs_Do \<lparr>Reserved = replicate 8 0, InfoHash = replicate 20 7, PeerID = replicate 20 1\<rparr>
     \<lparr>rx = hs_bytes \<lparr>Reserved = SetExtended (replicate 8 0), InfoHash = replicate 20 7, PeerID = replicate 20 2\<rparr>,
      tx = [], rw_open = True\<rparr>)) =
   Return \<lparr>Reserved = SetExtended (replicate 8 0), InfoHash = replicate 20 7, PeerID = replicate 20 2\<rparr>"
  using handshake_agreement
    [of "\<lparr>Reserved = replicate 8 0, InfoHash = replicate 20 7, PeerID = replicate 20 1\<rparr>"
        "\<lparr>Reserved = SetExtended (replicate 8 0), InfoHash = replicate 20 0, PeerID = replicate 20 2\<rparr>"]
  by (simp add: hs_ok_def SetExtended_def)

lemma zero_not_proto: "replicate n 0 \<noteq> proto"
proof
  assume "replicate n 0 = proto"
  then have "(66 :: byte) \<in> set (replicate n 0)" by (simp add: proto_def)
  then show False by simp
qed

text \<open>
  The finding on the protocol header (\<open>readHsWithoutPeerID\<close>): the test joins its two halves
  with \<open>&&\<close> and does not negate the comparison, so a handshake whose first 20 bytes are
  anything but the protocol name behind a wrong length is accepted like a correct one, and the
  only header rejected is one that has the right protocol name.
\<close>

lemma readHs_header_unchecked:
  "length p = 20 \<Longrightarrow> hs_ok h \<Longrightarrow>
   snd (readHs \<lparr>rx = p @ Reserved h @ InfoHash h @ PeerID h, tx = t, rw_open = ok\<rparr>) =
   (if hd p \<noteq> 19 \<and> tl p = proto then Error BadProto else Return h)"
proof (cases "hd p \<noteq> 19 \<and> tl p = proto")
  case True
  assume "length p = 20"
  then have "rw_read 20 \<lparr>rx = p @ Reserved h @ InfoHash h @ PeerID h, tx = t, rw_open = ok\<rparr> =
    (\<lparr>rx = Reserved h @ InfoHash h @ PeerID h, tx = t, rw_open = ok\<rparr>, Return p)"
    using rw_read_append [of "\<lparr>rx = p @ Reserved h @ InfoHash h @ PeerID h, tx = t, rw_open = ok\<rparr>" p _ 20] by simp
  with True show ?thesis by (simp add: readHs_def readHsWithoutPeerID_def)
next
  case False
  assume "length p = 20" "hs_ok h"
  with False show ?thesis
    using readHs_ok [of "\<lparr>rx = p @ Reserved h @ InfoHash h @ PeerID h, tx = t, rw_open = ok\<rparr>" p "Reserved h" "InfoHash h" "PeerID h" "[]"]
    by (simp add: hs_ok_def)
qed

lemma readHs_header_unchecked_witness:
  "snd (readHs \<lparr>rx = replicate 20 0 @ replicate 8 0 @ replicate 20 7 @ replicate 20 1, tx = [], rw_open = True\<rparr>) =
   Return \<lparr>Reserved = replicate 8 0, InfoHash = replicate 20 7, PeerID = replicate 20 1\<rparr>"
  using readHs_header_unchecked [of "replicate 20 0" "\<lparr>Reserved = replicate 8 0, InfoHash = replicate 20 7, PeerID = replicate 20 1\<rparr>" "[]" True]
  by (simp add: hs_ok_def zero_not_proto)

end
