(* ===== verification/Wire.thy ===== *)
theory Wire
  imports Handshake Bencode_Roundtrip
begin

text \<open>
  The messages of the peer wire protocol (\<open>peer_wire/message.go\<close>) and its extension messages
  (\<open>peer_wire/extension.go\<close>): encoding, decoding from the byte stream of a connection, and the
  dictionaries of the extension protocol. A message kind and an extension id are \<open>int8\<close>, kept
  as the byte on the wire.
\<close>

section \<open>Messages\<close>

abbreviation Choke :: byte where "Choke \<equiv> 0"
abbreviation Unchoke :: byte where "Unchoke \<equiv> 1"
abbreviation Interested :: byte where "Interested \<equiv> 2"
abbreviation NotInterested :: byte where "NotInterested \<equiv> 3"
abbreviation Have :: byte where "Have \<equiv> 4"
abbreviation BitfieldKind :: byte where "BitfieldKind \<equiv> 5"
abbreviation RequestKind :: byte where "RequestKind \<equiv> 6"
abbreviation PieceKind :: byte where "PieceKind \<equiv> 7"
abbreviation Cancel :: byte where "Cancel \<equiv> 8"
abbreviation PortKind :: byte where "PortKind \<equiv> 9"
abbreviation KeepAlive :: byte where "KeepAlive \<equiv> 10"
abbreviation Extended :: byte where "Extended \<equiv> 20"

definition maxMsgLength :: nat where "maxMsgLength = 1024 * 256"

abbreviation ExtHandshakeID :: byte where "ExtHandshakeID \<equiv> 0"
abbreviation ExtMetadataID :: byte where "ExtMetadataID \<equiv> 1"
abbreviation MetadataReqID :: byte where "MetadataReqID \<equiv> 0"
abbreviation MetadataDataID :: byte where "MetadataDataID \<equiv> 1"
abbreviation MetadataRejID :: byte where "MetadataRejID \<equiv> 2"

text \<open>\<open>md_Data = None\<close> is the nil slice, which the code tells from an empty one.\<close>

record MetadataExtMsg =
  md_Kind :: byte
  md_Piece :: int
  md_TotalSz :: int
  md_Data :: "bytes option"

type_synonym ExtHandshakeDict = "(bytes \<times> goval) list option"

type_synonym extensions = "(bytes \<times> byte) list"

text \<open>
  The dynamic types \<open>ExtendedMsg\<close> has in the program: the two the decoder produces, and the
  struct of an extension map and a metadata size that the client's own extension handshake carries.
\<close>

datatype ext_msg = NoExt | ExtHandshake ExtHandshakeDict | MetadataExt MetadataExtMsg | OwnHandshake extensions int

record Msg =
  Kind :: byte
  Index :: "32 word"
  Begin :: "32 word"
  Len :: "32 word"
  Bf :: bytes
  Block :: bytes
  Port :: "16 word"
  ExtendedID :: byte
  ExtendedMsg :: ext_msg

definition new_Msg :: Msg where
  "new_Msg = \<lparr>Kind = 0, Index = 0, Begin = 0, Len = 0, Bf = [], Block = [], Port = 0,
              ExtendedID = 0, ExtendedMsg = NoExt\<rparr>"

datatype wire_error = WireIO rw_error | TooLongMsg | UnknownKind | UnknownExtension | ExpectedData | WireBencode berr

section \<open>Extension messages as bencode values\<close>

text \<open>The tags of \<open>MetadataExtMsg\<close>: \<open>msg_type\<close>, \<open>piece\<close>, \<open>total_size\<close> and \<open>-\<close>.\<close>

definition md_fields :: "field_tag list" where
  "md_fields =
     [([75, 105, 110, 100], [109, 115, 103, 95, 116, 121, 112, 101], []),
      ([80, 105, 101, 99, 101], [112, 105, 101, 99, 101], []),
      ([84, 111, 116, 97, 108, 83, 122], [116, 111, 116, 97, 108, 95, 115, 105, 122, 101], omit),
      ([68, 97, 116, 97], dash, [])]"

definition md_val :: "MetadataExtMsg \<Rightarrow> goval" where
  "md_val m = VStruct (zip md_fields
     [VInt 8 (sint (md_Kind m)), VInt 64 (md_Piece m), VInt 64 (md_TotalSz m), VBytes (md_Data m)])"

definition md_zero :: MetadataExtMsg where
  "md_zero = \<lparr>md_Kind = 0, md_Piece = 0, md_TotalSz = 0, md_Data = None\<rparr>"

text \<open>The struct of a value of its type; decoding keeps the type, so the last case does not occur.\<close>

fun md_of :: "goval \<Rightarrow> MetadataExtMsg" where
  "md_of (VStruct [(_, VInt _ k), (_, VInt _ p), (_, VInt _ t), (_, VBytes d)]) =
     \<lparr>md_Kind = of_int k, md_Piece = p, md_TotalSz = t, md_Data = d\<rparr>"
| "md_of _ = md_zero"

text \<open>The client's handshake: fields \<open>ExtMap\<close> tagged \<open>m\<close>, \<open>MetaSz\<close> tagged \<open>metadata_size\<close>.\<close>

definition key_m :: bytes where "key_m = [109]"
definition key_metadata_size :: bytes where
  "key_metadata_size = [109, 101, 116, 97, 100, 97, 116, 97, 95, 115, 105, 122, 101]"
definition ExtMetadataName :: bytes where
  "ExtMetadataName = [117, 116, 95, 109, 101, 116, 97, 100, 97, 116, 97]"

definition own_val :: "extensions \<Rightarrow> int \<Rightarrow> goval" where
  "own_val exts metaSz = VStruct
     [(([69, 120, 116, 77, 97, 112], key_m, []),
       VMap True (TInt 8) (Some (map (\<lambda>(n, i). (n, VInt 8 (sint i))) exts))),
      (([77, 101, 116, 97, 83, 122], key_metadata_size, omit), VInt 64 metaSz)]"

fun ext_val :: "ext_msg \<Rightarrow> goval" where
  "ext_val NoExt = VIface None"
| "ext_val (ExtHandshake d) = VIface (Some (VMap True TIface d))"
| "ext_val (MetadataExt m) = VIface (Some (md_val m))"
| "ext_val (OwnHandshake exts metaSz) = VIface (Some (own_val exts metaSz))"

definition decodeExtHandshakeMsg :: "bytes \<Rightarrow> ExtHandshakeDict \<times> berr option" where
  "decodeExtHandshakeMsg msg =
     (case Decode msg (VMap True TIface None) of
        (VMap _ _ d, e) \<Rightarrow> (d, e)
      | (_, e) \<Rightarrow> (None, e))"

definition writeExtension :: "Msg \<Rightarrow> (wire_error, bytes) outcome" where
  "writeExtension msg =
     (case Encode (VPtr TIface (Some (ext_val (ExtendedMsg msg)))) of
        Inl e \<Rightarrow> Panic (PanicMsg ''bencode'')
      | Inr b \<Rightarrow>
          if ExtendedID msg = 0 then Return b
          else (case ExtendedMsg msg of
                  MetadataExt emsg \<Rightarrow>
                    Return (case md_Data emsg of None \<Rightarrow> b | Some d \<Rightarrow> b @ d)
                | _ \<Rightarrow> Panic (PanicMsg ''interface conversion'')))"

definition readMetadataExt :: "bytes \<Rightarrow> (wire_error, ext_msg) outcome" where
  "readMetadataExt payload =
     (case Decode payload (md_val md_zero) of
        (v, Some e) \<Rightarrow>
          (case e of
             LargeBufferErr remaining \<Rightarrow>
               if md_Kind (md_of v) \<noteq> MetadataDataID then Error (WireBencode e)
               else Return (MetadataExt ((md_of v)\<lparr>md_Data := Some (drop (length payload - remaining) payload)\<rparr>))
           | _ \<Rightarrow> Error (WireBencode e))
      | (v, None) \<Rightarrow>
          if md_Kind (md_of v) = MetadataDataID then Error ExpectedData
          else Return (MetadataExt (md_of v)))"

definition readExtension :: "byte \<Rightarrow> bytes \<Rightarrow> Msg \<Rightarrow> (wire_error, Msg) outcome" where
  "readExtension extKind payload msg =
     (if extKind = 0
      then (case decodeExtHandshakeMsg payload of
              (d, Some e) \<Rightarrow> Error (WireBencode e)
            | (d, None) \<Rightarrow> Return (msg\<lparr>ExtendedMsg := ExtHandshake d\<rparr>))
      else if extKind = ExtMetadataID
      then obind (readMetadataExt payload) (\<lambda>x. Return (msg\<lparr>ExtendedMsg := x\<rparr>))
      else Error UnknownExtension)"

section \<open>Encoding\<close>

definition msg_body :: "Msg \<Rightarrow> (wire_error, bytes) outcome" where
  "msg_body m =
     (if Kind m = KeepAlive then Return []
      else if Kind m \<in> {Choke, Unchoke, Interested, NotInterested} then Return (put_u8 (Kind m))
      else if Kind m = Have then Return (put_u8 (Kind m) @ put_u32 (Index m))
      else if Kind m = BitfieldKind then Return (put_u8 (Kind m) @ Bf m)
      else if Kind m \<in> {RequestKind, Cancel}
      then Return (put_u8 (Kind m) @ put_u32 (Index m) @ put_u32 (Begin m) @ put_u32 (Len m))
      else if Kind m = PieceKind
      then Return (put_u8 (Kind m) @ put_u32 (Index m) @ put_u32 (Begin m) @ Block m)
      else if Kind m = Extended
      then obind (writeExtension m) (\<lambda>e. Return (put_u8 (Kind m) @ put_u8 (ExtendedID m) @ e))
      else if Kind m = PortKind then Return (put_u8 (Kind m) @ put_u16 (Port m))
      else Panic (PanicMsg ''Unknown kind of msg to send''))"

definition msg_Encode :: "Msg \<Rightarrow> (wire_error, bytes) outcome" where
  "msg_Encode m = obind (msg_body m) (\<lambda>b. Return (put_u32 (of_nat (length b)) @ b))"

section \<open>Decoding\<close>

text \<open>\<open>readFromBinary\<close> of one value, with a short buffer turned into a panic by \<open>checkRead\<close>.\<close>

definition checkRead :: "'a option \<Rightarrow> ('a \<Rightarrow> (wire_error, 'b) outcome) \<Rightarrow> (wire_error, 'b) outcome" where
  "checkRead x f = (case x of None \<Rightarrow> Panic (PanicMsg ''read binary'') | Some a \<Rightarrow> f a)"

definition decode_body :: "bytes \<Rightarrow> (wire_error, Msg) outcome" where
  "decode_body buf =
     checkRead (get_u8 buf) (\<lambda>(kind, b).
       let msg = new_Msg\<lparr>Kind := kind\<rparr>
       in if kind \<in> {Choke, Unchoke, Interested, NotInterested} then Return msg
          else if kind = Have then checkRead (get_u32 b) (\<lambda>(i, _). Return (msg\<lparr>Index := i\<rparr>))
          else if kind = BitfieldKind then Return (msg\<lparr>Bf := b\<rparr>)
          else if kind \<in> {RequestKind, Cancel}
          then checkRead (get_u32 b) (\<lambda>(i, b1). checkRead (get_u32 b1) (\<lambda>(bg, b2).
                 checkRead (get_u32 b2) (\<lambda>(l, _). Return (msg\<lparr>Index := i, Begin := bg, Len := l\<rparr>))))
          else if kind = PieceKind
          then checkRead (get_u32 b) (\<lambda>(i, b1). checkRead (get_u32 b1) (\<lambda>(bg, b2).
                 Return (msg\<lparr>Index := i, Begin := bg, Block := b2\<rparr>)))
          else if kind = PortKind then checkRead (get_u16 b) (\<lambda>(p, _). Return (msg\<lparr>Port := p\<rparr>))
          else if kind = Extended
          then checkRead (get_u8 b) (\<lambda>(e, b1). readExtension e b1 (msg\<lparr>ExtendedID := e\<rparr>))
          else Error UnknownKind)"

definition msg_Decode :: "bytes \<Rightarrow> bytes \<times> (wire_error, Msg) outcome" where
  "msg_Decode r =
     (case ReadFull 4 r of
        (r1, Panic p) \<Rightarrow> (r1, Panic p)
      | (r1, Error e) \<Rightarrow> (r1, Error (WireIO e))
      | (r1, Return msgLen) \<Rightarrow>
          (let n = be_get msgLen
           in if maxMsgLength < n then (r1, Error TooLongMsg)
              else if n = 0 then (r1, Return (new_Msg\<lparr>Kind := KeepAlive\<rparr>))
              else (case ReadFull n r1 of
                      (r2, Panic p) \<Rightarrow> (r2, Panic p)
                    | (r2, Error e) \<Rightarrow> (r2, Error (WireIO e))
                    | (r2, Return buf) \<Rightarrow> (r2, decode_body buf))))"

text \<open>The request a block answers.\<close>

definition msg_Request :: "Msg \<Rightarrow> (wire_error, Msg) outcome" where
  "msg_Request m =
     (if Kind m \<noteq> PieceKind then Panic (PanicMsg ''kind'')
      else Return (new_Msg\<lparr>Kind := RequestKind, Index := Index m, Begin := Begin m,
                            Len := of_nat (length (Block m))\<rparr>))"

section \<open>The extension handshake\<close>

datatype ext_error = NoMDict | MNotDict | MNotInt

fun int64_of :: "goval \<Rightarrow> int option" where
  "int64_of (VIface (Some (VInt w i))) = (if w = 64 then Some i else None)"
| "int64_of _ = None"

fun dict_of :: "goval \<Rightarrow> ExtHandshakeDict option" where
  "dict_of (VIface (Some (VMap True TIface m))) = Some m"
| "dict_of _ = None"

definition dict_get :: "ExtHandshakeDict \<Rightarrow> bytes \<Rightarrow> goval option" where
  "dict_get d k = (case d of None \<Rightarrow> None | Some kvs \<Rightarrow> map_of kvs k)"

text \<open>
  The peer's extension ids. The source ranges over the map in no fixed order; every order finds
  a value that is not an integer, or none.
\<close>

fun ext_ids :: "(bytes \<times> goval) list \<Rightarrow> (ext_error, extensions) outcome" where
  "ext_ids [] = Return []"
| "ext_ids ((k, v) # m) =
     (case int64_of v of
        None \<Rightarrow> Error MNotInt
      | Some i \<Rightarrow> obind (ext_ids m) (\<lambda>r. Return ((k, of_int i) # r)))"

definition Extensions :: "ExtHandshakeDict \<Rightarrow> (ext_error, extensions) outcome" where
  "Extensions d =
     (case dict_get d key_m of
        None \<Rightarrow> Error NoMDict
      | Some v \<Rightarrow> (case dict_of v of None \<Rightarrow> Error MNotDict | Some m \<Rightarrow> ext_ids (case m of None \<Rightarrow> [] | Some kvs \<Rightarrow> kvs)))"

definition MetadataSize :: "ExtHandshakeDict \<Rightarrow> int \<times> bool" where
  "MetadataSize d =
     (case dict_get d key_metadata_size of
        None \<Rightarrow> (0, False)
      | Some v \<Rightarrow> (case int64_of v of None \<Rightarrow> (0, False) | Some i \<Rightarrow> (i, True)))"

text \<open>The extensions the client offers, and its handshake (\<open>torrent/extension.go\<close>).\<close>

definition offered_extensions :: extensions where
  "offered_extensions = [(ExtMetadataName, ExtMetadataID)]"

definition extensionHandshakeMsg :: "int \<Rightarrow> Msg" where
  "extensionHandshakeMsg metaSz =
     new_Msg\<lparr>Kind := Extended, ExtendedID := 0, ExtendedMsg := OwnHandshake offered_extensions metaSz\<rparr>"

end
