(* ===== verification/Wire_Correct.thy ===== *)
theory Wire_Correct
  imports Wire
begin

text \<open>
  Decoding inverts encoding for every message the client can represent on the wire, message
  boundaries survive a stream of them, and the inputs on which the decoder panics are exactly
  the complete frames whose payload is shorter than their kind needs.
\<close>

section \<open>Messages that the wire can carry\<close>

text \<open>The message with only the fields of its kind.\<close>

definition canon :: "Msg \<Rightarrow> Msg" where
  "canon m =
     (let z = new_Msg\<lparr>Kind := Kind m\<rparr>
      in if Kind m \<in> {Choke, Unchoke, Interested, NotInterested, KeepAlive} then z
         else if Kind m = Have then z\<lparr>Index := Index m\<rparr>
         else if Kind m = BitfieldKind then z\<lparr>Bf := Bf m\<rparr>
         else if Kind m \<in> {RequestKind, Cancel} then z\<lparr>Index := Index m, Begin := Begin m, Len := Len m\<rparr>
         else if Kind m = PieceKind then z\<lparr>Index := Index m, Begin := Begin m, Block := Block m\<rparr>
         else if Kind m = PortKind then z\<lparr>Port := Port m\<rparr>
         else z\<lparr>ExtendedID := ExtendedID m, ExtendedMsg := ExtendedMsg m\<rparr>)"

definition known_kind :: "byte \<Rightarrow> bool" where
  "known_kind k \<longleftrightarrow> k \<le> 10 \<or> k = Extended"

text \<open>
  A metadata message carries data exactly when it is a data message, and then at least one byte;
  a handshake dictionary is a non-empty map of values the bencode package round-trips. The
  client's own handshake is sent as a struct and read back as a dictionary:
  \<open>own_handshake_understood\<close>.
\<close>

fun ext_ok :: "byte \<Rightarrow> ext_msg \<Rightarrow> bool" where
  "ext_ok i NoExt = False"
| "ext_ok i (OwnHandshake exts sz) = False"
| "ext_ok i (ExtHandshake None) = False"
| "ext_ok i (ExtHandshake (Some d)) = (i = 0 \<and> d \<noteq> [] \<and> rt (VMap True TIface (Some d)))"
| "ext_ok i (MetadataExt e) =
     (i = ExtMetadataID \<and> fits_signed 64 (md_Piece e) \<and> fits_signed 64 (md_TotalSz e) \<and>
      (case md_Data e of None \<Rightarrow> md_Kind e \<noteq> MetadataDataID | Some d \<Rightarrow> md_Kind e = MetadataDataID \<and> d \<noteq> []))"

definition msg_ok :: "Msg \<Rightarrow> bool" where
  "msg_ok m \<longleftrightarrow> known_kind (Kind m) \<and> canon m = m \<and>
     (Kind m = Extended \<longrightarrow> ext_ok (ExtendedID m) (ExtendedMsg m)) \<and>
     (case msg_body m of Return b \<Rightarrow> length b \<le> maxMsgLength | _ \<Rightarrow> False)"

section \<open>Extension payloads\<close>

lemma rt_md: "fits_signed 64 (md_Piece e) \<Longrightarrow> fits_signed 64 (md_TotalSz e) \<Longrightarrow> md_Data e = None \<Longrightarrow> rt (md_val e)"
  using sint_range_size [of "md_Kind e"]
  by (auto simp: md_val_def md_fields_def written_def dash_def omit_def field_key_def fits_signed_def word_size)

lemma start_md: "start (md_val e) (md_val md_zero)"
  by (simp add: md_val_def md_zero_def md_fields_def)

lemma md_of_val [simp]: "md_of (md_val e) = e"
  by (simp add: md_val_def md_fields_def)

lemma encode_md_data: "encode (md_val (e\<lparr>md_Data := d\<rparr>)) = encode (md_val e)"
  by (simp add: md_val_def md_fields_def dash_def omit_def)

lemma Decode_md:
  assumes "fits_signed 64 (md_Piece e)" "fits_signed 64 (md_TotalSz e)"
  shows "Encode (VPtr TIface (Some (VIface (Some (md_val e))))) = Inr (ebytes (md_val e))"
    and "Decode (ebytes (md_val e) @ rest) (md_val md_zero) =
      (md_val (e\<lparr>md_Data := None\<rparr>), if rest = [] then None else Some (LargeBufferErr (length rest)))"
proof -
  let ?e = "e\<lparr>md_Data := None\<rparr>"
  have r: "rt (md_val ?e)" using assms by (intro rt_md) simp_all
  have eb: "ebytes (md_val ?e) = ebytes (md_val e)" by (simp add: ebytes_def encode_md_data)
  show "Encode (VPtr TIface (Some (VIface (Some (md_val e))))) = Inr (ebytes (md_val e))"
    using encode_rt [OF r] by (simp add: Encode_def encode_md_data eb)
  show "Decode (ebytes (md_val e) @ rest) (md_val md_zero) =
      (md_val ?e, if rest = [] then None else Some (LargeBufferErr (length rest)))"
    using Decode_ebytes [OF r start_md] by (simp only: eb)
qed

lemma readMetadataExt_write:
  assumes "ext_ok i (MetadataExt e)" "i = ExtendedID m" "ExtendedMsg m = MetadataExt e"
  shows "\<exists>b. writeExtension m = Return b \<and> readMetadataExt b = Return (MetadataExt e)"
proof -
  have f: "fits_signed 64 (md_Piece e)" "fits_signed 64 (md_TotalSz e)" and i: "ExtendedID m \<noteq> 0"
    using assms by auto
  note D = Decode_md [OF f]
  show ?thesis
  proof (cases "md_Data e")
    case None
    then have e: "e\<lparr>md_Data := None\<rparr> = e" by simp
    have "md_Kind e \<noteq> 1" using assms None by simp
    then show ?thesis
      using D(1) D(2) [of "[]"] None assms(3) i
      by (simp add: writeExtension_def readMetadataExt_def e)
  next
    case (Some d)
    have k: "md_Kind e = 1" "d \<noteq> []" using assms Some by auto
    have e: "e\<lparr>md_Data := Some d\<rparr> = e" using Some by simp
    from k show ?thesis
      using D(1) D(2) [of d] Some assms(3) i
      by (simp add: writeExtension_def readMetadataExt_def e)
  qed
qed

lemma readExtHandshake_write:
  assumes "ext_ok i (ExtHandshake d)" "i = ExtendedID m" "ExtendedMsg m = ExtHandshake d"
  shows "\<exists>b. writeExtension m = Return b \<and> decodeExtHandshakeMsg b = (d, None)"
proof -
  obtain kvs where d: "d = Some kvs" "ExtendedID m = 0" "kvs \<noteq> []" "rt (VMap True TIface (Some kvs))"
    using assms by (cases d) auto
  have "encode (VMap True TIface (Some kvs)) = Inr (ebytes (VMap True TIface (Some kvs)))"
    using encode_rt [OF d(4)] by simp
  moreover have "Decode (ebytes (VMap True TIface (Some kvs)) @ []) (VMap True TIface None) =
    (VMap True TIface (Some kvs), None)"
    using d by (subst Decode_ebytes) auto
  ultimately show ?thesis
    using d assms(3) by (simp add: writeExtension_def decodeExtHandshakeMsg_def Encode_def)
qed

lemma readExtension_write:
  assumes "ext_ok (ExtendedID m) (ExtendedMsg m)"
  shows "\<exists>b. writeExtension m = Return b \<and>
    readExtension (ExtendedID m) b m' = Return (m'\<lparr>ExtendedMsg := ExtendedMsg m\<rparr>)"
proof (cases "ExtendedMsg m")
  case (ExtHandshake d)
  then have "ExtendedID m = 0" using assms by (cases d) auto
  then show ?thesis
    using readExtHandshake_write [of _ d m] ExtHandshake assms by (auto simp: readExtension_def)
next
  case (MetadataExt e)
  then have "ExtendedID m = 1" using assms by auto
  then show ?thesis
    using readMetadataExt_write [of _ e m] MetadataExt assms by (auto simp: readExtension_def)
qed (use assms in auto)

section \<open>The round trip\<close>

lemmas codec_nil [codec_simps] = codec_roundtrip [where rest = "[]", unfolded append_Nil2]

lemma kinds: "known_kind k \<Longrightarrow>
  k \<in> {Choke, Unchoke, Interested, NotInterested, Have, BitfieldKind, RequestKind, PieceKind, Cancel, PortKind, KeepAlive, Extended}"
proof -
  assume "known_kind k"
  then consider "unat k \<le> 10" | "k = Extended" by (auto simp: known_kind_def word_le_nat_alt)
  then show ?thesis
  proof cases
    case 1
    then have n: "k = of_nat (unat k)" "unat k \<in> set [0..<11]" by simp_all
    have "\<forall>n \<in> set [0..<11]. (of_nat n :: byte) \<in> {Choke, Unchoke, Interested, NotInterested, Have,
      BitfieldKind, RequestKind, PieceKind, Cancel, PortKind, KeepAlive, Extended}" by code_simp
    with n show ?thesis by metis
  qed simp
qed

lemma decode_body_plain:
  assumes "Kind m \<in> {Choke, Unchoke, Interested, NotInterested, Have, BitfieldKind, RequestKind, PieceKind, Cancel, PortKind}"
  shows "\<exists>b. msg_body m = Return b \<and> b \<noteq> [] \<and> decode_body b = Return (canon m)"
  using assms unfolding insert_iff empty_iff
  by (elim disjE FalseE)
    (simp_all add: msg_body_def decode_body_def canon_def checkRead_def codec_simps put_u8_def get_u8_def)

lemma decode_body_encode:
  assumes "msg_ok m" "Kind m \<noteq> KeepAlive"
  shows "\<exists>b. msg_body m = Return b \<and> b \<noteq> [] \<and> decode_body b = Return m"
proof (cases "Kind m = Extended")
  case True
  then obtain b where b: "writeExtension m = Return b"
    "\<And>m'. readExtension (ExtendedID m) b m' = Return (m'\<lparr>ExtendedMsg := ExtendedMsg m\<rparr>)"
    using readExtension_write assms by (metis msg_ok_def outcome.inject(1))
  then have "\<exists>b. msg_body m = Return b \<and> b \<noteq> [] \<and> decode_body b = Return (canon m)"
    using True by (simp add: msg_body_def decode_body_def canon_def checkRead_def codec_simps put_u8_def get_u8_def)
  then show ?thesis using assms by (simp add: msg_ok_def)
next
  case False
  then show ?thesis
    using decode_body_plain [of m] kinds [of "Kind m"] assms unfolding msg_ok_def by auto
qed

lemma ReadFull_prefix:
  assumes "n \<le> maxMsgLength"
  shows "ReadFull 4 (put_u32 (of_nat n) @ r) = (r, Return (put_u32 (of_nat n)))" "be_get (put_u32 (of_nat n)) = n"
proof -
  show "ReadFull 4 (put_u32 (of_nat n) @ r) = (r, Return (put_u32 (of_nat n)))" by simp
  have "n < 2 ^ 32" using assms by (simp add: maxMsgLength_def)
  then show "be_get (put_u32 (of_nat n)) = n" by (simp add: put_u32_def codec_simps unat_of_nat)
qed

lemma msg_Decode_Encode:
  assumes "msg_ok m"
  shows "\<exists>b. msg_Encode m = Return b \<and> b \<noteq> [] \<and> (\<forall>rest. msg_Decode (b @ rest) = (rest, Return m))"
proof (cases "Kind m = KeepAlive")
  case True
  then have "m = new_Msg\<lparr>Kind := KeepAlive\<rparr>" using assms by (simp add: msg_ok_def canon_def)
  moreover have "put_u32 0 \<noteq> []" by (metis codec_width(3) list.size(3) zero_neq_numeral)
  ultimately show ?thesis
    using True ReadFull_prefix [of 0] by (simp add: msg_Encode_def msg_body_def msg_Decode_def)
next
  case False
  obtain b where b: "msg_body m = Return b" "b \<noteq> []" "decode_body b = Return m"
    using decode_body_encode [OF assms False] by blast
  have "length b \<le> maxMsgLength" using assms b(1) by (simp add: msg_ok_def)
  note R = ReadFull_prefix [OF this]
  have "msg_Decode ((put_u32 (of_nat (length b)) @ b) @ rest) = (rest, Return m)" for rest
    using b R \<open>length b \<le> maxMsgLength\<close> by (simp add: msg_Decode_def)
  then show ?thesis using b by (simp add: msg_Encode_def)
qed

section \<open>Streams of messages\<close>

text \<open>
  A codec with a self-delimiting encoding, on a stream: whatever follows the bytes of a message
  is left for the next one.
\<close>

locale stream_codec =
  fixes ok :: "'m \<Rightarrow> bool" and enc :: "'m \<Rightarrow> ('e, bytes) outcome"
    and dec :: "bytes \<Rightarrow> bytes \<times> ('e, 'm) outcome"
  assumes enc_ok: "ok m \<Longrightarrow> \<exists>b. enc m = Return b \<and> b \<noteq> []"
    and dec_enc: "ok m \<Longrightarrow> enc m = Return b \<Longrightarrow> dec (b @ rest) = (rest, Return m)"
begin

fun send :: "'m list \<Rightarrow> bytes" where
  "send [] = []"
| "send (m # ms) = (case enc m of Return b \<Rightarrow> b @ send ms | _ \<Rightarrow> [])"

fun recv :: "nat \<Rightarrow> bytes \<Rightarrow> 'm list \<times> bytes" where
  "recv 0 bs = ([], bs)"
| "recv (Suc n) bs =
     (case dec bs of (r, Return m) \<Rightarrow> (case recv n r of (ms, r') \<Rightarrow> (m # ms, r')) | (r, _) \<Rightarrow> ([], r))"

lemma recv_send: "\<forall>m \<in> set ms. ok m \<Longrightarrow> recv (length ms) (send ms @ rest) = (ms, rest)"
proof (induction ms)
  case (Cons m ms)
  then obtain b where "enc m = Return b" using enc_ok by auto
  with Cons show ?case using dec_enc [of m b "send ms @ rest"] by simp
qed simp

lemma enc_unique_prefix:
  assumes "ok m" "ok m'" "enc m = Return b" "enc m' = Return b'" "b @ r = b' @ r'"
  shows "m = m' \<and> r = r'"
  using dec_enc [OF assms(1,3), of r] dec_enc [OF assms(2,4), of r'] assms(5) by simp

end

interpretation wire: stream_codec msg_ok msg_Encode msg_Decode
proof
  show "\<exists>b. msg_Encode m = Return b \<and> b \<noteq> []" if "msg_ok m" for m
    using msg_Decode_Encode [OF that] by blast
  show "msg_Decode (b @ rest) = (rest, Return m)" if "msg_ok m" "msg_Encode m = Return b" for m b rest
    using msg_Decode_Encode [OF that(1)] that(2) by auto
qed

text \<open>Encoding a list of messages one after the other, and reading them back one by one.\<close>

fun encode_all :: "Msg list \<Rightarrow> bytes" where
  "encode_all [] = []"
| "encode_all (m # ms) = (case msg_Encode m of Return b \<Rightarrow> b @ encode_all ms | _ \<Rightarrow> [])"

fun decode_some :: "nat \<Rightarrow> bytes \<Rightarrow> Msg list \<times> bytes" where
  "decode_some 0 bs = ([], bs)"
| "decode_some (Suc n) bs =
     (case msg_Decode bs of
        (r, Return m) \<Rightarrow> (case decode_some n r of (ms, r') \<Rightarrow> (m # ms, r'))
      | (r, _) \<Rightarrow> ([], r))"

lemma encode_all_send: "encode_all ms = wire.send ms"
  by (induction ms) (auto split: outcome.splits)

lemma decode_some_recv: "decode_some n bs = wire.recv n bs"
  by (induction n arbitrary: bs) (simp_all split: outcome.splits prod.splits)

text \<open>
  C12. The wire protocol is framed: for any sequence of representable messages of all kinds
  (metadata messages with their raw data behind the dictionary included), decoding the
  concatenation of their encodings, followed by any further bytes, yields exactly that sequence
  and leaves exactly those bytes.
\<close>

theorem wire_stream_roundtrip:
  assumes "\<forall>m \<in> set ms. msg_ok m"
  shows "decode_some (length ms) (encode_all ms @ rest) = (ms, rest)"
  unfolding encode_all_send decode_some_recv using assms by (rule wire.recv_send)

definition ex_msgs :: "Msg list" where
  "ex_msgs =
     [new_Msg\<lparr>Kind := PieceKind, Index := 3, Begin := 16384, Block := [1, 2, 3]\<rparr>,
      new_Msg\<lparr>Kind := KeepAlive\<rparr>,
      new_Msg\<lparr>Kind := Extended, ExtendedID := 1,
        ExtendedMsg := MetadataExt \<lparr>md_Kind = 1, md_Piece = 0, md_TotalSz = 4, md_Data = Some [9, 9, 9, 9]\<rparr>\<rparr>,
      new_Msg\<lparr>Kind := Extended, ExtendedID := 0,
        ExtendedMsg := ExtHandshake (Some [(key_m, VIface (Some (VMap True TIface (Some [(ExtMetadataName, VIface (Some (VInt 64 1)))]))))])\<rparr>]"

lemma ex_msgs_ok: "list_all msg_ok ex_msgs"
  by code_simp

theorem wire_stream_roundtrip_witness:
  "decode_some 4 (encode_all ex_msgs @ [0, 0]) = (ex_msgs, [0, 0])"
proof -
  have "length ex_msgs = 4" by (simp add: ex_msgs_def)
  then show ?thesis
    using wire_stream_roundtrip [of ex_msgs "[0, 0]"] ex_msgs_ok by (simp add: list_all_iff)
qed

section \<open>The extension handshake\<close>

definition own_dict :: "int \<Rightarrow> (bytes \<times> goval) list" where
  "own_dict metaSz =
     (key_m, VIface (Some (VMap True TIface (Some [(ExtMetadataName, VIface (Some (VInt 64 1)))])))) #
     (if metaSz = 0 then [] else [(key_metadata_size, VIface (Some (VInt 64 metaSz)))])"

lemma encode_own:
  "encode (own_val offered_extensions sz) = encode (VMap True TIface (Some (own_dict sz)))"
  by (simp add: own_val_def own_dict_def offered_extensions_def write_dict_def key_m_def
      key_metadata_size_def dash_def omit_def field_key_def)

lemma rt_own: "fits_signed 64 sz \<Longrightarrow> rt (VMap True TIface (Some (own_dict sz)))"
  by (auto simp: own_dict_def key_m_def key_metadata_size_def ExtMetadataName_def fits_signed_def)

lemma length_enc_string: "length s < 100 \<Longrightarrow> length (enc_string s) \<le> 21 + length s"
  using length_FormatInt [of "int (length s)"] by (simp add: enc_string_def fits_signed_def)

lemma length_enc_int: "fits_signed 64 i \<Longrightarrow> length (enc_int i) \<le> 22"
  using length_FormatInt [of i] by (simp add: enc_int_def)

lemma length_own:
  assumes "fits_signed 64 sz" "encode (VMap True TIface (Some (own_dict sz))) = Inr b"
  shows "length b \<le> 200"
proof -
  have "fits_signed 64 1" by (simp add: fits_signed_def)
  note l = length_enc_string [of key_m] length_enc_string [of key_metadata_size]
    length_enc_string [of ExtMetadataName] length_enc_int [OF this] length_enc_int [OF assms(1)]
  have k: "length key_m = 1" "length key_metadata_size = 13" "length ExtMetadataName = 11"
    by (simp_all add: key_m_def key_metadata_size_def ExtMetadataName_def)
  have "\<not> bytes_less key_metadata_size key_m" by (simp add: key_m_def key_metadata_size_def)
  then have "length b \<le> 4 + length (enc_string key_m) + length (enc_string key_metadata_size) +
    length (enc_string ExtMetadataName) + length (enc_int 1) + length (enc_int sz)"
    using assms(2) by (auto simp: own_dict_def write_dict_def split: if_splits)
  then show ?thesis using l by (simp add: k)
qed

lemma writeExtension_0:
  "ExtendedID m = 0 \<Longrightarrow> encode (ext_val (ExtendedMsg m)) = Inr b \<Longrightarrow> writeExtension m = Return b"
  by (simp add: writeExtension_def Encode_def)

text \<open>
  What the peer hears: the client's own handshake, which is sent as a struct, arrives as a
  dictionary, every other message as it was sent.
\<close>

definition heard :: "Msg \<Rightarrow> Msg" where
  "heard m =
     (case ExtendedMsg m of
        OwnHandshake exts sz \<Rightarrow> m\<lparr>ExtendedMsg := ExtHandshake (Some (own_dict sz))\<rparr>
      | _ \<Rightarrow> m)"

lemma own_heard:
  assumes "fits_signed 64 metaSz"
  shows "msg_ok (heard (extensionHandshakeMsg metaSz))"
    "msg_Encode (heard (extensionHandshakeMsg metaSz)) = msg_Encode (extensionHandshakeMsg metaSz)"
proof -
  let ?m = "new_Msg\<lparr>Kind := Extended, ExtendedID := 0, ExtendedMsg := ExtHandshake (Some (own_dict metaSz))\<rparr>"
  have h: "heard (extensionHandshakeMsg metaSz) = ?m" by (simp add: heard_def extensionHandshakeMsg_def)
  note rt = rt_own [OF assms]
  obtain e where e: "encode (VMap True TIface (Some (own_dict metaSz))) = Inr e" using encode_rt [OF rt] by auto
  have w: "writeExtension ?m = Return e" "writeExtension (extensionHandshakeMsg metaSz) = Return e"
    using e by (auto intro!: writeExtension_0 simp del: encode.simps
        simp: encode.simps(4) encode_own extensionHandshakeMsg_def)
  then have "msg_Encode ?m = msg_Encode (extensionHandshakeMsg metaSz)"
    by (simp add: msg_Encode_def msg_body_def) (simp add: extensionHandshakeMsg_def)
  then show "msg_Encode (heard (extensionHandshakeMsg metaSz)) = msg_Encode (extensionHandshakeMsg metaSz)"
    by (simp only: h)
  have "ext_ok 0 (ExtHandshake (Some (own_dict metaSz)))" using rt by (simp add: own_dict_def del: rt.simps)
  then have "msg_ok ?m"
    using w(1) length_own [OF assms e]
    by (simp add: msg_ok_def known_kind_def canon_def msg_body_def maxMsgLength_def put_u8_def del: ext_ok.simps)
  then show "msg_ok (heard (extensionHandshakeMsg metaSz))" by (simp only: h)
qed

text \<open>
  The extension handshake is understood: the handshake the client sends, a struct, decodes at
  the other end as a dictionary whose \<open>m\<close> entry lists exactly the extensions the client offers
  under the ids it chose, and whose metadata size is the one announced, or absent when it is zero.
\<close>

lemma own_handshake_understood:
  assumes "fits_signed 64 metaSz"
  shows "\<exists>b d. msg_Encode (extensionHandshakeMsg metaSz) = Return b \<and>
    (\<forall>rest. msg_Decode (b @ rest) =
      (rest, Return (new_Msg\<lparr>Kind := Extended, ExtendedID := 0, ExtendedMsg := ExtHandshake d\<rparr>))) \<and>
    Extensions d = Return offered_extensions \<and> MetadataSize d = (metaSz, metaSz \<noteq> 0)"
proof -
  have "heard (extensionHandshakeMsg metaSz) =
      new_Msg\<lparr>Kind := Extended, ExtendedID := 0, ExtendedMsg := ExtHandshake (Some (own_dict metaSz))\<rparr>"
    by (simp add: heard_def extensionHandshakeMsg_def)
  with msg_Decode_Encode [OF own_heard(1) [OF assms]] own_heard(2) [OF assms]
  obtain b where "msg_Encode (extensionHandshakeMsg metaSz) = Return b"
    "\<forall>rest. msg_Decode (b @ rest) =
      (rest, Return (new_Msg\<lparr>Kind := Extended, ExtendedID := 0, ExtendedMsg := ExtHandshake (Some (own_dict metaSz))\<rparr>))"
    by auto
  moreover have "Extensions (Some (own_dict metaSz)) = Return offered_extensions"
    by (simp add: Extensions_def own_dict_def dict_get_def offered_extensions_def)
  moreover have "MetadataSize (Some (own_dict metaSz)) = (metaSz, metaSz \<noteq> 0)"
    by (simp add: MetadataSize_def own_dict_def dict_get_def key_m_def key_metadata_size_def)
  ultimately show ?thesis by blast
qed

lemma own_handshake_understood_witness:
  "\<exists>b d. msg_Encode (extensionHandshakeMsg 31235) = Return b \<and>
    msg_Decode b = ([], Return (new_Msg\<lparr>Kind := Extended, ExtendedID := 0, ExtendedMsg := ExtHandshake d\<rparr>)) \<and>
    MetadataSize d = (31235, True)"
proof -
  have "fits_signed 64 31235" by (simp add: fits_signed_def)
  from own_handshake_understood [OF this] obtain b d where
    "msg_Encode (extensionHandshakeMsg 31235) = Return b"
    "\<forall>rest. msg_Decode (b @ rest) = (rest, Return (new_Msg\<lparr>Kind := Extended, ExtendedID := 0, ExtendedMsg := ExtHandshake d\<rparr>))"
    "MetadataSize d = (31235, True)" by auto
  then show ?thesis by (intro exI [of _ b] exI [of _ d]) (metis append_Nil2)
qed

section \<open>Where the decoder panics\<close>

definition needed :: "byte \<Rightarrow> nat" where
  "needed k =
     (if k = Have then 4 else if k \<in> {RequestKind, Cancel} then 12 else if k = PieceKind then 8
      else if k = PortKind then 2 else if k = Extended then 1 else 0)"

definition is_panic :: "('e, 'a) outcome \<Rightarrow> bool" where
  "is_panic x \<longleftrightarrow> (case x of Panic _ \<Rightarrow> True | _ \<Rightarrow> False)"

lemma is_panic_simps [simp]: "is_panic (Panic p)" "\<not> is_panic (Return a)" "\<not> is_panic (Error e)"
  by (simp_all add: is_panic_def)

lemma get_u32_cases:
  obtains "length b < 4" "get_u32 b = None" | i r where "length b = 4 + length r" "get_u32 b = Some (i, r)"
proof (cases "get_u32 b")
  case None
  then show thesis using that(1) u32.dec_None_iff by blast
next
  case (Some x)
  then obtain i r where x: "get_u32 b = Some (i, r)" by (cases x) auto
  then have "length b = 4 + length r" by (simp add: u32.dec_Some_iff)
  with x show thesis using that(2) by blast
qed

lemma readExtension_no_panic: "\<not> is_panic (readExtension e b m)"
  by (auto simp: readExtension_def readMetadataExt_def obind_def split: outcome.splits prod.splits option.splits berr.splits)

lemma three_u32:
  "is_panic (checkRead (get_u32 b) (\<lambda>(i, b1). checkRead (get_u32 b1) (\<lambda>(bg, b2).
     checkRead (get_u32 b2) (\<lambda>(l, b3). Return (f i bg l))))) \<longleftrightarrow> length b < 12"
  by (rule get_u32_cases [of b]; simp add: checkRead_def)
    (rule get_u32_cases [of "snd (the (get_u32 b))"]; simp add: checkRead_def;
     rule get_u32_cases [of "snd (the (get_u32 (snd (the (get_u32 b)))))"]; simp add: checkRead_def)

lemma two_u32:
  "is_panic (checkRead (get_u32 b) (\<lambda>(i, b1). checkRead (get_u32 b1) (\<lambda>(bg, b2). Return (f i bg b2)))) \<longleftrightarrow> length b < 8"
  by (rule get_u32_cases [of b]; simp add: checkRead_def)
    (rule get_u32_cases [of "snd (the (get_u32 b))"]; simp add: checkRead_def)

lemma one_u32: "is_panic (checkRead (get_u32 b) (\<lambda>(i, b1). Return (f i))) \<longleftrightarrow> length b < 4"
  by (rule get_u32_cases [of b]; simp add: checkRead_def)

lemma one_u16: "is_panic (checkRead (get_u16 b) (\<lambda>(i, b1). Return (f i))) \<longleftrightarrow> length b < 2"
  using u16.dec_None_iff [of b] by (auto simp: checkRead_def split: option.splits)

lemma one_u8: "is_panic (checkRead (get_u8 b) (\<lambda>(e, b1). readExtension e b1 (f e))) \<longleftrightarrow> length b < 1"
  by (auto simp: checkRead_def get_u8_def readExtension_no_panic split: list.splits)

lemma checkRead_Some: "checkRead (Some a) f = f a"
  by (simp add: checkRead_def)

lemma decode_body_panic: "is_panic (decode_body (k # b)) \<longleftrightarrow> length b < needed k"
proof -
  have u8: "get_u8 (k # b) = Some (k, b)" by (simp add: get_u8_def)
  show ?thesis
    by (simp add: decode_body_def u8 checkRead_Some Let_def needed_def one_u32 two_u32 three_u32 one_u16
        one_u8 [unfolded less_one])
qed

lemma msg_Decode_body:
  assumes "n = length buf" "0 < n" "n \<le> maxMsgLength"
  shows "msg_Decode (put_u32 (of_nat n) @ buf @ rest) = (rest, decode_body buf)"
  using assms ReadFull_prefix [OF assms(3)] by (simp add: msg_Decode_def Let_def)

text \<open>
  C40. The finding on short payloads (\<open>peer_wire/message.go\<close>, \<open>checkRead\<close> in \<open>Decode\<close>): the
  decoder panics on exactly those inputs that start with a complete frame of at most 256 KiB whose
  payload is shorter than the fixed part of its kind, so a peer can crash the client with five
  bytes. On every other input it returns a message or an error.
\<close>

theorem msg_Decode_panics_iff:
  "is_panic (snd (msg_Decode r)) \<longleftrightarrow>
   (\<exists>k p rest. r = put_u32 (of_nat (Suc (length p))) @ (k # p) @ rest \<and> Suc (length p) \<le> maxMsgLength \<and>
     length p < needed k)"
proof
  assume a: "is_panic (snd (msg_Decode r))"
  let ?n = "be_get (take 4 r)" and ?r = "drop 4 r"
  have l: "4 \<le> length r" using a by (auto simp: msg_Decode_def ReadFull_def split: if_splits)
  have n: "?n \<le> maxMsgLength" "0 < ?n" "?n \<le> length ?r"
    using a l by (auto simp: msg_Decode_def ReadFull_def Let_def split: if_splits)
  have b: "is_panic (decode_body (take ?n ?r))"
    using a l n by (simp add: msg_Decode_def ReadFull_def Let_def)
  obtain k p where kp: "take ?n ?r = k # p" using n by (cases "take ?n ?r") auto
  have len: "Suc (length p) = ?n" using n(3) arg_cong [OF kp, of length] by simp
  have "take 4 r = put_u32 (of_nat ?n)"
    using be_put_get [of "take 4 r"] l n(1)
    by (simp add: put_u32_def unat_of_nat maxMsgLength_def min_absorb2)
  then have "r = put_u32 (of_nat (Suc (length p))) @ (k # p) @ drop ?n ?r"
    unfolding len kp [symmetric] by (metis append_take_drop_id)
  moreover have "length p < needed k" using b kp decode_body_panic by simp
  ultimately show "\<exists>k p rest. r = put_u32 (of_nat (Suc (length p))) @ (k # p) @ rest \<and>
    Suc (length p) \<le> maxMsgLength \<and> length p < needed k"
    using n(1) len by metis
next
  assume "\<exists>k p rest. r = put_u32 (of_nat (Suc (length p))) @ (k # p) @ rest \<and>
    Suc (length p) \<le> maxMsgLength \<and> length p < needed k"
  then obtain k p rest where r: "r = put_u32 (of_nat (Suc (length p))) @ (k # p) @ rest"
    "Suc (length p) \<le> maxMsgLength" "length p < needed k" by blast
  then show "is_panic (snd (msg_Decode r))"
    using msg_Decode_body [of "Suc (length p)" "k # p" rest] decode_body_panic [of k p] by simp
qed

end
