(* ===== verification/Metadata.thy ===== *)
theory Metadata
  imports Prelude "HOL-Library.AList"
begin

text \<open>
  Downloading and serving the info dictionary in pieces (\<open>torrent/metadata.go\<close>, BEP 9). The
  order \<open>rand.Shuffle\<close> leaves is a parameter. The mutex of \<open>utMetadatas\<close> makes every
  operation one step. The abstract view of a buffer is a map from piece indices to the bytes of
  the pieces that have arrived; every operation is shown to refine an operation on that map, and
  the client's reasoning is done once, over the interface \<open>chunk_store\<close>.
\<close>

section \<open>The model\<close>

definition metadataPieceSz :: int where "metadataPieceSz = 16384"

type_synonym ip = bytes

record utMetadata =
  infoBytes :: bytes
  ownedInfoBlocks :: "bool list"
  ut_contributors :: "ip list"
  ut_numPieces :: int
  lastPieceLen :: int

datatype md_error = MdOutOfRange | MdWrongLength | MdReadOutOfRange

text \<open>\<open>make\<close> panics on a negative length.\<close>

definition newUtMetadata :: "int \<Rightarrow> (md_error, utMetadata) outcome" where
  "newUtMetadata infoSize =
     (if infoSize < 0 then Panic (PanicMsg ''makeslice: len out of range'')
      else let last = go_rem infoSize metadataPieceSz;
               n = go_quot infoSize metadataPieceSz + (if last \<noteq> 0 then 1 else 0)
           in Return \<lparr>infoBytes = replicate (nat infoSize) 0, ownedInfoBlocks = replicate (nat n) False,
                      ut_contributors = [], ut_numPieces = n,
                      lastPieceLen = (if last \<noteq> 0 then last else metadataPieceSz)\<rparr>)"

definition ut_reset :: "utMetadata \<Rightarrow> utMetadata" where
  "ut_reset ut = ut\<lparr>ut_contributors := [], ownedInfoBlocks := replicate (nat (ut_numPieces ut)) False\<rparr>"

definition contains :: "int list \<Rightarrow> int \<Rightarrow> bool" where
  "contains s v = list_ex (\<lambda>num. num = v) s"

definition incompleteIndices :: "utMetadata \<Rightarrow> int list \<Rightarrow> int list" where
  "incompleteIndices ut exclude =
     filter (\<lambda>i. \<not> ownedInfoBlocks ut ! nat i \<and> \<not> contains exclude i)
       [0..int (length (ownedInfoBlocks ut)) - 1]"

definition ut_fillRequest :: "(int list \<Rightarrow> int list) \<Rightarrow> utMetadata \<Rightarrow> int \<Rightarrow> int list
    \<Rightarrow> (md_error, int list) outcome" where
  "ut_fillRequest shuffle ut n exclude =
     (let incomplete = shuffle (incompleteIndices ut exclude)
      in if n < int (length incomplete)
         then if n < 0 then Panic SliceBounds else Return (take (nat n) incomplete)
         else Return incomplete)"

definition ut_complete :: "utMetadata \<Rightarrow> bool" where
  "ut_complete ut = list_all (\<lambda>v. v) (ownedInfoBlocks ut)"

definition metadataPieceLength :: "utMetadata \<Rightarrow> int \<Rightarrow> int" where
  "metadataPieceLength ut i = (if i = ut_numPieces ut - 1 then lastPieceLen ut else metadataPieceSz)"

text \<open>
  The first test already indexes the slice, before the range test below it is reached.
\<close>

definition ut_writeBlock :: "utMetadata \<Rightarrow> bytes \<Rightarrow> int \<Rightarrow> int \<Rightarrow> ip
    \<Rightarrow> utMetadata \<times> (md_error, bool) outcome" where
  "ut_writeBlock ut b i totalSize peerIP =
     (if i < 0 \<or> int (length (ownedInfoBlocks ut)) \<le> i then (ut, Panic IndexOutOfRange)
      else if ownedInfoBlocks ut ! nat i then (ut, Return False)
      else if totalSize \<noteq> int (length (infoBytes ut)) then (ut, Panic (PanicMsg ''write block''))
      else if i \<ge> int (length (ownedInfoBlocks ut)) then (ut, Error MdOutOfRange)
      else if int (length b) \<noteq> metadataPieceLength ut i then (ut, Error MdWrongLength)
      else let ut' = ut\<lparr>infoBytes := overwrite (nat (i * metadataPieceSz)) b (infoBytes ut),
                        ownedInfoBlocks := (ownedInfoBlocks ut)[nat i := True],
                        ut_contributors := ut_contributors ut @ [peerIP]\<rparr>
           in (ut', Return (ut_complete ut')))"

text \<open>\<open>copy\<close> into the caller's buffer \<open>b\<close>, which is returned.\<close>

definition ut_readBlock :: "utMetadata \<Rightarrow> bytes \<Rightarrow> int \<Rightarrow> bytes \<times> (md_error, unit) outcome" where
  "ut_readBlock ut b i =
     (if i \<ge> ut_numPieces ut then (b, Error MdReadOutOfRange)
      else let begin = go_int (i * metadataPieceSz);
               e = (if i < ut_numPieces ut - 1 then go_int ((i + 1) * metadataPieceSz) else int (length (infoBytes ut)))
           in if begin < 0 \<or> e < begin \<or> int (length (infoBytes ut)) < e then (b, Panic SliceBounds)
              else (overwrite 0 (take (length b) (take (nat (e - begin)) (drop (nat begin) (infoBytes ut)))) b,
                    Return ()))"

text \<open>All buffers, by the size the peers claim; \<open>correctSize\<close> is zero until one is verified.\<close>

record utMetadatas =
  uts_m :: "(int \<times> utMetadata) list"
  correctSize :: int

definition uts_new :: utMetadatas where
  "uts_new = \<lparr>uts_m = [], correctSize = 0\<rparr>"

definition uts_reset :: "utMetadatas \<Rightarrow> int \<Rightarrow> (md_error, utMetadatas) outcome" where
  "uts_reset uts infoSize =
     (case map_of (uts_m uts) infoSize of
        Some ut \<Rightarrow> Return (uts\<lparr>uts_m := AList.update infoSize (ut_reset ut) (uts_m uts)\<rparr>)
      | None \<Rightarrow> Panic (PanicMsg ''reset''))"

definition uts_metadata :: "utMetadatas \<Rightarrow> int \<Rightarrow> (md_error, utMetadata) outcome" where
  "uts_metadata uts infoSize =
     (case map_of (uts_m uts) infoSize of Some ut \<Rightarrow> Return ut | None \<Rightarrow> Panic (PanicMsg ''metadata''))"

definition uts_correct :: "utMetadatas \<Rightarrow> utMetadata option" where
  "uts_correct uts = (if correctSize uts = 0 then None else map_of (uts_m uts) (correctSize uts))"

definition setCorrect :: "utMetadatas \<Rightarrow> int \<Rightarrow> utMetadatas" where
  "setCorrect uts infoSize = uts\<lparr>correctSize := infoSize\<rparr>"

definition uts_add :: "utMetadatas \<Rightarrow> int \<Rightarrow> (md_error, utMetadatas \<times> bool) outcome" where
  "uts_add uts msize =
     (if msize < 0 \<or> msize > 10000000 then Return (uts, False)
      else case map_of (uts_m uts) msize of
        Some _ \<Rightarrow> Return (uts, True)
      | None \<Rightarrow> obind (newUtMetadata msize) (\<lambda>ut.
                  Return (uts\<lparr>uts_m := AList.update msize ut (uts_m uts)\<rparr>, True)))"

definition uts_writeBlock :: "utMetadatas \<Rightarrow> bytes \<Rightarrow> int \<Rightarrow> int \<Rightarrow> ip
    \<Rightarrow> utMetadatas \<times> (md_error, bool) outcome" where
  "uts_writeBlock uts b i infoSize peerIP =
     (case map_of (uts_m uts) infoSize of
        Some ut \<Rightarrow>
          (case ut_writeBlock ut b i infoSize peerIP of
             (ut', r) \<Rightarrow> (uts\<lparr>uts_m := AList.update infoSize ut' (uts_m uts)\<rparr>, r))
      | None \<Rightarrow> (uts, Panic (PanicMsg ''write Block uts'')))"

definition uts_readBlock :: "utMetadatas \<Rightarrow> bytes \<Rightarrow> int \<Rightarrow> bytes \<times> (md_error, unit) outcome" where
  "uts_readBlock uts b i =
     (case uts_m uts of
        [(_, ut)] \<Rightarrow> ut_readBlock ut b i
      | _ \<Rightarrow> (b, Panic (PanicMsg ''uts read'')))"

definition uts_fillRequest :: "(int list \<Rightarrow> int list) \<Rightarrow> utMetadatas \<Rightarrow> int \<Rightarrow> int \<Rightarrow> int list
    \<Rightarrow> (md_error, int list) outcome" where
  "uts_fillRequest shuffle uts infoSize n exclude =
     (case map_of (uts_m uts) infoSize of
        Some ut \<Rightarrow> ut_fillRequest shuffle ut n exclude
      | None \<Rightarrow> Panic (PanicMsg ''fill requests''))"

section \<open>Geometry of the pieces\<close>

abbreviation psz :: nat where "psz \<equiv> 16384"

definition ut_ok :: "utMetadata \<Rightarrow> bool" where
  "ut_ok ut \<longleftrightarrow>
     int (length (ownedInfoBlocks ut)) = ut_numPieces ut \<and> int (length (infoBytes ut)) \<le> 10000000 \<and>
     ut_numPieces ut = (int (length (infoBytes ut)) + 16383) div 16384 \<and>
     lastPieceLen ut = (if length (infoBytes ut) mod psz = 0 then 16384 else int (length (infoBytes ut) mod psz))"

definition pieces_of :: "utMetadata \<Rightarrow> nat" where
  "pieces_of ut = length (ownedInfoBlocks ut)"

definition width :: "utMetadata \<Rightarrow> nat \<Rightarrow> nat" where
  "width ut i = nat (metadataPieceLength ut (int i))"

definition range_of :: "utMetadata \<Rightarrow> nat \<Rightarrow> bytes" where
  "range_of ut i = take (width ut i) (drop (i * psz) (infoBytes ut))"

definition md_chunk :: "utMetadata \<Rightarrow> nat \<Rightarrow> bytes option" where
  "md_chunk ut i = (if i < pieces_of ut \<and> ownedInfoBlocks ut ! i then Some (range_of ut i) else None)"

lemma pieces_of_eq: "ut_ok ut \<Longrightarrow> pieces_of ut = (length (infoBytes ut) + 16383) div psz"
proof -
  assume "ut_ok ut"
  then have "int (pieces_of ut) = int ((length (infoBytes ut) + 16383) div psz)"
    by (simp add: ut_ok_def pieces_of_def zdiv_int)
  then show ?thesis by simp
qed

lemma ceil_div:
  assumes "0 < (k::nat)"
  shows "(n + (k - 1)) div k = (if n mod k = 0 then n div k else Suc (n div k))"
proof -
  have "n + (k - 1) = k * (n div k) + (n mod k + (k - 1))" by (simp add: mult_div_mod_eq [symmetric] del: mult_div_mod_eq)
  then have "(n + (k - 1)) div k = n div k + (n mod k + (k - 1)) div k" using assms by (metis div_mult_self2 add.commute less_numeral_extra(3))
  moreover have "(n mod k + (k - 1)) div k = (if n mod k = 0 then 0 else 1)"
  proof (cases "n mod k = 0")
    case False
    then obtain m where "n mod k = Suc m" by (cases "n mod k") auto
    then have "n mod k + (k - 1) = m + k" "m < k" using assms mod_less_divisor [OF assms, of n] by linarith+
    then show ?thesis using False assms div_add_self2 [of k m] by simp
  qed (use assms in simp)
  ultimately show ?thesis by simp
qed

lemma geometry:
  assumes "ut_ok ut" "i < pieces_of ut"
  shows "Suc i < pieces_of ut \<Longrightarrow> width ut i = psz"
    and "Suc i = pieces_of ut \<Longrightarrow> i * psz + width ut i = length (infoBytes ut)"
    and "i * psz + width ut i \<le> length (infoBytes ut)"
    and "0 < width ut i" "width ut i \<le> psz"
    and "int (width ut i) = metadataPieceLength ut (int i)"
proof -
  let ?L = "length (infoBytes ut)"
  have n: "pieces_of ut = (if ?L mod psz = 0 then ?L div psz else Suc (?L div psz))"
    using pieces_of_eq [OF assms(1)] ceil_div [of psz ?L] by simp
  have np: "ut_numPieces ut = int (pieces_of ut)" using assms(1) by (simp add: ut_ok_def pieces_of_def)
  have w: "width ut i = (if Suc i = pieces_of ut then if ?L mod psz = 0 then psz else ?L mod psz else psz)"
    using assms np by (auto simp: width_def metadataPieceLength_def metadataPieceSz_def ut_ok_def)
  show 1: "width ut i = psz" if "Suc i < pieces_of ut" using that w by simp
  have r: "?L = psz * (?L div psz) + ?L mod psz" "?L mod psz < psz" by simp_all
  have last: "Suc i * psz = ?L + (psz - width ut i)" if "Suc i = pieces_of ut"
  proof (cases "?L mod psz = 0")
    case False
    then have "Suc i = Suc (?L div psz)" "width ut i = ?L mod psz" using that n w by auto
    moreover have "Suc q * psz = l + (psz - m)" if "l = psz * q + m" "m < psz" for q m l :: nat using that by simp
    ultimately show ?thesis using r by metis
  qed (use that n w in auto)
  show 4: "0 < width ut i" "width ut i \<le> psz" using w r(2) by auto
  show 2: "i * psz + width ut i = ?L" if "Suc i = pieces_of ut" using last [OF that] 4 by simp
  show "i * psz + width ut i \<le> ?L"
  proof (cases "Suc i < pieces_of ut")
    case True
    then have "Suc i \<le> ?L div psz" using n by (auto split: if_splits)
    then have "Suc i * psz \<le> ?L div psz * psz" by (rule mult_right_mono) simp
    then have "Suc i * psz \<le> ?L" using r(1) by linarith
    then show ?thesis using 1 [OF True] by simp
  next
    case False
    then show ?thesis using 2 assms(2) by simp
  qed
  show "int (width ut i) = metadataPieceLength ut (int i)" using 4(1) by (simp add: width_def)
qed

section \<open>The buffer as a store of chunks\<close>

text \<open>
  The interface a downloader relies on: a store with a fixed number of chunks of fixed widths,
  which keeps the first value put for a chunk and reports when the last missing one arrives.
\<close>

locale chunk_store =
  fixes ok :: "'s \<Rightarrow> bool" and put :: "'s \<Rightarrow> nat \<Rightarrow> 'x \<Rightarrow> 'a list \<Rightarrow> 's \<times> bool"
    and chunk :: "'s \<Rightarrow> nat \<Rightarrow> 'a list option" and count :: "'s \<Rightarrow> nat" and width :: "'s \<Rightarrow> nat \<Rightarrow> nat"
  assumes put_shape: "ok s \<Longrightarrow> i < count s \<Longrightarrow> length b = width s i \<Longrightarrow> put s i x b = (s', c) \<Longrightarrow>
      ok s' \<and> count s' = count s \<and> width s' = width s"
    and chunk_put: "ok s \<Longrightarrow> i < count s \<Longrightarrow> length b = width s i \<Longrightarrow> put s i x b = (s', c) \<Longrightarrow>
      chunk s' = (if chunk s i = None then (chunk s)(i \<mapsto> b) else chunk s)"
    and put_done: "ok s \<Longrightarrow> i < count s \<Longrightarrow> length b = width s i \<Longrightarrow> put s i x b = (s', c) \<Longrightarrow>
      c \<longleftrightarrow> chunk s i = None \<and> (\<forall>j < count s. chunk s' j \<noteq> None)"
begin

fun put_all :: "(nat \<Rightarrow> 'a list) \<Rightarrow> 's \<Rightarrow> (nat \<times> 'x) list \<Rightarrow> 's \<times> bool list" where
  "put_all src s [] = (s, [])"
| "put_all src s ((i, x) # ws) =
     (case put s i x (src i) of (s1, c) \<Rightarrow> (case put_all src s1 ws of (s2, cs) \<Rightarrow> (s2, c # cs)))"

lemma put_all_spec:
  assumes "ok s" "\<forall>i \<in> fst ` set ws. i < count s" "\<forall>i < count s. length (src i) = width s i"
    "put_all src s ws = (s', cs)" "\<forall>i. chunk s i \<noteq> None \<longrightarrow> chunk s i = Some (src i)"
  shows "ok s' \<and> count s' = count s \<and> width s' = width s \<and> length cs = length ws \<and>
    (\<forall>i. chunk s' i = (if i \<in> fst ` set ws then Some (src i) else chunk s i)) \<and>
    (\<forall>k < length ws. cs ! k \<longleftrightarrow> fst (ws ! k) \<notin> fst ` set (take k ws) \<and> chunk s (fst (ws ! k)) = None \<and>
       (\<forall>j < count s. j \<in> fst ` set (take (Suc k) ws) \<or> chunk s j \<noteq> None))"
  using assms
proof (induction ws arbitrary: s cs)
  case (Cons w ws)
  obtain i x where w: "w = (i, x)" by (cases w)
  obtain s1 c where p: "put s i x (src i) = (s1, c)" by fastforce
  obtain cs' where r: "put_all src s1 ws = (s', cs')" "cs = c # cs'" using Cons.prems p w by (auto split: prod.splits)
  have i: "i < count s" "length (src i) = width s i" using Cons.prems w by auto
  note sh = put_shape [OF Cons.prems(1) i p] and ch = chunk_put [OF Cons.prems(1) i p]
    and dn = put_done [OF Cons.prems(1) i p]
  have ch1: "chunk s1 j = (if j = i then Some (src i) else chunk s j)" for j
    using ch Cons.prems(5) by (cases "chunk s i = None") auto
  have pre: "ok s1" "\<forall>i \<in> fst ` set ws. i < count s1" "\<forall>i < count s1. length (src i) = width s1 i"
    "\<forall>i. chunk s1 i \<noteq> None \<longrightarrow> chunk s1 i = Some (src i)"
    using sh Cons.prems ch1 by auto
  note IH = Cons.IH [OF pre(1,2,3) r(1) pre(4)]
  have "cs ! k \<longleftrightarrow> fst ((w # ws) ! k) \<notin> fst ` set (take k (w # ws)) \<and> chunk s (fst ((w # ws) ! k)) = None \<and>
      (\<forall>j < count s. j \<in> fst ` set (take (Suc k) (w # ws)) \<or> chunk s j \<noteq> None)" if "k < length (w # ws)" for k
  proof (cases k)
    case 0
    then show ?thesis using dn r(2) ch1 w by auto
  next
    case (Suc m)
    then show ?thesis using IH that r(2) ch1 sh w by auto
  qed
  then show ?case using IH sh r ch1 w by auto
qed auto

end

lemma range_of_nth:
  assumes "ut_ok ut" "i < pieces_of ut"
  shows "length (range_of ut i) = width ut i" "k < width ut i \<Longrightarrow> range_of ut i ! k = infoBytes ut ! (i * psz + k)"
  using geometry(3) [OF assms] by (simp_all add: range_of_def)

lemma ranges_disjoint:
  assumes "ut_ok ut" "i < pieces_of ut" "j < pieces_of ut" "k < width ut j" "i * psz \<le> j * psz + k" "j * psz + k < i * psz + width ut i"
  shows "j = i"
proof -
  have "width ut i \<le> psz" "k < psz" using geometry(5) [OF assms(1,2)] geometry(5) [OF assms(1,3)] assms(4) by auto
  then have "j * psz + k < Suc i * psz" "i * psz < Suc j * psz" using assms(5,6) by simp_all
  then have "j * psz < Suc i * psz" "i * psz < Suc j * psz" by auto
  then show ?thesis unfolding mult_less_cancel2 by simp
qed

text \<open>\<open>writeBlock\<close> on a piece of the buffer, with the size all callers pass.\<close>

definition ut_put :: "utMetadata \<Rightarrow> nat \<Rightarrow> ip \<Rightarrow> bytes \<Rightarrow> utMetadata \<times> bool" where
  "ut_put ut i ip b =
     (case ut_writeBlock ut b (int i) (int (length (infoBytes ut))) ip of
        (ut', r) \<Rightarrow> (ut', r = Return True))"

lemma ut_writeBlock_new:
  fixes ip :: ip
  assumes "ut_ok ut" "i < pieces_of ut" "\<not> ownedInfoBlocks ut ! i" "length b = width ut i"
  defines "ut' \<equiv> ut\<lparr>infoBytes := overwrite (i * psz) b (infoBytes ut),
    ownedInfoBlocks := (ownedInfoBlocks ut)[i := True], ut_contributors := ut_contributors ut @ [ip]\<rparr>"
  shows "ut_writeBlock ut b (int i) (int (length (infoBytes ut))) ip = (ut', Return (ut_complete ut'))"
    and "ut_ok ut'" "pieces_of ut' = pieces_of ut" "width ut' = width ut"
    and "md_chunk ut' = (md_chunk ut)(i \<mapsto> b)"
proof -
  note g = geometry [OF assms(1,2)]
  have l: "length (overwrite (i * psz) b (infoBytes ut)) = length (infoBytes ut)" using g(3) by simp
  show "ut_writeBlock ut b (int i) (int (length (infoBytes ut))) ip = (ut', Return (ut_complete ut'))"
    using assms(2,3,4) g(6) by (simp add: ut_writeBlock_def pieces_of_def ut'_def metadataPieceSz_def Let_def nat_mult_distrib)
  show ok': "ut_ok ut'" using assms(1) l by (simp add: ut_ok_def ut'_def)
  show p': "pieces_of ut' = pieces_of ut" by (simp add: pieces_of_def ut'_def)
  show w': "width ut' = width ut" by (simp add: fun_eq_iff width_def metadataPieceLength_def ut'_def)
  have n: "infoBytes ut' ! m = (if i * psz \<le> m \<and> m < i * psz + length b then b ! (m - i * psz) else infoBytes ut ! m)"
    if "m < length (infoBytes ut)" for m
    using that g(3) assms(4) by (simp add: ut'_def nth_overwrite)
  have "range_of ut' j = (if j = i then b else range_of ut j)" if j: "j < pieces_of ut" for j
  proof (rule nth_equalityI)
    show "length (range_of ut' j) = length (if j = i then b else range_of ut j)"
      using j range_of_nth(1) [OF ok', of j] range_of_nth(1) [OF assms(1), of j] p' w' assms(4) by simp
    fix k assume "k < length (range_of ut' j)"
    then have k: "k < width ut j" using j range_of_nth(1) [OF ok', of j] p' w' by simp
    have "j * psz + k < length (infoBytes ut)" using geometry(3) [OF assms(1) j] k by simp
    then show "range_of ut' j ! k = (if j = i then b else range_of ut j) ! k"
      using n ranges_disjoint [OF assms(1,2) j k] range_of_nth(2) [OF ok', of j k] range_of_nth(2) [OF assms(1) j k] j k p' w' assms(4)
      by auto
  qed
  then show "md_chunk ut' = (md_chunk ut)(i \<mapsto> b)"
    using assms(2) by (auto simp: fun_eq_iff md_chunk_def p' nth_list_update pieces_of_def ut'_def)
qed

lemma ut_complete_chunks: "ut_complete ut \<longleftrightarrow> (\<forall>j < pieces_of ut. md_chunk ut j \<noteq> None)"
  by (auto simp: ut_complete_def list_all_length md_chunk_def pieces_of_def)

interpretation md: chunk_store ut_ok ut_put md_chunk pieces_of width
proof
  fix s i ip b s' c
  assume a: "ut_ok s" "i < pieces_of s" "length (b :: bytes) = width s i" "ut_put s i ip b = (s', c)"
  show "ut_ok s' \<and> pieces_of s' = pieces_of s \<and> width s' = width s"
    "md_chunk s' = (if md_chunk s i = None then (md_chunk s)(i \<mapsto> b) else md_chunk s)"
    "c \<longleftrightarrow> md_chunk s i = None \<and> (\<forall>j < pieces_of s. md_chunk s' j \<noteq> None)"
  proof (atomize (full), cases "ownedInfoBlocks s ! i")
    case True
    then have "s' = s \<and> \<not> c" using a(2,4) by (simp add: ut_put_def ut_writeBlock_def pieces_of_def)
    moreover have "md_chunk s i \<noteq> None" using True a(2) by (simp add: md_chunk_def)
    ultimately show "(ut_ok s' \<and> pieces_of s' = pieces_of s \<and> width s' = width s) \<and>
      md_chunk s' = (if md_chunk s i = None then (md_chunk s)(i \<mapsto> b) else md_chunk s) \<and>
      c = (md_chunk s i = None \<and> (\<forall>j < pieces_of s. md_chunk s' j \<noteq> None))" using a(1) by auto
  next
    case False
    note W = ut_writeBlock_new [OF a(1,2) False a(3), where ip = ip]
    have c: "md_chunk s i = None" using False by (simp add: md_chunk_def)
    have "s' = fst (ut_writeBlock s b (int i) (int (length (infoBytes s))) ip)" "c = ut_complete s'"
      using a(4) W(1) by (auto simp: ut_put_def)
    then show "(ut_ok s' \<and> pieces_of s' = pieces_of s \<and> width s' = width s) \<and>
      md_chunk s' = (if md_chunk s i = None then (md_chunk s)(i \<mapsto> b) else md_chunk s) \<and>
      c = (md_chunk s i = None \<and> (\<forall>j < pieces_of s. md_chunk s' j \<noteq> None))"
      using W c ut_complete_chunks [of s'] by simp
  qed
qed

section \<open>Transferring the info dictionary\<close>

lemma newUtMetadata_ok:
  assumes "0 \<le> sz" "sz \<le> 10000000"
  shows "\<exists>ut. newUtMetadata sz = Return ut \<and> ut_ok ut \<and> int (length (infoBytes ut)) = sz \<and> md_chunk ut = (\<lambda>_. None)"
proof -
  obtain n where n: "sz = int n" using assms(1) nonneg_int_cases by blast
  have "int ((n + 16383) div psz) = (int n + 16383) div 16384" by (simp add: zdiv_int)
  then have "int (n div psz) + (if n mod psz = 0 then 0 else 1) = (int n + 16383) div 16384"
    using ceil_div [of psz n] by (simp split: if_splits)
  then show ?thesis
    using assms(2) n
    by (auto simp: newUtMetadata_def Let_def metadataPieceSz_def ut_ok_def md_chunk_def pieces_of_def fun_eq_iff
        go_simps zdiv_int zmod_int split: if_splits)
qed

text \<open>The answer to a metadata request, as \<open>conn.onExtended\<close> computes it: a buffer of the length of the piece, filled by \<open>readBlock\<close>.\<close>

definition served_piece :: "utMetadata \<Rightarrow> int \<Rightarrow> bytes \<times> (md_error, unit) outcome" where
  "served_piece ut i = ut_readBlock ut (replicate (nat (metadataPieceLength ut i)) 0) i"

lemma served_piece_ok:
  assumes "ut_ok ut" "i < pieces_of ut"
  shows "served_piece ut (int i) = (range_of ut i, Return ())"
proof -
  note g = geometry [OF assms]
  let ?L = "length (infoBytes ut)"
  have np: "ut_numPieces ut = int (pieces_of ut)" using assms(1) by (simp add: ut_ok_def pieces_of_def)
  have L: "int ?L \<le> 10000000" using assms(1) by (simp add: ut_ok_def)
  have b: "go_int (int i * metadataPieceSz) = int (i * psz)"
    using g(3) L by (subst to_signed_id) (simp_all add: fits_signed_def metadataPieceSz_def)
  have e: "(if int i < ut_numPieces ut - 1 then go_int ((int i + 1) * metadataPieceSz) else int ?L) = int (i * psz + width ut i)"
  proof (cases "Suc i < pieces_of ut")
    case True
    then have "go_int ((int i + 1) * metadataPieceSz) = (int i + 1) * metadataPieceSz"
      using g(1,3) L by (intro to_signed_id) (simp_all add: fits_signed_def metadataPieceSz_def)
    then show ?thesis using True g(1) np by (simp add: metadataPieceSz_def)
  next
    case False
    then show ?thesis using assms(2) g(2) np by simp
  qed
  have "ut_readBlock ut (replicate (width ut i) 0) (int i) = (overwrite 0 (range_of ut i) (replicate (width ut i) 0), Return ())"
    using assms(2) np g(3) range_of_nth(1) [OF assms] unfolding ut_readBlock_def Let_def b e by (simp add: range_of_def nat_add_distrib nat_mult_distrib)
  then show ?thesis
    using range_of_nth(1) [OF assms] by (simp add: served_piece_def width_def [symmetric] overwrite_def)
qed

text \<open>One peer asks another one for the pieces of a list, in that order, and stores the answers.\<close>

fun transfer :: "utMetadata \<Rightarrow> utMetadata \<Rightarrow> (int \<times> ip) list \<Rightarrow> utMetadata \<times> (md_error, bool) outcome list" where
  "transfer src ut [] = (ut, [])"
| "transfer src ut ((i, ip) # ws) =
     (case ut_writeBlock ut (fst (served_piece src i)) i (int (length (infoBytes src))) ip of
        (ut1, r) \<Rightarrow> (case transfer src ut1 ws of (ut2, rs) \<Rightarrow> (ut2, r # rs)))"

lemma same_geometry:
  assumes "ut_ok a" "ut_ok b" "length (infoBytes a) = length (infoBytes b)"
  shows "pieces_of a = pieces_of b" "width a = width b"
  using assms by (auto simp: pieces_of_eq ut_ok_def width_def metadataPieceLength_def fun_eq_iff)

lemma ut_writeBlock_step:
  assumes "ut_ok ut" "i < pieces_of ut" "length b = width ut i"
    "ut_writeBlock ut b (int i) (int (length (infoBytes ut))) ip = (ut', r)"
  shows "\<exists>c. ut_put ut i ip b = (ut', c) \<and> r = Return c \<and> ut_ok ut' \<and> length (infoBytes ut') = length (infoBytes ut)"
proof (cases "ownedInfoBlocks ut ! i")
  case True
  then show ?thesis using assms by (auto simp: ut_put_def ut_writeBlock_def pieces_of_def)
next
  case False
  then show ?thesis
    using ut_writeBlock_new [OF assms(1,2) False assms(3), of ip] assms(4) geometry(3) [OF assms(1,2)]
    by (auto simp: ut_put_def)
qed

lemma transfer_put_all:
  assumes "ut_ok ut" "ut_ok src" "length (infoBytes ut) = length (infoBytes src)"
    "\<forall>i \<in> fst ` set ws. i < pieces_of src" "transfer src ut (map (\<lambda>(i, ip). (int i, ip)) ws) = (ut', rs)"
  shows "\<exists>cs. md.put_all (range_of src) ut ws = (ut', cs) \<and> rs = map Return cs \<and>
    length (infoBytes ut') = length (infoBytes src)"
  using assms
proof (induction ws arbitrary: ut rs)
  case (Cons w ws)
  obtain i ip where w: "w = (i, ip)" by (cases w)
  note g = same_geometry [OF Cons.prems(1,2,3)]
  have i: "i < pieces_of src" "i < pieces_of ut" "length (range_of src i) = width ut i"
    using Cons.prems(4) w g range_of_nth(1) [OF Cons.prems(2)] by auto
  obtain ut1 r where wr: "ut_writeBlock ut (range_of src i) (int i) (int (length (infoBytes ut))) ip = (ut1, r)" by fastforce
  obtain c where c: "ut_put ut i ip (range_of src i) = (ut1, c)" "r = Return c" "ut_ok ut1"
    "length (infoBytes ut1) = length (infoBytes ut)"
    using ut_writeBlock_step [OF Cons.prems(1) i(2,3) wr] by blast
  obtain rs' where rs': "transfer src ut1 (map (\<lambda>(i, ip). (int i, ip)) ws) = (ut', rs')" "rs = r # rs'"
    using Cons.prems(3,5) wr w served_piece_ok [OF Cons.prems(2) i(1)] by (auto split: prod.splits)
  from Cons.IH [OF c(3) Cons.prems(2) _ _ rs'(1)] c Cons.prems(3,4)
  obtain cs where "md.put_all (range_of src) ut1 ws = (ut', cs)" "rs' = map Return cs"
    "length (infoBytes ut') = length (infoBytes src)" by auto
  with c rs'(2) w show ?case by auto
qed auto

lemma chunks_determine:
  assumes "ut_ok a" "ut_ok b" "length (infoBytes a) = length (infoBytes b)"
    "\<forall>i < pieces_of a. range_of a i = range_of b i"
  shows "infoBytes a = infoBytes b"
proof (rule nth_equalityI)
  fix p assume p: "p < length (infoBytes a)"
  let ?i = "p div psz" and ?k = "p mod psz"
  have i: "?i < pieces_of a"
    using p ceil_div [of psz "length (infoBytes a)"] pieces_of_eq [OF assms(1)]
    by (auto simp: less_Suc_eq_le div_le_mono less_mult_imp_div_less split: if_splits)
  have pk: "p = ?i * psz + ?k" "?k < psz" by simp_all
  have "?k < width a ?i"
  proof (cases "Suc ?i < pieces_of a")
    case True
    then show ?thesis using geometry(1) [OF assms(1) i] pk(2) by simp
  next
    case False
    then have "?i * psz + width a ?i = length (infoBytes a)" using geometry(2) [OF assms(1) i] i by simp
    then have "?i * psz + ?k < ?i * psz + width a ?i" using p pk(1) by metis
    then show ?thesis by (rule add_less_imp_less_left)
  qed
  then show "infoBytes a ! p = infoBytes b ! p"
    using assms(4) i range_of_nth(2) [OF assms(1) i, of ?k] range_of_nth(2) [OF assms(2), of ?i ?k]
      same_geometry [OF assms(1,2,3)] pk(1) by metis
qed (rule assms(3))

text \<open>
  C29. The metadata exchange transfers the info dictionary. A client with a new buffer of the
  announced size asks a peer that has the dictionary for its pieces, in any order and with any
  repetitions: every write succeeds, the write that reports completion is exactly the one that
  brings the last missing piece, and after it the buffer holds the peer's dictionary, byte for byte.
\<close>

theorem metadata_transfer:
  assumes "ut_ok src" "newUtMetadata (int (length (infoBytes src))) = Return ut"
    "\<forall>i \<in> fst ` set ws. i < pieces_of src" "transfer src ut (map (\<lambda>(i, ip). (int i, ip)) ws) = (ut', rs)"
  shows "(\<forall>k < length ws. rs ! k = Return (fst (ws ! k) \<notin> fst ` set (take k ws) \<and>
      {..<pieces_of src} \<subseteq> fst ` set (take (Suc k) ws))) \<and>
    (ut_complete ut' \<longleftrightarrow> {..<pieces_of src} \<subseteq> fst ` set ws) \<and>
    (ut_complete ut' \<longrightarrow> infoBytes ut' = infoBytes src)"
proof -
  have "int (length (infoBytes src)) \<le> 10000000" using assms(1) by (simp add: ut_ok_def)
  then have u: "ut_ok ut" "length (infoBytes ut) = length (infoBytes src)" "md_chunk ut = (\<lambda>_. None)"
    using newUtMetadata_ok [of "int (length (infoBytes src))"] assms(2) by auto
  note g = same_geometry [OF u(1) assms(1) u(2)]
  obtain cs where cs: "md.put_all (range_of src) ut ws = (ut', cs)" "rs = map Return cs"
    "length (infoBytes ut') = length (infoBytes src)"
    using transfer_put_all [OF u(1) assms(1) u(2) assms(3,4)] by blast
  have P: "ut_ok ut' \<and> pieces_of ut' = pieces_of ut \<and> width ut' = width ut \<and> length cs = length ws \<and>
    (\<forall>i. md_chunk ut' i = (if i \<in> fst ` set ws then Some (range_of src i) else md_chunk ut i)) \<and>
    (\<forall>k < length ws. cs ! k \<longleftrightarrow> fst (ws ! k) \<notin> fst ` set (take k ws) \<and> md_chunk ut (fst (ws ! k)) = None \<and>
       (\<forall>j < pieces_of ut. j \<in> fst ` set (take (Suc k) ws) \<or> md_chunk ut j \<noteq> None))"
    by (rule md.put_all_spec [OF u(1) _ _ cs(1)]) (use assms(1,3) g range_of_nth(1) u(3) in auto)
  have c: "ut_complete ut' \<longleftrightarrow> {..<pieces_of src} \<subseteq> fst ` set ws"
    using P u(3) g by (auto simp: ut_complete_chunks split: if_splits)
  have "infoBytes ut' = infoBytes src" if "ut_complete ut'"
  proof (rule chunks_determine [OF _ assms(1) cs(3)])
    show "ut_ok ut'" using P by blast
    show "\<forall>i < pieces_of ut'. range_of ut' i = range_of src i"
    proof (intro allI impI)
      fix i assume "i < pieces_of ut'"
      then have "md_chunk ut' i = Some (range_of src i)" using P u(3) that c g by auto
      then show "range_of ut' i = range_of src i" by (auto simp: md_chunk_def split: if_splits)
    qed
  qed
  then show ?thesis using P cs(2) u(3) g c by (auto simp: subset_iff)
qed

definition ex_ut :: utMetadata where
  "ex_ut = \<lparr>infoBytes = [100, 49, 101], ownedInfoBlocks = [True], ut_contributors = [], ut_numPieces = 1, lastPieceLen = 3\<rparr>"

theorem metadata_transfer_witness:
  "\<exists>ut ut' rs. newUtMetadata 3 = Return ut \<and> transfer ex_ut ut [(0, [1]), (0, [2])] = (ut', rs) \<and>
     rs ! 0 = Return True \<and> rs ! 1 = Return False \<and> infoBytes ut' = [100, 49, 101]"
proof -
  have ok: "ut_ok ex_ut" "pieces_of ex_ut = 1" by (simp_all add: ut_ok_def ex_ut_def pieces_of_def)
  obtain ut where ut: "newUtMetadata 3 = Return ut" using newUtMetadata_ok [of 3] by auto
  obtain ut' rs where t: "transfer ex_ut ut [(0, [1]), (0, [2])] = (ut', rs)" by fastforce
  have "(\<forall>k < length [(0 :: nat, [1 :: byte]), (0, [2])]. rs ! k = Return (fst ([(0, [1 :: byte]), (0, [2])] ! k) \<notin>
        fst ` set (take k [(0 :: nat, [1 :: byte]), (0, [2])]) \<and>
        {..<pieces_of ex_ut} \<subseteq> fst ` set (take (Suc k) [(0 :: nat, [1 :: byte]), (0, [2])]))) \<and>
      (ut_complete ut' \<longleftrightarrow> {..<pieces_of ex_ut} \<subseteq> fst ` set [(0 :: nat, [1 :: byte]), (0, [2])]) \<and>
      (ut_complete ut' \<longrightarrow> infoBytes ut' = infoBytes ex_ut)"
    using t ut ok by (intro metadata_transfer) (simp_all add: ex_ut_def)
  then show ?thesis using ut t ok by (auto simp: ex_ut_def lessThan_Suc)
qed

text \<open>
  \<open>fillRequest\<close> asks for useful pieces only, whatever the shuffle: at most \<open>n\<close> distinct
  indices of the buffer, none owned, none on the excluded list, and as many as there are.
\<close>

lemma ut_fillRequest_spec:
  assumes "\<forall>xs. mset (shuffle xs) = mset xs" "0 \<le> n"
  shows "\<exists>req. ut_fillRequest shuffle ut n exclude = Return req \<and> distinct req \<and>
    (\<forall>i \<in> set req. 0 \<le> i \<and> i < int (pieces_of ut) \<and> md_chunk ut (nat i) = None \<and> i \<notin> set exclude) \<and>
    int (length req) = min n (int (card {i. i < pieces_of ut \<and> md_chunk ut i = None \<and> int i \<notin> set exclude}))"
proof -
  let ?I = "incompleteIndices ut exclude" and ?S = "{i. i < pieces_of ut \<and> md_chunk ut i = None \<and> int i \<notin> set exclude}"
  have m: "mset (shuffle ?I) = mset ?I" using assms(1) by blast
  have c: "contains exclude i \<longleftrightarrow> i \<in> set exclude" for i by (auto simp: contains_def list_ex_iff)
  have s: "set ?I = int ` ?S"
  proof (intro set_eqI iffI)
    fix i assume "i \<in> set ?I"
    then show "i \<in> int ` ?S"
      by (intro image_eqI [of _ _ "nat i"]) (auto simp: incompleteIndices_def c md_chunk_def pieces_of_def)
  qed (auto simp: incompleteIndices_def c md_chunk_def pieces_of_def)
  have d: "distinct ?I" by (simp add: incompleteIndices_def)
  have l: "length (shuffle ?I) = card ?S"
    using distinct_card [OF d] s mset_eq_length [OF m] by (simp add: card_image)
  have ds: "distinct (shuffle ?I)" using m d mset_eq_imp_distinct_iff by blast
  have q: "\<forall>i \<in> set (shuffle ?I). 0 \<le> i \<and> i < int (pieces_of ut) \<and> md_chunk ut (nat i) = None \<and> i \<notin> set exclude"
    using s mset_eq_setD [OF m] by auto
  show ?thesis
  proof (cases "n < int (length (shuffle ?I))")
    case True
    then have "ut_fillRequest shuffle ut n exclude = Return (take (nat n) (shuffle ?I))"
      using assms(2) by (simp add: ut_fillRequest_def)
    moreover have "int (length (take (nat n) (shuffle ?I))) = min n (int (card ?S))" using True assms(2) l by simp
    moreover have "\<forall>i \<in> set (take (nat n) (shuffle ?I)). 0 \<le> i \<and> i < int (pieces_of ut) \<and>
        md_chunk ut (nat i) = None \<and> i \<notin> set exclude"
      using q in_set_takeD by fast
    ultimately show ?thesis using distinct_take [OF ds] by blast
  next
    case False
    then have "ut_fillRequest shuffle ut n exclude = Return (shuffle ?I)" by (simp add: ut_fillRequest_def)
    moreover have "int (length (shuffle ?I)) = min n (int (card ?S))" using False l by simp
    ultimately show ?thesis using q ds by blast
  qed
qed

lemma ex_incomplete:
  "{i. i < pieces_of (ex_ut\<lparr>ownedInfoBlocks := [False, False]\<rparr>) \<and>
       md_chunk (ex_ut\<lparr>ownedInfoBlocks := [False, False]\<rparr>) i = None \<and> int i \<notin> set [0]} = {1}"
  by (auto simp: pieces_of_def md_chunk_def less_Suc_eq)

lemma ut_fillRequest_spec_witness:
  "\<exists>req. ut_fillRequest rev (ex_ut\<lparr>ownedInfoBlocks := [False, False]\<rparr>) 5 [0] = Return req \<and> length req = 1"
proof -
  have "\<forall>xs :: int list. mset (rev xs) = mset xs" "(0 :: int) \<le> 5" by simp_all
  from ut_fillRequest_spec [OF this, of "ex_ut\<lparr>ownedInfoBlocks := [False, False]\<rparr>" "[0]", unfolded ex_incomplete]
  obtain req where "ut_fillRequest rev (ex_ut\<lparr>ownedInfoBlocks := [False, False]\<rparr>) 5 [0] = Return req"
    "int (length req) = min 5 (int (card {1 :: nat}))" by blast
  then show ?thesis by simp
qed

text \<open>
  The finding on piece indices (\<open>writeBlock\<close>): the range test stands behind an access with
  the same index, so the error it returns is never returned; an index outside the buffer panics,
  whatever the buffer. The index comes from the peer.
\<close>

lemma ut_writeBlock_range:
  "(\<forall>ut'. ut_writeBlock ut b i t ip \<noteq> (ut', Error MdOutOfRange)) \<and>
   (i < 0 \<or> int (pieces_of ut) \<le> i \<longrightarrow> ut_writeBlock ut b i t ip = (ut, Panic IndexOutOfRange))"
  by (auto simp: ut_writeBlock_def pieces_of_def Let_def)

lemma ut_writeBlock_range_witness: "ut_writeBlock ex_ut [] 1 3 [] = (ex_ut, Panic IndexOutOfRange)"
  using ut_writeBlock_range [of ex_ut "[]" 1 3 "[]"] by (simp add: pieces_of_def ex_ut_def)

end
