(* ===== verification/Tracker.thy ===== *)
theory Tracker
  imports Prelude
begin

text \<open>
  The UDP tracker protocol (BEP 15): the client side (\<open>tracker/udp.go\<close> with the types of
  \<open>tracker/tracker.go\<close>) and the package's server (\<open>tracker/server.go\<close>). Signed integers
  of the packets are kept as words, as they travel.

  What the network does to the client is a script: for every read the time that passes and what
  the read brings. Dialling, writing and the random transaction ids are part of the client's
  environment too. A script that is used up stands for the cancelled context.
\<close>

section \<open>Packets\<close>

type_synonym int32 = "32 word"
type_synonym int64 = "64 word"

abbreviation actionConnect :: int32 where "actionConnect \<equiv> 0"
abbreviation actionAnnounce :: int32 where "actionAnnounce \<equiv> 1"
abbreviation actionScrape :: int32 where "actionScrape \<equiv> 2"
abbreviation actionError :: int32 where "actionError \<equiv> 3"

definition protoID :: int64 where "protoID = 0x41727101980"

record respHeader =
  rh_Action :: int32
  rh_TxID :: int32

record reqHeader =
  qh_ConnID :: int64
  qh_Action :: int32
  qh_TxID :: int32

record announceFixed =
  af_Interval :: int32
  af_Leechers :: int32
  af_Seeders :: int32

record udpScrapeInfo =
  si_Seeders :: int32
  si_Completed :: int32
  si_Leechers :: int32

record AnnounceReq =
  ar_InfoHash :: bytes
  ar_PeerID :: bytes
  ar_Downloaded :: int64
  ar_Left :: int64
  ar_Uploaded :: int64
  ar_Event :: int32
  ar_IP :: int32
  ar_Key :: int32
  ar_Numwant :: int32
  ar_Port :: "16 word"

text \<open>\<open>pr_ID = None\<close>: the peer's id is not known.\<close>

record tpeer =
  pr_ID :: "bytes option"
  pr_IP :: bytes
  pr_Port :: "16 word"

record AnnounceResp =
  rs_Interval :: int32
  rs_Leechers :: int32
  rs_Seeders :: int32
  rs_Peers :: "tpeer list"
  rs_MinInterval :: int32

record TorrentInfo =
  ti_Seeders :: int32
  ti_Downloaded :: int32
  ti_Leechers :: int32
  ti_Name :: bytes

type_synonym ScrapeResp = "(bytes \<times> TorrentInfo) list"

definition put_respHeader :: "respHeader \<Rightarrow> bytes" where
  "put_respHeader h = put_u32 (rh_Action h) @ put_u32 (rh_TxID h)"

definition put_reqHeader :: "reqHeader \<Rightarrow> bytes" where
  "put_reqHeader h = put_u64 (qh_ConnID h) @ put_u32 (qh_Action h) @ put_u32 (qh_TxID h)"

definition put_announceFixed :: "announceFixed \<Rightarrow> bytes" where
  "put_announceFixed f = put_u32 (af_Interval f) @ put_u32 (af_Leechers f) @ put_u32 (af_Seeders f)"

definition put_scrapeInfo :: "udpScrapeInfo \<Rightarrow> bytes" where
  "put_scrapeInfo i = put_u32 (si_Seeders i) @ put_u32 (si_Completed i) @ put_u32 (si_Leechers i)"

definition put_AnnounceReq :: "AnnounceReq \<Rightarrow> bytes" where
  "put_AnnounceReq r = ar_InfoHash r @ ar_PeerID r @ put_u64 (ar_Downloaded r) @ put_u64 (ar_Left r) @
     put_u64 (ar_Uploaded r) @ put_u32 (ar_Event r) @ put_u32 (ar_IP r) @ put_u32 (ar_Key r) @
     put_u32 (ar_Numwant r) @ put_u16 (ar_Port r)"

text \<open>Reading a field and going on with the rest.\<close>

definition rd :: "(bytes \<Rightarrow> ('a \<times> bytes) option) \<Rightarrow> bytes \<Rightarrow> ('a \<Rightarrow> bytes \<Rightarrow> 'b option) \<Rightarrow> 'b option" where
  "rd g b f = (case g b of None \<Rightarrow> None | Some (a, r) \<Rightarrow> f a r)"

definition get_arr :: "nat \<Rightarrow> bytes \<Rightarrow> (bytes \<times> bytes) option" where
  "get_arr n b = (if length b < n then None else Some (take n b, drop n b))"

definition get_respHeader :: "bytes \<Rightarrow> (respHeader \<times> bytes) option" where
  "get_respHeader b = rd get_u32 b (\<lambda>a b. rd get_u32 b (\<lambda>t b. Some (\<lparr>rh_Action = a, rh_TxID = t\<rparr>, b)))"

definition get_reqHeader :: "bytes \<Rightarrow> (reqHeader \<times> bytes) option" where
  "get_reqHeader b = rd get_u64 b (\<lambda>c b. rd get_u32 b (\<lambda>a b. rd get_u32 b (\<lambda>t b.
     Some (\<lparr>qh_ConnID = c, qh_Action = a, qh_TxID = t\<rparr>, b))))"

definition get_announceFixed :: "bytes \<Rightarrow> (announceFixed \<times> bytes) option" where
  "get_announceFixed b = rd get_u32 b (\<lambda>i b. rd get_u32 b (\<lambda>l b. rd get_u32 b (\<lambda>s b.
     Some (\<lparr>af_Interval = i, af_Leechers = l, af_Seeders = s\<rparr>, b))))"

definition get_scrapeInfo :: "bytes \<Rightarrow> (udpScrapeInfo \<times> bytes) option" where
  "get_scrapeInfo b = rd get_u32 b (\<lambda>s b. rd get_u32 b (\<lambda>c b. rd get_u32 b (\<lambda>l b.
     Some (\<lparr>si_Seeders = s, si_Completed = c, si_Leechers = l\<rparr>, b))))"

definition get_AnnounceReq :: "bytes \<Rightarrow> (AnnounceReq \<times> bytes) option" where
  "get_AnnounceReq b = rd (get_arr 20) b (\<lambda>ih b. rd (get_arr 20) b (\<lambda>pid b.
     rd get_u64 b (\<lambda>d b. rd get_u64 b (\<lambda>l b. rd get_u64 b (\<lambda>u b.
     rd get_u32 b (\<lambda>ev b. rd get_u32 b (\<lambda>ip b. rd get_u32 b (\<lambda>k b. rd get_u32 b (\<lambda>nw b.
     rd get_u16 b (\<lambda>p b.
       Some (\<lparr>ar_InfoHash = ih, ar_PeerID = pid, ar_Downloaded = d, ar_Left = l, ar_Uploaded = u,
              ar_Event = ev, ar_IP = ip, ar_Key = k, ar_Numwant = nw, ar_Port = p\<rparr>, b)))))))))))"

text \<open>\<open>cheapPeers.peers\<close>: six bytes a peer; a shorter rest is cut off first. The address of four bytes always has a four-byte form.\<close>

fun cheap_loop :: "bytes \<Rightarrow> tpeer list" where
  "cheap_loop (a # b # c # d # e # f # r) =
     \<lparr>pr_ID = None, pr_IP = [a, b, c, d], pr_Port = of_nat (be_get [e, f])\<rparr> # cheap_loop r"
| "cheap_loop _ = []"

definition cheap_peers :: "bytes \<Rightarrow> tpeer list" where
  "cheap_peers cheap = cheap_loop (take (length cheap - length cheap mod 6) cheap)"

section \<open>The client\<close>

datatype read_ev = RPacket bytes | RTimeout | ROpError | ROtherError | RCtxDone

datatype udp_error =
    DialFailed | WriteFailed | ShortRead | RespTooSmall | UnknownAction | TxMismatch
  | TrackerError bytes | ActionMismatch | WaitedTooLong | NetError | CtxError | NoScrape

text \<open>
  The fields of \<open>UDPTrackerURL\<close> after its url and host, then the environment: the clock, the
  script, what has been written, the random numbers to come, whether dialling and writing succeed.
\<close>

record udp =
  u_connID :: int64
  u_last :: "int option"
  u_timeouts :: nat
  u_now :: int
  u_script :: "(int \<times> read_ev) list"
  u_sent :: "bytes list"
  u_rand :: "int32 list"
  u_dial :: bool
  u_write :: bool

definition second :: int where "second = 1000000000"

definition isConnected :: "udp \<Rightarrow> bool" where
  "isConnected t = (case u_last t of None \<Rightarrow> False | Some l \<Rightarrow> u_now t - l < 60 * second)"

definition timeoutTime :: "udp \<Rightarrow> int" where
  "timeoutTime t = (if u_timeouts t \<ge> 8 then -1 else 2 ^ u_timeouts t * 15 * second)"

definition rand_Int31 :: "udp \<Rightarrow> udp \<times> int32" where
  "rand_Int31 t = (case u_rand t of [] \<Rightarrow> (t, 0) | x # xs \<Rightarrow> (t\<lparr>u_rand := xs\<rparr>, x))"

definition checkRespHeader :: "bytes \<Rightarrow> respHeader \<Rightarrow> udp_error + bytes" where
  "checkRespHeader buf expected =
     (let a = rh_Action expected
      in if a = actionAnnounce \<and> length buf < 20 then Inl RespTooSmall
         else if a = actionConnect \<and> length buf < 16 then Inl RespTooSmall
         else if a \<in> {actionScrape, actionError} \<and> length buf < 8 then Inl RespTooSmall
         else if a \<notin> {actionAnnounce, actionConnect, actionScrape, actionError} then Inl UnknownAction
         else case get_respHeader buf of
           None \<Rightarrow> Inl ShortRead
         | Some (h, r) \<Rightarrow>
             if rh_TxID h \<noteq> rh_TxID expected then Inl TxMismatch
             else if rh_Action h = actionError then Inl (TrackerError r)
             else if rh_Action h \<noteq> rh_Action expected then Inl ActionMismatch
             else Inr r)"

definition writeRequest :: "udp \<Rightarrow> bytes \<Rightarrow> udp \<times> udp_error option" where
  "writeRequest t b = (if u_write t then (t\<lparr>u_sent := u_sent t @ [b]\<rparr>, None) else (t, Some WriteFailed))"

text \<open>
  The outcome of one attempt: \<open>None\<close> is the request timeout, which the caller retries. A packet
  is cut at the 256 bytes of the buffer.
\<close>

definition bufSize :: nat where "bufSize = 0x100"

definition readResponse :: "udp \<Rightarrow> respHeader \<Rightarrow> udp \<times> (udp_error + bytes) option" where
  "readResponse t header =
     (if timeoutTime t < 0 then (t, Some (Inl WaitedTooLong))
      else case u_script t of
        [] \<Rightarrow> (t, Some (Inl CtxError))
      | (dt, ev) # s \<Rightarrow>
          let t' = t\<lparr>u_script := s, u_now := u_now t + dt\<rparr>
          in (case ev of
                RCtxDone \<Rightarrow> (t', Some (Inl CtxError))
              | RTimeout \<Rightarrow> (t'\<lparr>u_timeouts := Suc (u_timeouts t)\<rparr>, None)
              | ROpError \<Rightarrow> (t', Some (Inl NetError))
              | ROtherError \<Rightarrow> (t', Some (Inl NetError))
              | RPacket p \<Rightarrow> (t', Some (checkRespHeader (take bufSize p) header))))"

lemma readResponse_timeout: "readResponse t h = (t', None) \<Longrightarrow> u_timeouts t < 8 \<and> u_timeouts t' = Suc (u_timeouts t)"
  by (auto simp: readResponse_def Let_def timeoutTime_def split: if_splits list.splits read_ev.splits)

lemma writeRequest_keeps: "writeRequest t b = (t', e) \<Longrightarrow> u_timeouts t' = u_timeouts t"
  by (auto simp: writeRequest_def split: if_splits)

text \<open>
  The loop of \<open>request\<close> for a connect request, and \<open>connect\<close>, which calls it; then the loop
  for the other requests, which connects again before every attempt. Every attempt that is retried
  counts a timeout, and the ninth attempt gives up, so the loops end: their measure is what is left
  of eight timeouts.
\<close>

function request_connect :: "udp \<Rightarrow> respHeader \<Rightarrow> bytes \<Rightarrow> udp \<times> (udp_error + bytes)" where
  "request_connect t head req =
     (case writeRequest t req of
        (t1, Some e) \<Rightarrow> (t1, Inl e)
      | (t1, None) \<Rightarrow>
          (case readResponse t1 head of
             (t2, None) \<Rightarrow> request_connect t2 head req
           | (t2, Some r) \<Rightarrow> (t2, r)))"
  by auto

termination
  by (relation "measure (\<lambda>(t, _). 8 - u_timeouts t)") (auto dest!: readResponse_timeout [OF sym] writeRequest_keeps [OF sym])

declare request_connect.simps [simp del]

definition connect :: "udp \<Rightarrow> udp \<times> udp_error option" where
  "connect t =
     (if isConnected t then (t, None)
      else if \<not> u_dial t then (t, Some DialFailed)
      else case rand_Int31 t of
        (t1, txID) \<Rightarrow>
          (case request_connect t1 \<lparr>rh_Action = actionConnect, rh_TxID = txID\<rparr>
                  (put_reqHeader \<lparr>qh_ConnID = protoID, qh_Action = actionConnect, qh_TxID = txID\<rparr>) of
             (t2, Inl e) \<Rightarrow> (t2, Some e)
           | (t2, Inr buf) \<Rightarrow>
               (case get_u64 buf of
                  None \<Rightarrow> (t2, Some ShortRead)
                | Some (connID, _) \<Rightarrow> (t2\<lparr>u_connID := connID, u_last := Some (u_now t2)\<rparr>, None))))"

text \<open>The counter only grows, and only below eight.\<close>

definition counts :: "udp \<Rightarrow> udp \<Rightarrow> bool" where
  "counts t t' \<longleftrightarrow> u_timeouts t \<le> u_timeouts t' \<and> u_timeouts t' \<le> max 8 (u_timeouts t)"

lemma counts_trans: "counts a b \<Longrightarrow> counts b c \<Longrightarrow> counts a c"
  by (auto simp: counts_def max_def split: if_splits)

lemma readResponse_counts: "readResponse t h = (t', x) \<Longrightarrow> counts t t'"
  by (auto simp: counts_def readResponse_def Let_def timeoutTime_def split: if_splits list.splits read_ev.splits)

lemma writeRequest_counts: "writeRequest t b = (t', x) \<Longrightarrow> counts t t'"
  by (auto simp: counts_def dest: writeRequest_keeps)

lemma request_connect_timeouts: "request_connect t h b = (t', r) \<Longrightarrow> counts t t'"
proof (induction t h b rule: request_connect.induct)
  case (1 t h b)
  obtain t1 e where w: "writeRequest t b = (t1, e)" by fastforce
  obtain t2 x where r: "readResponse t1 h = (t2, x)" by fastforce
  note k = writeRequest_counts [OF w] and k2 = counts_trans [OF writeRequest_counts [OF w] readResponse_counts [OF r]]
  show ?case
  proof (cases "e = None \<and> x = None")
    case True
    then have "counts t2 t'"
      using 1(1) [OF w [symmetric]] r 1(2) w by (simp add: request_connect.simps [of t])
    then show ?thesis by (rule counts_trans [OF k2])
  next
    case False
    then show ?thesis using 1(2) w r k k2
      by (auto simp: request_connect.simps [of t] split: option.splits)
  qed
qed

lemma connect_timeouts: "connect t = (t', e) \<Longrightarrow> counts t t'"
  by (auto simp: connect_def rand_Int31_def split: if_splits prod.splits list.splits sum.splits option.splits
      dest!: request_connect_timeouts) (simp_all add: counts_def)

function request :: "udp \<Rightarrow> respHeader \<Rightarrow> bytes \<Rightarrow> udp \<times> (udp_error + bytes)" where
  "request t head req =
     (case connect t of
        (t0, Some e) \<Rightarrow> (t0, Inl e)
      | (t0, None) \<Rightarrow>
     (case writeRequest t0 req of
        (t1, Some e) \<Rightarrow> (t1, Inl e)
      | (t1, None) \<Rightarrow>
          (case readResponse t1 head of
             (t2, None) \<Rightarrow> request t2 head req
           | (t2, Some r) \<Rightarrow> (t2, r))))"
  by auto

termination
  by (relation "measure (\<lambda>(t, _). 8 - u_timeouts t)")
    (auto simp: counts_def dest!: readResponse_timeout [OF sym] writeRequest_keeps [OF sym] connect_timeouts [OF sym])

declare request.simps [simp del]

text \<open>The request is built before it is sent, with the connection id of that moment.\<close>

definition udp_announce :: "udp \<Rightarrow> AnnounceReq \<Rightarrow> udp \<times> (udp_error + AnnounceResp)" where
  "udp_announce t req =
     (case connect t of
        (t0, Some e) \<Rightarrow> (t0, Inl e)
      | (t0, None) \<Rightarrow>
          (case rand_Int31 t0 of
             (t1, txID) \<Rightarrow>
               (case request t1 \<lparr>rh_Action = actionAnnounce, rh_TxID = txID\<rparr>
                       (put_reqHeader \<lparr>qh_ConnID = u_connID t1, qh_Action = actionAnnounce, qh_TxID = txID\<rparr> @
                        put_AnnounceReq req) of
                  (t2, Inl e) \<Rightarrow> (t2, Inl e)
                | (t2, Inr buf) \<Rightarrow>
                    (case get_announceFixed buf of
                       None \<Rightarrow> (t2, Inl ShortRead)
                     | Some (fixed, r) \<Rightarrow>
                         (t2, Inr \<lparr>rs_Interval = af_Interval fixed, rs_Leechers = af_Leechers fixed,
                                   rs_Seeders = af_Seeders fixed, rs_Peers = cheap_peers r,
                                   rs_MinInterval = 0\<rparr>)))))"

text \<open>\<open>scrapes\<close> fills the result map in the order of the hashes: a later equal hash overwrites.\<close>

definition scrape_map :: "bytes list \<Rightarrow> udpScrapeInfo list \<Rightarrow> ScrapeResp" where
  "scrape_map ihashes infos =
     foldl (\<lambda>m (h, i). filter (\<lambda>e. fst e \<noteq> h) m @
       [(h, \<lparr>ti_Seeders = si_Seeders i, ti_Downloaded = si_Completed i, ti_Leechers = si_Leechers i, ti_Name = []\<rparr>)])
       [] (zip ihashes infos)"

definition udp_scrape :: "udp \<Rightarrow> bytes list \<Rightarrow> udp \<times> (udp_error + ScrapeResp)" where
  "udp_scrape t ihashes =
     (case connect t of
        (t0, Some e) \<Rightarrow> (t0, Inl e)
      | (t0, None) \<Rightarrow>
          (case rand_Int31 t0 of
             (t1, txID) \<Rightarrow>
               (case request t1 \<lparr>rh_Action = actionScrape, rh_TxID = txID\<rparr>
                       (put_reqHeader \<lparr>qh_ConnID = u_connID t1, qh_Action = actionScrape, qh_TxID = txID\<rparr> @
                        concat ihashes) of
                  (t2, Inl e) \<Rightarrow> (t2, Inl e)
                | (t2, Inr buf) \<Rightarrow>
                    (case dec_n get_scrapeInfo (length ihashes) buf of
                       None \<Rightarrow> (t2, Inl ShortRead)
                     | Some (infos, _) \<Rightarrow> (t2, Inr (scrape_map ihashes infos))))))"

section \<open>Scrape URLs\<close>

definition announce_word :: bytes where "announce_word = [97, 110, 110, 111, 117, 110, 99, 101]"
definition scrape_word :: bytes where "scrape_word = [115, 99, 114, 97, 112, 101]"

text \<open>The last path component must start with \<open>announce\<close>; the empty result means that there is no scrape URL.\<close>

definition ScrapeURL :: "bytes \<Rightarrow> bytes" where
  "ScrapeURL u =
     (if 47 \<notin> set u then []
      else let tail = rev (takeWhile (\<lambda>b. b \<noteq> 47) (rev u)); pre = take (length u - length tail) u
           in if take 8 tail \<noteq> announce_word then [] else pre @ scrape_word @ drop 8 tail)"

definition udp_Scrape :: "bytes \<Rightarrow> udp \<Rightarrow> bytes list \<Rightarrow> udp \<times> (udp_error + ScrapeResp)" where
  "udp_Scrape url t ihashes = (if ScrapeURL url = [] then (t, Inl NoScrape) else udp_scrape t ihashes)"

definition addPortMaybe :: "bytes \<Rightarrow> bytes" where
  "addPortMaybe host = (if 58 \<in> set host then host else host @ [58, 56, 48])"

section \<open>The server\<close>

record portIP =
  pi_IP :: int32
  pi_port :: "16 word"

record storrent =
  st_stats :: udpScrapeInfo
  st_Peers :: "portIP list"

record server =
  sv_conns :: "int64 list"
  sv_t :: "(bytes \<times> storrent) list"

datatype serve_error = SrvShortRead | NotConnected | NoHash | ScrapeSize | TooManyScrapes | Unhandled

definition put_portIP :: "portIP \<Rightarrow> bytes" where
  "put_portIP p = put_u32 (pi_IP p) @ put_u16 (pi_port p)"

definition not_connected :: bytes where
  "not_connected = [110, 111, 116, 32, 99, 111, 110, 110, 101, 99, 116, 101, 100]"
definition unhandled_action :: bytes where
  "unhandled_action = [117, 110, 104, 97, 110, 100, 108, 101, 100, 32, 97, 99, 116, 105, 111, 110]"

fun scrape_all :: "(bytes \<times> storrent) list \<Rightarrow> bytes list \<Rightarrow> udpScrapeInfo list option" where
  "scrape_all db [] = Some []"
| "scrape_all db (h # hs) =
     (case map_of db h of
        None \<Rightarrow> None
      | Some t \<Rightarrow> (case scrape_all db hs of None \<Rightarrow> None | Some is \<Rightarrow> Some (st_stats t # is)))"

text \<open>Writing a response: the header and the parts, marshalled one after the other.\<close>

definition respond :: "respHeader \<Rightarrow> bytes \<Rightarrow> bytes list" where
  "respond rh parts = [put_respHeader rh @ parts]"

definition server_newConn :: "int64 \<Rightarrow> server \<Rightarrow> server" where
  "server_newConn newID s = s\<lparr>sv_conns := List.insert newID (sv_conns s)\<rparr>"

text \<open>\<open>None\<close> when the id is known, otherwise the packet that refuses the request.\<close>

definition checkConnectionID :: "reqHeader \<Rightarrow> server \<Rightarrow> bytes list option" where
  "checkConnectionID h s =
     (if qh_ConnID h \<in> set (sv_conns s) then None
      else Some (respond \<lparr>rh_Action = actionError, rh_TxID = qh_TxID h\<rparr> not_connected))"

text \<open>
  One packet served: the new state, the packets written back and the error. The id of a new
  connection is an argument.
\<close>

definition serveOne :: "int64 \<Rightarrow> server \<Rightarrow> bytes \<Rightarrow> server \<times> bytes list \<times> serve_error option" where
  "serveOne newID s pkt =
     (case get_reqHeader pkt of
        None \<Rightarrow> (s, [], Some SrvShortRead)
      | Some (h, r) \<Rightarrow>
             if qh_Action h = actionConnect
             then if qh_ConnID h \<noteq> protoID then (s, [], None)
                  else (server_newConn newID s,
                        respond \<lparr>rh_Action = actionConnect, rh_TxID = qh_TxID h\<rparr> (put_u64 newID), None)
             else if qh_Action h = actionAnnounce
             then case checkConnectionID h s of
                    Some pkts \<Rightarrow> (s, pkts, Some NotConnected)
                  | None \<Rightarrow> (case get_AnnounceReq r of
                          None \<Rightarrow> (s, [], Some SrvShortRead)
                        | Some (ar, _) \<Rightarrow>
                            (case map_of (sv_t s) (ar_InfoHash ar) of
                               None \<Rightarrow> (s, [], Some NoHash)
                             | Some t \<Rightarrow>
                                 (s, respond \<lparr>rh_Action = actionAnnounce, rh_TxID = qh_TxID h\<rparr>
                                      (put_announceFixed \<lparr>af_Interval = 900, af_Leechers = si_Leechers (st_stats t),
                                                          af_Seeders = si_Seeders (st_stats t)\<rparr> @
                                       concat (map put_portIP (st_Peers t))), None)))
             else if qh_Action h = actionScrape
             then case checkConnectionID h s of
                    Some pkts \<Rightarrow> (s, pkts, Some NotConnected)
                  | None \<Rightarrow>
                       if length r mod 20 \<noteq> 0 then (s, [], Some ScrapeSize)
                  else if 74 < length r div 20 then (s, [], Some TooManyScrapes)
                  else (case dec_n (get_arr 20) (length r div 20) r of
                          None \<Rightarrow> (s, [], Some SrvShortRead)
                        | Some (hs, _) \<Rightarrow>
                            (case scrape_all (sv_t s) hs of
                               None \<Rightarrow> (s, [], Some NoHash)
                             | Some is \<Rightarrow>
                                 (s, respond \<lparr>rh_Action = actionScrape, rh_TxID = qh_TxID h\<rparr>
                                      (concat (map put_scrapeInfo is)), None)))
             else (s, respond \<lparr>rh_Action = qh_TxID h, rh_TxID = actionError\<rparr> unhandled_action, Some Unhandled))"

end
