(* ===== verification/Tracker_Correct.thy ===== *)
theory Tracker_Correct
  imports Tracker
begin

text \<open>
  The two sides of the UDP tracker protocol understand each other; a client gives up after eight
  timeouts, for good; and what it sends again after a new connection still carries the old
  connection id.
\<close>

section \<open>Packets read back\<close>

lemma get_put_respHeader [codec_simps]: "get_respHeader (put_respHeader h @ r) = Some (h, r)"
  by (simp add: get_respHeader_def put_respHeader_def rd_def codec_simps)

lemma get_put_reqHeader [codec_simps]: "get_reqHeader (put_reqHeader h @ r) = Some (h, r)"
  by (simp add: get_reqHeader_def put_reqHeader_def rd_def codec_simps)

lemma get_put_announceFixed [codec_simps]: "get_announceFixed (put_announceFixed f @ r) = Some (f, r)"
  by (simp add: get_announceFixed_def put_announceFixed_def rd_def codec_simps)

lemma get_put_scrapeInfo [codec_simps]: "get_scrapeInfo (put_scrapeInfo i @ r) = Some (i, r)"
  by (simp add: get_scrapeInfo_def put_scrapeInfo_def rd_def codec_simps)

lemma get_arr_append [codec_simps]: "length a = n \<Longrightarrow> get_arr n (a @ r) = Some (a, r)"
  by (simp add: get_arr_def)

definition ar_ok :: "AnnounceReq \<Rightarrow> bool" where
  "ar_ok r \<longleftrightarrow> length (ar_InfoHash r) = 20 \<and> length (ar_PeerID r) = 20"

lemma get_put_AnnounceReq [codec_simps]: "ar_ok q \<Longrightarrow> get_AnnounceReq (put_AnnounceReq q @ r) = Some (q, r)"
  by (simp add: get_AnnounceReq_def put_AnnounceReq_def rd_def codec_simps ar_ok_def)

lemma dec_n_append:
  assumes "\<And>a r. a \<in> set as \<Longrightarrow> dec (enc a @ r) = Some (a, r)"
  shows "dec_n dec (length as) (concat (map enc as) @ r) = Some (as, r)"
  using assms by (induction as) simp_all

section \<open>Peers\<close>

definition peer_of :: "portIP \<Rightarrow> tpeer" where
  "peer_of p = \<lparr>pr_ID = None, pr_IP = put_u32 (pi_IP p), pr_Port = pi_port p\<rparr>"

lemma length_put_portIP [simp]: "length (put_portIP p) = 6"
  by (simp add: put_portIP_def)

lemma cheap_loop_put: "cheap_loop (put_portIP p @ r) = peer_of p # cheap_loop r"
proof -
  have four: "\<exists>a b c d. xs = [a, b, c, d]" if "length xs = 4" for xs :: bytes
    using that by (auto simp: numeral_eq_Suc length_Suc_conv)
  have two: "\<exists>a b. xs = [a, b]" if "length xs = 2" for xs :: bytes
    using that by (auto simp: numeral_eq_Suc length_Suc_conv)
  obtain a b c d e f where u: "put_u32 (pi_IP p) = [a, b, c, d]" "put_u16 (pi_port p) = [e, f]"
    using four [of "put_u32 (pi_IP p)"] two [of "put_u16 (pi_port p)"] by auto
  have "get_u16 (put_u16 (pi_port p) @ []) = Some (pi_port p, [])" by (rule u16.dec_enc)
  then have "of_nat (be_get [e, f]) = pi_port p" unfolding u by (simp add: get_u16_def get_be_def)
  then show ?thesis by (simp add: put_portIP_def u peer_of_def)
qed

lemma cheap_loop_short: "length r < 6 \<Longrightarrow> cheap_loop r = []"
  by (cases r rule: cheap_loop.cases) auto

lemma cheap_loop_all: "cheap_loop (concat (map put_portIP ps)) = map peer_of ps"
  by (induction ps) (simp_all add: cheap_loop_put cheap_loop_short)

lemma length_concat_put [simp]: "length (concat (map put_portIP ps)) = 6 * length ps"
  by (induction ps) simp_all

lemma take_concat_put: "take (6 * n) (concat (map put_portIP ps)) = concat (map put_portIP (take n ps))"
proof (induction n arbitrary: ps)
  case (Suc n)
  show ?case by (cases ps) (simp_all add: Suc)
qed simp

lemma cheap_peers_take: "cheap_peers (take (6 * n + k) (concat (map put_portIP ps))) = map peer_of (take n ps)" if "k < 6"
proof (cases "length ps \<le> n")
  case True
  then have "take (6 * n + k) (concat (map put_portIP ps)) = concat (map put_portIP ps)" by simp
  then show ?thesis using True by (simp add: cheap_peers_def cheap_loop_all)
next
  case False
  then have l: "length (take (6 * n + k) (concat (map put_portIP ps))) = 6 * n + k" using that by simp
  then have "length (take (6 * n + k) (concat (map put_portIP ps))) mod 6 = k" using that by simp
  with l show ?thesis unfolding cheap_peers_def by (simp add: take_concat_put cheap_loop_all min_def)
qed

section \<open>A session with the server\<close>

abbreviation connect_packet :: "int32 \<Rightarrow> bytes" where
  "connect_packet tx \<equiv> put_reqHeader \<lparr>qh_ConnID = protoID, qh_Action = actionConnect, qh_TxID = tx\<rparr>"

abbreviation announce_packet :: "int64 \<Rightarrow> int32 \<Rightarrow> AnnounceReq \<Rightarrow> bytes" where
  "announce_packet cid tx req \<equiv>
     put_reqHeader \<lparr>qh_ConnID = cid, qh_Action = actionAnnounce, qh_TxID = tx\<rparr> @ put_AnnounceReq req"

lemma serve_connect:
  "serveOne newID s (connect_packet tx) =
     (s\<lparr>sv_conns := List.insert newID (sv_conns s)\<rparr>,
      [put_respHeader \<lparr>rh_Action = actionConnect, rh_TxID = tx\<rparr> @ put_u64 newID], None)"
  using get_put_reqHeader [of _ "[]"] by (simp add: serveOne_def respond_def server_newConn_def)

lemma serve_announce:
  assumes "ar_ok req" "cid \<in> set (sv_conns s)" "map_of (sv_t s) (ar_InfoHash req) = Some tor"
  shows "serveOne i s (announce_packet cid tx req) =
     (s, [put_respHeader \<lparr>rh_Action = actionAnnounce, rh_TxID = tx\<rparr> @
          put_announceFixed \<lparr>af_Interval = 900, af_Leechers = si_Leechers (st_stats tor), af_Seeders = si_Seeders (st_stats tor)\<rparr> @
          concat (map put_portIP (st_Peers tor))], None)"
  using assms get_put_AnnounceReq [OF assms(1), of "[]"] by (simp add: serveOne_def respond_def checkConnectionID_def codec_simps)

lemma length_put_respHeader [simp]: "length (put_respHeader h) = 8"
  by (simp add: put_respHeader_def)

lemma length_put_announceFixed [simp]: "length (put_announceFixed f) = 12"
  by (simp add: put_announceFixed_def)

lemma readResponse_packet:
  assumes "u_timeouts t < 8" "u_script t = (d, RPacket p) # sc"
  shows "readResponse t h = (t\<lparr>u_script := sc, u_now := u_now t + d\<rparr>, Some (checkRespHeader (take bufSize p) h))"
  using assms by (simp add: readResponse_def timeoutTime_def second_def)

lemma request_connect_ok:
  assumes "u_write t" "u_timeouts t < 8" "u_script t = (d, RPacket p) # sc"
  shows "request_connect t h b =
    (t\<lparr>u_sent := u_sent t @ [b], u_script := sc, u_now := u_now t + d\<rparr>, checkRespHeader (take bufSize p) h)"
  using assms by (subst request_connect.simps) (simp add: writeRequest_def readResponse_packet)

lemma checkRespHeader_connect:
  "checkRespHeader (take bufSize (put_respHeader \<lparr>rh_Action = actionConnect, rh_TxID = tx\<rparr> @ put_u64 cid))
     \<lparr>rh_Action = actionConnect, rh_TxID = tx\<rparr> = Inr (put_u64 cid)"
  by (simp add: checkRespHeader_def bufSize_def codec_simps Let_def)

lemma connect_ok:
  assumes "\<not> isConnected t" "u_dial t" "u_write t" "u_timeouts t < 8" "u_rand t = tx # xs"
    "u_script t = (d, RPacket (put_respHeader \<lparr>rh_Action = actionConnect, rh_TxID = tx\<rparr> @ put_u64 cid)) # sc"
  shows "connect t = (t\<lparr>u_rand := xs, u_sent := u_sent t @ [connect_packet tx], u_script := sc, u_now := u_now t + d,
    u_connID := cid, u_last := Some (u_now t + d)\<rparr>, None)"
proof -
  have "get_u64 (put_u64 cid) = Some (cid, [])" using u64.dec_enc [of cid "[]"] by simp
  then show ?thesis
    using assms by (simp add: connect_def rand_Int31_def request_connect_ok checkRespHeader_connect
      del: take_append)
qed

lemma request_ok:
  assumes "isConnected t" "u_write t" "u_timeouts t < 8" "u_script t = (d, RPacket p) # sc"
  shows "request t h b = (t\<lparr>u_sent := u_sent t @ [b], u_script := sc, u_now := u_now t + d\<rparr>, checkRespHeader (take bufSize p) h)"
  using assms by (subst request.simps) (simp add: connect_def writeRequest_def readResponse_packet)

text \<open>
  C30. A UDP announce against the package's server. Whatever the server's database and the two
  random transaction ids, when the client's two requests are answered by the server, the announce
  returns the torrent's numbers and its first 39 peers (what fits the client's buffer of 256 bytes)
  in order, and the client has sent exactly the connect and the announce packet.
\<close>

theorem udp_announce_agrees:
  assumes "ar_ok req" "map_of (sv_t s) (ar_InfoHash req) = Some tor"
    "u_last t = None" "u_dial t" "u_write t" "u_timeouts t < 8" "u_rand t = tx1 # tx2 # xs"
    "serveOne cid s (connect_packet tx1) = (s1, [p1], e1)"
    "serveOne cid2 s1 (announce_packet cid tx2 req) = (s2, [p2], e2)"
    "u_script t = (d1, RPacket p1) # (d2, RPacket p2) # sc"
  shows "\<exists>t'. udp_announce t req = (t', Inr \<lparr>rs_Interval = 900, rs_Leechers = si_Leechers (st_stats tor),
      rs_Seeders = si_Seeders (st_stats tor), rs_Peers = map peer_of (take 39 (st_Peers tor)), rs_MinInterval = 0\<rparr>) \<and>
    u_sent t' = u_sent t @ [connect_packet tx1, announce_packet cid tx2 req] \<and> u_connID t' = cid \<and>
    u_timeouts t' = u_timeouts t"
proof -
  have p1: "p1 = put_respHeader \<lparr>rh_Action = actionConnect, rh_TxID = tx1\<rparr> @ put_u64 cid"
    and s1: "s1 = s\<lparr>sv_conns := List.insert cid (sv_conns s)\<rparr>"
    using assms(8) by (auto simp: serve_connect)
  let ?f = "put_announceFixed \<lparr>af_Interval = 900, af_Leechers = si_Leechers (st_stats tor), af_Seeders = si_Seeders (st_stats tor)\<rparr>"
  let ?h = "\<lparr>rh_Action = actionAnnounce, rh_TxID = tx2\<rparr>"
  have p2: "p2 = put_respHeader ?h @ ?f @ concat (map put_portIP (st_Peers tor))"
    using assms(9) serve_announce [OF assms(1), of cid s1 tor cid2 tx2] assms(2) s1 by auto
  let ?t0 = "t\<lparr>u_rand := tx2 # xs, u_sent := u_sent t @ [connect_packet tx1], u_script := (d2, RPacket p2) # sc,
    u_now := u_now t + d1, u_connID := cid, u_last := Some (u_now t + d1)\<rparr>"
  have c: "connect t = (?t0, None)" using assms p1 by (intro connect_ok) (simp_all add: isConnected_def)
  have tk: "take bufSize p2 = put_respHeader ?h @ ?f @ take 236 (concat (map put_portIP (st_Peers tor)))"
    by (simp add: p2 bufSize_def)
  have chk: "checkRespHeader (take bufSize p2) ?h = Inr (?f @ take 236 (concat (map put_portIP (st_Peers tor))))"
    unfolding tk by (simp add: checkRespHeader_def codec_simps Let_def)
  have r: "request (?t0\<lparr>u_rand := xs\<rparr>) ?h (announce_packet cid tx2 req) =
    (?t0\<lparr>u_rand := xs, u_sent := u_sent ?t0 @ [announce_packet cid tx2 req], u_script := sc, u_now := u_now ?t0 + d2\<rparr>,
     checkRespHeader (take bufSize p2) ?h)"
    using assms(5,6) by (subst request_ok) (simp_all add: isConnected_def second_def)
  have "cheap_peers (take 236 (concat (map put_portIP (st_Peers tor)))) = map peer_of (take 39 (st_Peers tor))"
    using cheap_peers_take [of 2 39 "st_Peers tor"] by simp
  then show ?thesis
    using c r chk by (simp add: udp_announce_def rand_Int31_def codec_simps)
qed

definition ex_req :: AnnounceReq where
  "ex_req = \<lparr>ar_InfoHash = replicate 20 7, ar_PeerID = replicate 20 1, ar_Downloaded = 0, ar_Left = 5, ar_Uploaded = 0,
     ar_Event = 0, ar_IP = 0, ar_Key = 0, ar_Numwant = 200, ar_Port = 6881\<rparr>"

definition ex_torrent :: storrent where
  "ex_torrent = \<lparr>st_stats = \<lparr>si_Seeders = 3, si_Completed = 9, si_Leechers = 2\<rparr>,
     st_Peers = [\<lparr>pi_IP = 0x0A000001, pi_port = 80\<rparr>]\<rparr>"

definition ex_client :: "(int \<times> read_ev) list \<Rightarrow> udp" where
  "ex_client sc = \<lparr>u_connID = 0, u_last = None, u_timeouts = 0, u_now = 0, u_script = sc, u_sent = [],
     u_rand = [11, 12, 13], u_dial = True, u_write = True\<rparr>"

theorem udp_announce_agrees_witness:
  "\<exists>t' p1 p2. snd (snd (serveOne 77 \<lparr>sv_conns = [], sv_t = [(replicate 20 7, ex_torrent)]\<rparr> (connect_packet 11))) = None \<and>
     udp_announce (ex_client [(0, RPacket p1), (0, RPacket p2)]) ex_req =
       (t', Inr \<lparr>rs_Interval = 900, rs_Leechers = 2, rs_Seeders = 3,
                 rs_Peers = [\<lparr>pr_ID = None, pr_IP = put_u32 0x0A000001, pr_Port = 80\<rparr>], rs_MinInterval = 0\<rparr>)"
proof -
  let ?s = "\<lparr>sv_conns = [], sv_t = [(replicate 20 7, ex_torrent)]\<rparr>"
  obtain s1 p1 where c: "serveOne 77 ?s (connect_packet 11) = (s1, [p1], None)" "s1 = ?s\<lparr>sv_conns := [77]\<rparr>"
    by (simp add: serve_connect)
  have a: "ar_ok ex_req" by (simp add: ar_ok_def ex_req_def)
  obtain p2 where d: "serveOne 78 s1 (announce_packet 77 12 ex_req) = (s1, [p2], None)"
    using serve_announce [OF a, of 77 s1 ex_torrent 78 12] c(2) by (simp add: ex_req_def)
  have "map_of (sv_t ?s) (ar_InfoHash ex_req) = Some ex_torrent" by (simp add: ex_req_def)
  from udp_announce_agrees [OF a this _ _ _ _ _ c(1) d, of "ex_client [(0, RPacket p1), (0, RPacket p2)]" "[13]" 0 0 "[]"]
  show ?thesis using c(1) by (auto simp: ex_client_def ex_torrent_def peer_of_def)
qed

section \<open>Timeouts\<close>

lemma request_timeouts: "request t h b = (t', r) \<Longrightarrow> counts t t'"
proof (induction t h b rule: request.induct)
  case (1 t h b)
  obtain t0 e0 where c: "connect t = (t0, e0)" by fastforce
  obtain t1 e where w: "writeRequest t0 b = (t1, e)" by fastforce
  obtain t2 x where r: "readResponse t1 h = (t2, x)" by fastforce
  note k0 = connect_timeouts [OF c]
  note k1 = counts_trans [OF k0 writeRequest_counts [OF w]]
  note k2 = counts_trans [OF k1 readResponse_counts [OF r]]
  show ?case
  proof (cases "e0 = None \<and> e = None \<and> x = None")
    case True
    then have "counts t2 t'"
      using 1(1) [OF c [symmetric] _ w [symmetric]] r 1(2) w c by (simp add: request.simps [of t])
    then show ?thesis by (rule counts_trans [OF k2])
  next
    case False
    then show ?thesis using 1(2) w r c k0 k1 k2 by (auto simp: request.simps [of t] split: option.splits)
  qed
qed

lemma exhausted_read: "8 \<le> u_timeouts t \<Longrightarrow> readResponse t h = (t, Some (Inl WaitedTooLong))"
  by (simp add: readResponse_def timeoutTime_def)

lemma exhausted_request: "8 \<le> u_timeouts t \<Longrightarrow> \<exists>e. snd (request t h b) = Inl e"
proof -
  assume t: "8 \<le> u_timeouts t"
  obtain t0 e0 where c: "connect t = (t0, e0)" by fastforce
  obtain t1 e where w: "writeRequest t0 b = (t1, e)" by fastforce
  have "8 \<le> u_timeouts t1" using t connect_timeouts [OF c] writeRequest_keeps [OF w] by (simp add: counts_def)
  then show ?thesis using c w by (subst request.simps) (auto simp: exhausted_read split: option.splits)
qed

text \<open>
  C37. A request always returns, after at most eight timeouts; and the finding on
  \<open>consecutiveTimeouts\<close>, which nothing resets: a client that has seen eight timeouts in its
  lifetime never gets an answer again. Whatever the tracker sends, every announce fails.
\<close>

theorem udp_timeouts_exhaust:
  "u_timeouts t \<le> u_timeouts (fst (udp_announce t req)) \<and>
   u_timeouts (fst (udp_announce t req)) \<le> max 8 (u_timeouts t) \<and>
   (8 \<le> u_timeouts t \<longrightarrow> (\<exists>e. snd (udp_announce t req) = Inl e))"
proof -
  obtain t0 e0 where c: "connect t = (t0, e0)" by fastforce
  obtain t1 x where r: "rand_Int31 t0 = (t1, x)" by fastforce
  have k: "counts t t1" using connect_timeouts [OF c] r by (auto simp: counts_def rand_Int31_def split: list.splits)
  obtain t2 y where q: "request t1 \<lparr>rh_Action = actionAnnounce, rh_TxID = x\<rparr>
    (announce_packet (u_connID t1) x req) = (t2, y)" by fastforce
  have "counts t t2" by (rule counts_trans [OF k request_timeouts [OF q]])
  moreover have "\<exists>e. y = Inl e" if "8 \<le> u_timeouts t"
  proof -
    have "8 \<le> u_timeouts t1" using k that by (simp add: counts_def)
    from exhausted_request [OF this] q show ?thesis by (metis snd_conv)
  qed
  ultimately show ?thesis
    using c r q connect_timeouts [OF c]
    by (auto simp: udp_announce_def counts_def split: option.splits sum.splits)
qed

theorem udp_timeouts_exhaust_witness:
  "\<exists>e. snd (udp_announce ((ex_client [])\<lparr>u_timeouts := 8\<rparr>) ex_req) = Inl e"
  using udp_timeouts_exhaust [of "(ex_client [])\<lparr>u_timeouts := 8\<rparr>" ex_req] by simp

text \<open>
  The finding on retried requests (\<open>request\<close>): the request is serialised once, before the
  loop that reconnects. After a timeout of more than a minute the client obtains a new connection
  id and then sends the old bytes again, with the old id, which the tracker refuses.
\<close>

lemma request_stale_connID:
  assumes "isConnected t" "u_write t" "u_dial t" "u_timeouts t < 7" "u_rand t = tx # xs"
    "u_last t = Some l" "60 * second \<le> u_now t + d1 - l"
    "u_script t = (d1, RTimeout) #
       (d2, RPacket (put_respHeader \<lparr>rh_Action = actionConnect, rh_TxID = tx\<rparr> @ put_u64 cid)) # (d3, RPacket p) # sc"
  shows "u_connID (fst (request t h (announce_packet (u_connID t) tx0 req))) = cid \<and>
    u_sent (fst (request t h (announce_packet (u_connID t) tx0 req))) =
      u_sent t @ [announce_packet (u_connID t) tx0 req, connect_packet tx, announce_packet (u_connID t) tx0 req]"
proof -
  let ?b = "announce_packet (u_connID t) tx0 req"
  define sc1 where "sc1 = (d3, RPacket p) # sc"
  define t1 where "t1 = t\<lparr>u_sent := u_sent t @ [?b],
    u_script := (d2, RPacket (put_respHeader \<lparr>rh_Action = actionConnect, rh_TxID = tx\<rparr> @ put_u64 cid)) # sc1,
    u_now := u_now t + d1, u_timeouts := Suc (u_timeouts t)\<rparr>"
  have step: "request t h ?b = request t1 h ?b"
    using assms(1,2,4,8)
    by (subst request.simps)
      (simp add: connect_def writeRequest_def readResponse_def timeoutTime_def second_def t1_def sc1_def)
  have "\<not> isConnected t1" using assms(6,7) by (simp add: isConnected_def t1_def)
  then have c: "connect t1 = (t1\<lparr>u_rand := xs, u_sent := u_sent t1 @ [connect_packet tx], u_script := sc1,
    u_now := u_now t1 + d2, u_connID := cid, u_last := Some (u_now t1 + d2)\<rparr>, None)"
    using assms by (intro connect_ok) (simp_all add: t1_def)
  have w: "u_write t1" "u_timeouts t1 < 8" using assms by (simp_all add: t1_def)
  show ?thesis
    unfolding step using w
    by (subst request.simps, subst (2) request.simps) (simp add: c writeRequest_def readResponse_packet sc1_def t1_def [symmetric],
      simp add: t1_def)
qed

lemma request_stale_connID_witness:
  "u_sent (fst (request
     ((ex_client [(61 * second, RTimeout), (0, RPacket (put_respHeader \<lparr>rh_Action = actionConnect, rh_TxID = 11\<rparr> @ put_u64 78)),
        (0, RPacket [])])\<lparr>u_last := Some 0, u_connID := 77\<rparr>)
     \<lparr>rh_Action = actionAnnounce, rh_TxID = 5\<rparr> (announce_packet 77 5 ex_req))) =
   [announce_packet 77 5 ex_req, connect_packet 11, announce_packet 77 5 ex_req]"
  using request_stale_connID
    [of "(ex_client [(61 * second, RTimeout), (0, RPacket (put_respHeader \<lparr>rh_Action = actionConnect, rh_TxID = 11\<rparr> @ put_u64 78)),
        (0, RPacket [])])\<lparr>u_last := Some 0, u_connID := 77\<rparr>" 11 "[12, 13]" 0 "61 * second" 0 78 0 "[]" "[]"]
  by (simp add: ex_client_def isConnected_def second_def)

end
