(* ===== verification/Conn.thy ===== *)
theory Conn
  imports Pieces Storage Wire Metadata
begin

text \<open>
  A peer connection (\<open>torrent/conn.go\<close>): the worker goroutine that reads messages of the peer,
  obeys the Torrent, requests, uploads and receives blocks and exchanges metadata.

  The state of a connection is the record \<open>conn\<close>. What the connection shares with the rest of
  the torrent (the request bookkeeping, the metadata buffers, the storage) are fields of it too:
  the code guards them with locks, so each access is one step. Maps used as sets are lists without
  duplicates, in the order the source ranges over them. Every operation gives back the state also
  when it fails, because the deferred \<open>close\<close> still uses it.

  The environment is explicit: which writes to the peer fail (\<open>c_net\<close>), the coins flipped, and
  what happens while \<open>sendMsgToTorrent\<close> waits for a full channel (\<open>c_script\<close>). The reader
  goroutine's steps (\<open>readPeerMsg\<close>) interleave with the others between them. Counters, logging,
  timers and the DHT ping have no effect on the rest.
\<close>

section \<open>Computations\<close>

datatype conn_err =
    CEof | CWrite | CDupHave | CBfTwice | CBfLength | CUnknownKind
  | CNoExtHandshake | CMetadataSize | CMetadata md_error | CExt ext_error | CExtType | CExtUnsupported
  | CNoInfoRequest | CRequestLen | CNoSuchPieceHere | CRequestRange
  | CNoInfoPiece | CBadPiece | CLargeOffset

type_synonym ('s, 'a) act = "'s \<Rightarrow> 's \<times> (conn_err, 'a) outcome"

definition ret :: "'a \<Rightarrow> ('s, 'a) act" where "ret a s = (s, Return a)"
definition fail :: "conn_err \<Rightarrow> ('s, 'a) act" where "fail e s = (s, Error e)"
definition crash :: "panic \<Rightarrow> ('s, 'a) act" where "crash p s = (s, Panic p)"
definition modify :: "('s \<Rightarrow> 's) \<Rightarrow> ('s, unit) act" where "modify f s = (f s, Return ())"

definition andthen :: "('s, 'a) act \<Rightarrow> ('a \<Rightarrow> ('s, 'b) act) \<Rightarrow> ('s, 'b) act" where
  "andthen m f s =
     (case m s of
        (s', Return a) \<Rightarrow> f a s'
      | (s', Error e) \<Rightarrow> (s', Error e)
      | (s', Panic p) \<Rightarrow> (s', Panic p))"

abbreviation seq :: "('s, unit) act \<Rightarrow> ('s, 'b) act \<Rightarrow> ('s, 'b) act" where
  "seq m f \<equiv> andthen m (\<lambda>_. f)"

definition get_state :: "('s \<Rightarrow> ('s, 'a) act) \<Rightarrow> ('s, 'a) act" where
  "get_state f s = f s s"

definition lift_out :: "('e, 'a) outcome \<Rightarrow> ('s, 'a) act" where
  "lift_out x s = (case x of Return a \<Rightarrow> (s, Return a) | Panic p \<Rightarrow> (s, Panic p) | Error _ \<Rightarrow> (s, Error CEof))"

fun foreach :: "'a list \<Rightarrow> ('a \<Rightarrow> ('s, unit) act) \<Rightarrow> ('s, unit) act" where
  "foreach [] f = ret ()"
| "foreach (x # xs) f = seq (f x) (foreach xs f)"

section \<open>The connection\<close>

text \<open>What the Torrent sends to a connection, and the other way round.\<close>

datatype 'bm torrent_cmd = TMsg Msg | TBitmap 'bm | TRequestsAvailable | THaveInfo | TDrop

datatype 'bm conn_msg =
    ToMsg Msg | ToBitmap 'bm | ToDownloaded block | ToUploaded block | ToMetadata int
  | ToDiscarded | ToDropped | ToNil

text \<open>What happens while a message to the Torrent waits: it is taken, a command is taken, the torrent closes, the keep-alive timer fires.\<close>

datatype 'bm wait_ev = Taken | Command "'bm torrent_cmd" | TorrentClosed | KeepAliveTimer

record 'bm conn =
  c_state :: conn_state
  c_exts :: "extensions option"
  c_lastMsg :: "'bm conn_msg"
  c_ban :: bool
  peerReqs :: "block list"
  onFlightReqs :: "block list"
  c_haveInfo :: bool
  numMetadataRespSent :: int
  metadataTicker :: bool
  metadataRejectedBlocks :: "int list"
  metadataPendingBlocks :: "int list"
  metadataSize :: int
  c_reserved :: bytes
  c_peerBf :: 'bm
  c_myBf :: 'bm
  sh_pieces :: "'bm pieces"
  sh_uts :: utMetadatas
  sh_storage :: storage
  c_out :: "Msg list"
  c_sent :: "'bm conn_msg list"
  c_script :: "'bm wait_ev list"
  c_net :: "bool list"
  c_coins :: "bool list"

text \<open>What does not change while a connection lives: the libraries and the torrent's constants.\<close>

record 'bm cfg =
  k_bm :: "'bm bitmap_ops"
  k_sort :: "(nat \<Rightarrow> nat \<Rightarrow> bool) \<Rightarrow> nat list \<Rightarrow> nat list"
  k_coin :: "nat \<Rightarrow> nat \<Rightarrow> bool"
  k_shuffle :: "int list \<Rightarrow> int list"
  k_env :: os_env
  k_dir :: bytes
  k_info :: info_dict
  k_length :: int
  k_blockSize :: int
  k_reserved :: bytes
  k_reqq :: nat
  k_ip :: ip

abbreviation maxOnFlight :: nat where "maxOnFlight \<equiv> 20"

abbreviation numPieces :: "'bm cfg \<Rightarrow> int" where "numPieces k \<equiv> NumPieces (k_info k)"

definition newConn :: "'bm bitmap_ops \<Rightarrow> bytes \<Rightarrow> 'bm pieces \<Rightarrow> utMetadatas \<Rightarrow> storage \<Rightarrow> 'bm conn" where
  "newConn B reserved ps uts st =
     \<lparr>c_state = newConnState, c_exts = None, c_lastMsg = ToNil, c_ban = False, peerReqs = [], onFlightReqs = [],
      c_haveInfo = False, numMetadataRespSent = 0, metadataTicker = False, metadataRejectedBlocks = [],
      metadataPendingBlocks = [], metadataSize = 0, c_reserved = reserved, c_peerBf = bm_zero B, c_myBf = bm_zero B,
      sh_pieces = ps, sh_uts = uts, sh_storage = st, c_out = [], c_sent = [], c_script = [], c_net = [], c_coins = []\<rparr>"

section \<open>Messages and blocks\<close>

definition reqMsg :: "block \<Rightarrow> Msg" where
  "reqMsg b = new_Msg\<lparr>Kind := RequestKind, Index := of_int (bl_pc b), Begin := of_int (bl_off b), Len := of_int (bl_len b)\<rparr>"

definition msgRequest :: "int \<Rightarrow> 'bm piece \<Rightarrow> int \<Rightarrow> Msg" where
  "msgRequest bs p off =
     new_Msg\<lparr>Kind := RequestKind, Index := of_int (pc_index p), Begin := of_int off, Len := of_int (blockLen bs p off)\<rparr>"

lemma msgRequest_block: "msgRequest bs p off = reqMsg (toBlock bs p off)"
  by (simp add: msgRequest_def reqMsg_def toBlock_def)

definition cancelMsg :: "block \<Rightarrow> Msg" where
  "cancelMsg b = new_Msg\<lparr>Kind := Cancel, Index := of_int (bl_pc b), Begin := of_int (bl_off b), Len := of_int (bl_len b)\<rparr>"

definition reqMsgToBlock :: "Msg \<Rightarrow> block" where
  "reqMsgToBlock msg = \<lparr>bl_pc = uint (Index msg), bl_off = uint (Begin msg), bl_len = uint (Len msg)\<rparr>"

definition flipCoin :: "('bm conn, bool) act" where
  "flipCoin c = (case c_coins c of [] \<Rightarrow> (c, Return False) | b # bs \<Rightarrow> (c\<lparr>c_coins := bs\<rparr>, Return b))"

text \<open>Encoding can panic; a write fails when the environment says so.\<close>

definition sendMsgToPeer :: "Msg \<Rightarrow> ('bm conn, unit) act" where
  "sendMsgToPeer msg c =
     (case msg_Encode msg of
        Panic p \<Rightarrow> (c, Panic p)
      | _ \<Rightarrow>
          (case c_net c of
             False # ns \<Rightarrow> (c\<lparr>c_net := ns\<rparr>, Error CWrite)
           | ns \<Rightarrow> (c\<lparr>c_net := tl ns, c_out := c_out c @ [msg]\<rparr>, Return ())))"

definition sendKeepAlive :: "('bm conn, unit) act" where
  "sendKeepAlive = sendMsgToPeer (new_Msg\<lparr>Kind := KeepAlive\<rparr>)"

definition amSeeding :: "'bm cfg \<Rightarrow> 'bm conn \<Rightarrow> bool" where
  "amSeeding k c \<longleftrightarrow> c_haveInfo c \<and> bm_len (k_bm k) (c_myBf c) = numPieces k"

definition conn_peerSeeding :: "'bm cfg \<Rightarrow> ('bm conn, bool) act" where
  "conn_peerSeeding k c =
     (if \<not> c_haveInfo c then (c, Panic (PanicMsg ''require info''))
      else (c, Return (bm_len (k_bm k) (c_peerBf c) = numPieces k)))"

definition notUseful :: "'bm cfg \<Rightarrow> 'bm conn \<Rightarrow> bool" where
  "notUseful k c \<longleftrightarrow> c_haveInfo c \<and> bm_len (k_bm k) (c_peerBf c) = numPieces k \<and> amSeeding k c"

section \<open>Requesting blocks\<close>

definition wantBlocks :: "'bm cfg \<Rightarrow> 'bm conn \<Rightarrow> bool" where
  "wantBlocks k c \<longleftrightarrow> \<not> amSeeding k c \<and> c_haveInfo c \<and> canDownload (c_state c) \<and>
     bm_len (k_bm k) (c_peerBf c) > 0 \<and> length (onFlightReqs c) < maxOnFlight div 2"

definition zero_block :: block where "zero_block = \<lparr>bl_pc = 0, bl_off = 0, bl_len = 0\<rparr>"

definition sendRequest :: "block \<Rightarrow> ('bm conn, unit) act" where
  "sendRequest req c =
     (if req \<in> set (onFlightReqs c) then (c, Return ())
      else sendMsgToPeer (reqMsg req) (c\<lparr>onFlightReqs := onFlightReqs c @ [req]\<rparr>))"

definition maybeSendRequests :: "'bm cfg \<Rightarrow> ('bm conn, unit) act" where
  "maybeSendRequests k c =
     (if \<not> wantBlocks k c then (c, Return ())
      else if maxOnFlight - length (onFlightReqs c) = 0 then (c, Panic (PanicMsg ''on flight queue is full''))
      else case fillRequests (k_bm k) (k_sort k) (k_coin k) (k_blockSize k) (sh_pieces c) (c_peerBf c)
                  (replicate (maxOnFlight - length (onFlightReqs c)) zero_block) of
        Panic p \<Rightarrow> (c, Panic p)
      | Error _ \<Rightarrow> (c, Return ())
      | Return (ps, requests, n) \<Rightarrow>
          let c' = c\<lparr>sh_pieces := ps\<rparr>
          in if n = 0
             then if requests ! 0 \<noteq> zero_block then (c', Panic (PanicMsg ''send requests'')) else (c', Return ())
             else foreach (take n requests) sendRequest c')"

text \<open>\<open>tell\<close> is \<open>sendMsgToTorrent\<close>.\<close>

definition discardBlocks :: "('bm conn_msg \<Rightarrow> ('bm conn, unit) act) \<Rightarrow> 'bm cfg \<Rightarrow> bool \<Rightarrow> bool \<Rightarrow> ('bm conn, unit) act" where
  "discardBlocks tell k notifyTorrent sendCancels c =
     (if onFlightReqs c = [] then (c, Return ())
      else seq (if sendCancels then foreach (onFlightReqs c) (\<lambda>r. sendMsgToPeer (cancelMsg r)) else ret ())
           (\<lambda>c1. case discardRequests (k_bm k) (sh_pieces c1) (onFlightReqs c) of
              Panic p \<Rightarrow> (c1, Panic p)
            | Error _ \<Rightarrow> (c1, Return ())
            | Return ps \<Rightarrow>
                (if notifyTorrent then tell ToDiscarded else ret ()) (c1\<lparr>sh_pieces := ps, onFlightReqs := []\<rparr>)) c)"

section \<open>Metadata\<close>

definition extensionMsg :: "extensions option \<Rightarrow> bytes \<Rightarrow> ext_msg \<Rightarrow> Msg option" where
  "extensionMsg exts extname v =
     (case exts of
        None \<Rightarrow> None
      | Some es \<Rightarrow>
          (case map_of es extname of
             None \<Rightarrow> None
           | Some i \<Rightarrow> Some (new_Msg\<lparr>Kind := Extended, ExtendedID := i, ExtendedMsg := v\<rparr>)))"

definition requestPiece :: "int \<Rightarrow> ('bm conn, unit) act" where
  "requestPiece piece c =
     (case extensionMsg (c_exts c) ExtMetadataName (MetadataExt (md_zero\<lparr>md_Kind := MetadataReqID, md_Piece := piece\<rparr>)) of
        None \<Rightarrow> (c, Return ())
      | Some msg \<Rightarrow>
          if piece \<in> set (metadataPendingBlocks c) then (c, Return ())
          else sendMsgToPeer msg (c\<lparr>metadataPendingBlocks := metadataPendingBlocks c @ [piece]\<rparr>))"

definition requestMetadata :: "'bm cfg \<Rightarrow> ('bm conn, unit) act" where
  "requestMetadata k c =
     (if uts_correct (sh_uts c) \<noteq> None \<or> c_haveInfo c then (c, Return ())
      else if metadataSize c = 0 then (c, Return ())
      else case c_exts c of
        None \<Rightarrow> (c, Return ())
      | Some exts \<Rightarrow>
          if map_of exts ExtMetadataName = None then (c, Return ())
          else let toRequest = 5 - int (length (metadataPendingBlocks c))
               in if toRequest \<le> 0 then (c, Return ())
                  else case uts_fillRequest (k_shuffle k) (sh_uts c) (metadataSize c) toRequest (metadataRejectedBlocks c) of
                    Panic p \<Rightarrow> (c, Panic p)
                  | Error _ \<Rightarrow> (c, Return ())
                  | Return wanted \<Rightarrow> foreach wanted requestPiece c)"

definition onExtHandshake :: "'bm cfg \<Rightarrow> ExtHandshakeDict \<Rightarrow> ('bm conn, unit) act" where
  "onExtHandshake k d c =
     (case Extensions d of
        Panic p \<Rightarrow> (c, Panic p)
      | Error e \<Rightarrow> (c\<lparr>c_exts := None\<rparr>, Error (CExt e))
      | Return exts \<Rightarrow>
          let c1 = c\<lparr>c_exts := Some exts\<rparr>
          in if map_of exts ExtMetadataName = None then (c1, Return ())
             else (case MetadataSize d of
                     (msize, False) \<Rightarrow> (c1, Return ())
                   | (msize, True) \<Rightarrow>
                       let c2 = c1\<lparr>metadataSize := msize\<rparr>
                       in (case uts_add (sh_uts c2) msize of
                             Panic p \<Rightarrow> (c2, Panic p)
                           | Error _ \<Rightarrow> (c2, Return ())
                           | Return (uts, True) \<Rightarrow> requestMetadata k (c2\<lparr>sh_uts := uts\<rparr>)
                           | Return (uts, False) \<Rightarrow> (c2\<lparr>sh_uts := uts, c_ban := True\<rparr>, Error CEof))))"

definition onMetadataData :: "('bm conn_msg \<Rightarrow> ('bm conn, unit) act) \<Rightarrow> 'bm cfg \<Rightarrow> MetadataExtMsg \<Rightarrow> ('bm conn, unit) act" where
  "onMetadataData tell k v c =
     (if md_TotalSz v \<noteq> metadataSize c then (c, Error CMetadataSize)
      else case uts_writeBlock (sh_uts c) (case md_Data v of None \<Rightarrow> [] | Some d \<Rightarrow> d) (md_Piece v) (md_TotalSz v) (k_ip k) of
        (uts, Panic p) \<Rightarrow> (c\<lparr>sh_uts := uts\<rparr>, Panic p)
      | (uts, Error e) \<Rightarrow> (c\<lparr>sh_uts := uts\<rparr>, Error (CMetadata e))
      | (uts, Return completed) \<Rightarrow>
          let c1 = c\<lparr>sh_uts := uts, metadataPendingBlocks := removeAll (md_Piece v) (metadataPendingBlocks c)\<rparr>
          in if completed then tell (ToMetadata (metadataSize c1)) c1 else requestMetadata k c1)"

text \<open>The error of \<open>sendMsgToPeer\<close> is assigned to a shadowing variable and lost.\<close>

definition swallow :: "('s, unit) act \<Rightarrow> ('s, unit) act" where
  "swallow m s = (case m s of (s', Error _) \<Rightarrow> (s', Return ()) | r \<Rightarrow> r)"

definition onMetadataReq :: "MetadataExtMsg \<Rightarrow> ('bm conn, unit) act" where
  "onMetadataReq v c =
     (let ut = uts_correct (sh_uts c);
          reply = (\<lambda>e c. case extensionMsg (c_exts c) ExtMetadataName (MetadataExt e) of
                     None \<Rightarrow> (c, Error CExtUnsupported)
                   | Some m \<Rightarrow> swallow (sendMsgToPeer m) c);
          reject = reply (md_zero\<lparr>md_Kind := MetadataRejID, md_Piece := md_Piece v\<rparr>)
      in if \<not> c_haveInfo c then reject c
         else case ut of
           None \<Rightarrow> (c, Panic NilDereference)
         | Some u \<Rightarrow>
             if numMetadataRespSent c > 3 * ut_numPieces u \<or> md_Piece v \<ge> ut_numPieces u then reject c
             else (case uts_readBlock (sh_uts c) (replicate (nat (metadataPieceLength u (md_Piece v))) 0) (md_Piece v) of
                     (b, Panic p) \<Rightarrow> (c, Panic p)
                   | (b, _) \<Rightarrow>
                       reply \<lparr>md_Kind = MetadataDataID, md_Piece = md_Piece v,
                              md_TotalSz = int (length (infoBytes u)), md_Data = Some b\<rparr>
                         (c\<lparr>numMetadataRespSent := numMetadataRespSent c + 1\<rparr>)))"

text \<open>
  The test of the reserved bits assigns an error and goes on; the error is returned only by the
  branches that assign none.
\<close>

definition onExtended :: "('bm conn_msg \<Rightarrow> ('bm conn, unit) act) \<Rightarrow> 'bm cfg \<Rightarrow> Msg \<Rightarrow> ('bm conn, unit) act" where
  "onExtended tell k msg c =
     (let err = (if \<not> SupportExtended (k_reserved k) \<or> \<not> SupportExtended (c_reserved c) then fail CExtUnsupported else ret ())
      in case ExtendedMsg msg of
        ExtHandshake d \<Rightarrow> onExtHandshake k d c
      | MetadataExt v \<Rightarrow>
          if c_exts c = None then (c, Error CNoExtHandshake)
          else if md_Kind v = MetadataDataID then onMetadataData tell k v c
          else if md_Kind v = MetadataRejID
          then err (c\<lparr>metadataRejectedBlocks := metadataRejectedBlocks c @ [md_Piece v],
                     metadataPendingBlocks := removeAll (md_Piece v) (metadataPendingBlocks c), metadataTicker := True\<rparr>)
          else if md_Kind v = MetadataReqID then seq (onMetadataReq v) err c
          else err c
      | _ \<Rightarrow> (c, Error CExtType))"

section \<open>Commands of the Torrent\<close>

fun set_pieces :: "bytes \<Rightarrow> int list \<Rightarrow> (unit, bytes) outcome" where
  "set_pieces bf [] = Return bf"
| "set_pieces bf (i # is) = obind (SetPiece bf i) (\<lambda>bf'. set_pieces bf' is)"

definition conn_bitfield :: "'bm cfg \<Rightarrow> 'bm \<Rightarrow> (unit, bytes) outcome" where
  "conn_bitfield k bm = set_pieces (NewBitField (numPieces k)) (bm_iter (k_bm k) bm)"

definition conn_bitmap :: "'bm cfg \<Rightarrow> bytes \<Rightarrow> ('bm conn, 'bm) act" where
  "conn_bitmap k bf c =
     (if c_haveInfo c \<and> \<not> bf_Valid bf (numPieces k) then (c\<lparr>c_ban := True\<rparr>, Error CBfLength)
      else (c, Return (foldl (\<lambda>bm i. bm_set (k_bm k) bm i True) (bm_zero (k_bm k)) (FilterNotSet bf))))"

text \<open>A deferred \<open>maybeSendRequests\<close>: it runs after an error too, and its result replaces the error.\<close>

definition deferring :: "('s, unit) act \<Rightarrow> ('s, unit) act \<Rightarrow> ('s, unit) act" where
  "deferring m d s = (case m s of (s', Panic p) \<Rightarrow> (fst (d s'), Panic p) | (s', _) \<Rightarrow> d s')"

definition onTorrentHave :: "'bm cfg \<Rightarrow> Msg \<Rightarrow> ('bm conn, unit) act" where
  "onTorrentHave k v c =
     (let i = uint (Index v); c1 = c\<lparr>c_myBf := bm_set (k_bm k) (c_myBf c) i True\<rparr>
      in if notUseful k c1 then (c1, Error CEof)
         else andthen (conn_peerSeeding k) (\<lambda>seeding.
           if seeding then ret ()
           else if bm_get (k_bm k) (c_peerBf c1) i
           then andthen flipCoin (\<lambda>coin. if coin then ret () else sendMsgToPeer v)
           else sendMsgToPeer v) c1)"

definition on_state :: "(conn_state \<Rightarrow> conn_state) \<Rightarrow> ('bm conn, unit) act" where
  "on_state f = modify (\<lambda>c. c\<lparr>c_state := f (c_state c)\<rparr>)"

definition onTorrentMsg :: "('bm conn_msg \<Rightarrow> ('bm conn, unit) act) \<Rightarrow> 'bm cfg \<Rightarrow> 'bm torrent_cmd \<Rightarrow> ('bm conn, unit) act" where
  "onTorrentMsg tell k cmd c =
     (case cmd of
        TMsg v \<Rightarrow>
          if Kind v = PortKind then sendMsgToPeer v c
          else if Kind v = Interested
          then deferring (seq (on_state (\<lambda>s. s\<lparr>amInterested := True\<rparr>)) (sendMsgToPeer v)) (maybeSendRequests k) c
          else if Kind v = NotInterested
          then seq (on_state (\<lambda>s. s\<lparr>amInterested := False\<rparr>)) (seq (discardBlocks tell k True True) (sendMsgToPeer v)) c
          else if Kind v = Choke
          then seq (on_state (\<lambda>s. s\<lparr>amChoking := True\<rparr>)) (seq (modify (\<lambda>c. c\<lparr>peerReqs := []\<rparr>)) (sendMsgToPeer v)) c
          else if Kind v = Unchoke
          then seq (on_state (\<lambda>s. s\<lparr>amChoking := False\<rparr>)) (sendMsgToPeer v) c
          else if Kind v = Have then onTorrentHave k v c
          else if Kind v = Cancel
          then if reqMsgToBlock v \<notin> set (onFlightReqs c) then (c, Return ()) else sendMsgToPeer v c
          else (c, Panic (PanicMsg ''unknown msg type''))
      | TBitmap bm \<Rightarrow>
          let c1 = c\<lparr>c_myBf := bm\<rparr>
          in if notUseful k c1 then (c1, Error CEof)
             else andthen (lift_out (conn_bitfield k bm)) (\<lambda>bf. sendMsgToPeer (new_Msg\<lparr>Kind := BitfieldKind, Bf := bf\<rparr>)) c1
      | TRequestsAvailable \<Rightarrow> if c_haveInfo c then maybeSendRequests k c else requestMetadata k c
      | THaveInfo \<Rightarrow>
          let c1 = c\<lparr>c_haveInfo := True\<rparr>
          in if bm_len (k_bm k) (c_peerBf c1) > 0
             then (case onBitfield (k_bm k) (sh_pieces c1) (c_peerBf c1) of
                     Panic p \<Rightarrow> (c1, Panic p)
                   | Error _ \<Rightarrow> (c1, Return ())
                   | Return ps \<Rightarrow> maybeSendRequests k (c1\<lparr>sh_pieces := ps\<rparr>))
             else maybeSendRequests k c1
      | TDrop \<Rightarrow> (c, Error CEof))"

text \<open>
  \<open>sendMsgToTorrent\<close> waits and meanwhile obeys commands, which may send messages themselves. Each
  of its turns consumes an event of the script, so the fuel \<open>length (c_script c)\<close> is enough
  (\<open>send_enough_fuel\<close>); a script that is used up means that the channel has room.
\<close>

definition deliver :: "'bm conn_msg \<Rightarrow> ('bm conn, unit) act" where
  "deliver e c = (c\<lparr>c_sent := c_sent c @ [e]\<rparr>, Return ())"

primrec send_fuel :: "nat \<Rightarrow> 'bm cfg \<Rightarrow> 'bm conn_msg \<Rightarrow> ('bm conn, unit) act" where
  "send_fuel 0 k e = (\<lambda>c. case c_script c of
      [] \<Rightarrow> deliver e c
    | _ \<Rightarrow> (c, Panic (PanicMsg ''fuel'')))"
| "send_fuel (Suc n) k e = (\<lambda>c.
     case c_script c of
       [] \<Rightarrow> deliver e c
     | ev # evs \<Rightarrow>
         let c1 = c\<lparr>c_script := evs\<rparr>;
             turn = (\<lambda>m. case m c1 of
               (c2, Return _) \<Rightarrow> send_fuel n k e c2
             | (c2, Error err) \<Rightarrow> (c2\<lparr>c_lastMsg := e\<rparr>, Error err)
             | (c2, Panic p) \<Rightarrow> (c2, Panic p))
         in (case ev of
               Taken \<Rightarrow> deliver e c1
             | Command cmd \<Rightarrow> turn (onTorrentMsg (send_fuel n k) k cmd)
             | TorrentClosed \<Rightarrow> (c1\<lparr>c_lastMsg := e\<rparr>, Error CEof)
             | KeepAliveTimer \<Rightarrow> turn sendKeepAlive))"

definition sendMsgToTorrent :: "'bm cfg \<Rightarrow> 'bm conn_msg \<Rightarrow> ('bm conn, unit) act" where
  "sendMsgToTorrent k e c = send_fuel (length (c_script c)) k e c"

section \<open>Uploading\<close>

definition t_readBlock :: "'bm cfg \<Rightarrow> storage \<Rightarrow> nat \<Rightarrow> int \<Rightarrow> int \<Rightarrow> (unit, bytes \<times> ioerr option) outcome" where
  "t_readBlock k st n piece begin =
     ReadBlock (k_env k) (k_dir k) (k_info k) st n (go_int (piece * id_pieceLen (k_info k) + begin))"

definition t_writeBlock :: "'bm cfg \<Rightarrow> storage \<Rightarrow> bytes \<Rightarrow> int \<Rightarrow> int \<Rightarrow> (unit, storage \<times> nat \<times> ioerr option) outcome" where
  "t_writeBlock k st data piece begin =
     WriteBlock (k_env k) (k_dir k) (k_info k) st data (go_int (piece * id_pieceLen (k_info k) + begin))"

text \<open>The data of a piece (\<open>Piece.Data\<close>): the buffer, and whether there was an error.\<close>

definition Data :: "'bm cfg \<Rightarrow> storage \<Rightarrow> 'bm piece \<Rightarrow> (unit, bytes \<times> bool) outcome" where
  "Data k st p =
     (let n = nat (piece_length (k_blockSize k) p)
      in obind (t_readBlock k st n (pc_index p) 0) (\<lambda>(b, e). Return (b @ replicate (n - length b) 0, e \<noteq> None)))"

definition pieceMsg :: "block \<Rightarrow> bytes \<Rightarrow> Msg" where
  "pieceMsg req data = new_Msg\<lparr>Kind := PieceKind, Index := of_int (bl_pc req), Begin := of_int (bl_off req), Block := data\<rparr>"

definition upload_one :: "'bm cfg \<Rightarrow> block \<Rightarrow> ('bm conn, unit) act" where
  "upload_one k req c0 =
     (let c = c0\<lparr>peerReqs := removeAll req (peerReqs c0)\<rparr>
      in if \<not> c_haveInfo c then (c\<lparr>c_ban := True\<rparr>, Error CNoInfoRequest)
         else if \<not> canUpload (c_state c) then (c, Return ())
         else if bl_len req > maxRequestBlockSz then (c\<lparr>c_ban := True\<rparr>, Error CRequestLen)
         else if \<not> bm_get (k_bm k) (c_myBf c) (bl_pc req) then (c, Error CNoSuchPieceHere)
         else case pieceLen (k_info k) (k_length k) (bl_pc req) of
           Panic p \<Rightarrow> (c, Panic p)
         | Error _ \<Rightarrow> (c, Return ())
         | Return plen \<Rightarrow>
             if bl_off req + bl_len req > plen then (c\<lparr>c_ban := True\<rparr>, Error CRequestRange)
             else (case t_readBlock k (sh_storage c) (nat (bl_len req)) (bl_pc req) (bl_off req) of
                     Panic p \<Rightarrow> (c, Panic p)
                   | Error _ \<Rightarrow> (c, Return ())
                   | Return (data, Some e) \<Rightarrow> (c, Return ())
                   | Return (data, None) \<Rightarrow>
                       seq (sendMsgToPeer (pieceMsg req data)) (sendMsgToTorrent k (ToUploaded req)) c))"

text \<open>
  A request that was removed while another one was served (by a choke) is not visited. The loop runs over
  the requests there are when it starts: what the reader goroutine adds or cancels meanwhile counts as
  read before or after the turn.
\<close>

fun upload_loop :: "'bm cfg \<Rightarrow> block list \<Rightarrow> ('bm conn, unit) act" where
  "upload_loop k [] c = (c, Return ())"
| "upload_loop k (req # reqs) c =
     (if req \<notin> set (peerReqs c) then upload_loop k reqs c
      else seq (upload_one k req) (upload_loop k reqs) c)"

definition upload :: "'bm cfg \<Rightarrow> ('bm conn, unit) act" where
  "upload k c = upload_loop k (peerReqs c) c"

definition requestCanceldOrFullfiled :: "block \<Rightarrow> 'bm conn \<Rightarrow> bool" where
  "requestCanceldOrFullfiled b c \<longleftrightarrow> b \<notin> set (peerReqs c)"

section \<open>Receiving blocks\<close>

text \<open>
  The checks on a block that was not requested: \<open>Some\<close> result ends the handling of the message
  with it.
\<close>

definition unexpectedBlock :: "'bm cfg \<Rightarrow> block \<Rightarrow> 'bm conn \<Rightarrow> ('bm conn \<times> (conn_err, unit) outcome) option" where
  "unexpectedBlock k bl c =
     (if \<not> c_haveInfo c then Some (c\<lparr>c_ban := True\<rparr>, Error CNoInfoPiece)
      else if \<not> isValid (sh_pieces c) (bl_pc bl) then Some (c\<lparr>c_ban := True\<rparr>, Error CBadPiece)
      else if bm_get (k_bm k) (c_myBf c) (bl_pc bl) then Some (c, Return ())
      else case blockLenSafe (k_blockSize k) (pcs (sh_pieces c) ! nat (bl_pc bl)) (bl_off bl) of
        Inl errDivOffset \<Rightarrow> Some (c, Return ())
      | Inl errLargeOffset \<Rightarrow> Some (c, Error CLargeOffset)
      | Inr len \<Rightarrow> if len \<noteq> bl_len bl then Some (c, Return ()) else None)"

definition storeBlock :: "'bm cfg \<Rightarrow> bytes \<Rightarrow> block \<Rightarrow> ('bm conn, unit) act" where
  "storeBlock k data bl c =
     (case t_writeBlock k (sh_storage c) data (bl_pc bl) (bl_off bl) of
        Panic p \<Rightarrow> (c, Panic p)
      | Error _ \<Rightarrow> (c, Return ())
      | Return (st, _, Some ErrAlreadyWritten) \<Rightarrow> (c\<lparr>sh_storage := st\<rparr>, Return ())
      | Return (st, _, Some _) \<Rightarrow> (c\<lparr>sh_storage := st\<rparr>, Panic (PanicMsg ''storage write err''))
      | Return (st, _, None) \<Rightarrow> sendMsgToTorrent k (ToDownloaded bl) (c\<lparr>sh_storage := st\<rparr>))"

definition onPieceMsg :: "'bm cfg \<Rightarrow> Msg \<Rightarrow> ('bm conn, unit) act" where
  "onPieceMsg k msg c =
     (case msg_Request msg of
        Panic p \<Rightarrow> (c, Panic p)
      | Error _ \<Rightarrow> (c, Return ())
      | Return r \<Rightarrow>
          let bl = reqMsgToBlock r
          in if bl \<in> set (onFlightReqs c)
             then seq (maybeSendRequests k) (storeBlock k (Block msg) bl)
                    (c\<lparr>onFlightReqs := removeAll bl (onFlightReqs c)\<rparr>)
             else (case unexpectedBlock k bl c of Some res \<Rightarrow> res | None \<Rightarrow> storeBlock k (Block msg) bl c))"

section \<open>Messages of the peer\<close>

definition changeState :: "'bm cfg \<Rightarrow> Msg \<Rightarrow> bool \<Rightarrow> bool \<Rightarrow> (conn_state \<Rightarrow> conn_state) \<Rightarrow> ('bm conn, unit) act" where
  "changeState k msg currState futureState upd =
     (if currState = futureState then ret () else seq (on_state upd) (sendMsgToTorrent k (ToMsg msg)))"

definition onHaveMsg :: "'bm cfg \<Rightarrow> Msg \<Rightarrow> ('bm conn, unit) act" where
  "onHaveMsg k msg c =
     (let i = uint (Index msg)
      in if bm_get (k_bm k) (c_peerBf c) i then (c, Error CDupHave)
         else let c1 = c\<lparr>c_peerBf := bm_set (k_bm k) (c_peerBf c) i True\<rparr>
              in if notUseful k c1 then (c1, Error CEof)
                 else if c_haveInfo c1
                 then (case onHave (sh_pieces c1) i of
                         Panic p \<Rightarrow> (c1, Panic p)
                       | Error _ \<Rightarrow> (c1, Return ())
                       | Return ps \<Rightarrow> sendMsgToTorrent k (ToMsg msg) (c1\<lparr>sh_pieces := ps\<rparr>))
                 else sendMsgToTorrent k (ToMsg msg) c1)"

definition onBitfieldMsg :: "'bm cfg \<Rightarrow> Msg \<Rightarrow> ('bm conn, unit) act" where
  "onBitfieldMsg k msg c =
     (if bm_len (k_bm k) (c_peerBf c) \<noteq> 0 then (c, Error CBfTwice)
      else andthen (conn_bitmap k (Bf msg)) (\<lambda>bm c1.
        let c2 = c1\<lparr>c_peerBf := bm\<rparr>
        in if notUseful k c2 then (c2, Error CEof)
           else if c_haveInfo c2
           then (case onBitfield (k_bm k) (sh_pieces c2) bm of
                   Panic p \<Rightarrow> (c2, Panic p)
                 | Error _ \<Rightarrow> (c2, Return ())
                 | Return ps \<Rightarrow> sendMsgToTorrent k (ToBitmap bm) (c2\<lparr>sh_pieces := ps\<rparr>))
           else sendMsgToTorrent k (ToBitmap bm) c2) c)"

definition onPeerMsg :: "'bm cfg \<Rightarrow> Msg \<Rightarrow> ('bm conn, unit) act" where
  "onPeerMsg k msg c =
     (if Kind msg = KeepAlive then (c, Return ())
      else if Kind msg = Interested
      then changeState k msg (isInterested (c_state c)) True (\<lambda>s. s\<lparr>isInterested := True\<rparr>) c
      else if Kind msg = NotInterested
      then changeState k msg (isInterested (c_state c)) False (\<lambda>s. s\<lparr>isInterested := False\<rparr>) c
      else if Kind msg = Choke
      then seq (discardBlocks (sendMsgToTorrent k) k True False)
             (\<lambda>c1. changeState k msg (isChoking (c_state c1)) True (\<lambda>s. s\<lparr>isChoking := True\<rparr>) c1) c
      else if Kind msg = Unchoke
      then seq (changeState k msg (isChoking (c_state c)) False (\<lambda>s. s\<lparr>isChoking := False\<rparr>)) (maybeSendRequests k) c
      else if Kind msg = PieceKind then onPieceMsg k msg c
      else if Kind msg = RequestKind then upload k c
      else if Kind msg = Have then onHaveMsg k msg c
      else if Kind msg = BitfieldKind then onBitfieldMsg k msg c
      else if Kind msg = Extended then swallow (onExtended (sendMsgToTorrent k) k msg) c
      else if Kind msg = PortKind then (c, Return ())
      else (c, Error CUnknownKind))"

text \<open>The reader goroutine on one decoded message: whether it is passed on.\<close>

definition readPeerMsg :: "'bm cfg \<Rightarrow> Msg \<Rightarrow> 'bm conn \<Rightarrow> 'bm conn \<times> bool" where
  "readPeerMsg k msg c =
     (if Kind msg = RequestKind
      then let b = reqMsgToBlock msg
           in if b \<in> set (peerReqs c) then (c, False)
              else if length (peerReqs c) \<ge> k_reqq k then (c, False)
              else (c\<lparr>peerReqs := peerReqs c @ [b]\<rparr>, True)
      else if Kind msg = Cancel
      then (c\<lparr>peerReqs := removeAll (reqMsgToBlock msg) (peerReqs c)\<rparr>, False)
      else (c, True))"

section \<open>The main loop\<close>

text \<open>What the \<open>select\<close> of the loop can receive, and the reader goroutine's step between two turns.\<close>

datatype 'bm event =
    FromTorrent "'bm torrent_cmd"
  | FromPeer Msg
  | Reader Msg
  | ReadError conn_err
  | TorrentDropped
  | KeepAliveFires
  | MetadataTick

text \<open>One turn of the loop; \<open>None\<close> means that it goes on, \<open>Some\<close> that it returns.\<close>

definition turn :: "'bm cfg \<Rightarrow> 'bm event \<Rightarrow> 'bm conn \<Rightarrow> 'bm conn \<times> (conn_err, unit) outcome" where
  "turn k ev c =
     (case ev of
        FromTorrent cmd \<Rightarrow> onTorrentMsg (sendMsgToTorrent k) k cmd c
      | FromPeer msg \<Rightarrow> onPeerMsg k msg c
      | Reader msg \<Rightarrow> (fst (readPeerMsg k msg c), Return ())
      | ReadError e \<Rightarrow> (c, Error e)
      | TorrentDropped \<Rightarrow> (c, Error CEof)
      | KeepAliveFires \<Rightarrow> sendKeepAlive c
      | MetadataTick \<Rightarrow>
          if \<not> c_haveInfo c then requestMetadata k (c\<lparr>metadataRejectedBlocks := []\<rparr>)
          else (c\<lparr>metadataTicker := False\<rparr>, Return ()))"

text \<open>The deferred \<open>close\<close>; \<open>dropped\<close> tells that the Torrent does not listen any more.\<close>

definition conn_close :: "'bm cfg \<Rightarrow> bool \<Rightarrow> 'bm conn \<Rightarrow> 'bm conn \<times> (conn_err, unit) outcome" where
  "conn_close k dropped c =
     (case discardBlocks (sendMsgToTorrent k) k False False c of
        (c1, Panic p) \<Rightarrow> (c1, Panic p)
      | (c1, _) \<Rightarrow>
          (if dropped then c1 else c1\<lparr>c_sent := c_sent c1 @ [c_lastMsg c1, ToDiscarded, ToDropped]\<rparr>, Return ()))"

end
