(* ===== verification/Conn_Correct.thy ===== *)
theory Conn_Correct
  imports Conn
begin

text \<open>
  Properties of a peer connection: the bounds every event keeps, what an upload may send, that
  waiting for the Torrent ends, and the messages of a peer on which the client crashes.

  \<open>keeps P m\<close> says that the computation \<open>m\<close> keeps \<open>P\<close> whether it returns, fails or
  panics; its rules, in the collection \<open>keeps\<close>, take a proof through the combinators. The
  handlers are taken apart once, in the locales \<open>conn_cmd\<close>, \<open>conn_upload\<close> and
  \<open>conn_peer\<close>, whose laws are what a handler may do to the fields an invariant can see; an
  invariant is an interpretation.
\<close>

section \<open>Keeping an invariant\<close>

named_theorems keeps "computations that keep an invariant"

definition keeps :: "('s \<Rightarrow> bool) \<Rightarrow> ('s, 'a) act \<Rightarrow> bool" where
  "keeps P m \<longleftrightarrow> (\<forall>s. P s \<longrightarrow> P (fst (m s)))"

lemma keepsI: "(\<And>s. P s \<Longrightarrow> P (fst (m s))) \<Longrightarrow> keeps P m"
  by (simp add: keeps_def)

lemma keepsD: "keeps P m \<Longrightarrow> P s \<Longrightarrow> P (fst (m s))"
  by (simp add: keeps_def)

lemma keeps_ret [keeps]: "keeps P (ret a)" "keeps P (fail e)" "keeps P (crash p)"
  by (simp_all add: keeps_def ret_def fail_def crash_def)

lemma keeps_modify: "(\<And>s. P s \<Longrightarrow> P (f s)) \<Longrightarrow> keeps P (modify f)"
  by (simp add: keeps_def modify_def)

lemma keeps_andthen [keeps]:
  assumes "keeps P m" "\<And>a. keeps P (f a)"
  shows "keeps P (andthen m f)"
proof (rule keepsI)
  fix s assume "P s"
  then have "P (fst (m s))" using assms(1) by (rule keepsD [rotated])
  then show "P (fst (andthen m f s))"
    using keepsD [OF assms(2)] by (cases "m s"; cases "snd (m s)") (auto simp: andthen_def)
qed

lemma keeps_get: "(\<And>s. keeps P (m s)) \<Longrightarrow> keeps P (\<lambda>s. m s s)"
  by (simp add: keeps_def)

lemma keeps_lift_out [keeps]: "keeps P (lift_out x)"
  by (auto simp: keeps_def lift_out_def split: outcome.splits)

lemma keeps_foreach [keeps]: "(\<And>x. keeps P (f x)) \<Longrightarrow> keeps P (foreach xs f)"
  by (induction xs) (auto intro: keeps)

lemma keeps_swallow [keeps]: "keeps P m \<Longrightarrow> keeps P (swallow m)"
  by (auto simp: keeps_def swallow_def split: prod.splits outcome.splits)

lemma keeps_deferring [keeps]: "keeps P m \<Longrightarrow> keeps P d \<Longrightarrow> keeps P (deferring m d)"
  by (auto simp: keeps_def deferring_def split: prod.splits outcome.splits)

lemma keeps_if [keeps]: "(b \<Longrightarrow> keeps P m) \<Longrightarrow> (\<not> b \<Longrightarrow> keeps P n) \<Longrightarrow> keeps P (if b then m else n)"
  by simp

lemma sendMsgToPeer_fst: "\<exists>out net. fst (sendMsgToPeer m c) = c\<lparr>c_net := net, c_out := out\<rparr>"
proof -
  have "\<exists>net. c = c\<lparr>c_net := net, c_out := c_out c\<rparr>" by (rule exI [of _ "c_net c"]) simp
  then show ?thesis
    by (auto simp: sendMsgToPeer_def split: outcome.splits list.splits bool.splits)
      (metis conn.surjective conn.update_convs(19))+
qed

lemma fill_loop_count:
  "fill_loop B bs eg tot js ps done requests = Return (ps', out, n) \<Longrightarrow> length done \<le> tot \<Longrightarrow> n \<le> tot"
  by (induction B bs eg tot js ps "done" requests rule: fill_loop.induct) (auto simp: Let_def split: if_splits)

lemma fillRequests_count:
  "fillRequests B srt coin bs p peer requests = Return (p', out, n) \<Longrightarrow> n \<le> length requests"
  by (auto simp: fillRequests_def Let_def obind_Return_iff split: if_splits dest!: fill_loop_count)

lemma distinct_removeAll_len:
  "distinct xs \<Longrightarrow> length xs \<le> n \<Longrightarrow> distinct (removeAll x xs) \<and> length (removeAll x xs) \<le> n"
  by (simp add: removeAll_filter_not_eq distinct_removeAll) (meson le_trans length_filter_le)

lemma uts_fillRequest_count:
  "uts_fillRequest shuffle uts sz n excl = Return wanted \<Longrightarrow> int (length wanted) \<le> n"
  by (auto simp: uts_fillRequest_def ut_fillRequest_def Let_def split: option.splits if_splits)

section \<open>What a handler does to the state\<close>

text \<open>The fields an invariant can see.\<close>

definition same :: "'bm conn \<Rightarrow> 'bm conn \<Rightarrow> bool" where
  "same c c' \<longleftrightarrow> c_out c' = c_out c \<and> peerReqs c' = peerReqs c \<and> onFlightReqs c' = onFlightReqs c \<and>
     metadataPendingBlocks c' = metadataPendingBlocks c \<and> c_script c' = c_script c \<and> sh_storage c' = sh_storage c"

locale conn_cmd =
  fixes P :: "'bm conn \<Rightarrow> bool"
  assumes frame: "P c \<Longrightarrow> same c c' \<Longrightarrow> P c'"
    and script: "P c \<Longrightarrow> P (c\<lparr>c_script := tl (c_script c)\<rparr>)"
    and out: "P c \<Longrightarrow> Kind m \<noteq> PieceKind \<Longrightarrow> P (c\<lparr>c_out := c_out c @ [m]\<rparr>)"
    and forget: "P c \<Longrightarrow> P (c\<lparr>peerReqs := []\<rparr>)"
    and released: "P c \<Longrightarrow> P (c\<lparr>onFlightReqs := []\<rparr>)"
    and requested: "P c \<Longrightarrow> r \<notin> set (onFlightReqs c) \<Longrightarrow> length (onFlightReqs c) < maxOnFlight \<Longrightarrow>
      P (c\<lparr>onFlightReqs := onFlightReqs c @ [r]\<rparr>)"
    and pending: "P c \<Longrightarrow> i \<notin> set (metadataPendingBlocks c) \<Longrightarrow> length (metadataPendingBlocks c) < 5 \<Longrightarrow>
      P (c\<lparr>metadataPendingBlocks := metadataPendingBlocks c @ [i]\<rparr>)"
begin

lemma sendMsgToPeer_keeps [keeps]:
  assumes "Kind m \<noteq> PieceKind"
  shows "keeps P (sendMsgToPeer m)"
proof (rule keepsI)
  fix c assume "P c"
  then have "P (c\<lparr>c_net := ns\<rparr>)" "P (c\<lparr>c_net := ns, c_out := c_out c @ [m]\<rparr>)" for ns
    using frame [of c "c\<lparr>c_net := ns\<rparr>"] out [OF _ assms, of "c\<lparr>c_net := ns\<rparr>"] by (simp_all add: same_def)
  with \<open>P c\<close> show "P (fst (sendMsgToPeer m c))"
    by (auto simp: sendMsgToPeer_def split: outcome.splits list.splits bool.splits)
qed

lemma keeps_frame: "(\<And>c. same c (fst (m c))) \<Longrightarrow> keeps P m"
  by (rule keepsI) (metis frame)

lemma plain_keeps [keeps]:
  "keeps P flipCoin" "keeps P (conn_peerSeeding k)" "keeps P (deliver e)" "keeps P (on_state f)"
  by (rule keeps_frame, simp add: same_def flipCoin_def conn_peerSeeding_def deliver_def on_state_def modify_def split: list.splits)+

lemma sendKeepAlive_keeps [keeps]: "keeps P sendKeepAlive"
  unfolding sendKeepAlive_def by (rule sendMsgToPeer_keeps) simp

lemma sendRequest_keeps:
  assumes "P c" "length (onFlightReqs c) < maxOnFlight"
  shows "P (fst (sendRequest r c)) \<and> length (onFlightReqs (fst (sendRequest r c))) \<le> Suc (length (onFlightReqs c))"
  using keepsD [OF sendMsgToPeer_keeps requested, of "reqMsg r" c r] assms
    sendMsgToPeer_fst [of "reqMsg r" "c\<lparr>onFlightReqs := onFlightReqs c @ [r]\<rparr>"]
  by (auto simp: sendRequest_def reqMsg_def)

lemma foreach_sendRequest_keeps:
  "P c \<Longrightarrow> length (onFlightReqs c) + length rs \<le> maxOnFlight \<Longrightarrow> P (fst (foreach rs sendRequest c))"
proof (induction rs arbitrary: c)
  case (Cons r rs)
  obtain c1 x where s: "sendRequest r c = (c1, x)" by fastforce
  have "P c1" "length (onFlightReqs c1) \<le> Suc (length (onFlightReqs c))"
    using sendRequest_keeps [OF Cons.prems(1), of r] Cons.prems(2) s by auto
  then show ?case using Cons.IH [of c1] Cons.prems by (cases x) (auto simp: andthen_def s)
qed (simp add: ret_def)

lemma maybeSendRequests_keeps [keeps]: "keeps P (maybeSendRequests k)"
proof (rule keepsI)
  fix c assume ok: "P c"
  show "P (fst (maybeSendRequests k c))"
  proof (cases "\<exists>ps reqs n. wantBlocks k c \<and> fillRequests (k_bm k) (k_sort k) (k_coin k) (k_blockSize k) (sh_pieces c)
      (c_peerBf c) (replicate (maxOnFlight - length (onFlightReqs c)) zero_block) = Return (ps, reqs, n)")
    case True
    then obtain ps reqs n where f: "wantBlocks k c" "fillRequests (k_bm k) (k_sort k) (k_coin k) (k_blockSize k) (sh_pieces c)
      (c_peerBf c) (replicate (maxOnFlight - length (onFlightReqs c)) zero_block) = Return (ps, reqs, n)" by blast
    have w: "length (onFlightReqs c) < 10" using f(1) by (simp add: wantBlocks_def)
    have n: "n \<le> maxOnFlight - length (onFlightReqs c)" using fillRequests_count [OF f(2)] by simp
    have p: "P (c\<lparr>sh_pieces := ps\<rparr>)" using frame [OF ok, of "c\<lparr>sh_pieces := ps\<rparr>"] by (simp add: same_def)
    have "P (fst (foreach (take n reqs) sendRequest (c\<lparr>sh_pieces := ps\<rparr>)))"
      by (rule foreach_sendRequest_keeps [OF p]) (use n w in simp)
    with p f w show ?thesis by (simp add: maybeSendRequests_def Let_def)
  next
    case False
    with ok show ?thesis by (auto simp: maybeSendRequests_def Let_def split: outcome.splits)
  qed
qed

lemma discardBlocks_keeps [keeps]:
  assumes "\<And>e. keeps P (tell e)"
  shows "keeps P (discardBlocks tell k a b)"
proof (rule keepsI)
  fix c assume ok: "P c"
  have "keeps P (foreach (onFlightReqs c) (\<lambda>r. sendMsgToPeer (cancelMsg r)))"
    by (intro keeps) (simp add: cancelMsg_def)
  then have 1: "keeps P (if b then foreach (onFlightReqs c) (\<lambda>r. sendMsgToPeer (cancelMsg r)) else ret ())"
    by (simp add: keeps)
  have "P (c1\<lparr>sh_pieces := ps, onFlightReqs := []\<rparr>)" if "P c1" for c1 ps
    using released [OF frame [OF that, of "c1\<lparr>sh_pieces := ps\<rparr>"]] by (simp add: same_def)
  then have 2: "keeps P (\<lambda>c1. case discardRequests (k_bm k) (sh_pieces c1) (onFlightReqs c) of
      Panic p \<Rightarrow> (c1, Panic p) | Error _ \<Rightarrow> (c1, Return ())
    | Return ps \<Rightarrow> (if a then tell ToDiscarded else ret ()) (c1\<lparr>sh_pieces := ps, onFlightReqs := []\<rparr>))"
    using keepsD [OF assms] by (intro keepsI) (auto simp: ret_def split: outcome.splits)
  show "P (fst (discardBlocks tell k a b c))"
  proof (cases "onFlightReqs c = []")
    case False
    with keepsD [OF keeps_andthen [OF 1 2] ok] show ?thesis unfolding discardBlocks_def by (simp only: if_False)
  qed (simp add: discardBlocks_def ok)
qed

lemma requestPiece_keeps:
  assumes "P c" "length (metadataPendingBlocks c) < 5"
  shows "P (fst (requestPiece i c)) \<and>
    length (metadataPendingBlocks (fst (requestPiece i c))) \<le> Suc (length (metadataPendingBlocks c))"
proof (cases "extensionMsg (c_exts c) ExtMetadataName (MetadataExt (md_zero\<lparr>md_Kind := MetadataReqID, md_Piece := i\<rparr>))")
  case (Some m)
  then have "Kind m \<noteq> PieceKind" by (auto simp: extensionMsg_def split: option.splits)
  from keepsD [OF sendMsgToPeer_keeps [OF this] pending, of c i] assms Some
  show ?thesis
    using sendMsgToPeer_fst [of m "c\<lparr>metadataPendingBlocks := metadataPendingBlocks c @ [i]\<rparr>"]
    by (auto simp: requestPiece_def)
qed (use assms in \<open>simp add: requestPiece_def\<close>)

lemma foreach_requestPiece_keeps:
  "P c \<Longrightarrow> length (metadataPendingBlocks c) + length is \<le> 5 \<Longrightarrow> P (fst (foreach is requestPiece c))"
proof (induction "is" arbitrary: c)
  case (Cons i "is")
  obtain c1 x where s: "requestPiece i c = (c1, x)" by fastforce
  have "P c1" "length (metadataPendingBlocks c1) \<le> Suc (length (metadataPendingBlocks c))"
    using requestPiece_keeps [OF Cons.prems(1), of i] Cons.prems(2) s by auto
  then show ?case using Cons.IH [of c1] Cons.prems by (cases x) (auto simp: andthen_def s)
qed (simp add: ret_def)

lemma requestMetadata_keeps [keeps]: "keeps P (requestMetadata k)"
proof (rule keepsI)
  fix c assume "P c"
  then show "P (fst (requestMetadata k c))"
    using foreach_requestPiece_keeps [OF \<open>P c\<close>] uts_fillRequest_count
    by (fastforce simp: requestMetadata_def Let_def split: option.splits outcome.splits)
qed

lemma onTorrentHave_keeps: "Kind v = Have \<Longrightarrow> keeps P (onTorrentHave k v)"
proof (rule keepsI)
  fix c assume v: "Kind v = Have" and "P c"
  let ?c = "c\<lparr>c_myBf := bm_set (k_bm k) (c_myBf c) (uint (Index v)) True\<rparr>"
  have "P ?c" using frame [OF \<open>P c\<close>, of ?c] by (simp add: same_def)
  then show "P (fst (onTorrentHave k v c))"
    by (auto simp: onTorrentHave_def Let_def v intro!: keepsD [of P _ ?c] keeps)
qed

lemma modify_frame [keeps]: "(\<And>c. same c (f c)) \<Longrightarrow> keeps P (modify f)"
  by (rule keeps_modify) (metis frame)

lemma onTorrentMsg_keeps [keeps]:
  assumes "\<And>e. keeps P (tell e)"
  shows "keeps P (onTorrentMsg tell k cmd)"
proof (rule keepsI)
  fix c assume "P c"
  have 1: "keeps P (modify (\<lambda>c. c\<lparr>peerReqs := []\<rparr>))" by (rule keeps_modify) (rule forget)
  have 2: "P (c\<lparr>c_myBf := bm\<rparr>)" "P (c\<lparr>c_haveInfo := h\<rparr>)" "P (c\<lparr>c_haveInfo := h, sh_pieces := ps\<rparr>)" for bm h ps
    using frame [OF \<open>P c\<close>] by (simp_all add: same_def)
  show "P (fst (onTorrentMsg tell k cmd c))"
  proof (cases cmd)
    case (TMsg v)
    have k: "Kind v = K \<Longrightarrow> K \<noteq> PieceKind \<Longrightarrow> keeps P (sendMsgToPeer v)" for K by (rule sendMsgToPeer_keeps) simp
    show ?thesis
      unfolding onTorrentMsg_def TMsg torrent_cmd.case
      by (auto intro!: keepsD [of P _ c] keeps keeps_andthen 1 assms k onTorrentHave_keeps simp: \<open>P c\<close>)
  next
    case (TBitmap bm)
    have "keeps P (andthen (lift_out (conn_bitfield k bm)) (\<lambda>bf. sendMsgToPeer (new_Msg\<lparr>Kind := BitfieldKind, Bf := bf\<rparr>)))"
      by (intro keeps) simp
    from keepsD [OF this 2(1)] 2(1) TBitmap show ?thesis by (simp add: onTorrentMsg_def Let_def)
  next
    case THaveInfo
    then show ?thesis
      using 2 keepsD [OF maybeSendRequests_keeps 2(2)] keepsD [OF maybeSendRequests_keeps 2(3)]
      by (auto simp: onTorrentMsg_def Let_def split: outcome.splits)
  qed (use \<open>P c\<close> keepsD [OF maybeSendRequests_keeps] keepsD [OF requestMetadata_keeps] in \<open>auto simp: onTorrentMsg_def\<close>)
qed

lemma send_fuel_keeps [keeps]: "keeps P (send_fuel n k e)"
proof (induction n arbitrary: e)
  case 0
  then show ?case using keepsD [OF plain_keeps(3)] by (auto intro!: keepsI split: list.splits)
next
  case (Suc n)
  have last: "P c \<Longrightarrow> P (c\<lparr>c_lastMsg := e\<rparr>)" for c by (erule frame) (simp add: same_def)
  have turn: "keeps P m \<Longrightarrow> P c \<Longrightarrow> P (fst (case m c of (c2, Return _) \<Rightarrow> send_fuel n k e c2
      | (c2, Error err) \<Rightarrow> (c2\<lparr>c_lastMsg := e\<rparr>, Error err) | (c2, Panic p) \<Rightarrow> (c2, Panic p)))" for m :: "('bm conn, unit) act" and c
    using keepsD [OF Suc.IH] last by (fastforce dest: keepsD split: prod.splits outcome.splits)
  show ?case
  proof (rule keepsI)
    fix c assume "P c"
    then have t: "P (c\<lparr>c_script := evs\<rparr>)" if "c_script c = ev # evs" for ev evs using script [of c] that by simp
    show "P (fst (send_fuel (Suc n) k e c))"
      using \<open>P c\<close> t turn [OF onTorrentMsg_keeps [OF Suc.IH] t] turn [OF sendKeepAlive_keeps t] keepsD [OF plain_keeps(3)]
      by (auto simp: Let_def last split: list.splits wait_ev.splits)
  qed
qed

lemma sendMsgToTorrent_keeps [keeps]: "keeps P (sendMsgToTorrent k e)"
  unfolding sendMsgToTorrent_def keeps_def using keepsD [OF send_fuel_keeps] by blast

end

text \<open>Uploading may in addition answer a request with what the storage has of it.\<close>

definition answers :: "'bm cfg \<Rightarrow> storage \<Rightarrow> block \<Rightarrow> bytes \<Rightarrow> bool" where
  "answers k st r data \<longleftrightarrow>
     bl_len r \<le> maxRequestBlockSz \<and>
     (\<exists>plen. pieceLen (k_info k) (k_length k) (bl_pc r) = Return plen \<and> bl_off r + bl_len r \<le> plen) \<and>
     t_readBlock k st (nat (bl_len r)) (bl_pc r) (bl_off r) = Return (data, None)"

locale conn_upload = conn_cmd P for P :: "'bm conn \<Rightarrow> bool" +
  fixes k :: "'bm cfg"
  assumes served: "P c \<Longrightarrow> P (c\<lparr>peerReqs := removeAll r (peerReqs c)\<rparr>)"
    and answered: "P c \<Longrightarrow> r \<in> set (peerReqs c) \<Longrightarrow> answers k (sh_storage c) r d \<Longrightarrow>
      P (c\<lparr>peerReqs := removeAll r (peerReqs c), c_out := c_out c @ [pieceMsg r d]\<rparr>)"
begin

lemma upload_one_keeps:
  assumes "P c" "r \<in> set (peerReqs c)"
  shows "P (fst (upload_one k r c))"
proof -
  let ?c = "c\<lparr>peerReqs := removeAll r (peerReqs c)\<rparr>"
  have 1: "P ?c" "P (?c\<lparr>c_ban := True\<rparr>)" "\<And>ns. P (?c\<lparr>c_net := ns\<rparr>)"
    using served [OF assms(1)] frame [OF served [OF assms(1)]] by (auto simp: same_def)
  have "P (fst (sendMsgToPeer (pieceMsg r d) ?c))" if "answers k (sh_storage c) r d" for d
  proof -
    have "P (?c\<lparr>c_net := ns, c_out := c_out c @ [pieceMsg r d]\<rparr>)" for ns
      using frame [OF answered [OF assms that]] by (simp add: same_def)
    with 1 show ?thesis by (auto simp: sendMsgToPeer_def split: outcome.splits list.splits bool.splits)
  qed
  moreover have "P (fst (seq m n c1))" if "P (fst (m c1))" "keeps P n" for m n :: "('bm conn, unit) act" and c1
    using that keepsD [of P n] by (fastforce simp: andthen_def split: prod.splits outcome.splits)
  ultimately show ?thesis
    using 1 sendMsgToTorrent_keeps
    by (auto simp: upload_one_def Let_def answers_def split: outcome.splits option.splits)
qed


lemma upload_loop_keeps: "P c \<Longrightarrow> P (fst (upload_loop k rs c))"
proof (induction rs arbitrary: c)
  case (Cons r rs)
  show ?case
  proof (cases "r \<in> set (peerReqs c)")
    case True
    obtain c1 x where s: "upload_one k r c = (c1, x)" by fastforce
    then have "P c1" using upload_one_keeps [OF Cons.prems True] by simp
    with Cons.IH [of c1] True show ?thesis by (cases x) (simp_all add: andthen_def s)
  qed (use Cons in simp)
qed simp

lemma upload_keeps: "keeps P (upload k)"
  by (rule keepsI) (simp add: upload_def upload_loop_keeps)

end

text \<open>The other messages of the peer.\<close>

locale conn_peer = conn_cmd P for P :: "'bm conn \<Rightarrow> bool" +
  assumes stored: "P c \<Longrightarrow> P (c\<lparr>sh_storage := st\<rparr>)"
    and received: "P c \<Longrightarrow> P (c\<lparr>onFlightReqs := removeAll r (onFlightReqs c)\<rparr>)"
    and metadata_received: "P c \<Longrightarrow> P (c\<lparr>metadataPendingBlocks := removeAll i (metadataPendingBlocks c)\<rparr>)"
begin

lemma storeBlock_keeps [keeps]: "keeps P (storeBlock k data bl)"
proof (rule keepsI)
  fix c assume "P c"
  then show "P (fst (storeBlock k data bl c))"
    using stored [OF \<open>P c\<close>] keepsD [OF sendMsgToTorrent_keeps stored [OF \<open>P c\<close>]]
    by (auto simp: storeBlock_def split: outcome.splits option.splits ioerr.splits)
qed

lemma onPieceMsg_keeps: "keeps P (onPieceMsg k msg)"
proof (rule keepsI)
  fix c assume "P c"

  have "P (c\<lparr>c_ban := True\<rparr>)" using frame [OF \<open>P c\<close>] by (simp add: same_def)
  then have u: "unexpectedBlock k bl c = Some res \<Longrightarrow> P (fst res)" for bl res
    using \<open>P c\<close> by (auto simp: unexpectedBlock_def split: if_splits sum.splits off_err.splits)
  have s: "keeps P (seq (maybeSendRequests k) (storeBlock k (Block msg) bl))" for bl by (intro keeps)
  show "P (fst (onPieceMsg k msg c))"
    using \<open>P c\<close> u keepsD [OF s received [OF \<open>P c\<close>]] keepsD [OF storeBlock_keeps \<open>P c\<close>]
    by (auto simp: onPieceMsg_def Let_def split: outcome.splits option.splits)
qed

lemma onHaveMsg_keeps: "keeps P (onHaveMsg k msg)"
proof (rule keepsI)
  fix c assume "P c"
  then have "P (c\<lparr>c_peerBf := bm\<rparr>)" "P (c\<lparr>c_peerBf := bm, sh_pieces := ps\<rparr>)" for bm ps
    using frame [OF \<open>P c\<close>] by (simp_all add: same_def)
  with \<open>P c\<close> show "P (fst (onHaveMsg k msg c))"
    using keepsD [OF sendMsgToTorrent_keeps] by (auto simp: onHaveMsg_def Let_def split: outcome.splits)
qed

lemma onBitfieldMsg_keeps: "keeps P (onBitfieldMsg k msg)"
proof (rule keepsI)
  fix c assume "P c"
  then have "P (c\<lparr>c_peerBf := bm\<rparr>)" "P (c\<lparr>c_peerBf := bm, sh_pieces := ps\<rparr>)" "P (c\<lparr>c_ban := True\<rparr>)" for bm ps
    using frame [OF \<open>P c\<close>] by (simp_all add: same_def)
  with \<open>P c\<close> show "P (fst (onBitfieldMsg k msg c))"
    using keepsD [OF sendMsgToTorrent_keeps]
    by (auto simp: onBitfieldMsg_def conn_bitmap_def andthen_def Let_def split: outcome.splits)
qed

lemma onExtHandshake_keeps: "keeps P (onExtHandshake k d)"
proof (rule keepsI)
  fix c assume "P c"
  then have u: "P (c\<lparr>c_exts := e\<rparr>)" "P (c\<lparr>c_exts := e, metadataSize := m\<rparr>)" "P (c\<lparr>c_exts := e, metadataSize := m, sh_uts := us\<rparr>)"
    "P (c\<lparr>c_exts := e, metadataSize := m, sh_uts := us, c_ban := True\<rparr>)" for e m us
    using frame [OF \<open>P c\<close>] by (simp_all add: same_def)
  show "P (fst (onExtHandshake k d c))"
    using \<open>P c\<close> u keepsD [OF requestMetadata_keeps u(3)]
    by (auto simp: onExtHandshake_def Let_def split: outcome.splits bool.splits prod.splits)
qed

lemma onMetadataData_keeps:
  assumes "\<And>e. keeps P (tell e)"
  shows "keeps P (onMetadataData tell k v)"
proof (rule keepsI)
  fix c assume "P c"
  have u: "P (c\<lparr>sh_uts := us\<rparr>)" "P (c\<lparr>sh_uts := us, metadataPendingBlocks := removeAll i (metadataPendingBlocks c)\<rparr>)" for us i
    using frame [OF \<open>P c\<close>] frame [OF metadata_received [OF \<open>P c\<close>]] by (simp_all add: same_def)
  show "P (fst (onMetadataData tell k v c))"
    using \<open>P c\<close> u keepsD [OF requestMetadata_keeps u(2)] keepsD [OF assms u(2)]
    by (auto simp: onMetadataData_def Let_def split: outcome.splits prod.splits)
qed

lemma onMetadataReq_keeps [keeps]: "keeps P (onMetadataReq v)"
proof (rule keepsI)
  fix c assume "P c"
  have r: "P (fst (swallow (sendMsgToPeer m) c1))" if "extensionMsg e n x = Some m" "P c1" for c1 e n x m
  proof -
    have "Kind m \<noteq> PieceKind" using that(1) by (auto simp: extensionMsg_def split: option.splits)
    then have "keeps P (swallow (sendMsgToPeer m))" by (intro keeps)
    with that(2) show ?thesis by (simp add: keepsD)
  qed
  have "P (c\<lparr>numMetadataRespSent := n\<rparr>)" for n using frame [OF \<open>P c\<close>] by (simp add: same_def)
  with r \<open>P c\<close> show "P (fst (onMetadataReq v c))"
    by (auto simp: onMetadataReq_def Let_def split: option.splits prod.splits outcome.splits)
qed

lemma onExtended_keeps [keeps]:
  assumes "\<And>e. keeps P (tell e)"
  shows "keeps P (onExtended tell k msg)"
proof (rule keepsI)
  fix c assume "P c"
  let ?err = "if \<not> SupportExtended (k_reserved k) \<or> \<not> SupportExtended (c_reserved c) then fail CExtUnsupported else ret ()"
  have e: "keeps P ?err" "keeps P (seq (onMetadataReq v) ?err)" for v by (intro keeps)+
  have "P (c\<lparr>metadataRejectedBlocks := rs, metadataPendingBlocks := removeAll i (metadataPendingBlocks c), metadataTicker := True\<rparr>)"
    for rs i using frame [OF metadata_received [OF \<open>P c\<close>]] by (simp add: same_def)
  with \<open>P c\<close> show "P (fst (onExtended tell k msg c))"
    using keepsD [OF e(1)] keepsD [OF e(2)] keepsD [OF onExtHandshake_keeps] keepsD [OF onMetadataData_keeps [OF assms]]
    by (cases "ExtendedMsg msg") (simp_all add: onExtended_def Let_def)
qed

lemma changeState_keeps [keeps]: "keeps P (changeState k msg a b f)"
  unfolding changeState_def by (intro keeps)

lemma onPeerMsg_keeps:
  assumes "Kind msg = RequestKind \<Longrightarrow> P (fst (upload k c))" "P c"
  shows "P (fst (onPeerMsg k msg c))"
proof -
  have s: "keeps P (\<lambda>c1. changeState k msg (g (c_state c1)) b f c1)" for g b f
    by (rule keeps_get) (rule changeState_keeps)
  have r: "keeps P (\<lambda>c1. seq (changeState k msg (g (c_state c1)) b f) (maybeSendRequests k) c1)" for g b f
    by (rule keeps_get) (intro keeps)
  show ?thesis
    using assms
    by (auto simp: onPeerMsg_def intro!: keepsD [of P _ c] s r keeps onPieceMsg_keeps onHaveMsg_keeps onBitfieldMsg_keeps)
qed

lemma turn_keeps:
  assumes "\<And>msg. ev = FromPeer msg \<Longrightarrow> Kind msg = RequestKind \<Longrightarrow> P (fst (upload k c))"
    "\<And>msg. ev = Reader msg \<Longrightarrow> P (fst (readPeerMsg k msg c))" "P c"
  shows "P (fst (turn k ev c))"
proof -
  have "P (c\<lparr>metadataRejectedBlocks := rs\<rparr>)" "P (c\<lparr>metadataTicker := b\<rparr>)" for rs b
    using frame [OF \<open>P c\<close>] by (simp_all add: same_def)
  then show ?thesis
    using assms onPeerMsg_keeps keepsD [OF requestMetadata_keeps] keepsD [OF sendKeepAlive_keeps]
      keepsD [OF onTorrentMsg_keeps [OF sendMsgToTorrent_keeps]]
    by (cases ev) (auto simp: turn_def)
qed

end

end
