(* ===== verification/Conn_Theorems.thy ===== *)
theory Conn_Theorems
  imports Conn_Correct Storage_Correct
begin

text \<open>
  The theorems on a peer connection: the bounds of its queues over all its lives, what it uploads,
  that waiting for the Torrent is a loop that ends, and the messages that crash the client.
\<close>

section \<open>Waiting for the Torrent\<close>

interpretation sc: conn_cmd "\<lambda>c. length (c_script c) \<le> n" for n
  by unfold_locales (auto simp: same_def)

lemma shorter: "keeps (\<lambda>c. length (c_script c) \<le> length (c_script c0)) m \<Longrightarrow> length (c_script (fst (m c0))) \<le> length (c_script c0)"
  by (rule keepsD) simp_all

lemma seq_cong:
  assumes "\<And>c1. length (c_script c1) \<le> length (c_script c) \<Longrightarrow> m c1 = m' c1"
    "keeps (\<lambda>c1. length (c_script c1) \<le> length (c_script c)) a"
  shows "seq a m c = seq a m' c"
proof -
  obtain c1 x where s: "a c = (c1, x)" by fastforce
  then have "length (c_script c1) \<le> length (c_script c)" using keepsD [OF assms(2), of c] by simp
  with s assms(1) show ?thesis by (simp add: andthen_def split: outcome.split)
qed

lemma discardBlocks_cong:
  assumes t: "\<And>c'. length (c_script c') \<le> length (c_script c) \<Longrightarrow> tell ToDiscarded c' = tell' ToDiscarded c'"
  shows "discardBlocks tell k a b c = discardBlocks tell' k a b c"
proof -
  have "keeps (\<lambda>c1. length (c_script c1) \<le> length (c_script c))
      (if b then foreach (onFlightReqs c) (\<lambda>r. sendMsgToPeer (cancelMsg r)) else ret ())"
    by (cases b) (auto intro!: keeps_foreach keeps_ret sc.sendMsgToPeer_keeps simp: cancelMsg_def)
  then show ?thesis
    unfolding discardBlocks_def by (intro if_cong refl seq_cong) (auto simp: t split: outcome.split)
qed

lemma seq_cong1: "a c = a' c \<Longrightarrow> seq a m c = seq a' m c"
  by (simp add: andthen_def)

lemma onTorrentMsg_cong:
  assumes t: "\<And>c'. length (c_script c') \<le> length (c_script c) \<Longrightarrow> tell ToDiscarded c' = tell' ToDiscarded c'"
  shows "onTorrentMsg tell k cmd c = onTorrentMsg tell' k cmd c"
proof -
  have "seq (on_state f) (seq (discardBlocks tell k True True) n) c = seq (on_state f) (seq (discardBlocks tell' k True True) n) c"
    for f and n :: "('a conn, unit) act"
  proof (rule seq_cong [OF _ sc.plain_keeps(4)])
    fix c1 assume "length (c_script (c1 :: 'a conn)) \<le> length (c_script c)"
    then show "seq (discardBlocks tell k True True) n c1 = seq (discardBlocks tell' k True True) n c1"
      by (intro seq_cong1 discardBlocks_cong t) simp
  qed
  then show ?thesis unfolding onTorrentMsg_def by (simp split: torrent_cmd.split)
qed

lemma send_fuel_enough:
  "length (c_script c) \<le> n \<Longrightarrow> length (c_script c) \<le> m \<Longrightarrow> send_fuel n k e c = send_fuel m k e c"
proof (induction "length (c_script c)" arbitrary: c e n m rule: less_induct)
  case less
  show ?case
  proof (cases "c_script c")
    case Nil
    then show ?thesis by (cases n; cases m) simp_all
  next
    case (Cons ev evs)
    then obtain n' m' where nm: "n = Suc n'" "m = Suc m'" "length evs \<le> n'" "length evs \<le> m'"
      using less.prems by (cases n; cases m) auto
    let ?c = "c\<lparr>c_script := evs\<rparr>"
    have IH: "length (c_script c') \<le> length evs \<Longrightarrow> send_fuel n' k e' c' = send_fuel m' k e' c'" for e' c'
      using less.hyps [of c' n' m' e'] Cons nm(3,4) by simp
    have T: "onTorrentMsg (send_fuel n' k) k cmd ?c = onTorrentMsg (send_fuel m' k) k cmd ?c" for cmd
      by (rule onTorrentMsg_cong) (simp add: IH)
    have L: "length (c_script (fst (a ?c))) \<le> length evs" if "keeps (\<lambda>c. length (c_script c) \<le> length evs) a"
      for a :: "('a conn, unit) act"
      using keepsD [OF that] by simp
    have S: "(case a ?c of (c2, Return _) \<Rightarrow> send_fuel n' k e c2 | (c2, Error err) \<Rightarrow> (c2\<lparr>c_lastMsg := e\<rparr>, Error err)
        | (c2, Panic p) \<Rightarrow> (c2, Panic p)) =
      (case a ?c of (c2, Return _) \<Rightarrow> send_fuel m' k e c2 | (c2, Error err) \<Rightarrow> (c2\<lparr>c_lastMsg := e\<rparr>, Error err)
        | (c2, Panic p) \<Rightarrow> (c2, Panic p))" if "keeps (\<lambda>c. length (c_script c) \<le> length evs) a" for a :: "('a conn, unit) act"
      using L [OF that] IH by (auto split: prod.splits outcome.splits)
    have K: "keeps (\<lambda>c. length (c_script c) \<le> length evs) (onTorrentMsg (send_fuel m' k) k cmd)" for cmd
      by (rule sc.onTorrentMsg_keeps) (rule sc.send_fuel_keeps)
    show ?thesis
      using S [OF K] S [OF sc.sendKeepAlive_keeps] by (simp add: nm Cons Let_def T split: wait_ev.split)
  qed
qed

text \<open>
  The wait of \<open>sendMsgToTorrent\<close> is the loop of the source and ends: with the fuel it gets it
  satisfies the loop's own equation, in which the commands obeyed meanwhile send by
  \<open>sendMsgToTorrent\<close> again, and the model's out-of-fuel case does not occur.
\<close>

lemma sendMsgToTorrent_loop:
  "sendMsgToTorrent k e c =
     (case c_script c of
        [] \<Rightarrow> deliver e c
      | ev # evs \<Rightarrow>
          let c1 = c\<lparr>c_script := evs\<rparr>;
              again = (\<lambda>m. case m c1 of
                (c2, Return _) \<Rightarrow> sendMsgToTorrent k e c2
              | (c2, Error err) \<Rightarrow> (c2\<lparr>c_lastMsg := e\<rparr>, Error err)
              | (c2, Panic p) \<Rightarrow> (c2, Panic p))
          in (case ev of
                Taken \<Rightarrow> deliver e c1
              | Command cmd \<Rightarrow> again (onTorrentMsg (sendMsgToTorrent k) k cmd)
              | TorrentClosed \<Rightarrow> (c1\<lparr>c_lastMsg := e\<rparr>, Error CEof)
              | KeepAliveTimer \<Rightarrow> again sendKeepAlive))"
proof (cases "c_script c")
  case (Cons ev evs)
  let ?c = "c\<lparr>c_script := evs\<rparr>" and ?n = "length evs"
  have F: "length (c_script c') \<le> ?n \<Longrightarrow> send_fuel ?n k e' c' = sendMsgToTorrent k e' c'" for e' c'
    unfolding sendMsgToTorrent_def by (rule send_fuel_enough) simp_all
  have T: "onTorrentMsg (send_fuel ?n k) k cmd ?c = onTorrentMsg (sendMsgToTorrent k) k cmd ?c" for cmd
    by (rule onTorrentMsg_cong) (simp add: F)
  have L: "keeps (\<lambda>c. length (c_script c) \<le> ?n) a \<Longrightarrow> length (c_script (fst (a ?c))) \<le> ?n" for a :: "('a conn, unit) act"
    by (drule keepsD [of _ _ ?c]) simp_all
  have K: "length (c_script (fst (onTorrentMsg (sendMsgToTorrent k) k cmd ?c))) \<le> ?n"
    "length (c_script (fst (sendKeepAlive ?c))) \<le> ?n" for cmd
    by (rule L, rule sc.onTorrentMsg_keeps, rule sc.sendMsgToTorrent_keeps) (rule L, rule sc.sendKeepAlive_keeps)
  have S: "(case r of (c2, Return _) \<Rightarrow> send_fuel ?n k e c2 | (c2, Error err) \<Rightarrow> (c2\<lparr>c_lastMsg := e\<rparr>, Error err)
      | (c2, Panic p) \<Rightarrow> (c2, Panic p)) =
    (case r of (c2, Return _) \<Rightarrow> sendMsgToTorrent k e c2 | (c2, Error err) \<Rightarrow> (c2\<lparr>c_lastMsg := e\<rparr>, Error err)
      | (c2, Panic p) \<Rightarrow> (c2, Panic p))" if "length (c_script (fst r)) \<le> ?n" for r :: "'a conn \<times> (conn_err, unit) outcome"
    using that by (cases r; cases "snd r") (simp_all add: F)
  have "sendMsgToTorrent k e c = send_fuel (Suc ?n) k e c" by (simp add: sendMsgToTorrent_def Cons)
  then show ?thesis by (simp add: Cons Let_def T S [OF K(1)] S [OF K(2)] split: wait_ev.split)
qed (simp add: sendMsgToTorrent_def)

section \<open>Bounds\<close>

text \<open>
  At most 20 requests in flight, at most \<open>reqq\<close> of the peer's, at most 5 metadata requests, none
  twice; the peer's requests have 32-bit fields.
\<close>

definition of_wire :: "block \<Rightarrow> bool" where
  "of_wire b \<longleftrightarrow> 0 \<le> bl_pc b \<and> bl_pc b < 2 ^ 32 \<and> 0 \<le> bl_off b \<and> bl_off b < 2 ^ 32 \<and> 0 \<le> bl_len b \<and> bl_len b < 2 ^ 32"

lemma of_wire_reqMsgToBlock: "of_wire (reqMsgToBlock m)"
  using uint_bounded [of "Index m"] uint_bounded [of "Begin m"] uint_bounded [of "Len m"]
  by (simp add: of_wire_def reqMsgToBlock_def)

definition conn_ok :: "'bm cfg \<Rightarrow> 'bm conn \<Rightarrow> bool" where
  "conn_ok k c \<longleftrightarrow>
     distinct (onFlightReqs c) \<and> length (onFlightReqs c) \<le> maxOnFlight \<and>
     distinct (peerReqs c) \<and> length (peerReqs c) \<le> k_reqq k \<and> list_all of_wire (peerReqs c) \<and>
     distinct (metadataPendingBlocks c) \<and> length (metadataPendingBlocks c) \<le> 5"

interpretation ok: conn_upload "conn_ok k" k' for k k'
  by unfold_locales (auto simp: conn_ok_def same_def list_all_iff dest: distinct_removeAll_len)

interpretation ok: conn_peer "conn_ok k" for k
  by unfold_locales (auto simp: conn_ok_def same_def list_all_iff dest: distinct_removeAll_len)

text \<open>
  The lives of a connection: it starts, takes turns, and between them the other connections change
  what is shared and the environment chooses what comes next.
\<close>

inductive conn_reachable :: "'bm cfg \<Rightarrow> 'bm conn \<Rightarrow> bool" for k where
  start: "conn_reachable k (newConn (k_bm k) reserved ps uts st)"
| took: "conn_reachable k c \<Longrightarrow> turn k ev c = (c', Return ()) \<Longrightarrow> conn_reachable k c'"
| others: "conn_reachable k c \<Longrightarrow> conn_reachable k (c\<lparr>sh_pieces := ps, sh_uts := uts, sh_storage := st\<rparr>)"
| environment: "conn_reachable k c \<Longrightarrow> conn_reachable k (c\<lparr>c_script := evs, c_net := ns, c_coins := cs\<rparr>)"

lemma turn_conn_ok: "conn_ok k c \<Longrightarrow> conn_ok k (fst (turn k ev c))"
  by (rule ok.turn_keeps [OF keepsD [OF ok.upload_keeps]])
    (auto simp: readPeerMsg_def Let_def conn_ok_def of_wire_reqMsgToBlock list_all_iff dest: distinct_removeAll_len)

lemma reachable_conn_ok: "conn_reachable k c \<Longrightarrow> conn_ok k c"
proof (induction rule: conn_reachable.induct)
  case (took c ev c')
  then show ?case using turn_conn_ok [of k c ev] by simp
qed (simp_all add: conn_ok_def newConn_def)

text \<open>
  C19. The queues of a connection stay within their bounds through every life of it, whatever the
  peer and the Torrent send and whichever writes fail: never more than 20 block requests in flight,
  never more of the peer's requests stored than announced, never more than 5 metadata requests,
  none of them twice; also in the state a failing turn leaves to \<open>close\<close>.
\<close>

theorem conn_bounds:
  assumes "conn_reachable k c"
  shows "conn_ok k c \<and> conn_ok k (fst (turn k ev c))"
  using reachable_conn_ok [OF assms] turn_conn_ok by blast

section \<open>What is uploaded\<close>

text \<open>What a turn that uploads has done since the state \<open>c0\<close>, and any other turn.\<close>

definition uploaded :: "'bm cfg \<Rightarrow> 'bm conn \<Rightarrow> 'bm conn \<Rightarrow> bool" where
  "uploaded k c0 c \<longleftrightarrow>
     sh_storage c = sh_storage c0 \<and> set (peerReqs c) \<subseteq> set (peerReqs c0) \<and>
     (\<exists>ms. c_out c = c_out c0 @ ms \<and>
       (\<forall>m \<in> set ms. Kind m = PieceKind \<longrightarrow>
          (\<exists>r \<in> set (peerReqs c0). \<exists>d. m = pieceMsg r d \<and> answers k (sh_storage c0) r d)))"

definition no_upload :: "'bm conn \<Rightarrow> 'bm conn \<Rightarrow> bool" where
  "no_upload c0 c \<longleftrightarrow> (\<exists>ms. c_out c = c_out c0 @ ms \<and> (\<forall>m \<in> set ms. Kind m \<noteq> PieceKind))"

interpretation up: conn_upload "uploaded k c0" k for k c0
  by unfold_locales (fastforce simp: uploaded_def same_def)+

interpretation nu: conn_peer "no_upload c0" for c0
  by unfold_locales (auto simp: no_upload_def same_def)

lemma upload_loop_silent:
  "\<not> (c_haveInfo c \<and> canUpload (c_state c)) \<Longrightarrow> c_out (fst (upload_loop k rs c)) = c_out c"
proof (induction rs arbitrary: c)
  case (Cons r rs)
  let ?c = "c\<lparr>peerReqs := removeAll r (peerReqs c)\<rparr>"
  have "upload_one k r c = (?c\<lparr>c_ban := True\<rparr>, Error CNoInfoRequest) \<or> upload_one k r c = (?c, Return ())"
    using Cons.prems by (auto simp: upload_one_def Let_def)
  with Cons.IH [of c] Cons.IH [of ?c] Cons.prems show ?case by (auto simp: andthen_def)
qed simp

lemma turn_uploads:
  "\<exists>ms. c_out (fst (turn k ev c)) = c_out c @ ms \<and>
    (\<forall>m \<in> set ms. Kind m = PieceKind \<longrightarrow> c_haveInfo c \<and> canUpload (c_state c) \<and>
       (\<exists>r \<in> set (peerReqs c). \<exists>d. m = pieceMsg r d \<and> answers k (sh_storage c) r d))"
proof (cases "\<exists>msg. ev = FromPeer msg \<and> Kind msg = RequestKind")
  case True
  then have t: "turn k ev c = upload k c" by (auto simp: turn_def onPeerMsg_def)
  show ?thesis
  proof (cases "c_haveInfo c \<and> canUpload (c_state c)")
    case True
    have "uploaded k c c" by (simp add: uploaded_def)
    from keepsD [OF up.upload_keeps this] True t show ?thesis by (auto simp: uploaded_def)
  qed (simp add: t upload_def upload_loop_silent)
next
  case False
  have 0: "no_upload c c" by (simp add: no_upload_def)
  have "no_upload c (fst (turn k ev c))"
    by (rule nu.turn_keeps [OF _ _ 0]) (use False in \<open>auto simp: readPeerMsg_def Let_def no_upload_def\<close>)
  then show ?thesis by (auto simp: no_upload_def)
qed

lemma answers_verified:
  assumes "storage_ok (k_env k) (k_dir k) (k_info k)" "of_wire r" "answers k st r d" "0 < bl_len r"
  shows "is_verified st (bl_pc r) \<and> int (length d) = bl_len r \<and>
    (\<forall>j < length d. byte_at (fileInfoName (k_dir k) (k_info k)) (st_fs st) (FilesInfo (k_info k))
       (bl_pc r * id_pieceLen (k_info k) + bl_off r + int j) = Some (d ! j))"
proof -
  let ?P = "id_pieceLen (k_info k)" and ?o = "bl_pc r * id_pieceLen (k_info k) + bl_off r"
  have st: "file_storage (k_env k) (k_dir k) (k_info k)" using assms(1) by (rule file_storage.intro)
  have P: "0 < ?P" "?P \<le> 2 ^ 31 - 1" using assms(1) by (auto simp: storage_ok_def info_ok_def)
  have r: "0 \<le> bl_pc r" "bl_pc r \<le> 2 ^ 32 - 1" "0 \<le> bl_off r" using assms(2) by (auto simp: of_wire_def)
  obtain plen where plen: "pieceLen (k_info k) (k_length k) (bl_pc r) = Return plen" "bl_off r + bl_len r \<le> plen"
    "t_readBlock k st (nat (bl_len r)) (bl_pc r) (bl_off r) = Return (d, None)"
    using assms(3) by (auto simp: answers_def)
  then have off: "bl_off r < ?P" using P(1) assms(4) go_rem_less [OF P(1), of "k_length k"]
    by (auto simp: pieceLen_def split: if_splits)
  have "bl_pc r * ?P \<le> (2 ^ 32 - 1) * (2 ^ 31 - 1)" using P r by (intro mult_mono) auto
  moreover have "0 \<le> bl_pc r * ?P" using P(1) r(1) by simp
  ultimately have o: "0 \<le> ?o" "go_int ?o = ?o" using off P(2) r(3) by (simp_all add: go_int_id)
  have "?o div ?P = bl_pc r" using off r(3) P(1) by (simp add: div_pos_pos_trivial)
  moreover have "0 < nat (bl_len r)" using assms(4) by simp
  ultimately show ?thesis
    using file_storage.ReadBlock_iff [OF st o(1), of "nat (bl_len r)" st d] plen(3) assms(4)
    by (simp add: t_readBlock_def o(2))
qed

text \<open>
  C16. Only what was asked for and verified leaves the client: a piece message is sent in a turn only
  when the peer is interested and not choked and the info dictionary is known, it answers one of the
  peer's stored requests, is at most 16 KiB long, and carries the bytes the files have at that place
  of a piece whose hash was verified.
\<close>

theorem uploads_verified:
  assumes "conn_reachable k c" "storage_ok (k_env k) (k_dir k) (k_info k)"
    "c_out (fst (turn k ev c)) = c_out c @ ms" "m \<in> set ms" "Kind m = PieceKind"
  shows "c_haveInfo c \<and> canUpload (c_state c) \<and>
    (\<exists>r \<in> set (peerReqs c). \<exists>d. m = pieceMsg r d \<and> bl_len r \<le> maxRequestBlockSz \<and>
       (0 < bl_len r \<longrightarrow> is_verified (sh_storage c) (bl_pc r) \<and> int (length d) = bl_len r \<and>
         (\<forall>j < length d. byte_at (fileInfoName (k_dir k) (k_info k)) (st_fs (sh_storage c)) (FilesInfo (k_info k))
            (bl_pc r * id_pieceLen (k_info k) + bl_off r + int j) = Some (d ! j))))"
proof -
  obtain ms' where "c_out (fst (turn k ev c)) = c_out c @ ms'" "\<forall>m \<in> set ms'. Kind m = PieceKind \<longrightarrow>
      c_haveInfo c \<and> canUpload (c_state c) \<and> (\<exists>r \<in> set (peerReqs c). \<exists>d. m = pieceMsg r d \<and> answers k (sh_storage c) r d)"
    using turn_uploads by blast
  with assms(3-5) obtain r d where u: "c_haveInfo c" "canUpload (c_state c)" "r \<in> set (peerReqs c)" "m = pieceMsg r d"
    "answers k (sh_storage c) r d" by auto
  have "of_wire r" using reachable_conn_ok [OF assms(1)] u(3) by (auto simp: conn_ok_def list_all_iff)
  from answers_verified [OF assms(2) this u(5)] u show ?thesis by (auto simp: answers_def)
qed

text \<open>A connection that went through five turns: the info is known, a piece is announced, the peer unchoked, interested and asking.\<close>

definition ex_cfg :: "int list cfg" where
  "ex_cfg = \<lparr>k_bm = list_bitmap, k_sort = (\<lambda>less xs. xs), k_coin = (\<lambda>i j. False), k_shuffle = (\<lambda>xs. xs), k_env = ex_env,
     k_dir = [47, 100], k_info = ex_files, k_length = 7, k_blockSize = 4, k_reserved = replicate 8 0, k_reqq = 250, k_ip = []\<rparr>"

definition ex_run :: "int list event list" where
  "ex_run = [FromTorrent THaveInfo, FromTorrent (TBitmap [0]), FromTorrent (TMsg (new_Msg\<lparr>Kind := Unchoke\<rparr>)),
     FromPeer (new_Msg\<lparr>Kind := Interested\<rparr>), Reader (new_Msg\<lparr>Kind := RequestKind, Len := 4\<rparr>)]"

fun conn_run :: "'bm cfg \<Rightarrow> 'bm event list \<Rightarrow> 'bm conn \<Rightarrow> 'bm conn option" where
  "conn_run k [] c = Some c"
| "conn_run k (ev # evs) c = (case turn k ev c of (c', Return _) \<Rightarrow> conn_run k evs c' | _ \<Rightarrow> None)"

lemma conn_run_reachable: "conn_reachable k c \<Longrightarrow> conn_run k evs c = Some c' \<Longrightarrow> conn_reachable k c'"
  by (induction evs arbitrary: c) (auto split: prod.splits outcome.splits intro: took)

definition ex_conn :: "int list conn" where
  "ex_conn = the (conn_run ex_cfg ex_run (newConn list_bitmap (replicate 8 0)
     \<lparr>ownedPieces = [], pcs = [], selector = nextRand, endGame = False, ps_downloadEnabled = False\<rparr> uts_new ex_storage))"

lemma ex_conn_reachable: "conn_reachable ex_cfg ex_conn"
proof -
  let ?c = "newConn (k_bm ex_cfg) (replicate 8 0)
     \<lparr>ownedPieces = [], pcs = [], selector = nextRand, endGame = False, ps_downloadEnabled = False\<rparr> uts_new ex_storage"
  have "conn_run ex_cfg ex_run ?c \<noteq> None" by code_simp
  then have "conn_run ex_cfg ex_run ?c = Some ex_conn" by (auto simp: ex_conn_def ex_cfg_def)
  then show ?thesis by (rule conn_run_reachable [OF conn_reachable.start])
qed

theorem conn_bounds_witness: "conn_ok ex_cfg ex_conn \<and> length (peerReqs ex_conn) = 1"
proof -
  have "length (peerReqs ex_conn) = 1" by code_simp
  with conn_bounds [OF ex_conn_reachable] show ?thesis by blast
qed

theorem uploads_verified_witness:
  "\<exists>m. c_out (fst (turn ex_cfg (FromPeer (new_Msg\<lparr>Kind := RequestKind, Len := 4\<rparr>)) ex_conn)) = c_out ex_conn @ [m] \<and>
     Kind m = PieceKind \<and> canUpload (c_state ex_conn)"
proof -
  let ?ev = "FromPeer (new_Msg\<lparr>Kind := RequestKind, Len := 4\<rparr>)" and ?m = "pieceMsg \<lparr>bl_pc = 0, bl_off = 0, bl_len = 4\<rparr> [1, 2, 3, 4]"
  have m: "c_out (fst (turn ex_cfg ?ev ex_conn)) = c_out ex_conn @ [?m]" by code_simp
  have "storage_ok (k_env ex_cfg) (k_dir ex_cfg) (k_info ex_cfg)" using ex_fs.storage_ok by (simp add: ex_cfg_def)
  from uploads_verified [OF ex_conn_reachable this m] m show ?thesis by (auto simp: pieceMsg_def)
qed

section \<open>Messages that crash the client\<close>

text \<open>
  The finding on piece indices in \<open>have\<close> messages: nothing checks the index a peer sends,
  so any peer of a downloading client ends the whole process with a \<open>have\<close> message for a
  piece the torrent does not have.
\<close>

lemma have_index_panics:
  assumes "c_haveInfo c" "\<not> amSeeding k c" "Kind msg = Have" "\<not> bm_get (k_bm k) (c_peerBf c) (uint (Index msg))"
    "int (length (pcs (sh_pieces c))) \<le> uint (Index msg)"
  shows "snd (turn k (FromPeer msg) c) = Panic IndexOutOfRange"
  using assms
  by (simp add: turn_def onPeerMsg_def onHaveMsg_def Let_def notUseful_def amSeeding_def onHave_def upd_piece_def)

lemma have_index_panics_witness:
  "snd (turn ex_cfg (FromPeer (new_Msg\<lparr>Kind := Have, Index := 2\<rparr>)) (ex_conn\<lparr>sh_pieces := (sh_pieces ex_conn)\<lparr>pcs := []\<rparr>\<rparr>)) =
     Panic IndexOutOfRange"
  by (rule have_index_panics) code_simp+

text \<open>
  The finding on metadata requests: a negative piece number passes the only test and the slice
  expression of \<open>readBlock\<close> panics.
\<close>

lemma metadata_request_panics:
  assumes "c_haveInfo c" "c_exts c \<noteq> None" "sh_uts c = \<lparr>uts_m = [(sz, u)], correctSize = sz\<rparr>" "sz \<noteq> 0"
    "0 \<le> ut_numPieces u" "numMetadataRespSent c \<le> 3 * ut_numPieces u"
    "Kind msg = Extended" "ExtendedMsg msg = MetadataExt v" "md_Kind v = MetadataReqID" "md_Piece v < 0" "- (2 ^ 40) \<le> md_Piece v"
  shows "snd (turn k (FromPeer msg) c) = Panic SliceBounds"
proof -
  have "go_int (md_Piece v * metadataPieceSz) = md_Piece v * metadataPieceSz"
    using assms(10,11) by (intro go_int_id) (simp_all add: metadataPieceSz_def)
  then have "uts_readBlock \<lparr>uts_m = [(sz, u)], correctSize = sz\<rparr> b (md_Piece v) = (b, Panic SliceBounds)" for b
    using assms(5,10) by (simp add: uts_readBlock_def ut_readBlock_def Let_def metadataPieceSz_def)
  with assms show ?thesis
    by (auto simp: turn_def onPeerMsg_def swallow_def onExtended_def onMetadataReq_def andthen_def uts_correct_def Let_def)
qed

end
