(* ===== verification/Conn_Write.thy ===== *)
theory Conn_Write
  imports Conn_Theorems Wire_Correct "HOL-Library.Sublist"
begin

text \<open>
  How a connection writes (\<open>sendMsgToPeer\<close> and \<open>flushWriter\<close> of \<open>torrent/conn.go\<close>): messages go
  through a \<open>bufio.Writer\<close> of the default size, which is flushed at the end of every turn of the main
  loop, and the keep-alive timer is set again by a flush. \<open>Conn\<close> records the messages a handler hands
  over; here they become bytes on the socket. The writer refines the stream of the encoded messages:
  whatever the socket answers, the bytes sent are a prefix of the stream, and after a turn without
  write error they are the stream, so that the peer decodes the messages in the order they were sent.
\<close>

section \<open>The buffered writer\<close>

text \<open>
  \<open>bw_net\<close> holds the answers of the socket: \<open>Some n\<close> is a write that fails after \<open>n\<close> bytes, any other
  write takes all bytes. \<open>bw_sock\<close> is what the socket took. The error of the writer is sticky.
  \<open>bw_timer\<close> is the keep-alive timer: \<open>None\<close> before the main loop created it, otherwise whether it
  will fire again (a timer that fired is not running until it is reset).
\<close>

record bwriter =
  bw_buf :: bytes
  bw_err :: bool
  bw_sock :: bytes
  bw_net :: "nat option list"
  bw_timer :: "bool option"

definition bufSize :: nat where "bufSize = 4096"

definition NewWriter :: "nat option list \<Rightarrow> bwriter" where
  "NewWriter net = \<lparr>bw_buf = [], bw_err = False, bw_sock = [], bw_net = net, bw_timer = None\<rparr>"

definition Available :: "bwriter \<Rightarrow> nat" where
  "Available w = bufSize - length (bw_buf w)"

text \<open>\<open>net.Conn.Write\<close>: the writer, and how many bytes were taken; a failure sets the writer's error.\<close>

definition sock_write :: "bytes \<Rightarrow> bwriter \<Rightarrow> bwriter \<times> nat" where
  "sock_write p w =
     (case bw_net w of
        Some n # ns \<Rightarrow> (w\<lparr>bw_net := ns, bw_sock := bw_sock w @ take n p, bw_err := True\<rparr>, min n (length p))
      | ns \<Rightarrow> (w\<lparr>bw_net := tl ns, bw_sock := bw_sock w @ p\<rparr>, length p))"

definition bw_Flush :: "bwriter \<Rightarrow> bwriter" where
  "bw_Flush w =
     (if bw_err w \<or> bw_buf w = [] then w
      else case sock_write (bw_buf w) w of (w', n) \<Rightarrow> w'\<lparr>bw_buf := drop n (bw_buf w)\<rparr>)"

lemma sock_write_fields [simp]:
  "sock_write p w = (w', n) \<Longrightarrow> bw_buf w' = bw_buf w \<and> bw_timer w' = bw_timer w \<and> n \<le> length p \<and>
     bw_sock w' = bw_sock w @ take n p \<and> (\<not> bw_err w' \<longrightarrow> n = length p)"
  by (auto simp: sock_write_def min_def split: list.splits option.splits)

lemma bw_Flush_fields:
  "bw_sock (bw_Flush w) @ bw_buf (bw_Flush w) = bw_sock w @ bw_buf w"
  "length (bw_buf (bw_Flush w)) \<le> length (bw_buf w)"
  "bw_timer (bw_Flush w) = bw_timer w"
  "bw_err w \<Longrightarrow> bw_Flush w = w"
  "\<not> bw_err (bw_Flush w) \<Longrightarrow> bw_buf (bw_Flush w) = []"
  by (auto simp: bw_Flush_def dest: sock_write_fields split: prod.splits)

text \<open>\<open>bufio.Writer.Write\<close>: the writer and the number of bytes taken.\<close>

function bw_Write :: "bytes \<Rightarrow> nat \<Rightarrow> bwriter \<Rightarrow> bwriter \<times> nat" where
  "bw_Write p nn w =
     (if length p > Available w \<and> \<not> bw_err w
      then if bw_buf w = []
           then (case sock_write p w of (w', n) \<Rightarrow> bw_Write (drop n p) (nn + n) w')
           else bw_Write (drop (Available w) p) (nn + Available w)
                  (bw_Flush (w\<lparr>bw_buf := bw_buf w @ take (Available w) p\<rparr>))
      else if bw_err w then (w, nn)
      else (w\<lparr>bw_buf := bw_buf w @ p\<rparr>, nn + length p))"
  by auto

termination
proof (relation "measure (\<lambda>(p, nn, w). length p + length (bw_buf w) + (if bw_err w then 0 else 1))", simp)
  fix p :: bytes and nn w w' n
  assume "length p > Available w \<and> \<not> bw_err w" "bw_buf w = []" "(w', n) = sock_write p w"
  then show "((drop n p, nn + n, w'), p, nn, w) \<in> measure (\<lambda>(p, nn, w). length p + length (bw_buf w) + (if bw_err w then 0 else 1))"
    using sock_write_fields [of p w w' n] by (cases "bw_err w'") auto
next
  fix p :: bytes and nn w
  let ?w = "w\<lparr>bw_buf := bw_buf w @ take (Available w) p\<rparr>"
  assume a: "length p > Available w \<and> \<not> bw_err w" "bw_buf w \<noteq> []"
  then show "((drop (Available w) p, nn + Available w, bw_Flush ?w), p, nn, w) \<in>
      measure (\<lambda>(p, nn, w). length p + length (bw_buf w) + (if bw_err w then 0 else 1))"
    using bw_Flush_fields(2,5) [of ?w] length_greater_0_conv [of "bw_buf w"]
    by (cases "bw_err (bw_Flush ?w)") (auto simp del: length_greater_0_conv)
qed

declare bw_Write.simps [simp del]

section \<open>Sending and flushing\<close>

text \<open>\<open>Buffered() > limit\<close> with a limit of 64 KiB.\<close>

definition sendLimit :: nat where "sendLimit = 2 ^ 16"

definition flushWriter :: "bwriter \<Rightarrow> bwriter \<times> (conn_err, unit) outcome" where
  "flushWriter w =
     (if bw_buf w = [] then (w, Return ())
      else let w1 = (if bw_timer w = None then w else w\<lparr>bw_timer := Some True\<rparr>);
               w2 = bw_Flush w1
           in (w2, if bw_err w2 then Error CWrite else Return ()))"

definition writeMsg :: "Msg \<Rightarrow> bool \<Rightarrow> bwriter \<Rightarrow> bwriter \<times> (conn_err, unit) outcome" where
  "writeMsg msg mustFlush w =
     (case msg_Encode msg of
        Panic p \<Rightarrow> (w, Panic p)
      | Error e \<Rightarrow> (w, Panic (PanicMsg ''encode''))
      | Return b \<Rightarrow>
          (case bw_Write b 0 w of
             (w1, n) \<Rightarrow>
               if bw_err w1 then (w1, Error CWrite)
               else if length (bw_buf w1) > sendLimit \<or> mustFlush then flushWriter w1
               else (w1, Return ())))"

text \<open>
  What a connection does to its writer: messages, the flush at the end of a turn, the timer that is
  created by the main loop and the timer that fires. An error does not stop the sequence, because
  some handlers drop the error of a write and go on; a panic does.
\<close>

datatype wop = Send Msg bool | Flush | NewTimer | TimerFires

fun write_op :: "wop \<Rightarrow> bwriter \<Rightarrow> bwriter \<times> (conn_err, unit) outcome" where
  "write_op (Send m f) w = writeMsg m f w"
| "write_op Flush w = flushWriter w"
| "write_op NewTimer w = (w\<lparr>bw_timer := Some True\<rparr>, Return ())"
| "write_op TimerFires w = (w\<lparr>bw_timer := map_option (\<lambda>_. False) (bw_timer w)\<rparr>, Return ())"

fun write_ops :: "wop list \<Rightarrow> bwriter \<Rightarrow> bwriter" where
  "write_ops [] w = w"
| "write_ops (x # xs) w =
     (case write_op x w of (w', Panic p) \<Rightarrow> w' | (w', _) \<Rightarrow> write_ops xs w')"

text \<open>The abstract stream: the encodings of the messages, up to one that cannot be encoded.\<close>

fun op_msgs :: "wop list \<Rightarrow> Msg list" where
  "op_msgs [] = []"
| "op_msgs (Send m f # xs) = m # op_msgs xs"
| "op_msgs (x # xs) = op_msgs xs"

section \<open>The writer refines the stream\<close>

definition wr_ok :: "bwriter \<Rightarrow> bool" where
  "wr_ok w \<longleftrightarrow> length (bw_buf w) \<le> bufSize"

text \<open>\<open>extends s w w'\<close>: going from \<open>w\<close> to \<open>w'\<close> puts at most the bytes \<open>s\<close> behind what \<open>w\<close> holds, and without error all of them.\<close>

definition extends :: "bytes \<Rightarrow> bwriter \<Rightarrow> bwriter \<Rightarrow> bool" where
  "extends s w w' \<longleftrightarrow> wr_ok w' \<and> prefix (bw_sock w) (bw_sock w') \<and> (bw_err w \<longrightarrow> bw_err w' \<and> bw_sock w' = bw_sock w) \<and>
     prefix (bw_sock w') (bw_sock w @ bw_buf w @ s) \<and> (\<not> bw_err w' \<longrightarrow> bw_sock w' @ bw_buf w' = bw_sock w @ bw_buf w @ s)"

lemma extends_refl: "wr_ok w \<Longrightarrow> extends [] w w"
  by (simp add: extends_def)

lemma extends_more: "extends s w w' \<Longrightarrow> bw_err w' \<Longrightarrow> extends (s @ s') w w'"
  using prefix_prefix [of "bw_sock w'" "bw_sock w @ bw_buf w @ s" s'] by (simp add: extends_def)

lemma extends_trans:
  assumes "extends s w w'" "extends s' w' w''"
  shows "extends (s @ s') w w''"
proof (cases "bw_err w'")
  case True
  with assms(2) have e: "bw_err w''" "bw_sock w'' = bw_sock w'" "wr_ok w''" by (auto simp: extends_def)
  from extends_more [OF assms(1) True, of s'] e show ?thesis by (simp add: extends_def)
next
  case False
  with assms have "bw_sock w' @ bw_buf w' = bw_sock w @ bw_buf w @ s" "\<not> bw_err w" by (auto simp: extends_def)
  then have "bw_sock w' @ bw_buf w' @ s' = bw_sock w @ bw_buf w @ s @ s'" by (metis append_assoc)
  with assms \<open>\<not> bw_err w\<close> show ?thesis unfolding extends_def by (metis prefix_order.trans)
qed

lemma extends_flush: "wr_ok w \<Longrightarrow> extends [] w (bw_Flush w)"
proof -
  assume "wr_ok w"
  have "prefix (bw_sock w) (bw_sock (bw_Flush w))"
    by (auto simp: bw_Flush_def dest: sock_write_fields split: prod.splits)
  with \<open>wr_ok w\<close> bw_Flush_fields [of w] show ?thesis
    by (auto simp: extends_def wr_ok_def prefix_def) (metis)+
qed

lemma extends_fill:
  assumes "wr_ok w" "\<not> bw_err w" "length p \<le> Available w"
  shows "extends p w (w\<lparr>bw_buf := bw_buf w @ p\<rparr>)"
  using assms by (auto simp: extends_def wr_ok_def Available_def)

lemma extends_sock:
  assumes "wr_ok w" "\<not> bw_err w" "bw_buf w = []" "sock_write p w = (w', n)"
  shows "extends (take n p) w w' \<and> (\<not> bw_err w' \<longrightarrow> n = length p)"
  using assms sock_write_fields [OF assms(4)] by (auto simp: extends_def wr_ok_def)

lemma extends_timer: "extends s w w' \<Longrightarrow> extends s w (w'\<lparr>bw_timer := t\<rparr>)"
  by (simp add: extends_def wr_ok_def)

lemma bw_Write_extends: "wr_ok w \<Longrightarrow> extends p w (fst (bw_Write p nn w))"
proof (induction p nn w rule: bw_Write.induct)
  case (1 p nn w)
  let ?a = "Available w"
  let ?f = "w\<lparr>bw_buf := bw_buf w @ take ?a p\<rparr>"
  consider "bw_err w" | "\<not> bw_err w" "length p \<le> ?a" | "\<not> bw_err w" "length p > ?a" "bw_buf w = []"
    | "\<not> bw_err w" "length p > ?a" "bw_buf w \<noteq> []" by linarith
  then show ?case
  proof cases
    case 1
    with \<open>wr_ok w\<close> show ?thesis by (subst bw_Write.simps) (auto intro: extends_more [OF extends_refl, of w p, simplified])
  next
    case 2
    then show ?thesis using extends_fill [OF \<open>wr_ok w\<close>] by (subst bw_Write.simps) simp
  next
    case 3
    obtain w' n where s: "sock_write p w = (w', n)" by fastforce
    from extends_sock [OF \<open>wr_ok w\<close> 3(1,3) s] have e: "extends (take n p) w w'" "wr_ok w'"
      by (auto simp: extends_def)
    have "extends (drop n p) w' (fst (bw_Write (drop n p) (nn + n) w'))"
      using "1.IH"(1) [OF _ 3(3) s [symmetric]] 3 e by simp
    from extends_trans [OF e(1) this] 3 s show ?thesis by (subst bw_Write.simps) simp
  next
    case 4
    have f: "extends (take ?a p) w ?f" using 4 by (intro extends_fill) (simp_all add: \<open>wr_ok w\<close>)
    have e: "extends (take ?a p) w (bw_Flush ?f)"
      using extends_trans [OF f extends_flush] f by (simp add: extends_def)
    then have "extends (drop ?a p) (bw_Flush ?f) (fst (bw_Write (drop ?a p) (nn + ?a) (bw_Flush ?f)))"
      using "1.IH"(2) [OF _ 4(3)] 4 by (simp add: extends_def)
    from extends_trans [OF e this] 4 show ?thesis by (subst bw_Write.simps) simp
  qed
qed

lemma flushWriter_extends:
  assumes "wr_ok w" "flushWriter w = (w', r)"
  shows "extends [] w w' \<and> (\<not> bw_err w' \<longrightarrow> bw_buf w' = [])"
proof -
  let ?w = "w\<lparr>bw_timer := Some True\<rparr>"
  have "extends [] w x" if "extends [] ?w x" for x using that by (simp add: extends_def)
  then have "extends [] w (bw_Flush ?w)" "extends [] w (bw_Flush w)"
    using assms extends_flush [of w] extends_flush [of ?w] by (auto simp: wr_ok_def)
  with assms extends_refl bw_Flush_fields(5) show ?thesis
    by (auto simp: flushWriter_def Let_def split: if_splits)
qed


lemma writeMsg_extends:
  assumes "wr_ok w" "writeMsg m f w = (w', r)" "msg_Encode m = Return b"
  shows "extends b w w' \<and> (f \<longrightarrow> \<not> bw_err w' \<longrightarrow> bw_buf w' = [])"
proof -
  obtain w1 n where b: "bw_Write b 0 w = (w1, n)" by fastforce
  with bw_Write_extends [OF assms(1), of b 0] have e: "extends b w w1" "wr_ok w1" by (simp_all add: extends_def)
  obtain w2 r2 where fl: "flushWriter w1 = (w2, r2)" by fastforce
  note x = flushWriter_extends [OF e(2) fl]
  have "extends b w w2" using extends_trans [OF e(1), of "[]" w2] x by simp
  with assms b e fl x show ?thesis by (auto simp: writeMsg_def split: if_splits)
qed

lemma write_op_panic: "write_op x w = (w', Panic p) \<Longrightarrow> w' = w \<and> (\<exists>m f. x = Send m f \<and> (\<forall>b. msg_Encode m \<noteq> Return b))"
  by (cases x) (auto simp: writeMsg_def flushWriter_def Let_def split: outcome.splits prod.splits if_splits)

lemma write_ops_extends: "wr_ok w \<Longrightarrow> extends (encode_all (op_msgs xs)) w (write_ops xs w)"
proof (induction xs arbitrary: w)
  case Nil
  then show ?case by (simp add: extends_refl)
next
  case (Cons x xs)
  obtain w1 r where x: "write_op x w = (w1, r)" by fastforce
  let ?s = "case x of Send m f \<Rightarrow> (case msg_Encode m of Return b \<Rightarrow> b | _ \<Rightarrow> []) | _ \<Rightarrow> []"
  show ?case
  proof (cases "\<exists>p. r = Panic p")
    case True
    with x write_op_panic [of x w w1] show ?thesis
      by (auto simp: extends_refl Cons.prems split: outcome.splits)
  next
    case False
    then have enc: "x = Send m f \<Longrightarrow> \<exists>b. msg_Encode m = Return b" for m f
      using x by (auto simp: writeMsg_def split: outcome.splits)
    have e: "extends ?s w w1"
    proof (cases x)
      case (Send m f)
      with enc obtain b where "msg_Encode m = Return b" by blast
      with writeMsg_extends [OF Cons.prems] Send x show ?thesis by auto
    next
      case Flush
      with flushWriter_extends [OF Cons.prems] x show ?thesis by auto
    qed (use x extends_timer [OF extends_refl [OF Cons.prems]] in auto)
    have m: "encode_all (op_msgs (x # xs)) = ?s @ encode_all (op_msgs xs)"
      using enc by (cases x) fastforce+
    have "wr_ok w1" using e by (simp add: extends_def)
    from extends_trans [OF e Cons.IH [OF this]] False x show ?thesis
      unfolding m by (auto split: outcome.splits)
  qed
qed

lemma wr_ok_new: "wr_ok (NewWriter net)"
  by (simp add: wr_ok_def NewWriter_def)

text \<open>
  C32. The buffered writer refines the stream of messages: whatever messages a connection sends,
  wherever it flushes and however the socket fails, the bytes on the socket are a prefix of the
  encodings of the messages in the order they were sent, never reordered, repeated or with a hole,
  also when a handler goes on after a failed write; as long as no write failed the rest of the stream
  is exactly what the buffer holds; and the buffer never holds more than its 4096 bytes, so the limit
  of 64 KiB that \<open>sendMsgToPeer\<close> tests is never reached.
\<close>

theorem writer_refines_stream:
  "let w = write_ops ops (NewWriter net) in
   prefix (bw_sock w) (encode_all (op_msgs ops)) \<and>
   (\<not> bw_err w \<longrightarrow> bw_sock w @ bw_buf w = encode_all (op_msgs ops)) \<and>
   length (bw_buf w) \<le> bufSize \<and> bufSize < sendLimit"
  using write_ops_extends [OF wr_ok_new, of ops net]
  by (simp add: extends_def Let_def wr_ok_def NewWriter_def bufSize_def sendLimit_def)

text \<open>A have message is flushed, an interested message waits, and the socket then fails after two bytes.\<close>

theorem writer_refines_stream_witness:
  "let ops = [Send (new_Msg\<lparr>Kind := Have, Index := 7\<rparr>) True, Send (new_Msg\<lparr>Kind := Interested\<rparr>) False];
       w = write_ops ops (NewWriter []); w' = write_ops (ops @ [Flush]) (NewWriter [None, Some 2])
   in \<not> bw_err w \<and> bw_buf w = [0, 0, 0, 1, 2] \<and> bw_sock w @ bw_buf w = encode_all (op_msgs ops) \<and>
      bw_sock w' = [0, 0, 0, 5, 4, 0, 0, 0, 7, 0, 0] \<and> prefix (bw_sock w') (encode_all (op_msgs (ops @ [Flush])))"
proof -
  let ?ops = "[Send (new_Msg\<lparr>Kind := Have, Index := 7\<rparr>) True, Send (new_Msg\<lparr>Kind := Interested\<rparr>) False]"
  let ?w = "write_ops ?ops (NewWriter [])" and ?w' = "write_ops (?ops @ [Flush]) (NewWriter [None, Some 2])"
  have "\<not> bw_err ?w \<and> bw_buf ?w = [0, 0, 0, 1, 2]" by code_simp
  moreover have "bw_sock ?w' = [0, 0, 0, 5, 4, 0, 0, 0, 7, 0, 0]" by code_simp
  ultimately show ?thesis
    using writer_refines_stream [of ?ops "[]"] writer_refines_stream [of "?ops @ [Flush]" "[None, Some 2]"]
    unfolding Let_def by blast
qed

section \<open>The main loop over the writer\<close>

text \<open>
  A turn of the main loop: the handler's messages go to the writer, which is flushed when the handler
  succeeded. The step of the reader goroutine is not a turn.
\<close>

definition new_msgs :: "'bm conn \<Rightarrow> 'bm conn \<Rightarrow> Msg list" where
  "new_msgs c c' = drop (length (c_out c)) (c_out c')"

definition loop_turn :: "'bm cfg \<Rightarrow> 'bm event \<Rightarrow> 'bm conn \<times> bwriter \<Rightarrow> ('bm conn \<times> bwriter) \<times> (conn_err, unit) outcome" where
  "loop_turn k ev s =
     (case s of (c, w) \<Rightarrow>
      case turn k ev c of (c', x) \<Rightarrow>
        let w0 = (case ev of KeepAliveFires \<Rightarrow> fst (write_op TimerFires w) | _ \<Rightarrow> w);
            w1 = write_ops (map (\<lambda>m. Send m False) (new_msgs c c')) w0
        in (case (ev, x) of
              (Reader m, _) \<Rightarrow> ((c', w1), x)
            | (_, Return _) \<Rightarrow> (case flushWriter w1 of (w2, y) \<Rightarrow> ((c', w2), y))
            | _ \<Rightarrow> ((c', w1), x)))"

fun main_run :: "'bm cfg \<Rightarrow> 'bm event list \<Rightarrow> 'bm conn \<times> bwriter \<Rightarrow> ('bm conn \<times> bwriter) \<times> (conn_err, unit) outcome" where
  "main_run k [] s = (s, Return ())"
| "main_run k (ev # evs) s = (case loop_turn k ev s of (s', Return _) \<Rightarrow> main_run k evs s' | r \<Rightarrow> r)"

text \<open>What a new connection has sent, the extension handshake, was flushed; the loop creates the timer.\<close>

definition start_writer :: "'bm conn \<Rightarrow> nat option list \<Rightarrow> bwriter" where
  "start_writer c net = write_ops (map (\<lambda>m. Send m True) (c_out c) @ [NewTimer]) (NewWriter net)"

text \<open>No handler takes back a message.\<close>

interpretation sent: conn_upload "\<lambda>c. prefix ms (c_out c)" k for ms k
  by unfold_locales (auto simp: same_def)

interpretation sent: conn_peer "\<lambda>c. prefix ms (c_out c)" for ms
  by unfold_locales (auto simp: same_def)

lemma turn_out: "prefix (c_out c) (c_out (fst (turn k ev c)))"
  by (rule sent.turn_keeps) (auto simp: readPeerMsg_def Let_def intro: keepsD [OF sent.upload_keeps])

lemma new_msgs_turn: "turn k ev c = (c', x) \<Longrightarrow> c_out c' = c_out c @ new_msgs c c'"
  using turn_out [of c k ev] by (auto simp: new_msgs_def elim!: prefixE)

text \<open>Between two turns the socket has the encodings of everything sent, unless a write failed.\<close>

definition in_sync :: "'bm conn \<times> bwriter \<Rightarrow> bool" where
  "in_sync s \<longleftrightarrow> wr_ok (snd s) \<and>
     (\<not> bw_err (snd s) \<longrightarrow> bw_buf (snd s) = [] \<and> bw_sock (snd s) = encode_all (map heard (c_out (fst s))))"

text \<open>A message that the peer can read: one that the wire can carry, or the own extension handshake.\<close>

definition sendable :: "Msg \<Rightarrow> bool" where
  "sendable m \<longleftrightarrow> msg_ok m \<or> (\<exists>sz. fits_signed 64 sz \<and> m = extensionHandshakeMsg sz)"

lemma sendable_heard:
  assumes "sendable m"
  shows "msg_ok (heard m)" "msg_Encode (heard m) = msg_Encode m" "\<exists>b. msg_Encode m = Return b"
proof -
  have own: "heard m = m" if ok: "msg_ok m"
  proof (cases "Kind m = Extended")
    case True
    with ok show ?thesis by (auto simp: msg_ok_def heard_def split: ext_msg.splits)
  next
    case False
    have "known_kind (Kind m)" using ok by (simp add: msg_ok_def)
    from kinds [OF this] False have "ExtendedMsg (canon m) = ExtendedMsg new_Msg"
      unfolding canon_def Let_def by auto
    with ok show ?thesis by (simp add: msg_ok_def heard_def new_Msg_def)
  qed
  show h: "msg_ok (heard m)" "msg_Encode (heard m) = msg_Encode m"
    using assms own own_heard by (auto simp: sendable_def)
  with wire.enc_ok show "\<exists>b. msg_Encode m = Return b" by metis
qed

lemma encode_all_append:
  "\<forall>m \<in> set ms. \<exists>b. msg_Encode m = Return b \<Longrightarrow> encode_all (ms @ ns) = encode_all ms @ encode_all ns"
  by (induction ms) auto

lemma encode_all_heard: "\<forall>m \<in> set ms. sendable m \<Longrightarrow> encode_all (map heard ms) = encode_all ms"
  by (induction ms) (auto simp: sendable_heard split: outcome.splits)

lemma start_writer_extends: "extends (encode_all (c_out c)) (NewWriter net) (start_writer c net)"
proof -
  have m: "op_msgs (map (\<lambda>m. Send m True) ms @ [NewTimer]) = ms" for ms by (induction ms) auto
  show ?thesis
    using write_ops_extends [OF wr_ok_new, of "map (\<lambda>m. Send m True) (c_out c) @ [NewTimer]" net]
    by (simp only: start_writer_def m)
qed

lemma in_sync_start:
  assumes "\<forall>m \<in> set (c_out c). sendable m"
  shows "in_sync (c, start_writer c net)"
proof -
  have flushed: "\<not> bw_err (write_ops (map (\<lambda>m. Send m True) ms @ [NewTimer]) w) \<Longrightarrow> wr_ok w \<Longrightarrow> bw_buf w = [] \<Longrightarrow>
      \<forall>m \<in> set ms. sendable m \<Longrightarrow> bw_buf (write_ops (map (\<lambda>m. Send m True) ms @ [NewTimer]) w) = []" for ms w
  proof (induction ms arbitrary: w)
    case (Cons m ms)
    obtain w1 r where x: "writeMsg m True w = (w1, r)" by fastforce
    obtain b where "msg_Encode m = Return b" using Cons.prems sendable_heard(3) by auto
    then have e: "extends b w w1" "\<not> bw_err w1 \<Longrightarrow> bw_buf w1 = []"
      and np: "write_ops (map (\<lambda>m. Send m True) (m # ms) @ [NewTimer]) w = write_ops (map (\<lambda>m. Send m True) ms @ [NewTimer]) w1"
      using writeMsg_extends [OF Cons.prems(2) x] write_op_panic [of "Send m True" w w1] x by (auto split: outcome.splits)
    have ok: "wr_ok w1" using e by (simp add: extends_def)
    then have "\<not> bw_err w1"
      using write_ops_extends [OF ok, of "map (\<lambda>m. Send m True) ms @ [NewTimer]"] Cons.prems(1) np
      by (auto simp: extends_def)
    with Cons ok e np show ?case by simp
  qed simp
  from start_writer_extends [of c net] show ?thesis
    using flushed [of "c_out c" "NewWriter net"] assms wr_ok_new
    by (simp add: in_sync_def start_writer_def extends_def encode_all_heard NewWriter_def)
qed

lemma op_msgs_turn [simp]: "op_msgs (map (\<lambda>m. Send m False) ms) = ms"
  by (induction ms) auto

text \<open>However a turn ends, the writer has gone on with the messages of the turn; a turn that succeeds ends with a flush.\<close>

lemma loop_turn_extends:
  assumes "wr_ok w" "loop_turn k ev (c, w) = ((c', w'), x)"
  shows "extends (encode_all (new_msgs c c')) w w' \<and> c_out c' = c_out c @ new_msgs c c' \<and>
    (\<forall>u. x = Return u \<longrightarrow> (\<forall>m. ev \<noteq> Reader m) \<longrightarrow> \<not> bw_err w' \<longrightarrow> bw_buf w' = [])"
proof -
  let ?w0 = "case ev of KeepAliveFires \<Rightarrow> fst (write_op TimerFires w) | _ \<Rightarrow> w"
  let ?w1 = "write_ops (map (\<lambda>m. Send m False) (new_msgs c c')) ?w0"
  obtain y where t: "turn k ev c = (c', y)"
    using assms(2) by (auto simp: loop_turn_def Let_def split: prod.splits event.splits outcome.splits)
  have w0: "wr_ok ?w0" "extends s ?w0 v = extends s w v" for s v
    using assms(1) by (auto simp: wr_ok_def extends_def split: event.splits)
  have e: "extends (encode_all (new_msgs c c')) w ?w1"
    using write_ops_extends [OF w0(1), of "map (\<lambda>m. Send m False) (new_msgs c c')"] w0(2) by simp
  then have w1: "wr_ok ?w1" unfolding extends_def by blast
  have "extends (encode_all (new_msgs c c')) w w'" if "flushWriter ?w1 = (w', z)" for z
    using extends_trans [OF e conjunct1 [OF flushWriter_extends [OF w1 that]]] by simp
  moreover have "w' = ?w1 \<or> (\<exists>z. flushWriter ?w1 = (w', z))"
    "x = Return u \<Longrightarrow> \<forall>m. ev \<noteq> Reader m \<Longrightarrow> \<exists>z. flushWriter ?w1 = (w', z)" for u
    using assms(2) t by (cases ev; cases y; auto simp: loop_turn_def Let_def split: prod.splits)+
  ultimately show ?thesis
    using e new_msgs_turn [OF t] flushWriter_extends [OF w1] by blast
qed

lemma encode_out:
  assumes "\<forall>m \<in> set (ms @ ns). sendable m"
  shows "encode_all (map heard (ms @ ns)) = encode_all (map heard ms) @ encode_all ns"
  using assms sendable_heard by (simp add: encode_all_append encode_all_heard)

lemma in_sync_turn:
  assumes "in_sync (c, w)" "loop_turn k ev (c, w) = ((c', w'), Return u)" "\<forall>m \<in> set (c_out c'). sendable m"
  shows "in_sync (c', w')"
proof -
  have ok: "wr_ok w" using assms(1) by (simp add: in_sync_def)
  note e = loop_turn_extends [OF ok assms(2)]
  have all: "encode_all (map heard (c_out c')) = encode_all (map heard (c_out c)) @ encode_all (new_msgs c c')"
    using e assms(3) encode_out by metis
  show ?thesis
  proof (cases "\<exists>m. ev = Reader m")
    case True
    then have "new_msgs c c' = []" "w' = w" "c_out c' = c_out c"
      using assms(2) by (auto simp: loop_turn_def turn_def readPeerMsg_def new_msgs_def Let_def split: if_splits)
    with assms(1) show ?thesis by (simp add: in_sync_def)
  next
    case False
    with e assms(1) all show ?thesis by (auto simp: in_sync_def extends_def)
  qed
qed

lemma loop_turn_out: "loop_turn k ev (c, w) = ((c', w'), r) \<Longrightarrow> prefix (c_out c) (c_out c')"
  using turn_out [of c k ev]
  by (auto simp: loop_turn_def Let_def split: prod.splits event.splits outcome.splits)

lemma main_run_out: "main_run k evs (c, w) = ((c', w'), r) \<Longrightarrow> prefix (c_out c) (c_out c')"
proof (induction evs arbitrary: c w)
  case (Cons ev evs)
  obtain c1 w1 x where t: "loop_turn k ev (c, w) = ((c1, w1), x)" by (metis prod.exhaust)
  with Cons loop_turn_out [OF t] show ?case
    by (cases x) (auto dest: prefix_order.trans)
qed simp

lemma in_sync_run:
  "main_run k evs (c, w) = ((c', w'), Return u) \<Longrightarrow> in_sync (c, w) \<Longrightarrow> \<forall>m \<in> set (c_out c'). sendable m \<Longrightarrow> in_sync (c', w')"
proof (induction evs arbitrary: c w)
  case (Cons ev evs)
  obtain c1 w1 x where t: "loop_turn k ev (c, w) = ((c1, w1), x)" by (metis prod.exhaust)
  with Cons.prems(1) obtain u1 where x: "x = Return u1" and r: "main_run k evs (c1, w1) = ((c', w'), Return u)"
    by (cases x) auto
  have "\<forall>m \<in> set (c_out c1). sendable m"
    using main_run_out [OF r] Cons.prems(3) by (auto dest: set_mono_prefix)
  with in_sync_turn [OF Cons.prems(2)] t x Cons.IH [OF r _ Cons.prems(3)] show ?case by simp
qed simp

text \<open>
  What a connection sends is what the peer receives. Take a connection after any sequence of
  turns of its main loop (commands of the Torrent, messages of the peer, timers), of which none ended
  the loop and no write failed: the bytes on the socket, read by the decoder of the peer, are exactly
  the messages the handlers sent, in order and with nothing left in a buffer, beginning with the
  extension handshake.
\<close>

lemma peer_hears_connection:
  assumes "main_run k evs (c, start_writer c net) = ((c', w), Return ())" "\<not> bw_err w"
    "\<forall>m \<in> set (c_out c'). sendable m"
  shows "decode_some (length (c_out c')) (bw_sock w) = (map heard (c_out c'), []) \<and> bw_buf w = []"
proof -
  have "\<forall>m \<in> set (c_out c). sendable m"
    using main_run_out [OF assms(1)] assms(3) by (auto dest: set_mono_prefix)
  from in_sync_run [OF assms(1) in_sync_start [OF this] assms(3)] assms(2)
  have "bw_buf w = []" "bw_sock w = encode_all (map heard (c_out c'))" by (auto simp: in_sync_def)
  moreover have "wire.recv (length (map heard (c_out c'))) (wire.send (map heard (c_out c')) @ []) = (map heard (c_out c'), [])"
    using assms(3) sendable_heard(1) by (intro wire.recv_send) auto
  ultimately show ?thesis by (simp add: decode_some_recv encode_all_send)
qed

text \<open>A connection that has sent its extension handshake, is told to be interested, and sends a keep-alive.\<close>

definition ex_started :: "int list conn" where
  "ex_started = (newConn list_bitmap (replicate 8 0)
     \<lparr>ownedPieces = [], pcs = [], selector = nextRand, endGame = False, ps_downloadEnabled = False\<rparr> uts_new ex_storage)
     \<lparr>c_out := [extensionHandshakeMsg 0]\<rparr>"

definition ex_turns :: "int list event list" where
  "ex_turns = [FromTorrent (TMsg (new_Msg\<lparr>Kind := Interested\<rparr>)), KeepAliveFires]"

definition ex_end :: "int list conn \<times> bwriter" where
  "ex_end = fst (main_run ex_cfg ex_turns (ex_started, start_writer ex_started []))"

lemma peer_hears_connection_witness:
  "c_out (fst ex_end) = [extensionHandshakeMsg 0, new_Msg\<lparr>Kind := Interested\<rparr>, new_Msg\<lparr>Kind := KeepAlive\<rparr>] \<and>
   decode_some 3 (bw_sock (snd ex_end)) =
     ([heard (extensionHandshakeMsg 0), new_Msg\<lparr>Kind := Interested\<rparr>, new_Msg\<lparr>Kind := KeepAlive\<rparr>], [])"
proof -
  have o: "c_out (fst ex_end) = [extensionHandshakeMsg 0, new_Msg\<lparr>Kind := Interested\<rparr>, new_Msg\<lparr>Kind := KeepAlive\<rparr>]"
    by code_simp
  have "case snd (main_run ex_cfg ex_turns (ex_started, start_writer ex_started [])) of Return _ \<Rightarrow> True | _ \<Rightarrow> False"
    by code_simp
  then have r: "main_run ex_cfg ex_turns (ex_started, start_writer ex_started []) = ((fst ex_end, snd ex_end), Return ())"
    by (auto simp: ex_end_def prod_eq_iff split: outcome.splits)
  have e: "\<not> bw_err (snd ex_end)" by code_simp
  have "msg_ok (new_Msg\<lparr>Kind := Interested\<rparr>)" "msg_ok (new_Msg\<lparr>Kind := KeepAlive\<rparr>)" by code_simp+
  then have "sendable (new_Msg\<lparr>Kind := Interested\<rparr>)" "sendable (new_Msg\<lparr>Kind := KeepAlive\<rparr>)" by (simp_all add: sendable_def)
  moreover have "sendable (extensionHandshakeMsg 0)"
    unfolding sendable_def by (rule disjI2, rule exI [of _ 0]) (simp add: fits_signed_def)
  ultimately have s: "\<forall>m \<in> set (c_out (fst ex_end)). sendable m" unfolding o by simp
  have h: "heard (new_Msg\<lparr>Kind := k\<rparr>) = new_Msg\<lparr>Kind := k\<rparr>" for k by (simp add: heard_def new_Msg_def)
  from peer_hears_connection [OF r e s] show ?thesis by (simp add: o h eval_nat_numeral)
qed

section \<open>The keep-alive timer\<close>

text \<open>
  A message that fits the buffer stays in it, at least in part. So the flush at the end of a turn
  that sent a keep-alive sets the timer again.
\<close>

lemma bw_Write_buffered:
  assumes "wr_ok w" "0 < length p" "length p \<le> bufSize" "\<not> bw_err (fst (bw_Write p nn w))"
  shows "bw_buf (fst (bw_Write p nn w)) \<noteq> []"
proof -
  have fits: "bw_buf (fst (bw_Write q n v)) \<noteq> []" if "\<not> bw_err (fst (bw_Write q n v))" "0 < length q" "length q \<le> Available v" for q n v
    using that by (subst bw_Write.simps) (auto simp: bw_Write.simps [of q n v] split: if_splits)
  show ?thesis
  proof (cases "length p \<le> Available w \<or> bw_err w")
    case True
    have "\<not> bw_err w"
      using bw_Write_extends [OF assms(1), of p nn] assms(4) by (auto simp: extends_def)
    with True fits assms show ?thesis by blast
  next
    case False
    then have b: "bw_buf w \<noteq> []" using assms(3) by (auto simp: Available_def)
    let ?f = "bw_Flush (w\<lparr>bw_buf := bw_buf w @ take (Available w) p\<rparr>)"
    let ?q = "drop (Available w) p"
    have s: "bw_Write p nn w = bw_Write ?q (nn + Available w) ?f"
      using False b by (subst bw_Write.simps) simp
    have "wr_ok ?f"
      using bw_Flush_fields(2) [of "w\<lparr>bw_buf := bw_buf w @ take (Available w) p\<rparr>"] assms(1) False
      by (auto simp: wr_ok_def Available_def)
    then have "\<not> bw_err ?f"
      using bw_Write_extends [of ?f ?q "nn + Available w"] assms(4) by (auto simp: s extends_def)
    then have "Available ?f = bufSize" using bw_Flush_fields(5) by (simp add: Available_def)
    with False assms show ?thesis unfolding s by (intro fits) (simp_all add: s)
  qed
qed

lemma bw_Write_timer: "bw_timer (fst (bw_Write p nn w)) = bw_timer w"
proof (induction p nn w rule: bw_Write.induct)
  case (1 p nn w)
  then show ?case
    by (subst bw_Write.simps) (auto simp: bw_Flush_fields(3) dest: sock_write_fields split: prod.splits)
qed

lemma keepalive_rearmed:
  assumes "wr_ok w" "bw_timer w \<noteq> None" "loop_turn k KeepAliveFires (c, w) = ((c', w'), Return u)" "\<not> bw_err w'"
    "c_net c = []"
  shows "bw_timer w' = Some True \<and> c_out c' = c_out c @ [new_Msg\<lparr>Kind := KeepAlive\<rparr>]"
proof -
  let ?w0 = "w\<lparr>bw_timer := Some False\<rparr>"
  have enc: "msg_Encode (new_Msg\<lparr>Kind := KeepAlive\<rparr>) = Return [0, 0, 0, 0]" by code_simp
  then have t: "turn k KeepAliveFires c = (c\<lparr>c_out := c_out c @ [new_Msg\<lparr>Kind := KeepAlive\<rparr>]\<rparr>, Return ())"
    using assms(5) by (simp add: turn_def sendKeepAlive_def sendMsgToPeer_def)
  have w0: "fst (write_op TimerFires w) = ?w0" using assms(2) by auto
  obtain w1 n where b: "bw_Write [0, 0, 0, 0] 0 ?w0 = (w1, n)" by fastforce
  have ok: "wr_ok ?w0" using assms(1) by (simp add: wr_ok_def)
  have one: "write_ops (map (\<lambda>m. Send m False) (new_msgs c (c\<lparr>c_out := c_out c @ [new_Msg\<lparr>Kind := KeepAlive\<rparr>]\<rparr>))) ?w0 = w1"
    using bw_Write_extends [OF ok, of "[0, 0, 0, 0]" 0] b
    by (auto simp: new_msgs_def writeMsg_def enc extends_def wr_ok_def bufSize_def sendLimit_def)
  then have f: "flushWriter w1 = (w', Return u)" and c': "c' = c\<lparr>c_out := c_out c @ [new_Msg\<lparr>Kind := KeepAlive\<rparr>]\<rparr>"
    using assms(3) t w0 unfolding loop_turn_def by (auto simp: Let_def split: prod.splits)
  have "bw_timer w1 = Some False" using bw_Write_timer [of "[0, 0, 0, 0]" 0 ?w0] b by simp
  have ok1: "wr_ok w1" using bw_Write_extends [OF ok, of "[0, 0, 0, 0]" 0] b by (simp add: extends_def)
  have "\<not> bw_err w1"
    using flushWriter_extends [OF ok1 f] assms(4) by (auto simp: extends_def)
  then have "bw_buf w1 \<noteq> []"
    using bw_Write_buffered [OF ok, of "[0, 0, 0, 0]" 0] b by (simp add: bufSize_def)
  with f \<open>bw_timer w1 = Some False\<close> c' show ?thesis by (auto simp: flushWriter_def Let_def bw_Flush_fields(3))
qed

text \<open>
  A message larger than the buffer goes past it. When the timer fires while an upload waits for the
  Torrent, the keep-alive waits in the buffer, the next block pushes it out and leaves the buffer
  empty, and \<open>flushWriter\<close> returns before it sets the timer: the timer does not fire again until a
  later turn leaves something in the buffer.
\<close>

lemma bw_Write_healthy:
  "\<not> bw_err w \<Longrightarrow> bw_net w = [] \<Longrightarrow> \<not> bw_err (fst (bw_Write p nn w)) \<and> bw_net (fst (bw_Write p nn w)) = []"
proof (induction p nn w rule: bw_Write.induct)
  case (1 p nn w)
  have s: "sock_write q v = (v\<lparr>bw_sock := bw_sock v @ q\<rparr>, length q)" if "bw_net v = []" for q v
    using that by (simp add: sock_write_def)
  let ?f = "bw_Flush (w\<lparr>bw_buf := bw_buf w @ take (Available w) p\<rparr>)"
  have f: "\<not> bw_err ?f" "bw_net ?f = []" using 1 by (simp_all add: bw_Flush_def s)
  consider "length p \<le> Available w" | "length p > Available w" "bw_buf w = []"
    | "length p > Available w" "bw_buf w \<noteq> []" by linarith
  then show ?case
  proof cases
    case 1
    with "1.prems" show ?thesis by (simp add: bw_Write.simps [of p nn w])
  next
    case 2
    with "1.IH"(1) [OF _ 2(2) s [OF "1.prems"(2), symmetric]] "1.prems" show ?thesis
      by (simp add: bw_Write.simps [of p nn w] s)
  next
    case 3
    with "1.IH"(2) [OF _ 3(2)] f "1.prems" show ?thesis by (simp add: bw_Write.simps [of p nn w])
  qed
qed

lemma bw_Write_large:
  assumes "wr_ok w" "\<not> bw_err w" "bw_net w = []" "Available w + bufSize < length p"
  shows "bw_buf (fst (bw_Write p nn w)) = []"
proof -
  have direct: "bw_buf (fst (bw_Write q n v)) = []"
    if "\<not> bw_err v" "bw_buf v = []" "bw_net v = []" "bufSize < length q" for q n v
    using that by (subst bw_Write.simps) (simp add: Available_def sock_write_def bw_Write.simps [of "[]"])
  show ?thesis
  proof (cases "bw_buf w = []")
    case True
    with direct assms show ?thesis by simp
  next
    case False
    with assms show ?thesis
      by (subst bw_Write.simps) (simp add: bw_Flush_def sock_write_def direct)
  qed
qed

lemma keepalive_timer_lost:
  assumes "wr_ok w" "\<not> bw_err w" "bw_net w = []" "bw_timer w = Some t" "2 * bufSize \<le> length d"
  shows "bw_timer (write_ops [TimerFires, Send (new_Msg\<lparr>Kind := KeepAlive\<rparr>) False, Send (pieceMsg r d) False, Flush] w) = Some False"
proof -
  let ?w0 = "w\<lparr>bw_timer := Some False\<rparr>"
  have enc: "msg_Encode (new_Msg\<lparr>Kind := KeepAlive\<rparr>) = Return [0, 0, 0, 0]" by code_simp
  obtain p where p: "msg_Encode (pieceMsg r d) = Return p" "2 * bufSize < length p"
    using assms(5) by (auto simp: msg_Encode_def msg_body_def pieceMsg_def put_u32_def put_u8_def)
  have ok: "wr_ok ?w0" using assms(1) by (simp add: wr_ok_def)
  obtain w1 n where b: "bw_Write [0, 0, 0, 0] 0 ?w0 = (w1, n)" by fastforce
  have w1: "wr_ok w1" "bw_timer w1 = Some False"
    using bw_Write_extends [OF ok, of "[0, 0, 0, 0]" 0] bw_Write_timer [of "[0, 0, 0, 0]" 0 ?w0] b by (simp_all add: extends_def)
  have net: "\<not> bw_err w1 \<and> bw_net w1 = []"
    using bw_Write_healthy [of ?w0 "[0, 0, 0, 0]" 0] b assms(2,3) by simp
  obtain w2 n2 where b2: "bw_Write p 0 w1 = (w2, n2)" by fastforce
  have "bw_buf w2 = [] \<and> \<not> bw_err w2"
    using bw_Write_large [OF w1(1), of p 0] bw_Write_healthy [of w1 p 0] net p(2) b2 by (simp add: Available_def)
  moreover have "bw_timer w2 = Some False" using bw_Write_timer [of p 0 w1] b2 w1 by simp
  moreover have "\<not> length (bw_buf w1) > sendLimit" using w1(1) by (simp add: wr_ok_def bufSize_def sendLimit_def)
  ultimately show ?thesis
    using assms(4) net by (simp add: writeMsg_def enc p b b2 flushWriter_def)
qed

end
