(* ===== verification/Conn_Pair.thy ===== *)
theory Conn_Pair
  imports Conn_Write
begin

text \<open>
  Two connections over one TCP connection: the reader goroutine (\<open>readPeerMsgs\<close> of \<open>torrent/conn.go\<close>)
  decodes what arrives from the socket of the other side, filters it and passes it on over the bounded
  channel \<open>readC\<close>; the main loop takes messages from there, handles them and writes through its buffer.
  Readers, main loops and the network interleave at will, and a read may fail or pass its deadline at any
  moment. The two together refine a pair of queues: each side hears a prefix of what the other sent, and
  the decoder finds no fault in it.
\<close>

section \<open>The reader goroutine\<close>

definition readCSize :: nat where "readCSize = 250"

text \<open>
  One side: the connection, its writer, the bytes that have arrived and were not decoded, the message
  the reader holds while the channel is full, the channel, and the error of the reader. \<open>sd_ioErr\<close> records
  that a read of the socket failed or passed its deadline. \<open>sd_taken\<close> counts
  the bytes taken from the other socket; \<open>sd_heard\<close> and \<open>sd_handled\<close> are the messages the reader has
  decoded and the main loop has handled.
\<close>

record 'bm side =
  sd_conn :: "'bm conn"
  sd_w :: bwriter
  sd_in :: bytes
  sd_held :: "Msg option"
  sd_readC :: "Msg list"
  sd_readErr :: "wire_error option"
  sd_ioErr :: bool
  sd_reading :: bool
  sd_running :: bool
  sd_taken :: nat
  sd_heard :: "Msg list"
  sd_handled :: "Msg list"

definition start_side :: "'bm conn \<Rightarrow> nat option list \<Rightarrow> 'bm side" where
  "start_side c net = \<lparr>sd_conn = c, sd_w = start_writer c net, sd_in = [], sd_held = None, sd_readC = [], sd_readErr = None,
     sd_ioErr = False, sd_reading = True, sd_running = True, sd_taken = 0, sd_heard = [], sd_handled = []\<rparr>"

text \<open>A read blocks until there is a whole frame, or a length that is refused.\<close>

definition frame_there :: "bytes \<Rightarrow> bool" where
  "frame_there p \<longleftrightarrow> 4 \<le> length p \<and> (maxMsgLength < be_get (take 4 p) \<or> 4 + be_get (take 4 p) \<le> length p)"

text \<open>
  A round of the loop, up to the send on \<open>readC\<close>. \<open>fails\<close>: the read of the socket fails, or no message has
  come before the deadline of \<open>keepAliveInterval + time.Minute\<close> that the round sets; the reader then reports
  the error and returns, whatever part of a message has arrived. \<open>Panic\<close> is a panic of the decoder, which
  ends the process.
\<close>

definition readPeerMsgs :: "'bm cfg \<Rightarrow> bool \<Rightarrow> 'bm side \<Rightarrow> (unit, 'bm side) outcome" where
  "readPeerMsgs k fails s =
     (if fails then Return (s\<lparr>sd_reading := False, sd_readErr := Some (WireIO IOReadFailed), sd_ioErr := True\<rparr>)
      else case msg_Decode (sd_in s) of
        (r, Return m) \<Rightarrow>
          (case readPeerMsg k m (sd_conn s) of
             (c, sendToChan) \<Rightarrow> Return (s\<lparr>sd_conn := c, sd_in := r, sd_heard := sd_heard s @ [m],
                                        sd_held := if sendToChan then Some m else None\<rparr>))
      | (r, Error e) \<Rightarrow> Return (s\<lparr>sd_in := r, sd_reading := False, sd_readErr := Some e\<rparr>)
      | (r, Panic p) \<Rightarrow> Panic p)"

text \<open>The send on \<open>readC\<close>, or the end of the reader when the main loop has closed \<open>quit\<close>.\<close>

definition push :: "Msg \<Rightarrow> 'bm side \<Rightarrow> 'bm side" where
  "push m s = s\<lparr>sd_readC := sd_readC s @ [m], sd_held := None\<rparr>"

definition quit_reader :: "'bm side \<Rightarrow> 'bm side" where
  "quit_reader s = s\<lparr>sd_held := None, sd_reading := False\<rparr>"

text \<open>A turn of the main loop; a message of the peer is the first of the channel.\<close>

fun can_take :: "'bm event \<Rightarrow> 'bm side \<Rightarrow> bool" where
  "can_take (FromPeer m) s = (sd_readC s \<noteq> [] \<and> hd (sd_readC s) = m)"
| "can_take (Reader m) s = False"
| "can_take (ReadError e) s = (sd_readErr s \<noteq> None)"
| "can_take _ s = True"

fun take_ev :: "'bm event \<Rightarrow> 'bm side \<Rightarrow> 'bm side" where
  "take_ev (FromPeer m) s = s\<lparr>sd_readC := tl (sd_readC s), sd_handled := sd_handled s @ [m]\<rparr>"
| "take_ev _ s = s"

definition side_turn :: "'bm cfg \<Rightarrow> 'bm event \<Rightarrow> 'bm side \<Rightarrow> 'bm side" where
  "side_turn k ev s =
     (case loop_turn k ev (sd_conn s, sd_w s) of
        ((c, w), x) \<Rightarrow> (take_ev ev s)\<lparr>sd_conn := c, sd_w := w, sd_running := (case x of Return _ \<Rightarrow> True | _ \<Rightarrow> False)\<rparr>)"

section \<open>Two sides\<close>

text \<open>
  \<open>eof\<close>: the other side has closed its socket and everything it wrote has arrived, so that a read of an
  incomplete frame fails instead of waiting. A read may also fail or time out at any moment (\<open>timeout\<close>).
\<close>

inductive side_step :: "'bm cfg \<Rightarrow> bool \<Rightarrow> 'bm side \<Rightarrow> 'bm side \<Rightarrow> bool" for k eof s where
  reader: "sd_reading s \<Longrightarrow> sd_held s = None \<Longrightarrow> frame_there (sd_in s) \<or> eof \<Longrightarrow>
    readPeerMsgs k False s = Return s' \<Longrightarrow> side_step k eof s s'"
| timeout: "sd_reading s \<Longrightarrow> sd_held s = None \<Longrightarrow> readPeerMsgs k True s = Return s' \<Longrightarrow> side_step k eof s s'"
| pass: "sd_held s = Some m \<Longrightarrow> length (sd_readC s) < readCSize \<Longrightarrow> side_step k eof s (push m s)"
| quit: "sd_held s = Some m \<Longrightarrow> \<not> sd_running s \<Longrightarrow> side_step k eof s (quit_reader s)"
| main: "sd_running s \<Longrightarrow> can_take ev s \<Longrightarrow> side_step k eof s (side_turn k ev s)"

definition at_eof :: "'bm side \<Rightarrow> 'bm side \<Rightarrow> bool" where
  "at_eof a b \<longleftrightarrow> \<not> sd_running b \<and> sd_taken a = length (bw_sock (sd_w b))"

text \<open>The network hands over the next \<open>n\<close> bytes.\<close>

definition arrive :: "nat \<Rightarrow> 'bm side \<Rightarrow> 'bm side \<Rightarrow> 'bm side" where
  "arrive n a b = a\<lparr>sd_in := sd_in a @ take n (drop (sd_taken a) (bw_sock (sd_w b))), sd_taken := sd_taken a + n\<rparr>"

inductive linked :: "'bm cfg \<Rightarrow> 'bm cfg \<Rightarrow> 'bm side \<Rightarrow> 'bm side \<Rightarrow> 'bm side \<Rightarrow> 'bm side \<Rightarrow> bool" for ka kb a0 b0 where
  start: "linked ka kb a0 b0 a0 b0"
| stepA: "linked ka kb a0 b0 a b \<Longrightarrow> side_step ka (at_eof a b) a a' \<Longrightarrow> linked ka kb a0 b0 a' b"
| stepB: "linked ka kb a0 b0 a b \<Longrightarrow> side_step kb (at_eof b a) b b' \<Longrightarrow> linked ka kb a0 b0 a b'"
| netA: "linked ka kb a0 b0 a b \<Longrightarrow> sd_taken a + n \<le> length (bw_sock (sd_w b)) \<Longrightarrow> linked ka kb a0 b0 (arrive n a b) b"
| netB: "linked ka kb a0 b0 a b \<Longrightarrow> sd_taken b + n \<le> length (bw_sock (sd_w a)) \<Longrightarrow> linked ka kb a0 b0 a (arrive n b a)"

inductive_cases side_stepE: "side_step k eof s s'"

text \<open>The two sides play the same part.\<close>

lemma linked_sym: "linked ka kb a0 b0 a b \<Longrightarrow> linked kb ka b0 a0 b a"
  by (induction rule: linked.induct) (auto intro: linked.intros)

section \<open>Frames\<close>

text \<open>What has arrived of a stream that starts with a message: a frame is there when the message is.\<close>

lemma frame_there_iff:
  assumes "msg_ok m" "msg_Encode m = Return b" "prefix p (b @ r)"
  shows "frame_there p \<longleftrightarrow> prefix b p"
proof -
  obtain d where d: "msg_body m = Return d" "length d \<le> maxMsgLength" using assms(1) by (auto simp: msg_ok_def split: outcome.splits)
  then have b: "b = put_u32 (of_nat (length d)) @ d" using assms(2) by (simp add: msg_Encode_def)
  note n = ReadFull_prefix(2) [OF d(2)]
  have pb: "prefix b p \<longleftrightarrow> 4 + length d \<le> length p"
    using assms(3) prefix_length_le [of b p] prefix_length_prefix [of b "b @ r" p] by (auto simp: b codec_width)
  show ?thesis
  proof (cases "4 \<le> length p")
    case True
    then have "take 4 p = put_u32 (of_nat (length d))"
      using assms(3) by (auto simp: b prefix_def) (metis append_eq_conv_conj codec_width(3) take_append take_take min.absorb1 take_all_iff append_take_drop_id)
    with True n d(2) show ?thesis unfolding pb by (simp add: frame_there_def)
  qed (unfold pb, simp add: frame_there_def)
qed

text \<open>A decoder that is given less than a frame fails with an error of the read.\<close>

lemma no_frame: "\<not> frame_there p \<Longrightarrow> \<exists>r e. msg_Decode p = (r, Error (WireIO e))"
  by (auto simp: frame_there_def msg_Decode_def ReadFull_def Let_def)

lemma encode_all_prefix:
  assumes "prefix ms ns" "\<forall>m \<in> set ns. msg_ok m"
  shows "\<exists>rs. ns = ms @ rs \<and> encode_all ns = encode_all ms @ encode_all rs"
proof -
  obtain rs where "ns = ms @ rs" using assms(1) by (auto simp: prefix_def)
  moreover have "\<forall>m \<in> set ms. \<exists>b. msg_Encode m = Return b" using assms calculation wire.enc_ok by fastforce
  ultimately show ?thesis using encode_all_append by auto
qed

text \<open>
  Reading on in a stream of messages: when \<open>q\<close> is what has arrived behind the messages \<open>ms\<close>, the decoder
  gives the next message once its frame is there.
\<close>

lemma decode_next:
  assumes "\<forall>m \<in> set ns. msg_ok m" "prefix ms ns" "prefix (encode_all ms @ q) (encode_all ns)" "frame_there q"
  shows "\<exists>m r b. msg_Decode q = (r, Return m) \<and> prefix (ms @ [m]) ns \<and> q = b @ r \<and> encode_all (ms @ [m]) = encode_all ms @ b"
proof -
  obtain rs where rs: "ns = ms @ rs" "encode_all ns = encode_all ms @ encode_all rs"
    using encode_all_prefix [OF assms(2,1)] by blast
  with assms(3) have q: "prefix q (encode_all rs)" by simp
  with assms(4) obtain m rs' where m: "rs = m # rs'" by (cases rs) (auto simp: frame_there_def)
  with assms(1) rs have ok: "msg_ok m" by simp
  then obtain b where b: "msg_Encode m = Return b" using wire.enc_ok by blast
  with q m have "prefix q (b @ encode_all rs')" by simp
  from frame_there_iff [OF ok b this] assms(4) obtain r where r: "q = b @ r" by (auto simp: prefix_def)
  have "\<forall>m \<in> set ms. \<exists>b. msg_Encode m = Return b" using assms(1) rs wire.enc_ok by fastforce
  with r wire.dec_enc [OF ok b, of r] rs m b show ?thesis by (auto simp: encode_all_append)
qed

section \<open>What a side hears\<close>

definition said :: "'bm side \<Rightarrow> Msg list" where
  "said b = map heard (c_out (sd_conn b))"

text \<open>The writer of a side: the socket holds a prefix of what the side said, between turns all of it unless a write failed.\<close>

definition speaks :: "'bm side \<Rightarrow> bool" where
  "speaks b \<longleftrightarrow> wr_ok (sd_w b) \<and> prefix (bw_sock (sd_w b)) (encode_all (said b)) \<and>
     (sd_running b \<and> \<not> bw_err (sd_w b) \<longrightarrow> bw_buf (sd_w b) = [] \<and> bw_sock (sd_w b) = encode_all (said b))"

definition hears :: "'bm side \<Rightarrow> 'bm side \<Rightarrow> bool" where
  "hears a b \<longleftrightarrow> prefix (sd_heard a) (said b) \<and> sd_taken a \<le> length (bw_sock (sd_w b)) \<and>
     (sd_reading a \<longrightarrow> sd_readErr a = None \<and> take (sd_taken a) (bw_sock (sd_w b)) = encode_all (sd_heard a) @ sd_in a) \<and>
     (sd_readErr a = None \<or> (\<exists>e. sd_readErr a = Some (WireIO e)) \<and> (sd_ioErr a \<or> \<not> sd_running b)) \<and>
     subseq (sd_handled a @ sd_readC a @ (case sd_held a of None \<Rightarrow> [] | Some m \<Rightarrow> [m])) (sd_heard a)"

lemma take_ev_fields [simp]:
  "sd_conn (take_ev ev s) = sd_conn s" "sd_w (take_ev ev s) = sd_w s" "sd_in (take_ev ev s) = sd_in s"
  "sd_held (take_ev ev s) = sd_held s" "sd_readErr (take_ev ev s) = sd_readErr s" "sd_reading (take_ev ev s) = sd_reading s"
  "sd_ioErr (take_ev ev s) = sd_ioErr s"
  "sd_taken (take_ev ev s) = sd_taken s" "sd_heard (take_ev ev s) = sd_heard s"
  by (cases ev; simp)+

lemma take_ev_queue: "can_take ev s \<Longrightarrow> sd_handled (take_ev ev s) @ sd_readC (take_ev ev s) = sd_handled s @ sd_readC s"
  by (cases ev) auto

lemma side_turn_fields:
  assumes "loop_turn k ev (sd_conn s, sd_w s) = ((c, w), x)"
  shows "side_turn k ev s = (take_ev ev s)\<lparr>sd_conn := c, sd_w := w, sd_running := (case x of Return _ \<Rightarrow> True | _ \<Rightarrow> False)\<rparr>"
  by (simp add: side_turn_def assms)

text \<open>What a step of a side does to what the other side can see of it.\<close>

definition says_more :: "'bm side \<Rightarrow> 'bm side \<Rightarrow> bool" where
  "says_more b b' \<longleftrightarrow> prefix (c_out (sd_conn b)) (c_out (sd_conn b')) \<and> (sd_running b' \<longrightarrow> sd_running b) \<and>
     (wr_ok (sd_w b) \<longrightarrow> prefix (bw_sock (sd_w b)) (bw_sock (sd_w b')))"

lemma readPeerMsgs_quiet: "readPeerMsgs k f s = Return s' \<Longrightarrow> sd_w s' = sd_w s \<and> sd_running s' = sd_running s \<and> c_out (sd_conn s') = c_out (sd_conn s)"
  by (auto simp: readPeerMsgs_def readPeerMsg_def Let_def split: prod.splits outcome.splits if_splits)

lemma side_step_says: "side_step k e b b' \<Longrightarrow> says_more b b'"
proof (erule side_stepE)
  fix ev assume r: "sd_running b" and "can_take ev b" and b': "b' = side_turn k ev b"
  obtain c w x where t: "loop_turn k ev (sd_conn b, sd_w b) = ((c, w), x)" by (metis prod.exhaust)
  show "says_more b b'"
    using loop_turn_out [OF t] loop_turn_extends [OF _ t] r by (auto simp: says_more_def b' side_turn_fields [OF t] extends_def)
qed (auto simp: says_more_def push_def quit_reader_def dest: readPeerMsgs_quiet)

lemma side_step_speaks:
  assumes "speaks b" "side_step k e b b'" "\<forall>m \<in> set (c_out (sd_conn b')). sendable m"
  shows "speaks b'"
  using assms(2)
proof (cases rule: side_step.cases)
  case (main ev)
  obtain c w x where t: "loop_turn k ev (sd_conn b, sd_w b) = ((c, w), x)" by (metis prod.exhaust)
  have "wr_ok (sd_w b)" using assms(1) by (simp add: speaks_def)
  note e = loop_turn_extends [OF this t] and b' = main(1) [unfolded side_turn_fields [OF t]]
  have out: "encode_all (said b') = encode_all (said b) @ encode_all (new_msgs (sd_conn b) c)"
    using e assms(3) encode_out by (auto simp: said_def b')
  have "\<forall>m. ev \<noteq> Reader m" using main(3) by auto
  with e assms(1) main(2) out show ?thesis
    by (cases "bw_err (sd_w b)") (auto simp: speaks_def extends_def b' split: outcome.splits)
qed (use assms(1) in \<open>auto simp: speaks_def said_def push_def quit_reader_def dest: readPeerMsgs_quiet\<close>)

text \<open>A message is passed on or dropped, never reordered.\<close>

lemma reader_hears:
  assumes "hears a b" "speaks b" "\<forall>m \<in> set (said b). msg_ok m" "sd_reading a" "sd_held a = None"
    "frame_there (sd_in a) \<or> at_eof a b" "readPeerMsgs k False a = Return a'"
  shows "hears a' b"
proof (cases "frame_there (sd_in a)")
  case True
  have arrived: "take (sd_taken a) (bw_sock (sd_w b)) = encode_all (sd_heard a) @ sd_in a"
    using assms(1,4) by (simp add: hears_def)
  have "prefix (encode_all (sd_heard a) @ sd_in a) (encode_all (said b))"
    using assms(2) take_is_prefix [of "sd_taken a" "bw_sock (sd_w b)"] prefix_order.trans
    unfolding speaks_def arrived by blast
  from decode_next [OF assms(3) _ this True] assms(1)
  obtain m r f where m: "msg_Decode (sd_in a) = (r, Return m)" "prefix (sd_heard a @ [m]) (said b)" "sd_in a = f @ r"
    "encode_all (sd_heard a @ [m]) = encode_all (sd_heard a) @ f" by (auto simp: hears_def)
  obtain c p where c: "readPeerMsg k m (sd_conn a) = (c, p)" by fastforce
  have "subseq (sd_handled a @ sd_readC a) (sd_heard a @ [m])" "subseq ((sd_handled a @ sd_readC a) @ [m]) (sd_heard a @ [m])"
    using list_emb_append_mono [of "(=)" "sd_handled a @ sd_readC a" "sd_heard a" _ "[m]"] assms(1,5)
    by (force simp: hears_def)+
  with m c arrived assms show ?thesis by (auto simp: hears_def readPeerMsgs_def)
next
  case False
  with assms(6) have "\<not> sd_running b" by (simp add: at_eof_def)
  with no_frame [OF False] assms(1,5,7) show ?thesis by (auto simp: hears_def readPeerMsgs_def)
qed

lemma side_step_hears:
  assumes "hears a b" "speaks b" "\<forall>m \<in> set (said b). msg_ok m" "side_step k (at_eof a b) a a'"
  shows "hears a' b"
  using assms(4)
proof (cases rule: side_step.cases)
  case reader
  with reader_hears [OF assms(1-3)] show ?thesis by blast
next
  case (main ev)
  obtain c w x where t: "loop_turn k ev (sd_conn a, sd_w a) = ((c, w), x)" by (metis prod.exhaust)
  show ?thesis
    using assms(1) take_ev_queue [OF main(3)] unfolding main(1) side_turn_fields [OF t] hears_def
    by simp (metis append_assoc)
next
  case (quit m)
  have "subseq (xs @ ys) zs" if "subseq (xs @ ys @ [m]) zs" for xs ys zs :: "Msg list"
    by (rule subseq_order.trans [OF _ that]) (simp add: prefix_imp_subseq)
  with quit assms(1) show ?thesis by (auto simp: hears_def quit_reader_def)
qed (use assms(1) in \<open>auto simp: hears_def push_def readPeerMsgs_def\<close>)

lemma says_more_hears:
  assumes "hears a b" "speaks b" "says_more b b'"
  shows "hears a b'"
proof -
  have p: "prefix (said b) (said b')" "prefix (bw_sock (sd_w b)) (bw_sock (sd_w b'))"
    using assms(2,3) by (auto simp: says_more_def speaks_def said_def map_mono_prefix)
  then have "take (sd_taken a) (bw_sock (sd_w b')) = take (sd_taken a) (bw_sock (sd_w b))" "sd_taken a \<le> length (bw_sock (sd_w b'))"
    using assms(1) by (auto simp: hears_def prefix_def)
  with assms p(1) show ?thesis by (auto simp: hears_def says_more_def intro: prefix_order.trans)
qed

lemma arrive_hears: "hears a b \<Longrightarrow> sd_taken a + n \<le> length (bw_sock (sd_w b)) \<Longrightarrow> hears (arrive n a b) b"
  by (auto simp: hears_def arrive_def take_add)

lemma arrive_says [simp]: "said (arrive n a b) = said a" "speaks (arrive n a b) = speaks a" "hears c (arrive n a b) = hears c a"
  "sd_conn (arrive n a b) = sd_conn a"
  by (simp_all add: said_def speaks_def hears_def arrive_def)

lemma linked_hears:
  assumes "linked ka kb (start_side ca na) (start_side cb nb) a b"
  shows "\<forall>m \<in> set (c_out (sd_conn a) @ c_out (sd_conn b)). sendable m \<Longrightarrow> speaks a \<and> speaks b \<and> hears a b \<and> hears b a"
  using assms
proof (induction rule: linked.induct)
  case start
  have "speaks (start_side c n)" if "\<forall>m \<in> set (c_out c). sendable m" for c :: "'a conn" and n
    using in_sync_start [OF that, of n] start_writer_extends [of c n] encode_all_heard [OF that]
    by (simp add: in_sync_def speaks_def start_side_def said_def extends_def NewWriter_def)
  then show ?case using start by (simp add: hears_def start_side_def)
next
  case (stepA a b a')
  note m = side_step_says [OF stepA.hyps(2)]
  have s: "\<forall>m \<in> set (c_out (sd_conn a) @ c_out (sd_conn b)). sendable m"
    using stepA.prems m set_mono_prefix by (fastforce simp: says_more_def)
  then have "\<forall>m \<in> set (said b). msg_ok m" using sendable_heard(1) by (auto simp: said_def)
  with stepA.IH [OF s] side_step_hears [OF _ _ _ stepA.hyps(2)] side_step_speaks [OF _ stepA.hyps(2)] says_more_hears [OF _ _ m]
    stepA.prems show ?case by auto
next
  case (stepB a b b')
  note m = side_step_says [OF stepB.hyps(2)]
  have s: "\<forall>m \<in> set (c_out (sd_conn a) @ c_out (sd_conn b)). sendable m"
    using stepB.prems m set_mono_prefix by (fastforce simp: says_more_def)
  then have "\<forall>m \<in> set (said a). msg_ok m" using sendable_heard(1) by (auto simp: said_def)
  with stepB.IH [OF s] side_step_hears [OF _ _ _ stepB.hyps(2)] side_step_speaks [OF _ stepB.hyps(2)] says_more_hears [OF _ _ m]
    stepB.prems show ?case by auto
qed (simp_all add: arrive_hears)

text \<open>When nothing is under way any more, everything was heard.\<close>

lemma all_heard:
  assumes "hears a b" "speaks b" "\<forall>m \<in> set (said b). msg_ok m" "sd_reading a" "sd_running b" "\<not> bw_err (sd_w b)"
    "sd_taken a = length (bw_sock (sd_w b))" "\<not> frame_there (sd_in a)"
  shows "sd_heard a = said b"
proof -
  have "encode_all (said b) = encode_all (sd_heard a) @ sd_in a" using assms by (simp add: hears_def speaks_def)
  moreover obtain rs where rs: "said b = sd_heard a @ rs" "encode_all (said b) = encode_all (sd_heard a) @ encode_all rs"
    using encode_all_prefix [OF conjunct1 [OF assms(1) [unfolded hears_def]] assms(3)] by blast
  ultimately have i: "sd_in a = encode_all rs" by simp
  have "rs = []"
  proof (cases rs)
    case (Cons m ms)
    with assms(3) rs have ok: "msg_ok m" by simp
    then obtain b where b: "msg_Encode m = Return b" using wire.enc_ok by blast
    from frame_there_iff [OF ok b, of "sd_in a" "encode_all ms"] i Cons b assms(8) show ?thesis by simp
  qed
  with rs show ?thesis by simp
qed

text \<open>
  C13. Two connections hear each other. However the main loops, the reader goroutines and the network of
  two linked connections interleave and whatever reads, writes and deadlines fail, as long as every message
  the two sides send is one the wire can carry (\<open>sendable\<close>): what the reader of one side has decoded is a
  prefix of what the other side sent, in its order; the main loop handles a subsequence of it; the reader
  never panics; it never rejects what the other side sent, that is, the only error it reports is one of
  the socket, after a read that failed or passed its deadline or after the other side has ended; and when
  everything that was sent has arrived and no whole frame is left, every message was heard. By \<open>linked_sym\<close>
  this holds for either side.
\<close>

theorem linked_peers_fifo:
  assumes "linked ka kb (start_side ca na) (start_side cb nb) a b"
    "\<forall>m \<in> set (c_out (sd_conn a) @ c_out (sd_conn b)). sendable m"
  shows "prefix (sd_heard a) (map heard (c_out (sd_conn b))) \<and> subseq (sd_handled a) (sd_heard a) \<and>
    (sd_reading a \<longrightarrow> (\<exists>a'. readPeerMsgs ka fails a = Return a')) \<and>
    (sd_readErr a = None \<or> (\<exists>e. sd_readErr a = Some (WireIO e)) \<and> (sd_ioErr a \<or> \<not> sd_running b)) \<and>
    (sd_reading a \<and> sd_running b \<and> \<not> bw_err (sd_w b) \<and> sd_taken a = length (bw_sock (sd_w b)) \<and> \<not> frame_there (sd_in a) \<longrightarrow>
       sd_heard a = map heard (c_out (sd_conn b)))"
proof -
  have h: "hears a b" "speaks b" using linked_hears [OF assms] by blast+
  have ok: "\<forall>m \<in> set (said b). msg_ok m" using assms(2) sendable_heard(1) by (auto simp: said_def)
  have "subseq (sd_handled a) (sd_heard a)"
    using h(1) subseq_order.trans [OF prefix_imp_subseq [of "sd_handled a" "sd_handled a @ _"]] by (auto simp: hears_def)
  moreover have "\<exists>a'. readPeerMsgs ka fails a = Return a'" if r: "sd_reading a"
  proof (cases "frame_there (sd_in a)")
    case True
    have "prefix (encode_all (sd_heard a) @ sd_in a) (encode_all (said b))"
      using h r take_is_prefix [of "sd_taken a" "bw_sock (sd_w b)"] by (metis hears_def speaks_def prefix_order.trans)
    from decode_next [OF ok _ this True] h(1) show ?thesis by (auto simp: hears_def readPeerMsgs_def split: prod.splits)
  qed (use no_frame [of "sd_in a"] in \<open>auto simp: readPeerMsgs_def\<close>)
  ultimately show ?thesis using h all_heard [OF h ok] by (auto simp: hears_def said_def)
qed

text \<open>
  Two sides without the extension protocol: the second is told to send that it is interested and sends a
  keep-alive; the first reads both and handles the first.
\<close>

definition ex_fresh :: "int list side" where
  "ex_fresh = start_side (ex_started\<lparr>c_out := []\<rparr>) []"

definition ex_read :: "int list side \<Rightarrow> int list side" where
  "ex_read s = (case readPeerMsgs ex_cfg False s of Return s' \<Rightarrow> push (the (sd_held s')) s' | _ \<Rightarrow> s)"

definition ex_speaker :: "int list side" where
  "ex_speaker = side_turn ex_cfg KeepAliveFires (side_turn ex_cfg (FromTorrent (TMsg (new_Msg\<lparr>Kind := Interested\<rparr>))) ex_fresh)"

definition ex_arrived :: "int list side" where
  "ex_arrived = arrive (length (bw_sock (sd_w ex_speaker))) ex_fresh ex_speaker"

definition ex_listener :: "int list side" where
  "ex_listener = side_turn ex_cfg (FromPeer (new_Msg\<lparr>Kind := Interested\<rparr>)) (ex_read (ex_read ex_arrived))"

lemma ex_read_step:
  assumes "linked ex_cfg kb a0 b0 a b" "sd_reading a" "sd_held a = None" "frame_there (sd_in a)"
    "case readPeerMsgs ex_cfg False a of Return s \<Rightarrow> sd_held s \<noteq> None \<and> length (sd_readC s) < readCSize | _ \<Rightarrow> False"
  shows "linked ex_cfg kb a0 b0 (ex_read a) b"
proof -
  obtain s m where s: "readPeerMsgs ex_cfg False a = Return s" "sd_held s = Some m" "length (sd_readC s) < readCSize"
    using assms(5) by (auto split: outcome.splits)
  then have "linked ex_cfg kb a0 b0 s b" by (intro linked.stepA [OF assms(1)] side_step.reader) (use assms in auto)
  from linked.stepA [OF this side_step.pass [OF s(2,3)]] show ?thesis by (simp add: ex_read_def s)
qed

lemma ex_linked: "linked ex_cfg ex_cfg ex_fresh ex_fresh ex_listener ex_speaker"
proof -
  have "linked ex_cfg ex_cfg ex_fresh ex_fresh ex_fresh ex_speaker"
    unfolding ex_speaker_def
    by (rule linked.stepB [OF linked.stepB [OF linked.start side_step.main] side_step.main]) code_simp+
  then have 0: "linked ex_cfg ex_cfg ex_fresh ex_fresh ex_arrived ex_speaker"
    unfolding ex_arrived_def by (rule linked.netA) (simp add: ex_fresh_def start_side_def)
  have 1: "linked ex_cfg ex_cfg ex_fresh ex_fresh (ex_read ex_arrived) ex_speaker"
    by (rule ex_read_step [OF 0]) code_simp+
  have 2: "linked ex_cfg ex_cfg ex_fresh ex_fresh (ex_read (ex_read ex_arrived)) ex_speaker"
    by (rule ex_read_step [OF 1]) code_simp+
  show ?thesis unfolding ex_listener_def by (rule linked.stepA [OF 2 side_step.main]) code_simp+
qed

theorem linked_peers_fifo_witness:
  "sd_heard ex_listener = [new_Msg\<lparr>Kind := Interested\<rparr>, new_Msg\<lparr>Kind := KeepAlive\<rparr>] \<and>
   sd_handled ex_listener = [new_Msg\<lparr>Kind := Interested\<rparr>] \<and>
   sd_heard ex_listener = map heard (c_out (sd_conn ex_speaker)) \<and> subseq (sd_handled ex_listener) (sd_heard ex_listener)"
proof -
  have o: "c_out (sd_conn ex_speaker) = [new_Msg\<lparr>Kind := Interested\<rparr>, new_Msg\<lparr>Kind := KeepAlive\<rparr>]" by code_simp
  have l: "c_out (sd_conn ex_listener) = []" by code_simp
  have c: "sd_reading ex_listener" "sd_running ex_speaker" "\<not> bw_err (sd_w ex_speaker)"
    "sd_taken ex_listener = length (bw_sock (sd_w ex_speaker))" "\<not> frame_there (sd_in ex_listener)"
    "sd_handled ex_listener = [new_Msg\<lparr>Kind := Interested\<rparr>]"
    "heard (new_Msg\<lparr>Kind := Interested\<rparr>) = new_Msg\<lparr>Kind := Interested\<rparr>"
    "heard (new_Msg\<lparr>Kind := KeepAlive\<rparr>) = new_Msg\<lparr>Kind := KeepAlive\<rparr>" by code_simp+
  have "msg_ok (new_Msg\<lparr>Kind := Interested\<rparr>)" "msg_ok (new_Msg\<lparr>Kind := KeepAlive\<rparr>)" by code_simp+
  then have "\<forall>m \<in> set (c_out (sd_conn ex_listener) @ c_out (sd_conn ex_speaker)). sendable m"
    unfolding o l by (simp add: sendable_def)
  from linked_peers_fifo [OF ex_linked [unfolded ex_fresh_def] this] c o show ?thesis by simp
qed

end
