(* ===== verification/Torrent.thy ===== *)
theory Torrent
  imports Conn Tracker Metainfo
begin

text \<open>
  The torrent goroutine (\<open>torrent/torrent.go\<close>, \<open>torrent/torrent_xported.go\<close>), its view of the
  connections (\<open>torrent/conn_info.go\<close>) and the choker (\<open>torrent/choker.go\<close>).

  A \<open>*connInfo\<close> is an index into the store \<open>t_store\<close>. The slice \<open>t.conns\<close> is kept as its backing
  array and its length, because \<open>removeConn\<close> shifts the array in place under the loops that range
  over it. Sending to a connection that has gone calls \<open>droppedConn\<close>, which reviews the unchoked
  peers, which sends again: the operations take \<open>gone\<close>, the handler of a gone connection, and
  \<open>droppedConn\<close> closes the knot with fuel; every level removes a connection, so as much fuel as
  there are connections is enough (\<open>droppedConn_loop\<close>).

  The environment is explicit: \<open>t_picks\<close> tells of every send whether the \<open>select\<close> takes the closed
  channel, \<open>t_now\<close> is the clock, \<open>t_rolls\<close> counts the calls of \<open>math/rand\<close>, whose answers are
  parameters. Messages to the connections, announces and dials are recorded. Counters, logging,
  timers and the status text have no effect on the rest.
\<close>

section \<open>Data\<close>

type_synonym cid = nat

datatype PeerSource = SourceUser | SourceIncoming | SourceDHT | SourceTracker

record xpeer =
  xp_P :: tpeer
  xp_Source :: PeerSource

record 'bm connInfo =
  ci_peer :: xpeer
  ci_reserved :: bytes
  ci_peerBf :: 'bm
  numWant :: int
  ci_state :: conn_state
  ci_sent :: "'bm torrent_cmd list"

record choker =
  currRound :: int
  optimistic :: "cid option"
  enableOptimistic :: bool
  maxUploadSlots :: nat

datatype tr_event = EvNone | EvCompleted

text \<open>The announce of the DHT: a nil pointer, a closed or an open channel of peers.\<close>

datatype dht_resp = DhtNil | DhtClosed | DhtOpen

record 'bm torrent =
  t_store :: "'bm connInfo list"
  t_cstats :: stats_store
  t_arr :: "cid list"
  t_len :: nat
  halfOpen :: "xpeer list"
  t_peers :: "xpeer list"
  t_pieces :: "'bm pieces option"
  t_choker :: "choker option"
  canAnnounceTracker :: bool
  canAnnounceDht :: bool
  t_dht :: dht_resp
  lastAnnounceResp :: "AnnounceResp option"
  uploadEnabled :: bool
  downloadEnabled :: bool
  t_isClosed :: bool
  downloadedDataC :: bool
  infoC :: bool
  dropC :: bool
  queuedForVerification :: "int list"
  hashQueue :: "int list"
  t_mi :: meta_info
  t_uts :: utMetadatas
  t_length :: int
  blockRequestSize :: int
  t_stats :: tstats
  t_storage :: storage
  hashing :: bool
  numVerified :: int
  blackList :: "bytes list"
  t_announces :: "(tr_event \<times> tstats) list"
  t_dials :: "xpeer list"
  t_now :: int
  t_rolls :: nat
  t_picks :: "bool list"
  t_dhtAnswers :: "dht_resp list"

text \<open>
  What does not change: the libraries, the random answers, the configuration of the client.
  \<open>tk_fgt (b, d) (b', d')\<close> is \<open>float64(b) / float64(d) > float64(b') / float64(d')\<close>.
  \<open>tk_stuck h i\<close>: the goroutine of connection \<open>i\<close> of the torrent with the info hash \<open>h\<close> never closes its
  \<open>droppedC\<close>, for instance since it is held up in a write to a peer that does not read. \<open>tk_busy h\<close>: the main
  loop of that torrent never comes back to take the channel of a caller. Waiting for one of these never
  returns and is, as everywhere in the model, the outcome \<open>deadlock\<close>.
\<close>

record 'bm tcfg =
  tk_bm :: "'bm bitmap_ops"
  tk_sort :: "(nat \<Rightarrow> nat \<Rightarrow> bool) \<Rightarrow> nat list \<Rightarrow> nat list"
  tk_intn :: "nat \<Rightarrow> nat \<Rightarrow> nat"
  tk_perm :: "nat \<Rightarrow> nat \<Rightarrow> nat list"
  tk_fgt :: "int \<times> int \<Rightarrow> int \<times> int \<Rightarrow> bool"
  tk_raise :: "int \<Rightarrow> int"
  tk_sha1 :: "bytes \<Rightarrow> bytes"
  tk_env :: os_env
  tk_dir :: bytes
  tk_disableTrackers :: bool
  tk_hasAnnouncer :: bool
  tk_disableDHT :: bool
  tk_hasDht :: bool
  tk_reserved :: bytes
  tk_dhtPort :: "16 word"
  tk_maxEstablished :: int
  tk_outIP :: bytes
  tk_stuck :: "bytes \<Rightarrow> cid \<Rightarrow> bool"
  tk_busy :: "bytes \<Rightarrow> bool"

abbreviation maxHalfOpenConns :: nat where "maxHalfOpenConns \<equiv> 55"
abbreviation wantPeersThreshold :: int where "wantPeersThreshold \<equiv> 100"

type_synonym ('bm, 'a) tact = "('bm torrent, 'a) act"

abbreviation conns :: "'bm torrent \<Rightarrow> cid list" where
  "conns t \<equiv> take (t_len t) (t_arr t)"

abbreviation ci :: "'bm torrent \<Rightarrow> cid \<Rightarrow> 'bm connInfo" where
  "ci t i \<equiv> t_store t ! i"

definition mod_ci :: "cid \<Rightarrow> ('bm connInfo \<Rightarrow> 'bm connInfo) \<Rightarrow> 'bm torrent \<Rightarrow> 'bm torrent" where
  "mod_ci i f t = t\<lparr>t_store := (t_store t)[i := f (ci t i)]\<rparr>"

definition upd_ci :: "cid \<Rightarrow> ('bm connInfo \<Rightarrow> 'bm connInfo) \<Rightarrow> ('bm, unit) tact" where
  "upd_ci i f = modify (mod_ci i f)"

definition upd_state :: "cid \<Rightarrow> (conn_state \<Rightarrow> conn_state) \<Rightarrow> ('bm, unit) tact" where
  "upd_state i f = upd_ci i (\<lambda>c. c\<lparr>ci_state := f (ci_state c)\<rparr>)"

definition upd_cstats :: "cid \<Rightarrow> (conn_stats \<Rightarrow> conn_stats) \<Rightarrow> ('bm, unit) tact" where
  "upd_cstats i f = modify (\<lambda>t. t\<lparr>t_cstats := (t_cstats t)(i := f (t_cstats t i))\<rparr>)"

definition upd_choker :: "(choker \<Rightarrow> choker) \<Rightarrow> ('bm, unit) tact" where
  "upd_choker f t = (case t_choker t of None \<Rightarrow> (t, Panic NilDereference) | Some c \<Rightarrow> (t\<lparr>t_choker := Some (f c)\<rparr>, Return ()))"

text \<open>\<open>rand.Intn(n)\<close> and \<open>rand.Perm(n)\<close>.\<close>

definition rand_Intn :: "'bm tcfg \<Rightarrow> nat \<Rightarrow> ('bm, nat) tact" where
  "rand_Intn k n t =
     (if n = 0 then (t, Panic (PanicMsg ''invalid argument to Intn''))
      else (t\<lparr>t_rolls := t_rolls t + 1\<rparr>, Return (tk_intn k (t_rolls t) n mod n)))"

definition rand_Perm :: "'bm tcfg \<Rightarrow> nat \<Rightarrow> ('bm, nat list) tact" where
  "rand_Perm k n t = (t\<lparr>t_rolls := t_rolls t + 1\<rparr>, Return (tk_perm k (t_rolls t) n))"

text \<open>\<open>net.IP.Equal\<close>: an IPv4 address equals its form of 16 bytes.\<close>

definition ip_norm :: "bytes \<Rightarrow> bytes" where
  "ip_norm ip = (if length ip = 16 \<and> take 12 ip = replicate 10 0 @ [255, 255] then drop 12 ip else ip)"

definition ip_Equal :: "bytes \<Rightarrow> bytes \<Rightarrow> bool" where
  "ip_Equal a b \<longleftrightarrow> ip_norm a = ip_norm b"

abbreviation peerIP :: "xpeer \<Rightarrow> bytes" where "peerIP p \<equiv> pr_IP (xp_P p)"
abbreviation peerPort :: "xpeer \<Rightarrow> 16 word" where "peerPort p \<equiv> pr_Port (xp_P p)"

text \<open>The address of a peer, which keys the half-open connections.\<close>

definition same_addr :: "xpeer \<Rightarrow> xpeer \<Rightarrow> bool" where
  "same_addr p q \<longleftrightarrow> ip_Equal (peerIP p) (peerIP q) \<and> peerPort p = peerPort q"

section \<open>Queries\<close>

definition t_numPieces :: "'bm torrent \<Rightarrow> int" where
  "t_numPieces t = (case mi_Info (t_mi t) of None \<Rightarrow> 0 | Some i \<Rightarrow> NumPieces i)"

definition t_info :: "'bm torrent \<Rightarrow> info_dict" where
  "t_info t = the (mi_Info (t_mi t))"

definition t_haveInfo :: "'bm torrent \<Rightarrow> bool" where
  "t_haveInfo t \<longleftrightarrow> correctSize (t_uts t) \<noteq> 0"

definition infoWasDownloaded :: "'bm torrent \<Rightarrow> bool" where
  "infoWasDownloaded t \<longleftrightarrow> mi_InfoBytes (t_mi t) = None"

definition haveAll :: "'bm tcfg \<Rightarrow> 'bm torrent \<Rightarrow> bool" where
  "haveAll k t \<longleftrightarrow> t_haveInfo t \<and> (case t_pieces t of None \<Rightarrow> False | Some p \<Rightarrow> pieces_haveAll (tk_bm k) (t_numPieces t) p)"

text \<open>The nil dereference in \<open>t.haveAll()\<close> when the info is known and the pieces are not there yet.\<close>

definition check_haveAll :: "'bm tcfg \<Rightarrow> ('bm, bool) tact" where
  "check_haveAll k t =
     (if t_haveInfo t \<and> t_pieces t = None then (t, Panic NilDereference) else (t, Return (haveAll k t)))"

definition dataTransferAllowed :: "'bm torrent \<Rightarrow> bool" where
  "dataTransferAllowed t \<longleftrightarrow> \<not> t_haveInfo t \<or> uploadEnabled t \<or> downloadEnabled t"

definition seeding :: "'bm tcfg \<Rightarrow> 'bm torrent \<Rightarrow> bool" where
  "seeding k t \<longleftrightarrow> haveAll k t \<and> uploadEnabled t"

definition wantConns :: "'bm tcfg \<Rightarrow> 'bm torrent \<Rightarrow> bool" where
  "wantConns k t \<longleftrightarrow> int (t_len t) < tk_maxEstablished k \<and> dataTransferAllowed t"

text \<open>
  The ratio is an integer quotient converted to a float, and \<open>10/9\<close> is the integer constant 1;
  \<open>tk_raise\<close> stands for the float expression that raises the threshold.
\<close>

definition wantPeers :: "'bm tcfg \<Rightarrow> 'bm torrent \<Rightarrow> bool" where
  "wantPeers k t \<longleftrightarrow>
     (let ratio = go_quot (tk_maxEstablished k) (int (t_len t));
          threshold = (if t_len t > 0 \<and> ratio < go_quot 10 9 then tk_raise k ratio else wantPeersThreshold)
      in int (length (t_peers t)) < threshold \<and> dataTransferAllowed t)"

definition peerInActiveConns :: "'bm torrent \<Rightarrow> xpeer \<Rightarrow> bool" where
  "peerInActiveConns t p \<longleftrightarrow> list_ex (\<lambda>i. same_addr (ci_peer (ci t i)) p) (conns t)"

definition containsInBlackList :: "'bm torrent \<Rightarrow> bytes \<Rightarrow> bool" where
  "containsInBlackList t ip \<longleftrightarrow> list_ex (\<lambda>addr. ip_Equal addr ip) (blackList t)"

definition swarm :: "'bm torrent \<Rightarrow> xpeer list" where
  "swarm t = map (\<lambda>i. ci_peer (ci t i)) (conns t) @ halfOpen t @ t_peers t"

definition uploaders :: "'bm torrent \<Rightarrow> cid list" where
  "uploaders t = filter (\<lambda>i. canDownload (ci_state (ci t i))) (conns t)"

definition connIndex :: "'bm torrent \<Rightarrow> cid \<Rightarrow> nat option" where
  "connIndex t i = find (\<lambda>j. conns t ! j = i) [0..<t_len t]"

datatype t_state = Closed | Seeding | DownloadingInfo | UploadingDownloading | UploadingOnly | DownloadingOnly | Waiting

definition state :: "'bm tcfg \<Rightarrow> 'bm torrent \<Rightarrow> t_state" where
  "state k t =
     (if t_isClosed t then Closed
      else if seeding k t then Seeding
      else if \<not> t_haveInfo t then DownloadingInfo
      else if uploadEnabled t \<and> downloadEnabled t then UploadingDownloading
      else if uploadEnabled t then UploadingOnly
      else if downloadEnabled t then DownloadingOnly else Waiting)"

section \<open>Sending to a connection\<close>

type_synonym 'bm handler = "cid \<Rightarrow> ('bm, bool) tact"

definition ignore :: "('s, 'a) act \<Rightarrow> ('s, unit) act" where
  "ignore m = andthen m (\<lambda>_. ret ())"

definition sendMsgToConn :: "'bm handler \<Rightarrow> cid \<Rightarrow> 'bm torrent_cmd \<Rightarrow> ('bm, unit) tact" where
  "sendMsgToConn gone i msg t =
     (case t_picks t of
        True # ps \<Rightarrow> ignore (gone i) (t\<lparr>t_picks := ps\<rparr>)
      | ps \<Rightarrow> (mod_ci i (\<lambda>c. c\<lparr>ci_sent := ci_sent c @ [msg]\<rparr>) (t\<lparr>t_picks := tl ps\<rparr>), Return ()))"

text \<open>\<open>for _, c := range t.conns\<close>: the length is that of the start, the elements are those of the array as it is then.\<close>

definition range_conns :: "(cid \<Rightarrow> ('bm, unit) tact) \<Rightarrow> ('bm, unit) tact" where
  "range_conns f t = foreach [0..<t_len t] (\<lambda>j t'. f (t_arr t' ! j) t') t"

definition broadcastToConns :: "'bm handler \<Rightarrow> 'bm torrent_cmd \<Rightarrow> ('bm, unit) tact" where
  "broadcastToConns gone cmd = range_conns (\<lambda>i. sendMsgToConn gone i cmd)"

definition sendCancels :: "'bm handler \<Rightarrow> block \<Rightarrow> ('bm, unit) tact" where
  "sendCancels gone b = broadcastToConns gone (TMsg (cancelMsg b))"

section \<open>The view of a connection\<close>

definition startedDownloading :: "cid \<Rightarrow> ('bm, unit) tact" where
  "startedDownloading i t =
     (if canDownload (ci_state (ci t i))
      then upd_cstats i (\<lambda>cs. cs\<lparr>lastStartedDownloading := Some (t_now t),
             lastReceivedPieceMsg := (if lastReceivedPieceMsg cs = None then Some (t_now t) else lastReceivedPieceMsg cs)\<rparr>) t
      else ret () t)"

definition startedUploading :: "cid \<Rightarrow> ('bm, unit) tact" where
  "startedUploading i t =
     (if canUpload (ci_state (ci t i)) then upd_cstats i (\<lambda>cs. cs\<lparr>lastStartedUploading := Some (t_now t)\<rparr>) t else ret () t)"

definition stoppedDownloading :: "cid \<Rightarrow> ('bm, unit) tact" where
  "stoppedDownloading i t = upd_cstats i (stopDownloading (t_now t)) t"

definition stoppedUploading :: "cid \<Rightarrow> ('bm, unit) tact" where
  "stoppedUploading i t = upd_cstats i (stopUploading (t_now t)) t"

definition when_state :: "cid \<Rightarrow> (conn_state \<Rightarrow> bool) \<Rightarrow> ('bm, unit) tact \<Rightarrow> ('bm, unit) tact" where
  "when_state i c m t = (if c (ci_state (ci t i)) then m t else ret () t)"

definition choke :: "'bm handler \<Rightarrow> cid \<Rightarrow> ('bm, unit) tact" where
  "choke gone i = when_state i (\<lambda>s. \<not> amChoking s)
     (seq (sendMsgToConn gone i (TMsg (new_Msg\<lparr>Kind := Choke\<rparr>)))
     (seq (upd_state i (\<lambda>s. s\<lparr>amChoking := \<not> amChoking s\<rparr>))
       (when_state i isInterested (stoppedUploading i))))"

definition unchoke :: "'bm handler \<Rightarrow> cid \<Rightarrow> ('bm, unit) tact" where
  "unchoke gone i t =
     (if amChoking (ci_state (ci t i)) \<and> uploadEnabled t
      then seq (sendMsgToConn gone i (TMsg (new_Msg\<lparr>Kind := Unchoke\<rparr>)))
           (seq (upd_state i (\<lambda>s. s\<lparr>amChoking := \<not> amChoking s\<rparr>)) (startedUploading i)) t
      else ret () t)"

definition interested :: "'bm handler \<Rightarrow> cid \<Rightarrow> ('bm, unit) tact" where
  "interested gone i t =
     (if numWant (ci t i) \<le> 0 then ret () t
      else if \<not> amInterested (ci_state (ci t i)) \<and> downloadEnabled t
      then seq (sendMsgToConn gone i (TMsg (new_Msg\<lparr>Kind := Interested\<rparr>)))
           (seq (upd_state i (\<lambda>s. s\<lparr>amInterested := \<not> amInterested s\<rparr>)) (startedDownloading i)) t
      else ret () t)"

definition notInterested :: "'bm handler \<Rightarrow> cid \<Rightarrow> ('bm, unit) tact" where
  "notInterested gone i = when_state i amInterested
     (seq (sendMsgToConn gone i (TMsg (new_Msg\<lparr>Kind := NotInterested\<rparr>)))
     (seq (upd_state i (\<lambda>s. s\<lparr>amInterested := \<not> amInterested s\<rparr>))
       (when_state i (\<lambda>s. \<not> isChoking s) (stoppedDownloading i))))"

definition ci_have :: "'bm handler \<Rightarrow> int \<Rightarrow> cid \<Rightarrow> ('bm, unit) tact" where
  "ci_have gone j i = sendMsgToConn gone i (TMsg (new_Msg\<lparr>Kind := Have, Index := of_int j\<rparr>))"

definition sendBitfield :: "'bm handler \<Rightarrow> cid \<Rightarrow> ('bm, unit) tact" where
  "sendBitfield gone i t =
     (case t_pieces t of None \<Rightarrow> (t, Panic NilDereference) | Some p \<Rightarrow> sendMsgToConn gone i (TBitmap (ownedPieces p)) t)"

definition sendPort :: "'bm tcfg \<Rightarrow> 'bm handler \<Rightarrow> cid \<Rightarrow> ('bm, unit) tact" where
  "sendPort k gone i = sendMsgToConn gone i (TMsg (new_Msg\<lparr>Kind := PortKind, Port := tk_dhtPort k\<rparr>))"

definition ci_peerSeeding :: "'bm tcfg \<Rightarrow> 'bm torrent \<Rightarrow> cid \<Rightarrow> bool" where
  "ci_peerSeeding k t i \<longleftrightarrow> t_haveInfo t \<and> bm_len (tk_bm k) (ci_peerBf (ci t i)) = t_numPieces t"

definition ci_isSnubbed :: "'bm tcfg \<Rightarrow> cid \<Rightarrow> ('bm, bool) tact" where
  "ci_isSnubbed k i = andthen (check_haveAll k) (\<lambda>h t.
     if h then (t, Return False)
     else case cs_isSnubbed (t_now t) (t_cstats t i) of (cs, b) \<Rightarrow> (t\<lparr>t_cstats := (t_cstats t)(i := cs)\<rparr>, Return b))"

definition durationDownloading :: "'bm torrent \<Rightarrow> cid \<Rightarrow> int" where
  "durationDownloading t i =
     (let cs = t_cstats t i
      in if canDownload (ci_state (ci t i)) then go_int (sumDownloading cs + since (t_now t) (lastStartedDownloading cs))
         else sumDownloading cs)"

definition durationUploading :: "'bm torrent \<Rightarrow> cid \<Rightarrow> int" where
  "durationUploading t i =
     (let cs = t_cstats t i
      in if canUpload (ci_state (ci t i)) then go_int (sumUploading cs + since (t_now t) (lastStartedUploading cs))
         else sumUploading cs)"

text \<open>Dividend and divisor of the rate; a divisor of zero makes the rate zero.\<close>

definition rate :: "'bm tcfg \<Rightarrow> 'bm torrent \<Rightarrow> cid \<Rightarrow> int \<times> int" where
  "rate k t i =
     (let safeDiv = (\<lambda>b d. if d = 0 then (0, 1) else (b, d))
      in if haveAll k t then safeDiv (uploadUsefulBytes (t_cstats t i)) (durationUploading t i)
         else safeDiv (downloadUsefulBytes (t_cstats t i)) (durationDownloading t i))"

definition byRate_Less :: "'bm tcfg \<Rightarrow> 'bm torrent \<Rightarrow> cid \<Rightarrow> cid \<Rightarrow> bool" where
  "byRate_Less k t i j \<longleftrightarrow> tk_fgt k (rate k t i) (rate k t j)"

section \<open>The choker\<close>

definition newChoker :: choker where
  "newChoker = \<lparr>currRound = 0, optimistic = None, enableOptimistic = True, maxUploadSlots = 4\<rparr>"

text \<open>The last three connections have three entries.\<close>

definition optimisticUnchokeCandidates :: "'bm torrent \<Rightarrow> cid list" where
  "optimisticUnchokeCandidates t =
     concat (map (\<lambda>j. let i = conns t ! j; s = ci_state (ci t i)
                       in if amChoking s \<and> isInterested s then if j + 3 \<ge> t_len t then [i, i, i] else [i] else []) [0..<t_len t])"

definition pickOptimisticUnchoke :: "'bm tcfg \<Rightarrow> ('bm, unit) tact" where
  "pickOptimisticUnchoke k t =
     (let cs = optimisticUnchokeCandidates t
      in if cs = [] then upd_choker (\<lambda>c. c\<lparr>optimistic := None\<rparr>) t
         else andthen (rand_Intn k (length cs)) (\<lambda>j. upd_choker (\<lambda>c. c\<lparr>optimistic := Some (cs ! j)\<rparr>)) t)"

definition opt_is :: "'bm torrent \<Rightarrow> cid \<Rightarrow> bool" where
  "opt_is t i \<longleftrightarrow> (case t_choker t of None \<Rightarrow> False | Some c \<Rightarrow> optimistic c = Some i)"

definition unchoke_optimistic :: "'bm handler \<Rightarrow> ('bm, unit) tact" where
  "unchoke_optimistic gone t =
     (case t_choker t of
        None \<Rightarrow> (t, Panic NilDereference)
      | Some c \<Rightarrow> (case optimistic c of None \<Rightarrow> ret () t | Some i \<Rightarrow> unchoke gone i t))"

text \<open>The loop that sorts the connections: seeding peers are choked, the others are candidates or best peers.\<close>

fun classify :: "'bm tcfg \<Rightarrow> 'bm handler \<Rightarrow> nat list \<Rightarrow> cid list \<Rightarrow> cid list \<Rightarrow> ('bm, cid list \<times> cid list) tact" where
  "classify k gone [] best cand = ret (best, cand)"
| "classify k gone (j # js) best cand = (\<lambda>t.
     let i = t_arr t ! j
     in if ci_peerSeeding k t i then seq (choke gone i) (classify k gone js best cand) t
        else andthen (ci_isSnubbed k i) (\<lambda>b t1.
          if b \<or> \<not> isInterested (ci_state (ci t1 i)) then classify k gone js best (cand @ [i]) t1
          else classify k gone js (best @ [i]) cand t1) t)"

text \<open>The best peers get the slots, except the optimistic one; the result is what is left of them.\<close>

fun unchoke_best :: "'bm handler \<Rightarrow> cid list \<Rightarrow> int \<Rightarrow> ('bm, int) tact" where
  "unchoke_best gone [] toUnchoke = ret toUnchoke"
| "unchoke_best gone (i # is) toUnchoke = (\<lambda>t.
     if opt_is t i then unchoke_best gone is toUnchoke t
     else seq (unchoke gone i) (unchoke_best gone is (toUnchoke - 1)) t)"

fun unchoke_rest :: "'bm handler \<Rightarrow> cid list \<Rightarrow> int \<Rightarrow> ('bm, unit) tact" where
  "unchoke_rest gone [] toUnchoke = ret ()"
| "unchoke_rest gone (i # is) toUnchoke = (\<lambda>t.
     if opt_is t i then unchoke_rest gone is toUnchoke t
     else if toUnchoke \<le> 0 then seq (choke gone i) (unchoke_rest gone is toUnchoke) t
     else seq (unchoke gone i) (\<lambda>t1.
       unchoke_rest gone is (if isInterested (ci_state (ci t1 i)) then toUnchoke - 1 else toUnchoke) t1) t)"

text \<open>What is left of the best peers joins the candidates, which are visited in random order.\<close>

definition unchoke_all :: "'bm tcfg \<Rightarrow> 'bm handler \<Rightarrow> nat \<Rightarrow> cid list \<Rightarrow> cid list \<Rightarrow> ('bm, unit) tact" where
  "unchoke_all k gone slots ranked cand =
     andthen (unchoke_best gone (take slots ranked) (int slots)) (\<lambda>toUnchoke.
       let rest = cand @ drop slots ranked
       in andthen (rand_Perm k (length rest)) (\<lambda>perm. unchoke_rest gone (map ((!) rest) perm) toUnchoke))"

definition sort_conns :: "'bm tcfg \<Rightarrow> 'bm handler \<Rightarrow> nat \<Rightarrow> ('bm, unit) tact" where
  "sort_conns k gone slots t =
     andthen (classify k gone [0..<t_len t] [] [])
       (\<lambda>(best, cand) t1. unchoke_all k gone slots (tk_sort k (byRate_Less k t1) best) cand t1) t"

definition review_body :: "'bm tcfg \<Rightarrow> 'bm handler \<Rightarrow> choker \<Rightarrow> ('bm, unit) tact" where
  "review_body k gone ch t =
     (if t_len t = 0 then ret () t
      else seq (if enableOptimistic ch \<and> go_rem (currRound ch) 5 = 0 then pickOptimisticUnchoke k else ret ())
          (seq (unchoke_optimistic gone) (sort_conns k gone (maxUploadSlots ch))) t)"

text \<open>The deferred increment of the round also runs when the body panics.\<close>

definition reviewUnchokedPeers :: "'bm tcfg \<Rightarrow> 'bm handler \<Rightarrow> ('bm, unit) tact" where
  "reviewUnchokedPeers k gone t =
     (case t_choker t of
        None \<Rightarrow> (t, Panic NilDereference)
      | Some ch \<Rightarrow>
          (case review_body k gone ch t of
             (t1, r) \<Rightarrow> (t1\<lparr>t_choker := map_option (\<lambda>c. c\<lparr>currRound := currRound c + 1\<rparr>) (t_choker t1)\<rparr>, r)))"

section \<open>Peers and announces\<close>

definition popPeer :: "'bm tcfg \<Rightarrow> ('bm, xpeer) tact" where
  "popPeer k t = andthen (rand_Intn k (length (t_peers t))) (\<lambda>i t1.
     (t1\<lparr>t_peers := take i (t_peers t1) @ drop (Suc i) (t_peers t1)\<rparr>, Return (t_peers t1 ! i))) t"

text \<open>Every turn takes a peer off the list, whose length bounds the loop.\<close>

fun dial_loop :: "nat \<Rightarrow> 'bm tcfg \<Rightarrow> ('bm, unit) tact" where
  "dial_loop 0 k t = (t, Return ())"
| "dial_loop (Suc n) k t =
     (if t_peers t = [] \<or> length (halfOpen t) \<ge> maxHalfOpenConns then (t, Return ())
      else andthen (popPeer k) (\<lambda>p t1.
        if peerInActiveConns t1 p \<or> containsInBlackList t1 (peerIP p) then dial_loop n k t1
        else dial_loop n k (t1\<lparr>halfOpen := filter (\<lambda>q. \<not> same_addr p q) (halfOpen t1) @ [p], t_dials := t_dials t1 @ [p]\<rparr>)) t)"

definition sendAnnounceToTracker :: "'bm tcfg \<Rightarrow> tr_event \<Rightarrow> ('bm, unit) tact" where
  "sendAnnounceToTracker k ev t =
     (if tk_disableTrackers k \<or> \<not> tk_hasAnnouncer k \<or> mi_Announce (t_mi t) = [] then (t, Return ())
      else (t\<lparr>t_announces := t_announces t @ [(ev, t_stats t)], canAnnounceTracker := False\<rparr>, Return ()))"

definition announceDht :: "'bm tcfg \<Rightarrow> ('bm, unit) tact" where
  "announceDht k t =
     (if tk_disableDHT k \<or> \<not> tk_hasDht k then (t, Return ())
      else (t\<lparr>t_dht := (case t_dhtAnswers t of [] \<Rightarrow> DhtOpen | d # ds \<Rightarrow> d), t_dhtAnswers := tl (t_dhtAnswers t),
              canAnnounceDht := False\<rparr>, Return ()))"

definition closeDhtAnnounce :: "'bm tcfg \<Rightarrow> ('bm, unit) tact" where
  "closeDhtAnnounce k t =
     (if \<not> tk_hasDht k then (t, Return ())
      else case t_dht t of
        DhtNil \<Rightarrow> (t, Panic NilDereference)
      | DhtClosed \<Rightarrow> (t, Return ())
      | DhtOpen \<Rightarrow> (t\<lparr>t_dht := DhtClosed\<rparr>, Return ()))"

definition tryAnnounceAll :: "'bm tcfg \<Rightarrow> ('bm, unit) tact" where
  "tryAnnounceAll k t =
     (if \<not> wantPeers k t then (t, Return ())
      else seq (\<lambda>t. if canAnnounceTracker t then sendAnnounceToTracker k EvNone t else ret () t)
               (\<lambda>t. if canAnnounceDht t then announceDht k t else ret () t) t)"

definition dialConns :: "'bm tcfg \<Rightarrow> ('bm, unit) tact" where
  "dialConns k t =
     (if \<not> wantConns k t then (t, Return ())
      else seq (dial_loop (length (t_peers t)) k) (tryAnnounceAll k) t)"

definition addFilteredPeers :: "xpeer list \<Rightarrow> (xpeer \<Rightarrow> bool) \<Rightarrow> 'bm torrent \<Rightarrow> 'bm torrent" where
  "addFilteredPeers ps f t = t\<lparr>t_peers := t_peers t @ filter f ps\<rparr>"

definition gotPeers :: "'bm tcfg \<Rightarrow> xpeer list \<Rightarrow> ('bm, unit) tact" where
  "gotPeers k ps t =
     dialConns k (addFilteredPeers ps (\<lambda>p. \<not> containsInBlackList t (peerIP p)) t)"

definition removeHalfOpen :: "'bm tcfg \<Rightarrow> xpeer \<Rightarrow> ('bm, unit) tact" where
  "removeHalfOpen k p t = dialConns k (t\<lparr>halfOpen := filter (\<lambda>q. \<not> same_addr p q) (halfOpen t)\<rparr>)"

definition trackerAnnounced :: "'bm tcfg \<Rightarrow> AnnounceResp option \<Rightarrow> ('bm, unit) tact" where
  "trackerAnnounced k resp t =
     (case resp of
        None \<Rightarrow> (t, Return ())
      | Some r \<Rightarrow> gotPeers k (map (\<lambda>p. \<lparr>xp_P = p, xp_Source = SourceTracker\<rparr>) (rs_Peers r)) (t\<lparr>lastAnnounceResp := Some r\<rparr>))"

definition dhtAnnounced :: "'bm tcfg \<Rightarrow> (bytes \<times> int) list \<Rightarrow> ('bm, unit) tact" where
  "dhtAnnounced k pvs =
     gotPeers k (map (\<lambda>(ip, port). \<lparr>xp_P = \<lparr>pr_ID = None, pr_IP = ip, pr_Port = of_int port\<rparr>, xp_Source = SourceDHT\<rparr>)
       (filter (\<lambda>(ip, port). port \<noteq> 0) pvs))"

section \<open>Connections come and go\<close>

definition removeConn :: "nat \<Rightarrow> 'bm torrent \<Rightarrow> 'bm torrent" where
  "removeConn j t =
     t\<lparr>t_arr := take j (t_arr t) @ drop (Suc j) (conns t) @ drop (t_len t - 1) (t_arr t), t_len := t_len t - 1\<rparr>"

definition appendConn :: "cid \<Rightarrow> 'bm torrent \<Rightarrow> 'bm torrent" where
  "appendConn i t = t\<lparr>t_arr := conns t @ [i] @ drop (Suc (t_len t)) (t_arr t), t_len := Suc (t_len t)\<rparr>"

definition dropped_body :: "'bm tcfg \<Rightarrow> 'bm handler \<Rightarrow> 'bm handler" where
  "dropped_body k gone i t =
     (case connIndex t i of
        None \<Rightarrow> (t, Return False)
      | Some j \<Rightarrow>
          let t1 = removeConn j t;
              t2 = (if infoWasDownloaded t1 \<and> \<not> dataTransferAllowed t1 then t1\<lparr>t_peers := t_peers t1 @ [ci_peer (ci t1 i)]\<rparr> else t1)
          in seq (dialConns k) (seq (reviewUnchokedPeers k gone) (ret True)) t2)"

primrec dropped_fuel :: "nat \<Rightarrow> 'bm tcfg \<Rightarrow> 'bm handler" where
  "dropped_fuel 0 k i = (\<lambda>t. if connIndex t i = None then (t, Return False) else (t, Panic (PanicMsg ''fuel'')))"
| "dropped_fuel (Suc n) k i = dropped_body k (dropped_fuel n k) i"

definition droppedConn :: "'bm tcfg \<Rightarrow> 'bm handler" where
  "droppedConn k i t = dropped_fuel (t_len t) k i t"

definition establishedConnection :: "'bm tcfg \<Rightarrow> 'bm connInfo \<Rightarrow> ('bm, bool) tact" where
  "establishedConnection k c t0 =
     (let i = length (t_store t0);
          t = t0\<lparr>t_store := t_store t0 @ [c], t_cstats := (t_cstats t0)(i := zeroConnStats)\<rparr>
      in if \<not> wantConns k t \<or> containsInBlackList t (peerIP (ci_peer c))
         then seq (sendMsgToConn (droppedConn k) i TDrop) (seq (closeDhtAnnounce k) (ret False)) t
         else seq (\<lambda>t. if t_haveInfo t then sendMsgToConn (droppedConn k) i THaveInfo t else ret () t)
             (seq (\<lambda>t. case t_pieces t of
                        Some p \<Rightarrow> if bm_len (tk_bm k) (ownedPieces p) > 0 then sendBitfield (droppedConn k) i t else ret () t
                      | None \<Rightarrow> ret () t)
             (seq (if SupportDHT (ci_reserved c) \<and> SupportDHT (tk_reserved k) \<and> tk_hasDht k then sendPort k (droppedConn k) i else ret ())
             (seq (reviewUnchokedPeers k (droppedConn k)) (ret True)))) (appendConn i t))"

definition banIP :: "'bm tcfg \<Rightarrow> bytes \<Rightarrow> ('bm, unit) tact" where
  "banIP k ip t =
     (if ip_Equal ip (tk_outIP k) \<or> ip_Equal ip [127, 0, 0, 1] then (t, Return ())
      else range_conns (\<lambda>i t. if ip_Equal (peerIP (ci_peer (ci t i))) ip then sendMsgToConn (droppedConn k) i TDrop t else ret () t)
             (t\<lparr>blackList := blackList t @ [ip]\<rparr>))"

definition banPeer :: "'bm tcfg \<Rightarrow> ('bm, unit) tact" where
  "banPeer k t =
     (case foldl (\<lambda>(mx, b) i. let m = malliciousness (t_cstats t i) in if m > mx then (m, Some i) else (mx, b))
             (- (2 ^ 31), None) (conns t) of
        (mx, None) \<Rightarrow> (t, Return ())
      | (mx, Some i) \<Rightarrow> banIP k (peerIP (ci_peer (ci t i))) t)"

section \<open>Interest\<close>

definition peerInterestChanged :: "'bm tcfg \<Rightarrow> cid \<Rightarrow> ('bm, unit) tact" where
  "peerInterestChanged k i =
     seq (upd_state i (\<lambda>s. s\<lparr>isInterested := \<not> isInterested s\<rparr>)) (\<lambda>t.
       let s = ci_state (ci t i)
       in if isInterested s
          then seq (if \<not> amChoking s then reviewUnchokedPeers k (droppedConn k) else ret ()) (startedUploading i) t
          else if \<not> amChoking s then seq (reviewUnchokedPeers k (droppedConn k)) (stoppedUploading i) t
          else ret () t)"

definition peerChokeChanged :: "cid \<Rightarrow> ('bm, unit) tact" where
  "peerChokeChanged i =
     seq (upd_state i (\<lambda>s. s\<lparr>isChoking := \<not> isChoking s\<rparr>)) (\<lambda>t.
       let s = ci_state (ci t i)
       in if isChoking s then if amInterested s then stoppedDownloading i t else ret () t
          else startedDownloading i t)"

definition wanted :: "'bm tcfg \<Rightarrow> 'bm torrent \<Rightarrow> cid \<Rightarrow> int" where
  "wanted k t i =
     (case t_pieces t of
        None \<Rightarrow> 0
      | Some p \<Rightarrow> int (length (filter (\<lambda>j. \<not> bm_get (tk_bm k) (ownedPieces p) j \<and> bm_get (tk_bm k) (ci_peerBf (ci t i)) j)
                                 [0..t_numPieces t - 1])))"

definition reviewInterestsOnBitfield :: "'bm tcfg \<Rightarrow> cid \<Rightarrow> ('bm, unit) tact" where
  "reviewInterestsOnBitfield k i = andthen (check_haveAll k) (\<lambda>h t.
     if \<not> t_haveInfo t \<or> h then ret () t
     else (\<lambda>t1. if numWant (ci t1 i) > 0 then interested (droppedConn k) i t1 else ret () t1)
            (mod_ci i (\<lambda>c. c\<lparr>numWant := numWant c + wanted k t i\<rparr>) t))"

definition reviewInterestsOnHave :: "'bm tcfg \<Rightarrow> cid \<Rightarrow> int \<Rightarrow> ('bm, unit) tact" where
  "reviewInterestsOnHave k i j = andthen (check_haveAll k) (\<lambda>h t.
     if \<not> t_haveInfo t \<or> h then ret () t
     else case t_pieces t of
       None \<Rightarrow> (t, Panic NilDereference)
     | Some p \<Rightarrow>
         if bm_get (tk_bm k) (ownedPieces p) j then ret () t
         else seq (\<lambda>t. if numWant (ci t i) \<le> 0 then interested (droppedConn k) i t else ret () t)
                  (upd_ci i (\<lambda>c. c\<lparr>numWant := numWant c + 1\<rparr>)) t)"

section \<open>Blocks and pieces\<close>

definition close_chan :: "bool \<Rightarrow> (unit, bool) outcome" where
  "close_chan closed = (if closed then Panic (PanicMsg ''close of closed channel'') else Return True)"

definition queuePieceForHashing :: "int \<Rightarrow> ('bm, unit) tact" where
  "queuePieceForHashing i t =
     (case t_pieces t of
        None \<Rightarrow> (t, Panic NilDereference)
      | Some p \<Rightarrow>
          if i \<in> set (queuedForVerification t) then (t, Return ())
          else if \<not> isValid p i then (t, Panic IndexOutOfRange)
          else if pc_verified (pcs p ! nat i) then (t, Return ())
          else let t1 = t\<lparr>queuedForVerification := queuedForVerification t @ [i]\<rparr>
               in if int (length (hashQueue t)) < t_numPieces t then (t1\<lparr>hashQueue := hashQueue t @ [i]\<rparr>, Return ())
                  else (t1, Panic (PanicMsg ''queue piece hash: should not block'')))"

fun run_paction :: "'bm tcfg \<Rightarrow> paction \<Rightarrow> ('bm, unit) tact" where
  "run_paction k (QueuePieceForHashing i) = queuePieceForHashing i"
| "run_paction k BroadcastRequestsAvailable = broadcastToConns (droppedConn k) TRequestsAvailable"
| "run_paction k (SendCancels b) = sendCancels (droppedConn k) b"

definition blockDownloaded :: "'bm tcfg \<Rightarrow> cid \<Rightarrow> block \<Rightarrow> ('bm, unit) tact" where
  "blockDownloaded k i b t0 =
     (let t = t0\<lparr>t_cstats := (t_cstats t0)(i := cs_onBlockDownload (t_now t0) (bl_len b) (t_cstats t0 i)),
                 t_stats := st_blockDownloaded (bl_len b) (t_stats t0)\<rparr>
      in case t_pieces t of
        None \<Rightarrow> (t, Panic NilDereference)
      | Some p \<Rightarrow>
          (case setBlockComplete (tk_bm k) (blockRequestSize t) (t_numPieces t) p (bl_pc b) (bl_off b) i of
             Panic e \<Rightarrow> (t, Panic e)
           | Error _ \<Rightarrow> (t, Return ())
           | Return (p', acts) \<Rightarrow> foreach acts (run_paction k) (t\<lparr>t_pieces := Some p'\<rparr>)))"

definition blockUploaded :: "cid \<Rightarrow> block \<Rightarrow> ('bm, unit) tact" where
  "blockUploaded i b = modify (\<lambda>t. t\<lparr>t_cstats := (t_cstats t)(i := cs_onBlockUpload (bl_len b) (t_cstats t i)),
     t_stats := st_blockUploaded (bl_len b) (t_stats t)\<rparr>)"

definition downloadedAll :: "'bm tcfg \<Rightarrow> ('bm, unit) tact" where
  "downloadedAll k t =
     (case close_chan (downloadedDataC t) of
        Panic e \<Rightarrow> (t, Panic e)
      | _ \<Rightarrow> range_conns (notInterested (droppedConn k)) (t\<lparr>downloadedDataC := True\<rparr>))"

definition reviewInterestsOnPieceDownload :: "'bm tcfg \<Rightarrow> int \<Rightarrow> ('bm, unit) tact" where
  "reviewInterestsOnPieceDownload k j = andthen (check_haveAll k) (\<lambda>h.
     if h then ret ()
     else range_conns (\<lambda>i t.
       if bm_get (tk_bm k) (ci_peerBf (ci t i)) j
       then (\<lambda>t1. if numWant (ci t1 i) \<le> 0 then notInterested (droppedConn k) i t1 else ret () t1)
              (mod_ci i (\<lambda>c. c\<lparr>numWant := numWant c - 1\<rparr>) t)
       else ret () t))"

definition sendHaves :: "'bm tcfg \<Rightarrow> int \<Rightarrow> ('bm, unit) tact" where
  "sendHaves k j = range_conns (ci_have (droppedConn k) j)"

definition onPieceDownload :: "'bm tcfg \<Rightarrow> int \<Rightarrow> ('bm, unit) tact" where
  "onPieceDownload k j t =
     (case pieceLen (t_info t) (t_length t) j of
        Panic e \<Rightarrow> (t, Panic e)
      | Error _ \<Rightarrow> (t, Return ())
      | Return len \<Rightarrow> seq (reviewInterestsOnPieceDownload k j) (sendHaves k j) (t\<lparr>t_stats := st_onPieceDownload len (t_stats t)\<rparr>))"

definition t_pieceHashed :: "'bm tcfg \<Rightarrow> int \<Rightarrow> bool \<Rightarrow> ('bm, unit) tact" where
  "t_pieceHashed k j correct t0 =
     (let t = t0\<lparr>queuedForVerification := removeAll j (queuedForVerification t0)\<rparr>
      in case t_pieces t of
        None \<Rightarrow> (t, Panic NilDereference)
      | Some p \<Rightarrow>
          (case pieceHashed (tk_bm k) p (t_cstats t) j correct of
             Panic e \<Rightarrow> (t, Panic e)
           | Error _ \<Rightarrow> (t, Return ())
           | Return (p', cs) \<Rightarrow>
               (if correct then onPieceDownload k j else banPeer k) (t\<lparr>t_pieces := Some p', t_cstats := cs\<rparr>)))"

text \<open>
  The piece hasher (\<open>torrent/piece_hasher.go\<close>), a goroutine that runs while \<open>hashing\<close>: it takes a piece
  off the queue and hashes it, and ends when every piece is verified, or when the torrent is closed.
\<close>

definition hash_next :: "'bm tcfg \<Rightarrow> 'bm torrent \<Rightarrow> (unit, 'bm torrent \<times> int \<times> bool) outcome" where
  "hash_next k t =
     (case hashQueue t of
        [] \<Rightarrow> Error ()
      | j # js \<Rightarrow>
          if \<not> hashing t then Error ()
          else obind (pieceLen (t_info t) (t_length t) j) (\<lambda>len.
          obind (HashPiece (tk_sha1 k) (tk_env k) (tk_dir k) (t_info t) (t_storage t) j len) (\<lambda>(st, ok).
            let n = (if ok then numVerified t + 1 else numVerified t)
            in Return (t\<lparr>hashQueue := js, t_storage := st, numVerified := n, hashing := \<not> (ok \<and> n = t_numPieces t)\<rparr>, j, ok))))"

definition hash_stop :: "'bm torrent \<Rightarrow> 'bm torrent" where
  "hash_stop t = (if t_isClosed t then t\<lparr>hashing := False\<rparr> else t)"

section \<open>The info dictionary\<close>

definition swap_blocks :: "int \<Rightarrow> 'bm pieces \<Rightarrow> 'bm pieces" where
  "swap_blocks j p = p\<lparr>pcs := (pcs p)[nat j := (pcs p ! nat j)\<lparr>unrequestedBlocks := completeBlocks (pcs p ! nat j),
     completeBlocks := unrequestedBlocks (pcs p ! nat j)\<rparr>]\<rparr>"

text \<open>All the data is there already: every piece is marked complete and hashed.\<close>

fun mark_all :: "'bm tcfg \<Rightarrow> int list \<Rightarrow> ('bm, unit) tact" where
  "mark_all k [] = ret ()"
| "mark_all k (j # js) = seq (modify (\<lambda>t. t\<lparr>t_pieces := map_option (swap_blocks j) (t_pieces t)\<rparr>))
     (seq (t_pieceHashed k j True) (mark_all k js))"

definition start_pieces :: "'bm tcfg \<Rightarrow> ('bm, unit) tact" where
  "start_pieces k t0 =
     (let info = t_info t0;
          t1 = t0\<lparr>t_length := TotalLength info, t_stats := (t_stats t0)\<lparr>BytesLeft := TotalLength info\<rparr>,
                  blockRequestSize := blockSize info\<rparr>
      in case newPieces (tk_bm k) info (t_length t1) (blockRequestSize t1) of
        Panic e \<Rightarrow> (t1, Panic e)
      | Error _ \<Rightarrow> (t1, Return ())
      | Return p \<Rightarrow>
          seq (broadcastToConns (droppedConn k) THaveInfo) (\<lambda>t2.
            case OpenFileStorage (tk_sha1 k) (tk_env k) (tk_dir k) info (st_fs (t_storage t2)) (blocks p) of
              Panic e \<Rightarrow> (t2, Panic e)
            | Error _ \<Rightarrow> (t2, Return ())
            | Return (st, True) \<Rightarrow> seq (mark_all k [0..int (length (pcs p)) - 1]) (downloadedAll k) (t2\<lparr>t_storage := st\<rparr>)
            | Return (st, False) \<Rightarrow> (t2\<lparr>t_storage := st, hashing := True\<rparr>, Return ()))
          (t1\<lparr>t_pieces := Some p, hashQueue := []\<rparr>))"

text \<open>The deferred close of \<open>InfoC\<close> comes last.\<close>

definition gotInfo :: "'bm tcfg \<Rightarrow> ('bm, unit) tact" where
  "gotInfo k = seq (\<lambda>t.
       case mi_InfoBytes (t_mi t) of
         None \<Rightarrow> ret () t
       | Some ib \<Rightarrow>
           if uts_m (t_uts t) \<noteq> [] then (t, Panic (PanicMsg ''got info''))
           else (case newUtMetadata (int (length ib)) of
                   Panic e \<Rightarrow> (t, Panic e)
                 | Error _ \<Rightarrow> (t, Return ())
                 | Return ut \<Rightarrow> (t\<lparr>t_uts := \<lparr>uts_m = [(int (length ib), ut\<lparr>infoBytes := ib\<rparr>)], correctSize = int (length ib)\<rparr>\<rparr>, Return ())))
     (seq (start_pieces k) (\<lambda>t.
       case close_chan (infoC t) of Panic e \<Rightarrow> (t, Panic e) | _ \<Rightarrow> (t\<lparr>infoC := True\<rparr>, Return ())))"

text \<open>
  Closing a torrent signals its connections and waits until each has ended. The fields are cleared, and
  \<open>ClosedC\<close> closed, only after that.
\<close>

definition t_close :: "'bm tcfg \<Rightarrow> ('bm, unit) tact" where
  "t_close k t =
     (if t_isClosed t then (t, Panic (PanicMsg ''attempt to close torrent but is already closed''))
      else seq (closeDhtAnnounce k) (\<lambda>t1.
        case close_chan (dropC t1) of
          Panic e \<Rightarrow> (t1, Panic e)
        | _ \<Rightarrow> if list_ex (tk_stuck k (id_hash (t_info t1))) (conns t1) then (t1\<lparr>dropC := True\<rparr>, Panic (PanicMsg ''deadlock''))
               else (t1\<lparr>dropC := True, t_arr := [], t_len := 0, t_choker := None, t_pieces := None, t_peers := [],
                   t_isClosed := True\<rparr>, Return ())) t)"

definition metadataCompleted :: "'bm tcfg \<Rightarrow> int \<Rightarrow> ('bm, unit) tact" where
  "metadataCompleted k infoSize t =
     (case uts_metadata (t_uts t) infoSize of
        Panic e \<Rightarrow> (t, Panic e)
      | Error _ \<Rightarrow> (t, Return ())
      | Return ut \<Rightarrow>
          if tk_sha1 k (infoBytes ut) \<noteq> id_hash (t_info t)
          then andthen (rand_Intn k (length (ut_contributors ut))) (\<lambda>j.
               seq (banIP k (ut_contributors ut ! j))
              (seq (broadcastToConns (droppedConn k) TRequestsAvailable) (\<lambda>t1.
                 case uts_reset (t_uts t1) infoSize of
                   Panic e \<Rightarrow> (t1, Panic e)
                 | Error _ \<Rightarrow> (t1, Return ())
                 | Return uts \<Rightarrow> (t1\<lparr>t_uts := uts\<rparr>, Return ())))) t
          else (case Decode (infoBytes ut) (info_val (t_info t)) of
                  (v, Some e) \<Rightarrow> t_close k (t\<lparr>t_mi := (t_mi t)\<lparr>mi_Info := Some (info_of (id_hash (t_info t)) v)\<rparr>\<rparr>)
                | (v, None) \<Rightarrow> gotInfo k (t\<lparr>t_mi := (t_mi t)\<lparr>mi_Info := Some (info_of (id_hash (t_info t)) v)\<rparr>,
                                            t_uts := setCorrect (t_uts t) infoSize\<rparr>)))"

section \<open>The main loop\<close>

definition onConnMsg :: "'bm tcfg \<Rightarrow> cid \<Rightarrow> 'bm conn_msg \<Rightarrow> ('bm, unit) tact" where
  "onConnMsg k i v =
     (case v of
        ToMsg m \<Rightarrow>
          if Kind m = Interested \<or> Kind m = NotInterested then peerInterestChanged k i
          else if Kind m = Choke \<or> Kind m = Unchoke then peerChokeChanged i
          else if Kind m = Have
          then seq (upd_ci i (\<lambda>c. c\<lparr>ci_peerBf := bm_set (tk_bm k) (ci_peerBf c) (uint (Index m)) True\<rparr>))
                   (reviewInterestsOnHave k i (uint (Index m)))
          else ret ()
      | ToDownloaded b \<Rightarrow> blockDownloaded k i b
      | ToUploaded b \<Rightarrow> blockUploaded i b
      | ToMetadata sz \<Rightarrow> metadataCompleted k sz
      | ToBitmap bm \<Rightarrow> seq (upd_ci i (\<lambda>c. c\<lparr>ci_peerBf := bm\<rparr>)) (reviewInterestsOnBitfield k i)
      | ToDropped \<Rightarrow> ignore (droppedConn k i)
      | ToDiscarded \<Rightarrow> broadcastToConns (droppedConn k) TRequestsAvailable
      | ToNil \<Rightarrow> ret ())"

datatype xport_err = ErrTorrentClosed | ErrNoInfo | ErrAlreadyDownloading | ErrInfoRequired

section \<open>Exported methods\<close>

definition StartDataTransfer :: "'bm tcfg \<Rightarrow> ('bm, xport_err option) tact" where
  "StartDataTransfer k t =
     (if t_isClosed t then (t, Return (Some ErrTorrentClosed))
      else if \<not> t_haveInfo t then (t, Return (Some ErrNoInfo))
      else if uploadEnabled t \<or> downloadEnabled t then (t, Return (Some ErrAlreadyDownloading))
      else let t1 = t\<lparr>uploadEnabled := True, downloadEnabled := True\<rparr>
           in if \<not> infoWasDownloaded t1 \<and> t_len t1 > 0 then (t1, Panic (PanicMsg ''why have conns?''))
              else andthen (check_haveAll k) (\<lambda>h.
                seq (if h then ret ()
                     else seq (modify (\<lambda>t. t\<lparr>t_pieces := map_option (\<lambda>p. setDownloadEnabled p True) (t_pieces t)\<rparr>))
                         (seq (range_conns (reviewInterestsOnBitfield k)) (broadcastToConns (droppedConn k) TRequestsAvailable)))
                (seq (tryAnnounceAll k) (seq (dialConns k) (ret None)))) t1)"

text \<open>\<open>p.mu\<close> is not reentrant: locking it while it is held never returns.\<close>

definition mu_Lock :: "bool \<Rightarrow> (unit, bool) outcome" where
  "mu_Lock held = (if held then Panic (PanicMsg ''deadlock'') else Return True)"

definition pieces_setDownloadEnabled :: "bool \<Rightarrow> 'bm pieces \<Rightarrow> bool \<Rightarrow> (unit, 'bm pieces) outcome" where
  "pieces_setDownloadEnabled mu p v = obind (mu_Lock mu) (\<lambda>_. Return (setDownloadEnabled p v))"

definition setDataDownloadEnable :: "'bm tcfg \<Rightarrow> bool \<Rightarrow> ('bm, xport_err option) tact" where
  "setDataDownloadEnable k v t =
     (case t_pieces t of
        None \<Rightarrow> (t, Return (Some ErrInfoRequired))
      | Some p \<Rightarrow>
          (case obind (mu_Lock False) (\<lambda>mu. pieces_setDownloadEnabled mu p v) of
             Panic e \<Rightarrow> (t, Panic e)
           | Error _ \<Rightarrow> (t, Return None)
           | Return p1 \<Rightarrow>
               if ps_downloadEnabled p1 = v then (t\<lparr>t_pieces := Some p1\<rparr>, Return None)
               else seq (range_conns (if v then interested (droppedConn k) else notInterested (droppedConn k)))
                   (seq (if v then broadcastToConns (droppedConn k) TRequestsAvailable else ret ()) (ret None))
                   (t\<lparr>t_pieces := Some (p1\<lparr>ps_downloadEnabled := v\<rparr>)\<rparr>)))"

definition AddPeers :: "'bm tcfg \<Rightarrow> xpeer list \<Rightarrow> ('bm, xport_err option) tact" where
  "AddPeers k ps t = (if t_isClosed t then (t, Return (Some ErrTorrentClosed)) else seq (gotPeers k ps) (ret None) t)"

definition Close :: "'bm tcfg \<Rightarrow> ('bm, xport_err option) tact" where
  "Close k t = (if t_isClosed t then (t, Return (Some ErrTorrentClosed)) else seq (t_close k) (ret None) t)"

text \<open>The queries: only \<open>Seeding\<close> returns early on a closed torrent.\<close>

definition Seeding_query :: "'bm tcfg \<Rightarrow> ('bm, bool) tact" where
  "Seeding_query k t =
     (if t_isClosed t then (t, Return False) else andthen (check_haveAll k) (\<lambda>h t. (t, Return (h \<and> uploadEnabled t))) t)"

definition HaveAllPieces :: "'bm tcfg \<Rightarrow> ('bm, bool) tact" where
  "HaveAllPieces k = check_haveAll k"

definition Pieces_query :: "'bm torrent \<Rightarrow> 'bm piece list" where
  "Pieces_query t = (case t_pieces t of None \<Rightarrow> [] | Some p \<Rightarrow> pcs p)"

definition Swarm_query :: "'bm torrent \<Rightarrow> xpeer list" where
  "Swarm_query t = swarm t"

definition Metainfo_query :: "'bm torrent \<Rightarrow> meta_info" where
  "Metainfo_query t = t_mi t"

definition Info_query :: "'bm torrent \<Rightarrow> info_dict option" where
  "Info_query t = mi_Info (t_mi t)"

definition Stats_query :: "'bm torrent \<Rightarrow> tstats" where
  "Stats_query t = t_stats t"

datatype user_call = UStart | USetDownload bool | UAddPeers "xpeer list" | UClose | UQuery

definition user :: "'bm tcfg \<Rightarrow> user_call \<Rightarrow> ('bm, xport_err option) tact" where
  "user k u =
     (case u of
        UStart \<Rightarrow> StartDataTransfer k
      | USetDownload v \<Rightarrow> setDataDownloadEnable k v
      | UAddPeers ps \<Rightarrow> AddPeers k ps
      | UClose \<Rightarrow> Close k
      | UQuery \<Rightarrow> ret None)"

datatype 'bm tevent =
    ConnMsg cid "'bm conn_msg"
  | HashedPiece int bool
  | NewConn "'bm connInfo"
  | ChokerTick
  | TrackerResp "AnnounceResp option"
  | TrackerTimer
  | DhtPeers "(bytes \<times> int) list" bool
  | DhtTimer
  | HalfOpenDone xpeer
  | User user_call

text \<open>
  One turn of the loop. The \<open>select\<close> first evaluates its channels, which dereferences the choker
  and the DHT announce; \<open>HalfOpenDone\<close> is \<open>removeHalfOpen\<close>, which the dialling goroutine calls.
\<close>

definition t_turn :: "'bm tcfg \<Rightarrow> 'bm tevent \<Rightarrow> ('bm, unit) tact" where
  "t_turn k ev t =
     (if t_choker t = None \<or> t_dht t = DhtNil then (t, Panic NilDereference)
      else case ev of
        ConnMsg i v \<Rightarrow> onConnMsg k i v t
      | HashedPiece j ok \<Rightarrow> seq (t_pieceHashed k j ok) (\<lambda>t1.
          case t_pieces t1 of
            None \<Rightarrow> (t1, Panic NilDereference)
          | Some p \<Rightarrow> if pieces_haveAll (tk_bm k) (t_numPieces t1) p
                     then seq (sendAnnounceToTracker k EvCompleted) (downloadedAll k) t1 else ret () t1) t
      | NewConn c \<Rightarrow> ignore (establishedConnection k c) t
      | ChokerTick \<Rightarrow> reviewUnchokedPeers k (droppedConn k) t
      | TrackerResp r \<Rightarrow> trackerAnnounced k r t
      | TrackerTimer \<Rightarrow> tryAnnounceAll k (t\<lparr>canAnnounceTracker := True\<rparr>)
      | DhtPeers pvs ok \<Rightarrow> dhtAnnounced k pvs (if ok then t else t\<lparr>t_dht := DhtClosed\<rparr>)
      | DhtTimer \<Rightarrow> seq (closeDhtAnnounce k) (tryAnnounceAll k) (t\<lparr>canAnnounceDht := True\<rparr>)
      | HalfOpenDone p \<Rightarrow> removeHalfOpen k p t
      | User u \<Rightarrow> ignore (user k u) t)"

definition newTorrent :: "'bm tcfg \<Rightarrow> meta_info \<Rightarrow> bytes list \<Rightarrow> storage \<Rightarrow> 'bm torrent" where
  "newTorrent k mi black st =
     \<lparr>t_store = [], t_cstats = (\<lambda>_. zeroConnStats), t_arr = [], t_len = 0, halfOpen = [], t_peers = [], t_pieces = None,
      t_choker = Some newChoker, canAnnounceTracker = True, canAnnounceDht = True, t_dht = DhtClosed, lastAnnounceResp = None,
      uploadEnabled = False, downloadEnabled = False, t_isClosed = False, downloadedDataC = False, infoC = False, dropC = False,
      queuedForVerification = [], hashQueue = [], t_mi = mi, t_uts = uts_new, t_length = 0, blockRequestSize = 0,
      t_stats = zeroStats, t_storage = st, hashing = False, numVerified = 0, blackList = black, t_announces = [], t_dials = [], t_now = 0,
      t_rolls = 0, t_picks = [], t_dhtAnswers = []\<rparr>"

text \<open>The client adds a torrent: one read from a file has its info, then the main loop starts with the announces.\<close>

definition startTorrent :: "'bm tcfg \<Rightarrow> meta_info \<Rightarrow> bytes list \<Rightarrow> storage \<Rightarrow> 'bm torrent \<times> (conn_err, unit) outcome" where
  "startTorrent k mi black st =
     seq (if mi_InfoBytes mi \<noteq> None then gotInfo k else ret ()) (tryAnnounceAll k) (newTorrent k mi black st)"

text \<open>
  The torrent among the other goroutines: turns of the main loop, the hasher, a connection that has
  its peer banned, and the environment, which advances the clock and decides what the sends find.
\<close>

inductive t_reach :: "'bm tcfg \<Rightarrow> 'bm torrent \<Rightarrow> 'bm torrent \<Rightarrow> bool" for k t0 where
  start: "t_reach k t0 t0"
| turn: "t_reach k t0 t \<Longrightarrow> t_turn k ev t = (t', Return ()) \<Longrightarrow> t_reach k t0 t'"
| hasher: "t_reach k t0 t \<Longrightarrow> hash_next k t = Return (t', j, ok) \<Longrightarrow> t_reach k t0 t'"
| hasher_ends: "t_reach k t0 t \<Longrightarrow> t_reach k t0 (hash_stop t)"
| client_ban: "t_reach k t0 t \<Longrightarrow> t_reach k t0 (t\<lparr>blackList := blackList t @ [ip]\<rparr>)"
| environment: "t_reach k t0 t \<Longrightarrow> t_reach k t0 (t\<lparr>t_now := n, t_picks := ps, t_dhtAnswers := ds\<rparr>)"

end
