(* ===== verification/Torrent_Correct.thy ===== *)
theory Torrent_Correct
  imports Torrent Conn_Correct
begin

text \<open>
  What the operations of a torrent keep. As for a connection, the handlers are taken apart once, in
  locales whose laws say what they do to the fields an invariant can see: \<open>torrent_core\<close> for what a
  dropped connection sets off, \<open>torrent_turn\<close> for the other handlers that leave the data alone, and
  \<open>torrent_inv\<close> for the whole of a turn, for invariants that do not see the data.
\<close>

section \<open>Laws\<close>

text \<open>
  The fields an invariant can see: what belongs to the connections, and the data (the pieces, the
  storage and what they are derived from). Only some handlers touch the data.
\<close>

definition csame :: "'bm torrent \<Rightarrow> 'bm torrent \<Rightarrow> bool" where
  "csame t t' \<longleftrightarrow> t_arr t' = t_arr t \<and> t_len t' = t_len t \<and> map ci_peer (t_store t') = map ci_peer (t_store t) \<and>
     halfOpen t' = halfOpen t \<and> t_dials t' = t_dials t \<and> blackList t' = blackList t \<and>
     queuedForVerification t' = queuedForVerification t \<and> downloadedDataC t' = downloadedDataC t \<and>
     map_option optimistic (t_choker t') = map_option optimistic (t_choker t)"

definition tsame :: "'bm torrent \<Rightarrow> 'bm torrent \<Rightarrow> bool" where
  "tsame t t' \<longleftrightarrow> csame t t' \<and> t_pieces t' = t_pieces t \<and> t_storage t' = t_storage t \<and> infoC t' = infoC t \<and> hashing t' = hashing t \<and>
     hashQueue t' = hashQueue t \<and> t_mi t' = t_mi t \<and> t_length t' = t_length t"

lemma tsame_csame: "tsame t t' \<Longrightarrow> csame t t'"
  by (simp add: tsame_def)

lemma tsame_refl [simp]: "tsame t t"
  by (simp add: tsame_def csame_def)

lemma csame_peer: "csame t t' \<Longrightarrow> i < length (t_store t) \<Longrightarrow> ci_peer (ci t' i) = ci_peer (ci t i)"
  unfolding csame_def by (metis length_map nth_map)

lemma csame_length: "csame t t' \<Longrightarrow> length (t_store t') = length (t_store t)"
  unfolding csame_def by (metis length_map)

lemma mod_ci_peers [simp]: "(\<And>c. ci_peer (f c) = ci_peer c) \<Longrightarrow> map ci_peer ((t_store t)[i := f (ci t i)]) = map ci_peer (t_store t)"
  by (cases "i < length (t_store t)") (simp_all add: map_update list_update_same_conv not_less list_update_beyond)

definition dialed :: "xpeer \<Rightarrow> 'bm torrent \<Rightarrow> 'bm torrent" where
  "dialed p t = t\<lparr>halfOpen := filter (\<lambda>q. \<not> same_addr p q) (halfOpen t) @ [p], t_dials := t_dials t @ [p]\<rparr>"

lemma keeps_ignore [keeps]: "keeps P m \<Longrightarrow> keeps P (ignore m)"
  unfolding ignore_def by (intro keeps)

locale torrent_core =
  fixes P :: "'bm torrent \<Rightarrow> bool"
  assumes frame: "P t \<Longrightarrow> tsame t t' \<Longrightarrow> P t'"
    and picked: "P t \<Longrightarrow> \<forall>i. optimistic c = Some i \<longrightarrow> (\<exists>j < t_len t. i = t_arr t ! j) \<Longrightarrow> P (t\<lparr>t_choker := Some c\<rparr>)"
    and dialing: "P t \<Longrightarrow> length (halfOpen t) < maxHalfOpenConns \<Longrightarrow> \<not> containsInBlackList t (peerIP p) \<Longrightarrow>
      \<not> peerInActiveConns t p \<Longrightarrow> P (dialed p t)"
    and removed: "P t \<Longrightarrow> j < t_len t \<Longrightarrow> P (removeConn j t)"
begin

lemma keeps_tframe: "(\<And>t. tsame t (fst (m t))) \<Longrightarrow> keeps P m"
  by (rule keepsI) (metis frame)

lemma modify_keeps: "(\<And>t. tsame t (f t)) \<Longrightarrow> keeps P (modify f)"
  by (rule keeps_modify) (metis frame)

lemma updates_keep [keeps]:
  "(\<And>c. ci_peer (f c) = ci_peer c) \<Longrightarrow> keeps P (upd_ci i f)" "keeps P (upd_state i g)" "keeps P (upd_cstats i h)"
  "keeps P (rand_Intn k n)" "keeps P (rand_Perm k n)" "keeps P (check_haveAll k)"
  unfolding upd_ci_def upd_state_def upd_cstats_def
  by (rule modify_keeps, simp add: tsame_def csame_def mod_ci_def)+
    (rule keeps_tframe, simp add: tsame_def csame_def rand_Intn_def rand_Perm_def check_haveAll_def)+

lemma stats_keep [keeps]:
  "keeps P (startedDownloading i)" "keeps P (startedUploading i)" "keeps P (stoppedDownloading i)"
  "keeps P (stoppedUploading i)" "keeps P (ci_isSnubbed k i)"
  by (rule keeps_tframe, auto simp: tsame_def csame_def startedDownloading_def startedUploading_def stoppedDownloading_def
      stoppedUploading_def upd_cstats_def modify_def ret_def ci_isSnubbed_def check_haveAll_def andthen_def
      split: prod.split)+

lemma when_state_keeps [keeps]: "keeps P m \<Longrightarrow> keeps P (when_state i c m)"
  by (auto simp: keeps_def when_state_def ret_def)

lemma announces_keep [keeps]: "keeps P (sendAnnounceToTracker k ev)" "keeps P (announceDht k)" "keeps P (closeDhtAnnounce k)"
  by (rule keeps_tframe, auto simp: tsame_def csame_def sendAnnounceToTracker_def announceDht_def closeDhtAnnounce_def split: dht_resp.split)+

lemma tryAnnounceAll_keeps [keeps]: "keeps P (tryAnnounceAll k)"
proof -
  have "keeps P (\<lambda>t. if canAnnounceTracker t then sendAnnounceToTracker k EvNone t else ret () t)"
    "keeps P (\<lambda>t. if canAnnounceDht t then announceDht k t else ret () t)"
    using keepsD [OF announces_keep(1)] keepsD [OF announces_keep(2)] by (auto intro: keepsI simp: ret_def)
  from keepsD [OF keeps_andthen [OF this]] show ?thesis by (auto intro!: keepsI simp: tryAnnounceAll_def)
qed

lemma popPeer_keeps: "keeps P (popPeer k)"
  by (rule keeps_tframe) (auto simp: tsame_def csame_def popPeer_def rand_Intn_def andthen_def)

lemma dial_loop_keeps: "keeps P (dial_loop n k)"
proof (induction n)
  case (Suc n)
  show ?case
  proof (rule keepsI)
    fix t assume "P t"
    show "P (fst (dial_loop (Suc n) k t))"
    proof (cases "t_peers t = [] \<or> length (halfOpen t) \<ge> maxHalfOpenConns")
      case False
      obtain t1 x where p: "popPeer k t = (t1, x)" by fastforce
      have s: "tsame t t1" using p by (auto simp: popPeer_def rand_Intn_def andthen_def tsame_def csame_def split: if_splits)
      have "P t1" using frame [OF \<open>P t\<close> s] .
      moreover have "P (dialed y t1)" if "\<not> peerInActiveConns t1 y" "\<not> containsInBlackList t1 (peerIP y)" for y
        using dialing [OF \<open>P t1\<close> _ that(2,1)] s False by (simp add: tsame_def csame_def)
      ultimately show ?thesis
        using False keepsD [OF Suc] p by (cases x) (auto simp: andthen_def dialed_def)
    qed (use \<open>P t\<close> in auto)
  qed
qed (auto intro: keepsI)

lemma dialConns_keeps [keeps]: "keeps P (dialConns k)"
  using keepsD [OF keeps_andthen [OF dial_loop_keeps tryAnnounceAll_keeps]]
  by (auto intro!: keepsI simp: dialConns_def)

lemma upd_choker_round: "P t \<Longrightarrow> P (t\<lparr>t_choker := map_option (\<lambda>c. c\<lparr>currRound := n c\<rparr>) (t_choker t)\<rparr>)"
  by (erule frame) (simp add: tsame_def csame_def option.map_comp o_def)

lemma candidates_conns: "i \<in> set (optimisticUnchokeCandidates t) \<Longrightarrow> \<exists>j < t_len t. i = t_arr t ! j"
  by (auto simp: optimisticUnchokeCandidates_def Let_def split: if_splits) (rule_tac x = x in exI, simp)

lemma pickOptimisticUnchoke_keeps [keeps]: "keeps P (pickOptimisticUnchoke k)"
proof (rule keepsI)
  fix t assume "P t"
  let ?cs = "optimisticUnchokeCandidates t" and ?t = "t\<lparr>t_rolls := t_rolls t + 1\<rparr>"
  have r: "P ?t" by (rule frame [OF \<open>P t\<close>]) (simp add: tsame_def csame_def)
  have "P (t\<lparr>t_choker := Some (c\<lparr>optimistic := None\<rparr>)\<rparr>)" for c by (rule picked [OF \<open>P t\<close>]) simp
  moreover have "P (?t\<lparr>t_choker := Some (c\<lparr>optimistic := Some (?cs ! j)\<rparr>)\<rparr>)" if "j < length ?cs" for c j
    using candidates_conns [OF nth_mem [OF that]] by (intro picked [OF r]) simp
  ultimately show "P (fst (pickOptimisticUnchoke k t))"
    using \<open>P t\<close> r by (auto simp: pickOptimisticUnchoke_def Let_def upd_choker_def rand_Intn_def andthen_def split: option.split)
qed

end

text \<open>With a handler of gone connections that keeps the invariant.\<close>

locale torrent_handler = torrent_core P for P :: "'bm torrent \<Rightarrow> bool" +
  fixes gone :: "'bm handler"
  assumes gone: "keeps P (gone i)"
begin

lemma sendMsgToConn_keeps [keeps]: "keeps P (sendMsgToConn gone i msg)"
proof (rule keepsI)
  fix t assume "P t"
  have "P (t\<lparr>t_picks := ps\<rparr>)" "P (mod_ci i (\<lambda>c. c\<lparr>ci_sent := ci_sent c @ [msg]\<rparr>) (t\<lparr>t_picks := ps\<rparr>))" for ps
    by (rule frame [OF \<open>P t\<close>], simp add: tsame_def csame_def mod_ci_def)+
  then show "P (fst (sendMsgToConn gone i msg t))"
    using keepsD [OF keeps_ignore [OF gone]] by (auto simp: sendMsgToConn_def split: list.split bool.split)
qed

lemma range_conns_keeps [keeps]:
  assumes "\<And>i. keeps P (f i)"
  shows "keeps P (range_conns f)"
proof (rule keepsI)
  fix t assume "P t"
  have "keeps P (\<lambda>t'. f (t_arr t' ! j) t')" for j using keepsD [OF assms] by (auto intro: keepsI)
  then have "keeps P (foreach [0..<t_len t] (\<lambda>j t'. f (t_arr t' ! j) t'))" by (rule keeps_foreach)
  with \<open>P t\<close> show "P (fst (range_conns f t))" unfolding range_conns_def by (rule keepsD [rotated])
qed

lemma view_keeps [keeps]:
  "keeps P (choke gone i)" "keeps P (unchoke gone i)" "keeps P (interested gone i)" "keeps P (notInterested gone i)"
  "keeps P (broadcastToConns gone cmd)" "keeps P (sendCancels gone b)" "keeps P (ci_have gone j i)" "keeps P (sendPort k gone i)"
proof -
  show "keeps P (choke gone i)" "keeps P (notInterested gone i)" "keeps P (broadcastToConns gone cmd)" "keeps P (sendCancels gone b)"
    "keeps P (ci_have gone j i)" "keeps P (sendPort k gone i)"
    unfolding choke_def notInterested_def broadcastToConns_def sendCancels_def ci_have_def sendPort_def by (intro keeps)+
  have "keeps P (seq (sendMsgToConn gone i m) (seq (upd_state i f) (startedUploading i)))"
    "keeps P (seq (sendMsgToConn gone i m) (seq (upd_state i f) (startedDownloading i)))" for m f by (intro keeps)+
  from keepsD [OF this(1)] keepsD [OF this(2)]
  show "keeps P (unchoke gone i)" "keeps P (interested gone i)"
    by (auto intro!: keepsI simp: unchoke_def interested_def ret_def)
qed

lemma sendBitfield_keeps [keeps]: "keeps P (sendBitfield gone i)"
  using keepsD [OF sendMsgToConn_keeps] by (auto intro!: keepsI simp: sendBitfield_def split: option.split)

lemma unchoke_optimistic_keeps [keeps]: "keeps P (unchoke_optimistic gone)"
  using keepsD [OF view_keeps(2)] by (auto intro!: keepsI simp: unchoke_optimistic_def ret_def split: option.split)

lemma classify_keeps [keeps]: "keeps P (classify k gone js best cand)"
proof (induction js arbitrary: best cand)
  case (Cons j js)
  have "keeps P (\<lambda>t1. if b \<or> \<not> isInterested (ci_state (ci t1 i)) then classify k gone js best (cand @ [i]) t1
      else classify k gone js (best @ [i]) cand t1)" for b i
    using keepsD [OF Cons] by (auto intro: keepsI)
  note a = keeps_andthen [OF stats_keep(5) this]
  have "keeps P (andthen (ci_isSnubbed k i) (\<lambda>b t1. if b \<or> \<not> isInterested (ci_state (ci t1 i))
      then classify k gone js best (cand @ [i]) t1 else classify k gone js (best @ [i]) cand t1))"
    "keeps P (seq (choke gone i) (classify k gone js best cand))" for i
    by (rule a) (intro keeps Cons)
  from keepsD [OF this(1)] keepsD [OF this(2)] show ?case by (auto intro!: keepsI simp: Let_def)
qed (simp add: keeps)

lemma unchoke_best_keeps [keeps]: "keeps P (unchoke_best gone is n)"
proof (induction "is" arbitrary: n)
  case (Cons i "is")
  have "keeps P (seq (unchoke gone i) (unchoke_best gone is (n - 1)))" by (intro keeps Cons)
  from keepsD [OF this] keepsD [OF Cons] show ?case by (auto intro!: keepsI)
qed (simp add: keeps)

lemma unchoke_rest_keeps [keeps]: "keeps P (unchoke_rest gone is n)"
proof (induction "is" arbitrary: n)
  case (Cons i "is")
  have "keeps P (\<lambda>t1. unchoke_rest gone is (if isInterested (ci_state (ci t1 i)) then n - 1 else n) t1)"
    using keepsD [OF Cons] by (auto intro: keepsI)
  note a = keeps_andthen [OF view_keeps(2) this]
  have "keeps P (seq (choke gone i) (unchoke_rest gone is n))"
    "keeps P (seq (unchoke gone i) (\<lambda>t1. unchoke_rest gone is (if isInterested (ci_state (ci t1 i)) then n - 1 else n) t1))"
    by (intro keeps Cons) (rule a)
  from keepsD [OF this(1)] keepsD [OF this(2)] keepsD [OF Cons] show ?case by (auto intro!: keepsI)
qed (simp add: keeps)

lemma unchoke_all_keeps [keeps]: "keeps P (unchoke_all k gone slots ranked cand)"
  unfolding unchoke_all_def Let_def by (intro keeps)

lemma sort_conns_keeps [keeps]: "keeps P (sort_conns k gone slots)"
proof -
  have "keeps P (\<lambda>t1. unchoke_all k gone slots (f t1) cand t1)" for f cand
    using keepsD [OF unchoke_all_keeps] by (auto intro: keepsI)
  then have "keeps P (case x of (best, cand) \<Rightarrow> \<lambda>t1. unchoke_all k gone slots (tk_sort k (byRate_Less k t1) best) cand t1)" for x
    by (cases x) simp
  from keepsD [OF keeps_andthen [OF classify_keeps this]] show ?thesis by (auto intro!: keepsI simp: sort_conns_def)
qed

lemma review_body_keeps: "keeps P (review_body k gone ch)"
proof -
  have "keeps P (seq (if b then pickOptimisticUnchoke k else ret ()) (seq (unchoke_optimistic gone) (sort_conns k gone n)))" for b n
    by (intro keeps)
  from keepsD [OF this] show ?thesis by (intro keepsI) (simp add: review_body_def ret_def)
qed

lemma reviewUnchokedPeers_keeps [keeps]: "keeps P (reviewUnchokedPeers k gone)"
  using keepsD [OF review_body_keeps] upd_choker_round
  by (auto intro!: keepsI simp: reviewUnchokedPeers_def split: option.split prod.split) (metis fst_conv)

lemma dropped_body_keeps: "keeps P (dropped_body k gone i)"
proof (rule keepsI)
  fix t assume "P t"
  have k: "keeps P (seq (dialConns k) (seq (reviewUnchokedPeers k gone) (ret True)))" by (intro keeps)
  show "P (fst (dropped_body k gone i t))"
  proof (cases "connIndex t i")
    case (Some j)
    then have "j < t_len t" by (auto simp: connIndex_def find_Some_iff)
    then have r: "P (removeConn j t)" by (rule removed [OF \<open>P t\<close>])
    have "P ((removeConn j t)\<lparr>t_peers := ps\<rparr>)" for ps by (rule frame [OF r]) (simp add: tsame_def csame_def)
    with r keepsD [OF k] Some show ?thesis by (simp add: dropped_body_def Let_def)
  qed (use \<open>P t\<close> in \<open>simp add: dropped_body_def\<close>)
qed

end

context torrent_core
begin

lemma dropped_fuel_keeps: "keeps P (dropped_fuel n k i)"
proof (induction n arbitrary: i)
  case (Suc n)
  then have "torrent_handler P (dropped_fuel n k)"
    by (intro torrent_handler.intro torrent_core_axioms torrent_handler_axioms.intro)
  then show ?case by (simp add: torrent_handler.dropped_body_keeps)
qed (auto intro: keepsI)

lemma droppedConn_keeps [keeps]: "keeps P (droppedConn k i)"
  using keepsD [OF dropped_fuel_keeps] by (auto intro: keepsI simp: droppedConn_def)

lemma torrent_handler_droppedConn: "torrent_handler P (droppedConn k)"
  by (intro torrent_handler.intro torrent_core_axioms torrent_handler_axioms.intro droppedConn_keeps)

end

section \<open>A turn of the main loop\<close>

lemma hash_next_same: "hash_next k t = Return (t', j, ok) \<Longrightarrow> csame t t'"
  by (auto simp: hash_next_def obind_Return_iff csame_def Let_def split: list.splits if_splits)

text \<open>The handlers that leave the data alone.\<close>

locale torrent_turn = torrent_core P for P :: "'bm torrent \<Rightarrow> bool" +
  fixes k :: "'bm tcfg"
  assumes refused: "P t \<Longrightarrow> P (t\<lparr>t_store := t_store t @ [c], t_cstats := cs\<rparr>)"
    and joined: "P t \<Longrightarrow> int (t_len t) < tk_maxEstablished k \<Longrightarrow> \<not> containsInBlackList t (peerIP (ci_peer c)) \<Longrightarrow>
      P (appendConn (length (t_store t)) (t\<lparr>t_store := t_store t @ [c], t_cstats := cs\<rparr>))"
    and banned: "P t \<Longrightarrow> P (t\<lparr>blackList := blackList t @ [ip]\<rparr>)"
    and undialed: "P t \<Longrightarrow> P (t\<lparr>halfOpen := filter q (halfOpen t)\<rparr>)"
begin

lemmas handler = torrent_handler_droppedConn [of k]

lemmas handler_keeps [keeps] =
  torrent_handler.sendMsgToConn_keeps [OF handler] torrent_handler.range_conns_keeps [OF handler]
  torrent_handler.view_keeps [OF handler] torrent_handler.sendBitfield_keeps [OF handler]
  torrent_handler.reviewUnchokedPeers_keeps [OF handler]

lemma keeps_from: "keeps P m \<Longrightarrow> P t \<Longrightarrow> tsame t t' \<Longrightarrow> P (fst (m t'))"
  by (metis keepsD frame)

lemma gotPeers_keeps [keeps]: "keeps P (gotPeers k ps)"
  by (rule keepsI, unfold gotPeers_def addFilteredPeers_def) (rule keeps_from [OF dialConns_keeps], assumption, simp add: tsame_def csame_def)

lemma peers_keep [keeps]:
  "keeps P (trackerAnnounced k r)" "keeps P (dhtAnnounced k pvs)" "keeps P (removeHalfOpen k p)"
proof -
  have "P (fst (gotPeers k ps (t\<lparr>lastAnnounceResp := x\<rparr>)))" if "P t" for ps t x
    by (rule keeps_from [OF gotPeers_keeps that]) (simp add: tsame_def csame_def)
  then show "keeps P (trackerAnnounced k r)" by (auto intro!: keepsI simp: trackerAnnounced_def split: option.split)
  show "keeps P (dhtAnnounced k pvs)" unfolding dhtAnnounced_def by (intro keeps)
  show "keeps P (removeHalfOpen k p)"
    by (rule keepsI) (simp add: removeHalfOpen_def keepsD [OF dialConns_keeps] undialed)
qed

lemma if_keeps: "keeps P m \<Longrightarrow> keeps P (\<lambda>t. if c t then m t else ret () t)"
  by (auto simp: keeps_def ret_def)

lemma establishedConnection_keeps [keeps]: "keeps P (establishedConnection k c)"
proof (rule keepsI)
  fix t assume "P t"
  let ?t = "t\<lparr>t_store := t_store t @ [c], t_cstats := (t_cstats t)(length (t_store t) := zeroConnStats)\<rparr>"
  let ?i = "length (t_store t)"
  have b: "keeps P (\<lambda>t. case t_pieces t of
      Some p \<Rightarrow> if bm_len (tk_bm k) (ownedPieces p) > 0 then sendBitfield (droppedConn k) ?i t else ret () t | None \<Rightarrow> ret () t)"
    using keepsD [OF torrent_handler.sendBitfield_keeps [OF handler]] by (auto intro!: keepsI simp: ret_def split: option.split)
  have "keeps P (seq (\<lambda>t. if t_haveInfo t then sendMsgToConn (droppedConn k) ?i THaveInfo t else ret () t)
      (seq (\<lambda>t. case t_pieces t of
          Some p \<Rightarrow> if bm_len (tk_bm k) (ownedPieces p) > 0 then sendBitfield (droppedConn k) ?i t else ret () t | None \<Rightarrow> ret () t)
      (seq (if SupportDHT (ci_reserved c) \<and> SupportDHT (tk_reserved k) \<and> tk_hasDht k then sendPort k (droppedConn k) ?i else ret ())
      (seq (reviewUnchokedPeers k (droppedConn k)) (ret True)))))"
    by (intro keeps if_keeps b)
  note j = keepsD [OF this]
  have "keeps P (seq (sendMsgToConn (droppedConn k) ?i TDrop) (seq (closeDhtAnnounce k) (ret False)))" by (intro keeps)
  from keepsD [OF this refused [OF \<open>P t\<close>]] j [OF joined [OF \<open>P t\<close>]]
  show "P (fst (establishedConnection k c t))"
    by (auto simp: establishedConnection_def Let_def wantConns_def containsInBlackList_def)
qed

lemma banIP_keeps [keeps]: "keeps P (banIP k ip)"
proof (rule keepsI)
  fix t assume "P t"
  have "keeps P (range_conns (\<lambda>i t. if ip_Equal (peerIP (ci_peer (ci t i))) ip then sendMsgToConn (droppedConn k) i TDrop t else ret () t))"
    by (intro keeps if_keeps)
  from keepsD [OF this banned [OF \<open>P t\<close>]] \<open>P t\<close> show "P (fst (banIP k ip t))" by (simp add: banIP_def)
qed

lemma banPeer_keeps [keeps]: "keeps P (banPeer k)"
  using keepsD [OF banIP_keeps] by (auto intro!: keepsI simp: banPeer_def split: prod.split option.split)

lemma interest_keeps [keeps]:
  "keeps P (peerInterestChanged k i)" "keeps P (peerChokeChanged i)" "keeps P (reviewInterestsOnBitfield k i)"
  "keeps P (reviewInterestsOnHave k i j)"
proof -
  have "keeps P (seq (if c then reviewUnchokedPeers k (droppedConn k) else ret ()) (startedUploading i))"
    "keeps P (seq (reviewUnchokedPeers k (droppedConn k)) (stoppedUploading i))" for c
    by (intro keeps)+
  note a = keepsD [OF this(1)] keepsD [OF this(2)] keepsD [OF stats_keep(1)] keepsD [OF stats_keep(3)]
  show "keeps P (peerInterestChanged k i)" unfolding peerInterestChanged_def
    by (rule keeps_andthen [OF updates_keep(2)]) (use a in \<open>auto intro!: keepsI simp: Let_def ret_def\<close>)
  show "keeps P (peerChokeChanged i)" unfolding peerChokeChanged_def
    by (rule keeps_andthen [OF updates_keep(2)]) (use a in \<open>auto intro!: keepsI simp: Let_def ret_def\<close>)
  have "P (mod_ci i (\<lambda>c. c\<lparr>numWant := g c\<rparr>) t)" if "P t" for g t
    by (rule frame [OF that]) (simp add: tsame_def csame_def mod_ci_def)
  note b = this keepsD [OF torrent_handler.view_keeps(3) [OF handler] this]
  show "keeps P (reviewInterestsOnBitfield k i)"
    unfolding reviewInterestsOnBitfield_def
    by (rule keeps_andthen [OF updates_keep(6)]) (use b in \<open>auto intro!: keepsI simp: ret_def\<close>)
  have "keeps P (seq (\<lambda>t. if numWant (ci t i) \<le> 0 then interested (droppedConn k) i t else ret () t)
      (upd_ci i (\<lambda>c. c\<lparr>numWant := numWant c + 1\<rparr>)))"
    by (intro keeps if_keeps) simp
  from keepsD [OF this] show "keeps P (reviewInterestsOnHave k i j)"
    unfolding reviewInterestsOnHave_def
    by (intro keeps_andthen [OF updates_keep(6)]) (auto intro!: keepsI simp: ret_def split: option.split)
qed

lemma downloadedAll_keeps:
  assumes "\<And>t. P t \<Longrightarrow> P (t\<lparr>downloadedDataC := True\<rparr>)"
  shows "keeps P (downloadedAll k)"
proof -
  have "keeps P (range_conns (notInterested (droppedConn k)))" by (intro keeps)
  from keepsD [OF this] assms show ?thesis by (auto intro!: keepsI simp: downloadedAll_def close_chan_def)
qed

lemma piece_keeps [keeps]: "keeps P (onPieceDownload k j)"
proof (rule keepsI)
  fix t assume "P t"
  have n: "keeps P (\<lambda>t. if bm_get (tk_bm k) (ci_peerBf (ci t i)) j
       then (\<lambda>t1. if numWant (ci t1 i) \<le> 0 then notInterested (droppedConn k) i t1 else ret () t1)
              (mod_ci i (\<lambda>c. c\<lparr>numWant := numWant c - 1\<rparr>) t)
       else ret () t)" for i
  proof (rule keepsI)
    fix t assume "P t"
    then have "P (mod_ci i (\<lambda>c. c\<lparr>numWant := numWant c - 1\<rparr>) t)" by (rule frame) (simp add: tsame_def csame_def mod_ci_def)
    with \<open>P t\<close> keepsD [OF torrent_handler.view_keeps(4) [OF handler] this] show "P (fst (if bm_get (tk_bm k) (ci_peerBf (ci t i)) j
       then (\<lambda>t1. if numWant (ci t1 i) \<le> 0 then notInterested (droppedConn k) i t1 else ret () t1)
              (mod_ci i (\<lambda>c. c\<lparr>numWant := numWant c - 1\<rparr>) t)
       else ret () t))" by (simp add: ret_def)
  qed
  have "keeps P (seq (reviewInterestsOnPieceDownload k j) (sendHaves k j))"
    unfolding reviewInterestsOnPieceDownload_def sendHaves_def by (intro keeps n)
  from keeps_from [OF this \<open>P t\<close>] \<open>P t\<close> show "P (fst (onPieceDownload k j t))"
    by (auto simp: onPieceDownload_def tsame_def csame_def split: outcome.split)
qed

end

text \<open>An invariant of the connections, which does not see the data.\<close>

locale torrent_inv = torrent_turn P k for P :: "'bm torrent \<Rightarrow> bool" and k +
  assumes loose: "P t \<Longrightarrow> csame t t' \<Longrightarrow> P t'"
    and queued: "P t \<Longrightarrow> j \<notin> set (queuedForVerification t) \<Longrightarrow> P (t\<lparr>queuedForVerification := queuedForVerification t @ [j]\<rparr>)"
    and unqueued: "P t \<Longrightarrow> P (t\<lparr>queuedForVerification := removeAll j (queuedForVerification t)\<rparr>)"
    and closed: "P t \<Longrightarrow> P (t\<lparr>t_arr := [], t_len := 0, t_choker := None\<rparr>)"
    and completed: "P t \<Longrightarrow> P (t\<lparr>downloadedDataC := True\<rparr>)"
begin

lemma keeps_cframe: "(\<And>t. csame t (fst (m t))) \<Longrightarrow> keeps P m"
  by (rule keepsI) (metis loose)

lemma modify_ckeeps: "(\<And>t. csame t (f t)) \<Longrightarrow> keeps P (modify f)"
  by (rule keeps_modify) (metis loose)

lemma keeps_cfrom: "keeps P m \<Longrightarrow> P t \<Longrightarrow> csame t t' \<Longrightarrow> P (fst (m t'))"
  by (metis keepsD loose)

lemma downloadedAll_ckeeps [keeps]: "keeps P (downloadedAll k)"
  by (rule downloadedAll_keeps) (rule completed)

lemma queuePieceForHashing_keeps [keeps]: "keeps P (queuePieceForHashing j)"
proof (rule keepsI)
  fix t assume "P t"
  have "P (t\<lparr>queuedForVerification := queuedForVerification t @ [j], hashQueue := q\<rparr>)"
    if "j \<notin> set (queuedForVerification t)" for q
    by (rule loose [OF queued [OF \<open>P t\<close> that]]) (simp add: csame_def)
  with \<open>P t\<close> queued [OF \<open>P t\<close>] show "P (fst (queuePieceForHashing j t))"
    by (auto simp: queuePieceForHashing_def Let_def split: option.split)
qed

lemma run_paction_keeps [keeps]: "keeps P (run_paction k a)"
  by (cases a) (simp_all add: keeps)

lemma blocks_keep [keeps]: "keeps P (blockDownloaded k i b)" "keeps P (blockUploaded i b)"
proof -
  show "keeps P (blockUploaded i b)" unfolding blockUploaded_def by (rule modify_ckeeps) (simp add: csame_def)
  show "keeps P (blockDownloaded k i b)"
  proof (rule keepsI)
    fix t assume "P t"
    then have "P (t\<lparr>t_cstats := cs, t_stats := st\<rparr>)" "P (t\<lparr>t_cstats := cs, t_stats := st, t_pieces := p\<rparr>)" for cs st p
      by (auto elim!: loose simp: csame_def)
    moreover have "keeps P (foreach acts (run_paction k))" for acts by (intro keeps)
    ultimately show "P (fst (blockDownloaded k i b t))"
      by (auto simp: blockDownloaded_def Let_def keepsD split: option.split outcome.split)
  qed
qed

lemma t_pieceHashed_keeps [keeps]: "keeps P (t_pieceHashed k j c)"
proof (rule keepsI)
  fix t assume "P t"
  note u = unqueued [OF this, of j]
  then have "P (t\<lparr>queuedForVerification := removeAll j (queuedForVerification t), t_pieces := p, t_cstats := cs\<rparr>)" for p cs
    by (rule loose) (simp add: csame_def)
  with u show "P (fst (t_pieceHashed k j c t))"
    using keepsD [OF piece_keeps] keepsD [OF banPeer_keeps]
    by (auto simp: t_pieceHashed_def Let_def split: option.split outcome.split)
qed

lemma mark_all_keeps [keeps]: "keeps P (mark_all k js)"
proof (induction js)
  case (Cons j js)
  have "keeps P (modify (\<lambda>t. t\<lparr>t_pieces := map_option (swap_blocks j) (t_pieces t)\<rparr>))"
    by (rule modify_ckeeps) (simp add: csame_def)
  with Cons show ?case by (auto intro!: keeps)
qed (simp add: keeps)

lemma start_pieces_keeps [keeps]: "keeps P (start_pieces k)"
proof (rule keepsI)
  fix t assume "P t"
  let ?i = "t_info t"
  have "P (fst (seq (mark_all k js) (downloadedAll k) (t2\<lparr>t_storage := st\<rparr>)))" "P (t2\<lparr>t_storage := st, hashing := True\<rparr>)"
    if "P t2" for js t2 st
    by (rule keeps_cfrom [OF _ that], intro keeps, simp add: csame_def) (rule loose [OF that], simp add: csame_def)
  then have "keeps P (\<lambda>t2. case OpenFileStorage (tk_sha1 k) (tk_env k) (tk_dir k) ?i (st_fs (t_storage t2)) (blocks p) of
              Panic e \<Rightarrow> (t2, Panic e)
            | Error _ \<Rightarrow> (t2, Return ())
            | Return (st, True) \<Rightarrow> seq (mark_all k [0..int (length (pcs p)) - 1]) (downloadedAll k) (t2\<lparr>t_storage := st\<rparr>)
            | Return (st, False) \<Rightarrow> (t2\<lparr>t_storage := st, hashing := True\<rparr>, Return ()))" for p
    by (auto intro!: keepsI split: outcome.split prod.split bool.split)
  note b = keeps_andthen [OF torrent_handler.view_keeps(5) [OF handler] this]
  have "P (t\<lparr>t_length := n, t_stats := s, blockRequestSize := m\<rparr>)" for n s m
    by (rule loose [OF \<open>P t\<close>]) (simp add: csame_def)
  moreover have "csame t (t\<lparr>t_length := n, t_stats := s, blockRequestSize := m, t_pieces := p, hashQueue := q\<rparr>)" for n s m p q
    by (simp add: csame_def)
  note keeps_cfrom [OF b \<open>P t\<close> this]
  ultimately show "P (fst (start_pieces k t))"
    unfolding start_pieces_def Let_def by (auto split: outcome.split)
qed

lemma gotInfo_keeps [keeps]: "keeps P (gotInfo k)"
proof -
  have "keeps P (\<lambda>t.
       case mi_InfoBytes (t_mi t) of
         None \<Rightarrow> ret () t
       | Some ib \<Rightarrow>
           if uts_m (t_uts t) \<noteq> [] then (t, Panic (PanicMsg ''got info''))
           else (case newUtMetadata (int (length ib)) of
                   Panic e \<Rightarrow> (t, Panic e)
                 | Error _ \<Rightarrow> (t, Return ())
                 | Return ut \<Rightarrow> (t\<lparr>t_uts := \<lparr>uts_m = [(int (length ib), ut\<lparr>infoBytes := ib\<rparr>)], correctSize = int (length ib)\<rparr>\<rparr>, Return ())))"
    by (rule keeps_cframe) (auto simp: csame_def ret_def split: option.split outcome.split)
  moreover have "keeps P (\<lambda>t. case close_chan (infoC t) of Panic e \<Rightarrow> (t, Panic e) | _ \<Rightarrow> (t\<lparr>infoC := True\<rparr>, Return ()))"
    by (rule keeps_cframe) (auto simp: csame_def close_chan_def)
  ultimately show ?thesis unfolding gotInfo_def by (intro keeps)
qed

lemma t_close_keeps [keeps]: "keeps P (t_close k)"
proof -
  have "P (t\<lparr>dropC := True, t_arr := [], t_len := 0, t_choker := None, t_pieces := None, t_peers := [], t_isClosed := True\<rparr>)"
    if "P t" for t by (rule loose [OF closed [OF that]]) (simp add: csame_def)
  moreover have "P (t\<lparr>dropC := True\<rparr>)" if "P t" for t by (rule loose [OF that]) (simp add: csame_def)
  ultimately have "keeps P (\<lambda>t1. case close_chan (dropC t1) of
          Panic e \<Rightarrow> (t1, Panic e)
        | _ \<Rightarrow> if list_ex (tk_stuck k (id_hash (t_info t1))) (conns t1) then (t1\<lparr>dropC := True\<rparr>, Panic (PanicMsg ''deadlock''))
               else (t1\<lparr>dropC := True, t_arr := [], t_len := 0, t_choker := None, t_pieces := None, t_peers := [],
                   t_isClosed := True\<rparr>, Return ()))"
    by (auto intro!: keepsI simp: close_chan_def)
  from keepsD [OF keeps_andthen [OF announces_keep(3) this]] show ?thesis by (auto intro!: keepsI simp: t_close_def)
qed

lemma metadataCompleted_keeps [keeps]: "keeps P (metadataCompleted k sz)"
proof (rule keepsI)
  fix t assume "P t"
  have "keeps P (\<lambda>t1. case uts_reset (t_uts t1) sz of
      Panic e \<Rightarrow> (t1, Panic e) | Error _ \<Rightarrow> (t1, Return ()) | Return uts \<Rightarrow> (t1\<lparr>t_uts := uts\<rparr>, Return ()))"
    by (rule keeps_cframe) (auto simp: csame_def split: outcome.split)
  then have "keeps P (andthen (rand_Intn k n) (\<lambda>j. seq (banIP k (f j)) (seq (broadcastToConns (droppedConn k) TRequestsAvailable)
      (\<lambda>t1. case uts_reset (t_uts t1) sz of
      Panic e \<Rightarrow> (t1, Panic e) | Error _ \<Rightarrow> (t1, Return ()) | Return uts \<Rightarrow> (t1\<lparr>t_uts := uts\<rparr>, Return ())))))" for n f
    by (intro keeps)
  note keepsD [OF this \<open>P t\<close>]
  moreover have "P (fst (t_close k (t\<lparr>t_mi := m\<rparr>)))" for m
    by (rule keeps_cfrom [OF t_close_keeps \<open>P t\<close>]) (simp add: csame_def)
  moreover have "P (fst (gotInfo k (t\<lparr>t_mi := m, t_uts := u\<rparr>)))" for m u
    by (rule keeps_cfrom [OF gotInfo_keeps \<open>P t\<close>]) (simp add: csame_def)
  ultimately show "P (fst (metadataCompleted k sz t))"
    using \<open>P t\<close> unfolding metadataCompleted_def by (auto split: outcome.split prod.split option.split)
qed

lemma onConnMsg_keeps [keeps]: "keeps P (onConnMsg k i v)"
proof -
  have "keeps P (upd_ci i (\<lambda>c. c\<lparr>ci_peerBf := g c\<rparr>))" for g by (intro keeps) simp
  then show ?thesis unfolding onConnMsg_def by (cases v) (auto intro!: keeps)
qed

lemma StartDataTransfer_keeps [keeps]: "keeps P (StartDataTransfer k)"
proof (rule keepsI)
  fix t assume "P t"
  have "keeps P (modify (\<lambda>t. t\<lparr>t_pieces := map_option (\<lambda>p. setDownloadEnabled p True) (t_pieces t)\<rparr>))"
    by (rule modify_ckeeps) (simp add: csame_def)
  then have "keeps P (andthen (check_haveAll k) (\<lambda>h.
                seq (if h then ret ()
                     else seq (modify (\<lambda>t. t\<lparr>t_pieces := map_option (\<lambda>p. setDownloadEnabled p True) (t_pieces t)\<rparr>))
                         (seq (range_conns (reviewInterestsOnBitfield k)) (broadcastToConns (droppedConn k) TRequestsAvailable)))
                (seq (tryAnnounceAll k) (seq (dialConns k) (ret (None :: xport_err option))))))"
    by (intro keeps)
  note m = keepsD [OF this]
  have e: "P (t\<lparr>uploadEnabled := True, downloadEnabled := True\<rparr>)" by (rule loose [OF \<open>P t\<close>]) (simp add: csame_def)
  from m [OF e] e show "P (fst (StartDataTransfer k t))"
    using \<open>P t\<close> by (simp add: StartDataTransfer_def Let_def)
qed

lemma setDataDownloadEnable_keeps [keeps]: "keeps P (setDataDownloadEnable k v)"
  by (rule keepsI) (simp add: setDataDownloadEnable_def mu_Lock_def pieces_setDownloadEnabled_def split: option.split)

lemma user_keeps [keeps]: "keeps P (user k u)"
proof -
  have "keeps P (seq (gotPeers k ps) (ret (None :: xport_err option)))" "keeps P (seq (t_close k) (ret (None :: xport_err option)))" for ps by (intro keeps)+
  from keepsD [OF this(1)] keepsD [OF this(2)] have "keeps P (AddPeers k ps)" "keeps P (Close k)" for ps
    by (auto intro!: keepsI simp: AddPeers_def Close_def)
  then show ?thesis unfolding user_def by (cases u) (auto intro!: keeps)
qed

text \<open>Every event of the main loop, and the hasher beside it.\<close>

lemma t_turn_keeps: "keeps P (t_turn k ev)"
proof (rule keepsI)
  fix t assume "P t"
  have "keeps P (\<lambda>t1. case t_pieces t1 of
            None \<Rightarrow> (t1, Panic NilDereference)
          | Some p \<Rightarrow> if pieces_haveAll (tk_bm k) (t_numPieces t1) p
                     then seq (sendAnnounceToTracker k EvCompleted) (downloadedAll k) t1 else ret () t1)"
    using keepsD [OF keeps_andthen [OF announces_keep(1) downloadedAll_ckeeps]]
    by (auto intro!: keepsI simp: ret_def split: option.split)
  note h = keepsD [OF keeps_andthen [OF t_pieceHashed_keeps this] \<open>P t\<close>]
  have s: "P (fst (m (t\<lparr>canAnnounceTracker := True\<rparr>)))" "P (fst (m (t\<lparr>canAnnounceDht := True\<rparr>)))" "P (fst (m (t\<lparr>t_dht := DhtClosed\<rparr>)))"
    if "keeps P m" for m :: "('bm, unit) tact"
    by (rule keeps_cfrom [OF that \<open>P t\<close>], simp add: csame_def)+
  note e = s(1) [OF tryAnnounceAll_keeps] s(2) [OF keeps_andthen [OF announces_keep(3) tryAnnounceAll_keeps [of k]]] s(3) [OF peers_keep(2)]
  note o = onConnMsg_keeps peers_keep torrent_handler.reviewUnchokedPeers_keeps [OF handler]
    keeps_ignore [OF establishedConnection_keeps] keeps_ignore [OF user_keeps]
  note o [THEN keepsD, OF \<open>P t\<close>]
  with h e \<open>P t\<close> show "P (fst (t_turn k ev t))"
    unfolding t_turn_def by (cases ev) simp_all
qed

lemma reach_keeps: "t_reach k t0 t \<Longrightarrow> P t0 \<Longrightarrow> P t"
proof (induction rule: t_reach.induct)
  case (turn t ev t')
  then show ?case using keepsD [OF t_turn_keeps, of t ev] by simp
next
  case (hasher t t' j ok)
  then show ?case using loose hash_next_same by blast
next
  case (hasher_ends t)
  then have "P t" by simp
  then show ?case by (rule loose) (simp add: csame_def hash_stop_def)
next
  case (environment t n ps ds)
  then have "P t" by simp
  then show ?case by (rule loose) (simp add: csame_def)
qed (auto intro: banned)

lemma startTorrent_keeps: "P (newTorrent k mi black st) \<Longrightarrow> P (fst (startTorrent k mi black st))"
proof -
  have "keeps P (seq (if mi_InfoBytes mi \<noteq> None then gotInfo k else ret ()) (tryAnnounceAll k))" by (intro keeps)
  then show "P (newTorrent k mi black st) \<Longrightarrow> P (fst (startTorrent k mi black st))"
    unfolding startTorrent_def by (rule keepsD)
qed

end

end
