(* ===== verification/Torrent_Theorems.thy ===== *)
theory Torrent_Theorems
  imports Torrent_Correct Conn_Theorems Pieces_Theorems
begin

text \<open>
  Properties of a torrent: the loop of gone connections ends, the invariant of its tables, banned
  addresses, the slots of the choker. Each invariant is an interpretation of a locale of
  \<open>Torrent_Correct\<close>.
\<close>

section \<open>Slices of connections\<close>

lemma conns_removeConn [simp]: "j < t_len t \<Longrightarrow> conns (removeConn j t) = take j (conns t) @ drop (Suc j) (conns t)"
  by (cases "t_len t \<le> length (t_arr t)") (auto simp: removeConn_def min_def take_all_iff not_le intro!: arg_cong2 [of _ _ _ _ take])

lemma conns_appendConn [simp]: "t_len t \<le> length (t_arr t) \<Longrightarrow> conns (appendConn i t) = conns t @ [i]"
  by (simp add: appendConn_def)

section \<open>Gone connections\<close>

text \<open>Nothing in this loop adds a connection.\<close>

interpretation ln: torrent_core "\<lambda>t. t_len t \<le> n" for n
  by unfold_locales (auto simp: tsame_def csame_def dialed_def removeConn_def)

text \<open>Two computations that are equal while at most \<open>n\<close> connections are left.\<close>

definition agree :: "nat \<Rightarrow> ('bm, 'a) tact \<Rightarrow> ('bm, 'a) tact \<Rightarrow> bool" where
  "agree n m m' \<longleftrightarrow> (\<forall>t. t_len t \<le> n \<longrightarrow> m t = m' t)"

lemma agreeI: "(\<And>t. t_len t \<le> n \<Longrightarrow> m t = m' t) \<Longrightarrow> agree n m m'"
  by (simp add: agree_def)

lemma agreeD: "agree n m m' \<Longrightarrow> t_len t \<le> n \<Longrightarrow> m t = m' t"
  by (simp add: agree_def)

lemma agree_refl [simp]: "agree n m m"
  by (simp add: agree_def)

lemma agree_andthen:
  fixes m :: "('bm, 'a) tact"
  assumes "keeps (\<lambda>t. t_len t \<le> n) m" "agree n m m'" "\<And>a. agree n (f a) (f' a)"
  shows "agree n (andthen m f) (andthen m' f')"
proof (rule agreeI)
  fix t :: "'bm torrent" assume t: "t_len t \<le> n"
  have "t_len (fst (m t)) \<le> n" by (rule keepsD [OF assms(1) t])
  then show "andthen m f t = andthen m' f' t"
    using agreeD [OF assms(2) t] agreeD [OF assms(3)] by (auto simp: andthen_def split: prod.splits outcome.splits)
qed

locale agreeing = torrent_handler "\<lambda>t. t_len t \<le> n" gone for n and gone :: "'bm handler" +
  fixes gone' :: "'bm handler"
  assumes gone_agree: "agree n (gone i) (gone' i)"
begin

lemma send_agree: "agree n (sendMsgToConn gone i m) (sendMsgToConn gone' i m)"
proof -
  have "agree n (ignore (gone i)) (ignore (gone' i))"
    unfolding ignore_def by (rule agree_andthen [OF gone gone_agree]) simp
  then show ?thesis by (auto simp: agree_def sendMsgToConn_def split: list.split bool.split)
qed

lemma view_agree: "agree n (choke gone i) (choke gone' i)" "agree n (unchoke gone i) (unchoke gone' i)"
proof -
  have "agree n (seq (sendMsgToConn gone i m) f) (seq (sendMsgToConn gone' i m) f)" for m and f :: "('bm, unit) tact"
    by (rule agree_andthen [OF sendMsgToConn_keeps send_agree]) simp
  from this [THEN agreeD] show "agree n (choke gone i) (choke gone' i)" "agree n (unchoke gone i) (unchoke gone' i)"
    by (auto intro!: agreeI simp: choke_def unchoke_def when_state_def)
qed

lemma optimistic_agree: "agree n (unchoke_optimistic gone) (unchoke_optimistic gone')"
  using agreeD [OF view_agree(2)] by (auto intro!: agreeI simp: unchoke_optimistic_def split: option.split)

lemma classify_agree: "agree n (classify k gone js best cand) (classify k gone' js best cand)"
proof (induction js arbitrary: best cand)
  case (Cons j js)
  have c: "agree n (seq (choke gone i) (classify k gone js best cand)) (seq (choke gone' i) (classify k gone' js best cand))" for i
    by (rule agree_andthen [OF view_keeps(1) view_agree(1) Cons])
  have "agree n (andthen (ci_isSnubbed k i) (\<lambda>b t1. if b \<or> \<not> isInterested (ci_state (ci t1 i))
      then classify k gone js best (cand @ [i]) t1 else classify k gone js (best @ [i]) cand t1))
    (andthen (ci_isSnubbed k i) (\<lambda>b t1. if b \<or> \<not> isInterested (ci_state (ci t1 i))
      then classify k gone' js best (cand @ [i]) t1 else classify k gone' js (best @ [i]) cand t1))" for i
    by (rule agree_andthen [OF stats_keep(5) agree_refl]) (use Cons in \<open>simp add: agree_def\<close>)
  from agreeD [OF this] agreeD [OF c] show ?case by (auto intro!: agreeI simp: Let_def)
qed simp

lemma best_agree: "agree n (unchoke_best gone is m) (unchoke_best gone' is m)"
proof (induction "is" arbitrary: m)
  case (Cons i "is")
  from agreeD [OF agree_andthen [OF view_keeps(2) view_agree(2) Cons]] agreeD [OF Cons] show ?case by (auto intro!: agreeI)
qed simp

lemma rest_agree: "agree n (unchoke_rest gone is m) (unchoke_rest gone' is m)"
proof (induction "is" arbitrary: m)
  case (Cons i "is")
  have "agree n (\<lambda>t1. unchoke_rest gone is (f t1) t1) (\<lambda>t1. unchoke_rest gone' is (f t1) t1)" for f
    using Cons by (simp add: agree_def)
  note agreeD [OF agree_andthen [OF view_keeps(2) view_agree(2) this]] agreeD [OF agree_andthen [OF view_keeps(1) view_agree(1) Cons]]
  with agreeD [OF Cons] show ?case by (auto intro!: agreeI)
qed simp

lemma sort_agree: "agree n (sort_conns k gone s) (sort_conns k gone' s)"
proof -
  have "agree n (unchoke_all k gone s r c) (unchoke_all k gone' s r c)" for r c
    unfolding unchoke_all_def Let_def
    by (rule agree_andthen [OF unchoke_best_keeps best_agree], rule agree_andthen [OF updates_keep(5) agree_refl], rule rest_agree)
  then have "agree n (case x of (best, cand) \<Rightarrow> \<lambda>t1. unchoke_all k gone s (f t1 best) cand t1)
      (case x of (best, cand) \<Rightarrow> \<lambda>t1. unchoke_all k gone' s (f t1 best) cand t1)" for x f
    by (auto simp: agree_def split: prod.split)
  from agreeD [OF agree_andthen [OF classify_keeps classify_agree this]] show ?thesis
    by (auto intro!: agreeI simp: sort_conns_def)
qed

lemma review_agree: "agree n (reviewUnchokedPeers k gone) (reviewUnchokedPeers k gone')"
proof -
  have "agree n (seq (if b then pickOptimisticUnchoke k else ret ()) (seq (unchoke_optimistic gone) (sort_conns k gone s)))
     (seq (if b then pickOptimisticUnchoke k else ret ()) (seq (unchoke_optimistic gone') (sort_conns k gone' s)))" for b s
    by (rule agree_andthen [OF _ agree_refl], intro keeps, rule agree_andthen [OF unchoke_optimistic_keeps optimistic_agree sort_agree])
  from agreeD [OF this] have "agree n (review_body k gone ch) (review_body k gone' ch)" for ch
    by (auto intro!: agreeI simp: review_body_def)
  from agreeD [OF this] show ?thesis by (auto intro!: agreeI simp: reviewUnchokedPeers_def split: option.split)
qed

lemma dropped_agree: "agree (Suc n) (dropped_body k gone i) (dropped_body k gone' i)"
proof (rule agreeI)
  fix t :: "'bm torrent" assume t: "t_len t \<le> Suc n"
  have "agree n (seq (dialConns k) (seq (reviewUnchokedPeers k gone) (ret True)))
      (seq (dialConns k) (seq (reviewUnchokedPeers k gone') (ret True)))"
    by (rule agree_andthen [OF dialConns_keeps agree_refl], rule agree_andthen [OF reviewUnchokedPeers_keeps review_agree]) simp
  from agreeD [OF this] t show "dropped_body k gone i t = dropped_body k gone' i t"
    by (auto simp: dropped_body_def Let_def removeConn_def split: option.split)
qed

end

text \<open>More fuel than connections makes no difference.\<close>

lemma dropped_fuel_more: "agree n (dropped_fuel (n + m) k i) (dropped_fuel (n + m') k i)"
proof (induction n arbitrary: m m' i)
  case 0
  have "dropped_fuel x k i t = (t, Return False)" if "t_len t = 0" for t x
    using that by (cases x) (simp_all add: connIndex_def dropped_body_def)
  then show ?case by (simp add: agree_def)
next
  case (Suc n)
  have "agreeing n (dropped_fuel (n + m) k) (dropped_fuel (n + m') k)"
    by unfold_locales (rule ln.dropped_fuel_keeps, rule Suc)
  from agreeing.dropped_agree [OF this] show ?case by simp
qed

lemma droppedConn_agree: "agree n (dropped_fuel (n + m) k i) (droppedConn k i)"
proof (rule agreeI)
  fix t :: "'a torrent" assume "t_len t \<le> n"
  then have "n + m = t_len t + (n + m - t_len t)" by simp
  with agreeD [OF dropped_fuel_more [of "t_len t" "n + m - t_len t" k i 0], of t]
  show "dropped_fuel (n + m) k i t = droppedConn k i t" by (simp add: droppedConn_def)
qed

interpretation fuelled: agreeing n "dropped_fuel (n + m) k" "droppedConn k" for n m k
  by unfold_locales (rule ln.dropped_fuel_keeps, rule droppedConn_agree)

text \<open>
  C36. A gone connection: \<open>droppedConn\<close> removes it, dials and reviews the unchoked peers, whose
  messages may find further connections gone and call \<open>droppedConn\<close> again from inside the loop.
  The model's recursion satisfies this equation of the source for every torrent and every
  interleaving, so the fuel never runs out: the mutual recursion ends.
\<close>

theorem droppedConn_loop: "droppedConn k i t = dropped_body k (droppedConn k) i t"
  using agreeD [OF fuelled.dropped_agree [where n = "t_len t" and m = 0 and k = k and ka = k and i = i], of t] agreeD [OF droppedConn_agree [of "t_len t" 1 k i], of t]
  by simp

section \<open>The tables of a torrent\<close>

lemma without_subset: "set (take j xs @ drop (Suc j) xs) \<subseteq> set xs"
  by (auto dest: in_set_takeD in_set_dropD)

lemma distinct_without: "distinct xs \<Longrightarrow> distinct (take j xs @ drop (Suc j) xs)"
  using set_take_disj_set_drop_if_distinct [of xs j "Suc j"] by simp

text \<open>The address that keys a half-open connection.\<close>

definition addr_key :: "xpeer \<Rightarrow> bytes \<times> 16 word" where
  "addr_key p = (ip_norm (peerIP p), peerPort p)"

lemma same_addr_key: "same_addr p q \<longleftrightarrow> addr_key p = addr_key q"
  by (auto simp: same_addr_def ip_Equal_def addr_key_def)

definition torrent_ok :: "'bm tcfg \<Rightarrow> 'bm torrent \<Rightarrow> bool" where
  "torrent_ok k t \<longleftrightarrow>
     t_len t \<le> length (t_arr t) \<and> distinct (conns t) \<and> (\<forall>i \<in> set (t_arr t). i < length (t_store t)) \<and>
     int (t_len t) \<le> max 0 (tk_maxEstablished k) \<and>
     length (halfOpen t) \<le> maxHalfOpenConns \<and> distinct (map addr_key (halfOpen t)) \<and>
     distinct (queuedForVerification t) \<and>
     (\<forall>i. map_option optimistic (t_choker t) = Some (Some i) \<longrightarrow> i < length (t_store t))"

lemma torrent_ok_frame: "torrent_ok k t \<Longrightarrow> csame t t' \<Longrightarrow> torrent_ok k t'"
  unfolding torrent_ok_def using csame_length [of t t'] by (auto simp: csame_def)

lemma torrent_ok_dialed:
  assumes "torrent_ok k t" "length (halfOpen t) < maxHalfOpenConns"
  shows "torrent_ok k (dialed p t)"
proof -
  have "length (filter (\<lambda>q. addr_key p \<noteq> addr_key q) (halfOpen t)) \<le> length (halfOpen t)" by (rule length_filter_le)
  then have "Suc (length (filter (\<lambda>q. addr_key p \<noteq> addr_key q) (halfOpen t))) \<le> maxHalfOpenConns" using assms(2) by linarith
  with assms(1) show ?thesis
    unfolding torrent_ok_def dialed_def by (auto simp: same_addr_key distinct_map_filter)
qed

lemma torrent_ok_removed:
  assumes "torrent_ok k t" "j < t_len t"
  shows "torrent_ok k (removeConn j t)"
proof -
  have "distinct (take j (conns t) @ drop (Suc j) (conns t))" "set (t_arr (removeConn j t)) \<subseteq> set (t_arr t)"
    using assms by (simp only: torrent_ok_def distinct_without) (auto simp: removeConn_def dest: in_set_takeD in_set_dropD)
  with assms show ?thesis
    unfolding torrent_ok_def conns_removeConn [OF assms(2)] by (auto simp: removeConn_def)
qed

lemma torrent_ok_joined:
  assumes "torrent_ok k t" "int (t_len t) < tk_maxEstablished k"
  shows "torrent_ok k (appendConn (length (t_store t)) (t\<lparr>t_store := t_store t @ [c], t_cstats := cs\<rparr>))"
    (is "torrent_ok k (appendConn ?i ?t)")
proof -
  have l: "t_len ?t \<le> length (t_arr ?t)" using assms(1) by (simp add: torrent_ok_def)
  have "?i \<notin> set (conns t)" using assms(1) by (auto simp: torrent_ok_def dest: in_set_takeD)
  with assms show ?thesis
    unfolding torrent_ok_def conns_appendConn [OF l]
    by (auto simp: appendConn_def less_Suc_eq dest: in_set_takeD in_set_dropD)
qed

interpretation tb: torrent_inv "torrent_ok k" k for k
proof
  show same: "torrent_ok k t'" if "torrent_ok k t" "csame t t'" for t t' using that by (rule torrent_ok_frame)
  show "torrent_ok k t'" if "torrent_ok k t" "tsame t t'" for t t' using that(1) tsame_csame [OF that(2)] by (rule same)
  show "torrent_ok k (removeConn j t)" if "torrent_ok k t" "j < t_len t" for t j using that by (rule torrent_ok_removed)
  show "torrent_ok k (dialed p t)" if "torrent_ok k t" "length (halfOpen t) < maxHalfOpenConns" for t p
    using that by (rule torrent_ok_dialed)
  show "torrent_ok k (t\<lparr>t_choker := Some c\<rparr>)"
    if "torrent_ok k t" "\<forall>i. optimistic c = Some i \<longrightarrow> (\<exists>j<t_len t. i = t_arr t ! j)" for t c
    using that by (auto simp: torrent_ok_def)
  show "torrent_ok k (appendConn (length (t_store t)) (t\<lparr>t_store := t_store t @ [c], t_cstats := cs\<rparr>))"
    if "torrent_ok k t" "int (t_len t) < tk_maxEstablished k" for t c cs using that by (rule torrent_ok_joined)
  show "torrent_ok k (t\<lparr>halfOpen := filter q (halfOpen t)\<rparr>)" if "torrent_ok k t" for t q
    using that le_trans [OF length_filter_le] by (auto simp: torrent_ok_def distinct_map_filter)
qed (auto simp: torrent_ok_def less_Suc_eq distinct_removeAll)

interpretation tbh: torrent_handler "torrent_ok k" "droppedConn k'" for k k'
  by (rule tb.torrent_handler_droppedConn)

lemma started_ok: "startTorrent k mi black st = (t, r) \<Longrightarrow> torrent_ok k t"
  using tb.startTorrent_keeps [of k mi black st] by (simp add: torrent_ok_def newTorrent_def newChoker_def)

text \<open>
  C23. Whatever the peers, the trackers, the user and the other goroutines do, and wherever a send
  finds its connection gone: a torrent never has more connections than the client allows, no
  connection twice, at most 55 half-open connections, to pairwise different addresses, no piece
  twice in the set of pieces to verify, and its optimistic unchoke is a connection it has seen.
\<close>

theorem torrent_reach_ok:
  assumes "startTorrent k mi black st = (t0, Return ())" "t_reach k t0 t"
  shows "torrent_ok k t"
  using assms(2) started_ok [OF assms(1)] by (rule tb.reach_keeps)

section \<open>Banned addresses\<close>

definition in_list :: "bytes list \<Rightarrow> xpeer \<Rightarrow> bool" where
  "in_list b p \<longleftrightarrow> (\<exists>a \<in> set b. ip_Equal a (peerIP p))"

text \<open>Relative to a state \<open>t0\<close>: its black list only grows and nobody on it is dialled or joins.\<close>

definition kept_out :: "'bm torrent \<Rightarrow> 'bm torrent \<Rightarrow> bool" where
  "kept_out t0 t \<longleftrightarrow> t_len t \<le> length (t_arr t) \<and> length (t_store t0) \<le> length (t_store t) \<and>
     (\<forall>i \<in> set (conns t). i < length (t_store t)) \<and>
     (\<exists>b. blackList t = blackList t0 @ b) \<and>
     (\<exists>ds. t_dials t = t_dials t0 @ ds \<and> (\<forall>p \<in> set ds. \<not> in_list (blackList t0) p)) \<and>
     (\<forall>i \<in> set (conns t). length (t_store t0) \<le> i \<longrightarrow> \<not> in_list (blackList t0) (ci_peer (ci t i)))"

lemma not_listed: "\<not> containsInBlackList t (peerIP p) \<Longrightarrow> blackList t = blackList t0 @ b \<Longrightarrow> \<not> in_list (blackList t0) p"
  by (auto simp: containsInBlackList_def in_list_def list_ex_iff)

lemma kept_out_frame:
  assumes "kept_out t0 t" "csame t t'"
  shows "kept_out t0 t'"
proof -
  have "ci_peer (ci t' i) = ci_peer (ci t i)" if "i \<in> set (conns t)" for i
    using assms that by (auto simp: kept_out_def intro: csame_peer)
  with assms csame_length [OF assms(2)] show ?thesis by (simp add: kept_out_def csame_def)
qed

lemma kept_out_dialed:
  assumes "kept_out t0 t" "\<not> containsInBlackList t (peerIP p)"
  shows "kept_out t0 (dialed p t)"
proof -
  obtain b ds where b: "blackList t = blackList t0 @ b" and d: "t_dials t = t_dials t0 @ ds" "\<forall>p \<in> set ds. \<not> in_list (blackList t0) p"
    using assms(1) by (auto simp: kept_out_def)
  have "\<exists>es. t_dials t @ [p] = t_dials t0 @ es \<and> (\<forall>q \<in> set es. \<not> in_list (blackList t0) q)"
    by (rule exI [of _ "ds @ [p]"]) (use d not_listed [OF assms(2) b] in auto)
  with assms(1) show ?thesis by (simp add: kept_out_def dialed_def)
qed

lemma kept_out_joined:
  assumes "kept_out t0 t" "\<not> containsInBlackList t (peerIP (ci_peer c))"
  shows "kept_out t0 (appendConn (length (t_store t)) (t\<lparr>t_store := t_store t @ [c], t_cstats := cs\<rparr>))"
    (is "kept_out t0 (appendConn ?i ?t)")
proof -
  have l: "t_len ?t \<le> length (t_arr ?t)" using assms(1) by (simp add: kept_out_def)
  obtain b where "blackList t = blackList t0 @ b" using assms(1) by (auto simp: kept_out_def)
  from not_listed [OF assms(2) this] assms(1) show ?thesis
    unfolding kept_out_def conns_appendConn [OF l] by (auto simp: appendConn_def nth_append)
qed

interpretation ko: torrent_inv "kept_out t0" k for t0 k
proof
  show same: "kept_out t0 t'" if "kept_out t0 t" "csame t t'" for t t' using that by (rule kept_out_frame)
  show "kept_out t0 t'" if "kept_out t0 t" "tsame t t'" for t t' using that(1) tsame_csame [OF that(2)] by (rule same)
  show "kept_out t0 (dialed p t)" if "kept_out t0 t" "\<not> containsInBlackList t (peerIP p)" for t p
    using that by (rule kept_out_dialed)
  show "kept_out t0 (removeConn j t)" if "kept_out t0 t" "j < t_len t" for t j
  proof -
    from without_subset [of j "conns t"] that show ?thesis
      unfolding kept_out_def conns_removeConn [OF that(2)] by (auto simp: removeConn_def)
  qed
  show "kept_out t0 (appendConn (length (t_store t)) (t\<lparr>t_store := t_store t @ [c], t_cstats := cs\<rparr>))"
    if "kept_out t0 t" "\<not> containsInBlackList t (peerIP (ci_peer c))" for t c cs using that by (rule kept_out_joined)
qed (auto simp: kept_out_def nth_append)

text \<open>
  C26. Once an address is banned it stays banned: from then on the torrent dials no peer with that
  address and accepts no connection from it, whatever the trackers, the DHT and the user offer.
\<close>

theorem banned_stay_out:
  assumes "torrent_ok k t0" "containsInBlackList t0 ip" "t_reach k t0 t"
  shows "containsInBlackList t ip \<and>
    take (length (t_dials t0)) (t_dials t) = t_dials t0 \<and>
    (\<forall>p \<in> set (drop (length (t_dials t0)) (t_dials t)). \<not> ip_Equal (peerIP p) ip) \<and>
    (\<forall>i \<in> set (conns t). length (t_store t0) \<le> i \<longrightarrow> \<not> ip_Equal (peerIP (ci_peer (ci t i))) ip)"
proof -
  have "\<forall>i \<in> set (conns t0). i < length (t_store t0)" using assms(1) by (auto simp: torrent_ok_def dest: in_set_takeD)
  with assms(1) have "kept_out t0 t0" by (auto simp: kept_out_def torrent_ok_def)
  with assms(3) have k: "kept_out t0 t" by (rule ko.reach_keeps)
  have "in_list (blackList t0) p" if "ip_Equal (peerIP p) ip" for p
    using assms(2) that by (auto simp: in_list_def containsInBlackList_def list_ex_iff ip_Equal_def)
  then have l: "\<not> in_list (blackList t0) p \<Longrightarrow> \<not> ip_Equal (peerIP p) ip" for p by blast
  from k assms(2) show ?thesis by (auto simp: kept_out_def containsInBlackList_def dest: l)
qed

section \<open>Interest after a have message\<close>

lemma interested_nothing: "numWant (ci t i) \<le> 0 \<Longrightarrow> interested gone i t = (t, Return ())"
  by (simp add: interested_def ret_def)

text \<open>
  The finding on interest: \<open>reviewInterestsOnHave\<close> calls \<open>interested\<close> only when no piece of the
  peer is wanted yet, and \<open>interested\<close> then returns at once; so a \<open>have\<close> message only counts the
  piece, and never sends an interested message or changes a flag, however many pieces a peer announces.
\<close>

lemma have_never_interests:
  assumes "i < length (t_store t)"
  shows "ci_state (ci (fst (reviewInterestsOnHave k i j t)) i) = ci_state (ci t i) \<and>
    ci_sent (ci (fst (reviewInterestsOnHave k i j t)) i) = ci_sent (ci t i)"
proof -
  have "seq (\<lambda>t. if numWant (ci t i) \<le> 0 then interested (droppedConn k) i t else ret () t)
      (upd_ci i (\<lambda>c. c\<lparr>numWant := numWant c + 1\<rparr>)) t = (mod_ci i (\<lambda>c. c\<lparr>numWant := numWant c + 1\<rparr>) t, Return ())"
    by (simp add: andthen_def interested_nothing ret_def upd_ci_def modify_def)
  then show ?thesis
    using assms by (auto simp: reviewInterestsOnHave_def check_haveAll_def andthen_def ret_def mod_ci_def split: option.split)
qed

section \<open>A torrent at work\<close>

fun t_run :: "'bm tcfg \<Rightarrow> 'bm tevent list \<Rightarrow> 'bm torrent \<Rightarrow> 'bm torrent option" where
  "t_run k [] t = Some t"
| "t_run k (ev # evs) t = (case t_turn k ev t of (t', Return _) \<Rightarrow> t_run k evs t' | _ \<Rightarrow> None)"

lemma t_run_reach: "t_reach k t0 t \<Longrightarrow> t_run k evs t = Some t' \<Longrightarrow> t_reach k t0 t'"
  by (induction evs arbitrary: t) (auto split: prod.splits outcome.splits intro: turn)

definition ex_tcfg :: "int list tcfg" where
  "ex_tcfg = \<lparr>tk_bm = list_bitmap, tk_sort = (\<lambda>less xs. xs), tk_intn = (\<lambda>r n. r), tk_perm = (\<lambda>r n. [0..<n]),
     tk_fgt = (\<lambda>(b, d) (b', d'). b * d' > b' * d), tk_raise = (\<lambda>r. 110), tk_sha1 = (\<lambda>b. replicate 20 0), tk_env = ex_env, tk_dir = [47, 100],
     tk_disableTrackers = False, tk_hasAnnouncer = False, tk_disableDHT = True, tk_hasDht = False, tk_reserved = replicate 8 0,
     tk_dhtPort = 0, tk_maxEstablished = 2, tk_outIP = [192, 168, 0, 1],
     tk_stuck = (\<lambda>_ _. False), tk_busy = (\<lambda>_. False)\<rparr>"

definition ex_xpeer :: "8 word \<Rightarrow> xpeer" where
  "ex_xpeer n = \<lparr>xp_P = \<lparr>pr_ID = None, pr_IP = [10, 0, 0, n], pr_Port = 6881\<rparr>, xp_Source = SourceUser\<rparr>"

definition ex_ci :: "8 word \<Rightarrow> int list connInfo" where
  "ex_ci n = \<lparr>ci_peer = ex_xpeer n, ci_reserved = replicate 8 0, ci_peerBf = [], numWant = 0, ci_state = newConnState, ci_sent = []\<rparr>"

definition ex_tevents :: "int list tevent list" where
  "ex_tevents = [User (UAddPeers [ex_xpeer 1, ex_xpeer 2, ex_xpeer 3]), NewConn (ex_ci 1), HalfOpenDone (ex_xpeer 1),
     NewConn (ex_ci 2), ConnMsg 0 (ToMsg (new_Msg\<lparr>Kind := Interested\<rparr>))]"

definition ex_t0 :: "int list torrent" where
  "ex_t0 = fst (startTorrent ex_tcfg (InfoHash_Parse (replicate 20 7)) [[10, 0, 0, 3]] ex_storage)"

definition ex_t :: "int list torrent" where
  "ex_t = the (t_run ex_tcfg ex_tevents ex_t0)"

lemma ex_t0_start: "startTorrent ex_tcfg (InfoHash_Parse (replicate 20 7)) [[10, 0, 0, 3]] ex_storage = (ex_t0, Return ())"
proof -
  have "snd (startTorrent ex_tcfg (InfoHash_Parse (replicate 20 7)) [[10, 0, 0, 3]] ex_storage) = Return ()" by code_simp
  then show ?thesis by (simp add: ex_t0_def prod_eq_iff)
qed

lemma ex_t_reach: "t_reach ex_tcfg ex_t0 ex_t"
proof -
  have "t_run ex_tcfg ex_tevents ex_t0 \<noteq> None" by code_simp
  then have "t_run ex_tcfg ex_tevents ex_t0 = Some ex_t" by (auto simp: ex_t_def)
  then show ?thesis by (rule t_run_reach [OF t_reach.start])
qed

theorem torrent_reach_ok_witness: "torrent_ok ex_tcfg ex_t \<and> conns ex_t = [0, 1] \<and> halfOpen ex_t = [ex_xpeer 2]"
proof -
  have "conns ex_t = [0, 1]" "halfOpen ex_t = [ex_xpeer 2]" by code_simp+
  with torrent_reach_ok [OF ex_t0_start ex_t_reach] show ?thesis by blast
qed

theorem banned_stay_out_witness:
  "containsInBlackList ex_t [10, 0, 0, 3] \<and> length (t_dials ex_t) = 2 \<and>
   \<not> list_ex (\<lambda>p. ip_Equal (peerIP p) [10, 0, 0, 3]) (drop (length (t_dials ex_t0)) (t_dials ex_t))"
proof -
  note started_ok [OF ex_t0_start]
  moreover have "containsInBlackList ex_t0 [10, 0, 0, 3]" "length (t_dials ex_t) = 2" by code_simp+
  ultimately show ?thesis using banned_stay_out [OF _ _ ex_t_reach] unfolding list_ex_iff by blast
qed

definition ex_td :: "int list torrent" where
  "ex_td = ex_t\<lparr>t_pieces := Some ex_pieces, t_uts := uts_new\<lparr>correctSize := 1\<rparr>, t_mi := (t_mi ex_t)\<lparr>mi_Info := Some ex_info\<rparr>,
     downloadEnabled := True\<rparr>"

lemma have_never_interests_witness:
  "ci_sent (ci (fst (reviewInterestsOnHave ex_tcfg 0 1 ex_td)) 0) = ci_sent (ci ex_td 0) \<and>
   numWant (ci (fst (reviewInterestsOnHave ex_tcfg 0 1 ex_td)) 0) = 1 \<and> downloadEnabled ex_td"
proof -
  have "0 < length (t_store ex_td)" by code_simp
  moreover have "numWant (ci (fst (reviewInterestsOnHave ex_tcfg 0 1 ex_td)) 0) = 1" "downloadEnabled ex_td" by code_simp+
  ultimately show ?thesis using have_never_interests by blast
qed

end
