(* ===== verification/Torrent_Choker.thy ===== *)
theory Torrent_Choker
  imports Torrent_Theorems
begin

text \<open>
  The slots of the choker. While no send finds its connection gone, an operation on a connection is a
  function of the flags: the proofs follow who is choked through the loops of \<open>reviewUnchokedPeers\<close>.
\<close>

section \<open>Effects on the flags\<close>

definition nodrop :: "'bm torrent \<Rightarrow> bool" where
  "nodrop t \<longleftrightarrow> True \<notin> set (t_picks t)"

abbreviation choked :: "'bm torrent \<Rightarrow> cid \<Rightarrow> bool" where
  "choked t i \<equiv> amChoking (ci_state (ci t i))"

abbreviation interests :: "'bm torrent \<Rightarrow> cid \<Rightarrow> bool" where
  "interests t i \<equiv> isInterested (ci_state (ci t i))"

text \<open>What a review leaves alone.\<close>

definition quiet :: "'bm torrent \<Rightarrow> 'bm torrent \<Rightarrow> bool" where
  "quiet t t' \<longleftrightarrow> nodrop t' \<and> t_arr t' = t_arr t \<and> t_len t' = t_len t \<and> t_choker t' = t_choker t \<and>
     uploadEnabled t' = uploadEnabled t \<and> length (t_store t') = length (t_store t) \<and> t_uts t' = t_uts t \<and> t_mi t' = t_mi t \<and>
     t_pieces t' = t_pieces t \<and>
     (\<forall>j. interests t' j = interests t j \<and> ci_peerBf (ci t' j) = ci_peerBf (ci t j))"

lemma quiet_refl: "nodrop t \<Longrightarrow> quiet t t"
  by (simp add: quiet_def)

lemma quiet_trans: "quiet t t1 \<Longrightarrow> quiet t1 t2 \<Longrightarrow> quiet t t2"
  by (simp add: quiet_def)

lemma quiet_seeding: "quiet t t' \<Longrightarrow> ci_peerSeeding k t' i = ci_peerSeeding k t i"
  by (simp add: quiet_def ci_peerSeeding_def t_haveInfo_def t_numPieces_def)

lemma quiet_opt: "quiet t t' \<Longrightarrow> opt_is t' i = opt_is t i"
  by (simp add: quiet_def opt_is_def)

lemma picks_tl: "nodrop t \<Longrightarrow> True \<notin> set (tl (t_picks t))"
  by (cases "t_picks t") (simp_all add: nodrop_def)

lemma send_nodrop:
  "nodrop t \<Longrightarrow> sendMsgToConn gone i m t =
     (mod_ci i (\<lambda>c. c\<lparr>ci_sent := ci_sent c @ [m]\<rparr>) (t\<lparr>t_picks := tl (t_picks t)\<rparr>), Return ())"
  by (auto simp: sendMsgToConn_def nodrop_def split: list.splits bool.splits)

lemma choke_effect:
  assumes "nodrop t" "i < length (t_store t)"
  obtains t' where "choke gone i t = (t', Return ())" "quiet t t'" "\<And>j. choked t' j \<longleftrightarrow> choked t j \<or> j = i"
proof -
  have "\<exists>t'. choke gone i t = (t', Return ()) \<and> quiet t t' \<and> (\<forall>j. choked t' j \<longleftrightarrow> choked t j \<or> j = i)"
    using assms picks_tl [OF assms(1)]
    by (auto simp: choke_def when_state_def andthen_def send_nodrop upd_state_def upd_ci_def modify_def mod_ci_def stoppedUploading_def
        upd_cstats_def ret_def quiet_def nodrop_def nth_list_update)
  with that show ?thesis by blast
qed

lemma unchoke_effect:
  assumes "nodrop t" "i < length (t_store t)"
  obtains t' where "unchoke gone i t = (t', Return ())" "quiet t t'"
    "\<And>j. choked t' j \<longleftrightarrow> choked t j \<and> \<not> (j = i \<and> uploadEnabled t)"
proof -
  have "\<exists>t'. unchoke gone i t = (t', Return ()) \<and> quiet t t' \<and> (\<forall>j. choked t' j \<longleftrightarrow> choked t j \<and> \<not> (j = i \<and> uploadEnabled t))"
    using assms picks_tl [OF assms(1)]
    by (auto simp: unchoke_def andthen_def send_nodrop upd_state_def upd_ci_def modify_def mod_ci_def startedUploading_def
        upd_cstats_def ret_def quiet_def nodrop_def nth_list_update)
  with that show ?thesis by blast
qed

lemma snubbed_effect: "nodrop t \<Longrightarrow> ci_isSnubbed k i t = (t', Return b) \<Longrightarrow> quiet t t' \<and> (\<forall>j. choked t' j = choked t j)"
  by (auto simp: ci_isSnubbed_def check_haveAll_def andthen_def quiet_def nodrop_def split: if_splits prod.splits)

section \<open>The loops\<close>

text \<open>Every index of the slice is a connection of the store.\<close>

definition in_store :: "'bm torrent \<Rightarrow> cid list \<Rightarrow> bool" where
  "in_store t xs \<longleftrightarrow> (\<forall>i \<in> set xs. i < length (t_store t))"

lemma quiet_in_store: "quiet t t' \<Longrightarrow> in_store t' xs = in_store t xs"
  by (simp add: quiet_def in_store_def)

lemma classify_effect:
  assumes "classify k gone js best cand t = (t', Return (best', cand'))" "nodrop t" "in_store t (map ((!) (t_arr t)) js)"
  shows "quiet t t' \<and>
    (\<forall>i. choked t' i \<longleftrightarrow> choked t i \<or> (\<exists>j \<in> set js. i = t_arr t ! j \<and> ci_peerSeeding k t i)) \<and>
    mset (best' @ cand') = mset (best @ cand) + mset (filter (\<lambda>i. \<not> ci_peerSeeding k t i) (map ((!) (t_arr t)) js)) \<and>
    (\<forall>i \<in> set best'. i \<in> set best \<or> interests t i)"
  using assms
proof (induction js arbitrary: best cand t)
  case Nil
  then show ?case by (auto simp: ret_def quiet_refl)
next
  case (Cons j js)
  let ?i = "t_arr t ! j"
  have i: "?i < length (t_store t)" using Cons.prems(3) by (simp add: in_store_def)
  show ?case
  proof (cases "ci_peerSeeding k t ?i")
    case True
    obtain t1 where t1: "choke gone ?i t = (t1, Return ())" "quiet t t1" "\<And>j. choked t1 j \<longleftrightarrow> choked t j \<or> j = ?i"
      by (rule choke_effect [OF Cons.prems(2) i, where gone = gone]) auto
    from Cons.prems True t1 have r: "classify k gone js best cand t1 = (t', Return (best', cand'))"
      by (simp add: Let_def andthen_def)
    have n: "nodrop t1" "t_arr t1 = t_arr t" "in_store t1 (map ((!) (t_arr t1)) js)"
      using t1(2) Cons.prems(3) by (auto simp: quiet_def in_store_def)
    have e: "interests t1 i = interests t i" for i using t1(2) by (simp add: quiet_def)
    from Cons.IH [OF r n(1,3), unfolded quiet_seeding [OF t1(2)] n(2) e t1(3)] quiet_trans [OF t1(2)] True show ?thesis
      by auto
  next
    case False
    obtain t1 b where t1: "ci_isSnubbed k ?i t = (t1, Return b)"
      using Cons.prems(1) False by (auto simp: Let_def andthen_def split: prod.splits outcome.splits)
    from snubbed_effect [OF Cons.prems(2) this] have q: "quiet t t1" "\<And>j. choked t1 j = choked t j" by auto
    let ?c = "b \<or> \<not> interests t1 ?i"
    from Cons.prems False t1 have r: "classify k gone js (if ?c then best else best @ [?i]) (if ?c then cand @ [?i] else cand) t1 = (t', Return (best', cand'))"
      by (auto simp: Let_def andthen_def split: if_splits)
    have n: "nodrop t1" "t_arr t1 = t_arr t" "in_store t1 (map ((!) (t_arr t1)) js)"
      using q(1) Cons.prems(3) by (auto simp: quiet_def in_store_def)
    have e: "interests t1 i = interests t i" for i using q(1) by (simp add: quiet_def)
    from Cons.IH [OF r n(1,3), unfolded quiet_seeding [OF q(1)] n(2) e q(2)] quiet_trans [OF q(1)] False show ?thesis
      by (auto simp: e split: if_splits)
  qed
qed

text \<open>The pieces are there when the info is.\<close>

definition nopanic :: "'bm torrent \<Rightarrow> bool" where
  "nopanic t \<longleftrightarrow> (t_haveInfo t \<longrightarrow> t_pieces t \<noteq> None)"

lemma quiet_nopanic: "quiet t t' \<Longrightarrow> nopanic t' = nopanic t"
  by (simp add: quiet_def nopanic_def t_haveInfo_def)

lemma snubbed_returns: "nopanic t \<Longrightarrow> \<exists>t' b. ci_isSnubbed k i t = (t', Return b)"
  by (auto simp: ci_isSnubbed_def check_haveAll_def andthen_def nopanic_def split: prod.split)

lemma classify_returns:
  "nodrop t \<Longrightarrow> nopanic t \<Longrightarrow> in_store t (map ((!) (t_arr t)) js) \<Longrightarrow>
     \<exists>t' best' cand'. classify k gone js best cand t = (t', Return (best', cand'))"
proof (induction js arbitrary: best cand t)
  case (Cons j js)
  let ?i = "t_arr t ! j"
  have i: "?i < length (t_store t)" using Cons.prems(3) by (simp add: in_store_def)
  have IH: "\<exists>t' b' c'. classify k gone js b c t1 = (t', Return (b', c'))" if "quiet t t1" for t1 b c
  proof (rule Cons.IH)
    show "nopanic t1" using Cons.prems(2) quiet_nopanic [OF that] by simp
  qed (use that Cons.prems(3) in \<open>auto simp: quiet_def in_store_def\<close>)
  obtain t1 where "choke gone ?i t = (t1, Return ())" "quiet t t1"
    by (rule choke_effect [OF Cons.prems(1) i, where gone = gone]) auto
  moreover obtain t2 b where "ci_isSnubbed k ?i t = (t2, Return b)" using snubbed_returns [OF Cons.prems(2)] by blast
  moreover from snubbed_effect [OF Cons.prems(1) this] have "quiet t t2" by simp
  ultimately show ?case using IH by (simp add: Let_def andthen_def)
qed (simp add: ret_def)

lemma unchoke_best_effect:
  assumes "unchoke_best gone is n t = (t', r)" "nodrop t" "in_store t is"
  shows "quiet t t' \<and> r = Return (n - int (length (filter (\<lambda>i. \<not> opt_is t i) is))) \<and>
    (\<forall>i. choked t' i \<longleftrightarrow> choked t i \<and> \<not> (i \<in> set is \<and> \<not> opt_is t i \<and> uploadEnabled t))"
  using assms
proof (induction "is" arbitrary: n t)
  case Nil
  then show ?case by (auto simp: ret_def quiet_refl)
next
  case (Cons i "is")
  show ?case
  proof (cases "opt_is t i")
    case True
    with Cons.IH [of n t] Cons.prems show ?thesis by (auto simp: in_store_def)
  next
    case False
    obtain t1 where t1: "unchoke gone i t = (t1, Return ())" "quiet t t1"
        "\<And>j. choked t1 j \<longleftrightarrow> choked t j \<and> \<not> (j = i \<and> uploadEnabled t)"
      using unchoke_effect [OF Cons.prems(2)] Cons.prems(3) by (auto simp: in_store_def)
    from Cons.prems False t1 have r: "unchoke_best gone is (n - 1) t1 = (t', r)" by (simp add: andthen_def)
    have n: "nodrop t1" "in_store t1 is" "uploadEnabled t1 = uploadEnabled t"
      using t1(2) Cons.prems(3) by (auto simp: quiet_def in_store_def)
    from Cons.IH [OF r n(1,2)] have h: "quiet t1 t'" "r = Return (n - 1 - int (length (filter (\<lambda>i. \<not> opt_is t i) is)))"
        "\<And>i. choked t' i \<longleftrightarrow> choked t1 i \<and> \<not> (i \<in> set is \<and> \<not> opt_is t i \<and> uploadEnabled t)"
      using n(3) by (simp_all add: quiet_opt [OF t1(2)])
    show ?thesis using quiet_trans [OF t1(2) h(1)] h(2,3) t1(3) False by auto
  qed
qed

text \<open>The peers that hold a slot: interested, unchoked and not the optimistic one.\<close>

definition slots_used :: "'bm torrent \<Rightarrow> cid list \<Rightarrow> int" where
  "slots_used t xs = int (length (filter (\<lambda>i. interests t i \<and> \<not> choked t i \<and> \<not> opt_is t i) xs))"

lemma slots_used_simps [simp]:
  "slots_used t [] = 0"
  "slots_used t (i # xs) = (if interests t i \<and> \<not> choked t i \<and> \<not> opt_is t i then 1 else 0) + slots_used t xs"
  "slots_used t (xs @ ys) = slots_used t xs + slots_used t ys"
  by (simp_all add: slots_used_def)

lemma slots_used_mset: "mset xs = mset ys \<Longrightarrow> slots_used t xs = slots_used t ys"
  by (simp only: slots_used_def size_mset [symmetric] mset_filter)

lemma slots_used_le: "slots_used t xs \<le> int (length (filter (\<lambda>i. \<not> opt_is t i) xs))"
  by (induction xs) auto

lemma slots_used_nonneg: "0 \<le> slots_used t xs"
  by (simp add: slots_used_def)

lemma unchoke_rest_effect:
  assumes "unchoke_rest gone is n t = (t', r)" "nodrop t" "in_store t is" "distinct is"
  shows "quiet t t' \<and> r = Return () \<and> (\<forall>i. i \<notin> set is \<longrightarrow> choked t' i = choked t i) \<and> slots_used t' is \<le> max 0 n \<and>
    (uploadEnabled t \<longrightarrow> (\<exists>i \<in> set is. \<not> opt_is t i \<and> choked t' i) \<longrightarrow> n \<le> slots_used t' is)"
  using assms
proof (induction "is" arbitrary: n t)
  case Nil
  then show ?case by (auto simp: ret_def quiet_refl)
next
  case (Cons i "is")
  have s: "i < length (t_store t)" "in_store t is" "i \<notin> set is" "distinct is"
    using Cons.prems(3,4) by (auto simp: in_store_def)
  consider "opt_is t i" | "\<not> opt_is t i" "n \<le> 0" | "\<not> opt_is t i" "n > 0" by linarith
  then show ?case
  proof cases
    case 1
    with Cons.prems(1) have r: "unchoke_rest gone is n t = (t', r)" by simp
    from Cons.IH [OF r Cons.prems(2) s(2,4)] show ?thesis using 1 by (auto simp: quiet_opt)
  next
    case 2
    obtain t1 where t1: "choke gone i t = (t1, Return ())" "quiet t t1" "\<And>j. choked t1 j \<longleftrightarrow> choked t j \<or> j = i"
      by (rule choke_effect [OF Cons.prems(2) s(1), where gone = gone]) auto
    from Cons.prems(1) 2 t1(1) have r: "unchoke_rest gone is n t1 = (t', r)" by (simp add: andthen_def)
    have n: "nodrop t1" "in_store t1 is" using t1(2) s(2) by (auto simp: quiet_def in_store_def)
    from Cons.IH [OF r n s(4)] quiet_trans [OF t1(2)] t1(3) s(3) 2 slots_used_nonneg [of t' "is"]
    show ?thesis by auto
  next
    case 3
    obtain t1 where t1: "unchoke gone i t = (t1, Return ())" "quiet t t1"
        "\<And>j. choked t1 j \<longleftrightarrow> choked t j \<and> \<not> (j = i \<and> uploadEnabled t)"
      by (rule unchoke_effect [OF Cons.prems(2) s(1), where gone = gone]) auto
    let ?d = "if interests t1 i then 1 else 0 :: int"
    from Cons.prems(1) 3 t1(1) have r: "unchoke_rest gone is (n - ?d) t1 = (t', r)"
      by (auto simp: andthen_def split: if_splits)
    have n: "nodrop t1" "in_store t1 is" "uploadEnabled t1 = uploadEnabled t" using t1(2) s(2) by (auto simp: quiet_def in_store_def)
    from Cons.IH [OF r n(1,2) s(4)] have h: "quiet t1 t'" "r = Return ()" "\<And>i. i \<notin> set is \<Longrightarrow> choked t' i = choked t1 i"
        "slots_used t' is \<le> max 0 (n - ?d)"
        "uploadEnabled t \<Longrightarrow> \<exists>i \<in> set is. \<not> opt_is t i \<and> choked t' i \<Longrightarrow> n - ?d \<le> slots_used t' is"
      by (auto simp: n(3) quiet_opt [OF t1(2)])
    have d: "interests t' i = interests t1 i" using h(1) by (simp add: quiet_def)
    have o: "\<not> opt_is t' i" using 3(1) quiet_trans [OF t1(2) h(1)] by (simp add: quiet_opt)
    have c: "choked t' i = choked t1 i" using h(3) s(3) by simp
    show ?thesis
    proof (intro conjI impI)
      show "quiet t t'" by (rule quiet_trans [OF t1(2) h(1)])
      show "r = Return ()" by (rule h(2))
      show "\<forall>j. j \<notin> set (i # is) \<longrightarrow> choked t' j = choked t j" using h(3) t1(3) by auto
      show "slots_used t' (i # is) \<le> max 0 n" using h(4) 3(2) by (auto simp: d split: if_splits)
      assume u: "uploadEnabled t" and e: "\<exists>j \<in> set (i # is). \<not> opt_is t j \<and> choked t' j"
      then have "\<exists>j \<in> set is. \<not> opt_is t j \<and> choked t' j" using c t1(3) by auto
      from h(5) [OF u this] show "n \<le> slots_used t' (i # is)" using c t1(3) [of i] u o by (auto simp: d split: if_splits)
    qed
  qed
qed

section \<open>A review\<close>

text \<open>What the libraries promise: sorting permutes, and \<open>rand.Perm\<close> is a permutation of the indices.\<close>

definition rand_ok :: "'bm tcfg \<Rightarrow> bool" where
  "rand_ok k \<longleftrightarrow> (\<forall>less xs. mset (tk_sort k less xs) = mset xs) \<and> (\<forall>r n. mset (tk_perm k r n) = mset [0..<n])"

lemma mset_pick: "mset p = mset [0..<length xs] \<Longrightarrow> mset (map ((!) xs) p) = mset xs"
  by (metis map_nth mset_map)

lemma sort_conns_parts:
  assumes "sort_conns k gone n t = (t', r)" "nodrop t" "in_store t (conns t)" "t_len t \<le> length (t_arr t)"
    "distinct (conns t)" "rand_ok k" "nopanic t"
  obtains t1 t2 top rest where "quiet t t1" "\<And>i. choked t1 i \<longleftrightarrow> choked t i \<or> i \<in> set (conns t) \<and> ci_peerSeeding k t i"
    "mset (top @ rest) = mset (filter (\<lambda>i. \<not> ci_peerSeeding k t i) (conns t))" "\<forall>i \<in> set top. interests t i" "length top \<le> n"
    "unchoke_best gone top (int n) t1 = (t2, Return (int n - int (length (filter (\<lambda>i. \<not> opt_is t i) top))))"
    "quiet t1 t2" "\<And>i. choked t2 i \<longleftrightarrow> choked t1 i \<and> \<not> (i \<in> set top \<and> \<not> opt_is t i \<and> uploadEnabled t)"
    "unchoke_rest gone rest (int n - int (length (filter (\<lambda>i. \<not> opt_is t i) top))) (t2\<lparr>t_rolls := t_rolls t2 + 1\<rparr>) = (t', r)"
proof -
  let ?js = "[0..<t_len t]"
  have js: "map ((!) (t_arr t)) ?js = conns t" by (rule nth_equalityI) (use assms(4) in auto)
  obtain t1 best cand where c: "classify k gone ?js [] [] t = (t1, Return (best, cand))"
    and u: "unchoke_all k gone n (tk_sort k (byRate_Less k t1) best) cand t1 = (t', r)"
  proof -
    obtain t1 best cand where c: "classify k gone ?js [] [] t = (t1, Return (best, cand))"
      using classify_returns [OF assms(2,7), of ?js k gone "[]" "[]"] assms(3) by (auto simp: js)
    with assms(1) that show ?thesis by (simp add: sort_conns_def andthen_def)
  qed
  from classify_effect [OF c assms(2)] have q1: "quiet t t1"
      "\<And>i. choked t1 i \<longleftrightarrow> choked t i \<or> i \<in> set (conns t) \<and> ci_peerSeeding k t i"
      "mset (best @ cand) = mset (filter (\<lambda>i. \<not> ci_peerSeeding k t i) (conns t))" "\<forall>i \<in> set best. interests t i"
    using assms(3) by (auto simp: js simp flip: js)
  define ranked where "ranked = tk_sort k (byRate_Less k t1) best"
  have m: "mset ranked = mset best" using assms(6) by (simp add: ranked_def rand_ok_def)
  define top where "top = take n ranked"
  obtain t2 x where b: "unchoke_best gone top (int n) t1 = (t2, x)" by fastforce
  have "mset (top @ cand @ drop n ranked) = mset (filter (\<lambda>i. \<not> ci_peerSeeding k t i) (conns t))"
    using q1(3) m append_take_drop_id [of n ranked] unfolding top_def
    by (metis (no_types, lifting) mset_append union_commute union_assoc)
  note parts = this
  have "set top \<subseteq> set (conns t)" using mset_eq_setD [OF parts] by auto
  then have "in_store t1 top" using assms(3) q1(1) by (auto simp: in_store_def quiet_def)
  from unchoke_best_effect [OF b _ this] q1(1) have q2: "quiet t1 t2"
      "x = Return (int n - int (length (filter (\<lambda>i. \<not> opt_is t i) top)))"
      "\<And>i. choked t2 i \<longleftrightarrow> choked t1 i \<and> \<not> (i \<in> set top \<and> \<not> opt_is t i \<and> uploadEnabled t)"
    using quiet_opt [OF q1(1)] by (auto simp: quiet_def)
  let ?cs = "cand @ drop n ranked"
  define rest where "rest = map ((!) ?cs) (tk_perm k (t_rolls t2) (length ?cs))"
  have "unchoke_rest gone rest (int n - int (length (filter (\<lambda>i. \<not> opt_is t i) top))) (t2\<lparr>t_rolls := t_rolls t2 + 1\<rparr>) = (t', r)"
    using u b unfolding unchoke_all_def Let_def rest_def top_def [symmetric] ranked_def [symmetric]
    by (simp add: andthen_def q2(2) rand_Perm_def)
  moreover have "mset rest = mset ?cs" unfolding rest_def by (rule mset_pick) (use assms(6) in \<open>simp add: rand_ok_def\<close>)
  then have "mset (top @ rest) = mset (filter (\<lambda>i. \<not> ci_peerSeeding k t i) (conns t))" using parts by simp
  moreover have "\<forall>i \<in> set top. interests t i" using q1(4) mset_eq_setD [OF m] by (auto simp: top_def dest: in_set_takeD)
  moreover have "length top \<le> n" by (simp add: top_def)
  ultimately show ?thesis using that q1(1,2) q2 b by blast
qed

lemma sort_conns_effect:
  assumes "sort_conns k gone n t = (t', r)" "nodrop t" "in_store t (conns t)" "t_len t \<le> length (t_arr t)"
    "distinct (conns t)" "rand_ok k" "nopanic t"
  shows "r = Return () \<and> quiet t t' \<and> (\<forall>i \<in> set (conns t). ci_peerSeeding k t i \<longrightarrow> choked t' i) \<and> slots_used t' (conns t) \<le> int n \<and>
    (uploadEnabled t \<longrightarrow> (\<exists>i \<in> set (conns t). \<not> ci_peerSeeding k t i \<and> \<not> opt_is t i \<and> choked t' i) \<longrightarrow>
       slots_used t' (conns t) = int n)"
proof -
  obtain t1 t2 top rest where 1: "quiet t t1" "\<And>i. choked t1 i \<longleftrightarrow> choked t i \<or> i \<in> set (conns t) \<and> ci_peerSeeding k t i"
    and m: "mset (top @ rest) = mset (filter (\<lambda>i. \<not> ci_peerSeeding k t i) (conns t))"
    and top: "\<forall>i \<in> set top. interests t i" "length top \<le> n"
    and 2: "quiet t1 t2" "\<And>i. choked t2 i \<longleftrightarrow> choked t1 i \<and> \<not> (i \<in> set top \<and> \<not> opt_is t i \<and> uploadEnabled t)"
    and u: "unchoke_rest gone rest (int n - int (length (filter (\<lambda>i. \<not> opt_is t i) top))) (t2\<lparr>t_rolls := t_rolls t2 + 1\<rparr>) = (t', r)"
    by (rule sort_conns_parts [OF assms]) blast
  let ?t2 = "t2\<lparr>t_rolls := t_rolls t2 + 1\<rparr>" and ?m = "int (length (filter (\<lambda>i. \<not> opt_is t i) top))"
  let ?seeds = "filter (ci_peerSeeding k t) (conns t)"
  have q: "quiet t ?t2" using quiet_trans [OF 1(1) 2(1)] by (simp add: quiet_def nodrop_def)
  have d: "distinct (top @ rest)" "set (top @ rest) = {i \<in> set (conns t). \<not> ci_peerSeeding k t i}"
    using mset_eq_setD [OF m] mset_eq_imp_distinct_iff [OF m] assms(5) by auto
  have "in_store ?t2 rest" using d(2) assms(3) q by (auto simp: in_store_def quiet_def)
  from unchoke_rest_effect [OF u _ this] q d(1) have r: "r = Return ()" and 3: "quiet ?t2 t'" "\<And>i. i \<notin> set rest \<Longrightarrow> choked t' i = choked t2 i"
      "slots_used t' rest \<le> max 0 (int n - ?m)"
      "uploadEnabled t \<Longrightarrow> \<exists>i \<in> set rest. \<not> opt_is t i \<and> choked t' i \<Longrightarrow> int n - ?m \<le> slots_used t' rest"
    using quiet_opt [OF q] by (auto simp: quiet_def)
  have qt: "quiet t t'" by (rule quiet_trans [OF q 3(1)])
  have s: "choked t' i" if "i \<in> set ?seeds" for i using that d(2) by (subst 3(2)) (auto simp: 2(2) 1(2))
  then have "slots_used t' ?seeds = 0" by (simp add: slots_used_def filter_empty_conv)
  moreover have "mset (conns t) = mset (?seeds @ top @ rest)" using m by (simp add: multiset_partition [symmetric])
  ultimately have total: "slots_used t' (conns t) = slots_used t' top + slots_used t' rest"
    using slots_used_mset [of "conns t" "?seeds @ top @ rest" t'] by simp
  have o: "opt_is t' i = opt_is t i" for i by (rule quiet_opt [OF qt])
  have "slots_used t' top \<le> ?m" using slots_used_le [of t' top] by (simp add: o)
  moreover have "?m \<le> int n" using top(2) le_trans [OF length_filter_le] by auto
  ultimately have le: "slots_used t' (conns t) \<le> int n" using total 3(3) by linarith
  have "slots_used t' (conns t) = int n"
    if u: "uploadEnabled t" and i: "i \<in> set (conns t)" "\<not> ci_peerSeeding k t i" "\<not> opt_is t i" "choked t' i" for i
  proof -
    have un: "\<not> choked t' j" if "j \<in> set top" "\<not> opt_is t j" for j using that u d(1) by (subst 3(2)) (auto simp: 2(2))
    then have "filter (\<lambda>i. interests t' i \<and> \<not> choked t' i \<and> \<not> opt_is t' i) top = filter (\<lambda>i. \<not> opt_is t i) top"
      using top(1) qt by (intro filter_cong) (auto simp: o quiet_def)
    then have "slots_used t' top = ?m" by (simp add: slots_used_def)
    moreover have "i \<in> set rest" using i un d(2) by auto
    then have "int n - ?m \<le> slots_used t' rest" using 3(4) [OF u] i by blast
    ultimately show ?thesis using total le by linarith
  qed
  with r qt s le show ?thesis by auto
qed

lemma pick_effect:
  assumes "t_choker t = Some ch" "nodrop t" "torrent_ok k t"
  obtains t1 c1 where "pickOptimisticUnchoke k t = (t1, Return ())" "nodrop t1" "torrent_ok k t1" "t_choker t1 = Some c1"
    "nopanic t1 = nopanic t" "conns t1 = conns t" "t_len t1 = t_len t"
proof -
  have "\<exists>t1 c1. pickOptimisticUnchoke k t = (t1, Return ()) \<and> nodrop t1 \<and> t_choker t1 = Some c1 \<and>
      nopanic t1 = nopanic t \<and> conns t1 = conns t \<and> t_len t1 = t_len t"
    using assms(1,2) by (auto simp: pickOptimisticUnchoke_def Let_def upd_choker_def rand_Intn_def andthen_def nodrop_def nopanic_def t_haveInfo_def)
  moreover have "torrent_ok k (fst (pickOptimisticUnchoke k t))" by (rule keepsD [OF tb.pickOptimisticUnchoke_keeps assms(3)])
  ultimately show ?thesis using that by fastforce
qed

lemma optimistic_effect:
  assumes "t_choker t = Some ch" "nodrop t" "torrent_ok k t"
  obtains t1 where "unchoke_optimistic gone t = (t1, Return ())" "quiet t t1"
proof (cases "optimistic ch")
  case None
  with assms(1,2) that show ?thesis by (auto simp: unchoke_optimistic_def ret_def quiet_refl)
next
  case (Some i)
  then have "i < length (t_store t)" using assms(1,3) by (simp add: torrent_ok_def)
  from unchoke_effect [OF assms(2) this, where gone = gone] that assms(1) Some show ?thesis
    by (auto simp: unchoke_optimistic_def)
qed

text \<open>
  C22. A review of the unchoked peers, as long as no send finds its connection gone (\<open>nodrop\<close>), a
  torrent with its info has its pieces (\<open>nopanic\<close>) and the sort and \<open>rand.Perm\<close> return permutations
  (\<open>rand_ok\<close>): it returns; the peers that seed are choked; besides the optimistic unchoke at
  most \<open>maxUploadSlots\<close> interested peers are unchoked; and if uploading is enabled no slot stays empty
  while some other peer that does not seed is choked. When a send does find its connection gone the
  review goes wrong, since it removes the connection from the list that is being ranged over.
\<close>

theorem choker_slots:
  assumes "torrent_ok k t" "nodrop t" "nopanic t" "rand_ok k" "t_choker t = Some ch"
  shows "\<exists>t'. reviewUnchokedPeers k (droppedConn k) t = (t', Return ()) \<and> conns t' = conns t \<and>
    (\<forall>i \<in> set (conns t'). ci_peerSeeding k t' i \<longrightarrow> choked t' i) \<and>
    slots_used t' (conns t') \<le> int (maxUploadSlots ch) \<and>
    (uploadEnabled t' \<longrightarrow> (\<exists>i \<in> set (conns t'). \<not> ci_peerSeeding k t' i \<and> \<not> opt_is t' i \<and> choked t' i) \<longrightarrow>
       slots_used t' (conns t') = int (maxUploadSlots ch))"
proof -
  let ?g = "droppedConn k" and ?n = "maxUploadSlots ch"
  obtain t0 c0 where t0: "(if enableOptimistic ch \<and> go_rem (currRound ch) 5 = 0 then pickOptimisticUnchoke k else ret ()) t = (t0, Return ())"
      "nodrop t0" "torrent_ok k t0" "t_choker t0 = Some c0" "nopanic t0" "conns t0 = conns t"
    proof (cases "enableOptimistic ch \<and> go_rem (currRound ch) 5 = 0")
      case True
      obtain s c where p: "pickOptimisticUnchoke k t = (s, Return ())" "nodrop s" "torrent_ok k s" "t_choker s = Some c"
          "nopanic s = nopanic t" "conns s = conns t"
        by (rule pick_effect [OF assms(5,2,1)])
      show ?thesis by (rule that [of s c]) (use p True assms(3) in simp_all)
    next
      case False
      show ?thesis by (rule that [of t ch]) (use False assms in \<open>auto simp: ret_def\<close>)
    qed
  obtain t1 where t1: "unchoke_optimistic ?g t0 = (t1, Return ())" "quiet t0 t1" by (rule optimistic_effect [OF t0(4,2,3)])
  have w: "nodrop t1" "in_store t1 (conns t1)" "t_len t1 \<le> length (t_arr t1)" "distinct (conns t1)" "nopanic t1"
    using t0(3,5) t1(2) quiet_nopanic [OF t1(2)] by (auto simp: quiet_def torrent_ok_def in_store_def dest: in_set_takeD)
  obtain t2 r where t2: "sort_conns k ?g ?n t1 = (t2, r)" by fastforce
  note e = sort_conns_effect [OF t2 w(1-4) assms(4) w(5)]
  let ?inc = "\<lambda>t. t\<lparr>t_choker := map_option (\<lambda>c. c\<lparr>currRound := currRound c + 1\<rparr>) (t_choker t)\<rparr>"
  show ?thesis
  proof (cases "t_len t = 0")
    case True
    then show ?thesis using assms(5) by (simp add: reviewUnchokedPeers_def review_body_def ret_def)
  next
    case False
    have "review_body k ?g ch t = (t2, Return ())"
      using e False t0(1) t1(1) t2 unfolding review_body_def andthen_def by simp
    then have "reviewUnchokedPeers k ?g t = (?inc t2, Return ())" using assms(5) by (simp add: reviewUnchokedPeers_def)
    moreover have o: "opt_is (?inc t2) i = opt_is t2 i" for i by (auto simp: opt_is_def split: option.split)
    then have "slots_used (?inc t2) xs = slots_used t2 xs" for xs by (simp add: slots_used_def)
    moreover have "ci_peerSeeding k (?inc t2) i = ci_peerSeeding k t2 i" for i
      by (simp add: ci_peerSeeding_def t_haveInfo_def t_numPieces_def)
    moreover have "conns t2 = conns t1" "uploadEnabled t2 = uploadEnabled t1" using e by (simp_all add: quiet_def)
    moreover have "conns t1 = conns t" using t1(2) t0(6) by (simp add: quiet_def)
    moreover note q = quiet_seeding [of t1 t2 k] quiet_opt [of t1 t2] o
    ultimately show ?thesis using e by (intro exI [of _ "?inc t2"]) (simp add: q)
  qed
qed

lemma ex_t_ok: "torrent_ok ex_tcfg ex_t"
  by (rule tb.reach_keeps [OF ex_t_reach started_ok [OF ex_t0_start]])

theorem choker_slots_witness:
  "\<exists>t'. reviewUnchokedPeers ex_tcfg (droppedConn ex_tcfg) (ex_t\<lparr>uploadEnabled := True\<rparr>) = (t', Return ()) \<and>
     slots_used t' (conns t') \<le> 4"
proof -
  let ?t = "ex_t\<lparr>uploadEnabled := True\<rparr>"
  have "torrent_ok ex_tcfg ?t" by (rule torrent_ok_frame [OF ex_t_ok]) (simp add: csame_def)
  moreover have "nodrop ?t" "nopanic ?t" "map_option maxUploadSlots (t_choker ?t) = Some 4" by code_simp+
  moreover from this(3) obtain ch where "t_choker ?t = Some ch" "maxUploadSlots ch = 4" by auto
  moreover have "rand_ok ex_tcfg" by (simp add: rand_ok_def ex_tcfg_def)
  ultimately show ?thesis using choker_slots [of ex_tcfg ?t ch] by auto
qed

end
