(* ===== verification/Torrent_Data.thy ===== *)
theory Torrent_Data
  imports Torrent_Theorems
begin

text \<open>
  The data of a torrent: the torrent goroutine, the hasher and the connections together, over one
  storage. A piece the torrent owns, which is what it tells its peers, has been verified, and what is
  stored of it has the SHA-1 sum of the torrent file.
\<close>

section \<open>Genuine pieces\<close>

text \<open>What is stored of a piece has its length and its hash.\<close>

definition genuine :: "(bytes \<Rightarrow> bytes) \<Rightarrow> bytes \<Rightarrow> info_dict \<Rightarrow> fsys \<Rightarrow> int \<Rightarrow> bool" where
  "genuine sha1 dir info fs i \<longleftrightarrow>
     (\<exists>d. PieceLength info i = Return (int (length d)) \<and> PieceHash info i = Return (sha1 d) \<and>
       (\<forall>x < length d. byte_at (fileInfoName dir info) fs (FilesInfo info) (i * id_pieceLen info + int x) = Some (d ! x)))"

definition all_genuine :: "(bytes \<Rightarrow> bytes) \<Rightarrow> bytes \<Rightarrow> info_dict \<Rightarrow> storage \<Rightarrow> bool" where
  "all_genuine sha1 dir info s \<longleftrightarrow>
     int (length (st_pieces s)) \<le> NumPieces info \<and> (\<forall>i. is_verified s i \<longrightarrow> genuine sha1 dir info (st_fs s) i)"

lemma read_files_full: "read_files env dir info fs fis k off = (d, e) \<Longrightarrow> length d = k \<Longrightarrow> 0 < k \<Longrightarrow> e = None"
proof (induction env dir info fs fis k off arbitrary: d e rule: read_files.induct)
  case (2 env dir info fs fi fis k off)
  show ?case
  proof (cases "off < fi_len fi")
    case True
    obtain d1 e1 where r: "readFileAt env dir info fs fi k off = (d1, e1)" by fastforce
    obtain d2 e2 where r2: "read_files env dir info fs (fi # fis) (k - length d1) (off + int (length d1)) = (d2, e2)" by fastforce
    have "e2 = None" if "k - length d1 \<noteq> 0" "d1 \<noteq> []"
      using 2(1) [OF True r [symmetric] that r2] 2(3,4) True r r2 that
      by (auto simp: read_files.simps(2) [of env dir info fs fi fis k off])
    with 2(3-5) True r r2 show ?thesis
      by (auto simp: read_files.simps(2) [of env dir info fs fi fis k off] split: if_splits)
  next
    case False
    then show ?thesis using 2(2) [OF False, of d e] 2(3-5) by (simp add: read_files.simps(2))
  qed
qed simp

context file_storage
begin

lemma piece_range:
  assumes "0 \<le> i" "i < NumPieces info"
  shows "pieceOff info i = i * id_pieceLen info" "0 \<le> i * id_pieceLen info"
proof -
  let ?T = "sum_list (map fi_len (FilesInfo info))" and ?l = "id_pieceLen info"
  have n: "NumPieces info = (?T + ?l - 1) div ?l" "?T < 2 ^ 62" "?l < 2 ^ 31"
    using storage_ok by (auto simp: storage_ok_def info_ok_def)
  show "0 \<le> i * ?l" using assms(1) plen by simp
  have "i * ?l \<le> NumPieces info * ?l" using assms(2) plen by (intro mult_right_mono) auto
  also have "\<dots> \<le> ?T + ?l - 1" using n(1) plen by (metis div_mult_mod_eq le_add_same_cancel1 pos_mod_sign)
  finally show "pieceOff info i = i * ?l" using \<open>0 \<le> i * ?l\<close> n(2,3) unfolding pieceOff_def by (intro go_int_id) auto
qed

lemma hashPiece_effect:
  assumes "hashPiece sha1 env dir info s i len = Return (s', ok)" "PieceLength info i = Return len"
    "int (length (st_pieces s)) \<le> NumPieces info"
  shows "st_fs s' = st_fs s" "length (st_pieces s') = length (st_pieces s)" "is_verified s' i = ok"
    "j \<noteq> i \<Longrightarrow> is_verified s' j = is_verified s j" "ok \<Longrightarrow> genuine sha1 dir info (st_fs s) i"
proof -
  let ?d = "fst (ReadAt env dir info (st_fs s) (nat len) (pieceOff info i))"
  have i: "0 \<le> i" "i < int (length (st_pieces s))" using assms(1) by (auto simp: hashPiece_def split: if_splits)
  show "st_fs s' = st_fs s" "length (st_pieces s') = length (st_pieces s)" "is_verified s' i = ok"
    using assms(1) i by (auto simp: hashPiece_def Let_def obind_Return_iff markComplete_def markNotComplete_def is_verified_def
        split: if_splits)
  show "is_verified s' j = is_verified s j" if "j \<noteq> i"
  proof -
    have "nat i \<noteq> nat j" if "0 \<le> j" using \<open>j \<noteq> i\<close> that i(1) by simp
    with assms(1) show ?thesis by (auto simp: hashPiece_def Let_def obind_Return_iff is_verified_def split: if_splits)
  qed
  show "genuine sha1 dir info (st_fs s) i" if ok
  proof -
    have d: "int (length ?d) = len" "PieceHash info i = Return (sha1 ?d)"
      using assms(1) that by (auto simp: hashPiece_def Let_def obind_Return_iff split: if_splits)
    note o = piece_range [OF i(1)]
    have b: "byte_at (fileInfoName dir info) (st_fs s) (FilesInfo info) (i * id_pieceLen info + int x) = Some (?d ! x)"
      if "x < length ?d" for x
    proof -
      obtain d e where r: "ReadAt env dir info (st_fs s) (nat len) (pieceOff info i) = (d, e)" by fastforce
      then have "e = None" "length d = nat len" using read_files_full [of env dir info "st_fs s"] d(1) that by (auto simp: ReadAt_def)
      with r read_files_conv [of env dir info "st_fs s" "FilesInfo info" "nat len" "pieceOff info i" d] o i assms(3) that
      show ?thesis by (simp add: ReadAt_def)
    qed
    from d b assms(2) show ?thesis unfolding genuine_def by (intro exI [of _ ?d]) auto
  qed
qed

lemma hashPiece_genuine:
  assumes "hashPiece sha1 env dir info s i len = Return (s', ok)" "PieceLength info i = Return len" "all_genuine sha1 dir info s"
  shows "all_genuine sha1 dir info s'"
proof -
  have l: "int (length (st_pieces s)) \<le> NumPieces info" using assms(3) by (simp add: all_genuine_def)
  note e = hashPiece_effect [OF assms(1,2) l]
  have "genuine sha1 dir info (st_fs s) j" if "is_verified s' j" for j
    using e(3-5) that assms(3) unfolding all_genuine_def by (cases "j = i") auto
  with e(1,2) l show ?thesis by (simp add: all_genuine_def)
qed

lemma WriteBlock_genuine:
  assumes "WriteBlock env dir info s p off = Return (s', n, e)" "in_piece info p off" "all_genuine sha1 dir info s"
  shows "all_genuine sha1 dir info s' \<and> is_verified s' = is_verified s"
proof -
  let ?b = "\<lambda>s. byte_at (fileInfoName dir info) (st_fs s) (FilesInfo info)"
  have v: "is_verified s' = is_verified s" by (rule WriteBlock_verified(1) [OF assms(1)])
  have l: "length (st_pieces s') = length (st_pieces s)"
    using WriteBlock_cases [OF assms(1)] by (auto simp: Let_def split: if_splits)
  have "genuine sha1 dir info (st_fs s') j" if j: "is_verified s j" for j
  proof -
    obtain d where d: "PieceLength info j = Return (int (length d))" "PieceHash info j = Return (sha1 d)"
      "\<forall>x < length d. ?b s (j * id_pieceLen info + int x) = Some (d ! x)"
      using assms(3) j by (auto simp: all_genuine_def genuine_def)
    have "0 \<le> TotalLength info" using total storage_ok by (simp add: storage_ok_def info_ok_def)
    then have "int (length d) = TotalLength info mod id_pieceLen info \<or> int (length d) = id_pieceLen info"
      using d(1) plen by (auto simp: PieceLength_def go_simps split: if_splits)
    then have "int (length d) \<le> id_pieceLen info" using pos_mod_bound [OF plen, of "TotalLength info"] by linarith
    then have ix: "(j * id_pieceLen info + int x) div id_pieceLen info = j" if "x < length d" for x
      using that plen by (simp add: div_pos_pos_trivial)
    have "?b s' (j * id_pieceLen info + int x) = Some (d ! x)" if "x < length d" for x
      using contract.verified_immutable [of s "j * id_pieceLen info + int x" "d ! x" p off s' "e = None"] assms(1,2) j d(3) ix that
      by (simp add: put_block_def)
    with d(1,2) show ?thesis unfolding genuine_def by blast
  qed
  with v l assms(3) show ?thesis by (auto simp: all_genuine_def)
qed

lemma dataVerified_genuine:
  assumes "dataVerified_loop sha1 env dir info s is = Return (s', b)" "all_genuine sha1 dir info s"
  shows "all_genuine sha1 dir info s' \<and> length (st_pieces s') = length (st_pieces s) \<and>
    (b \<longrightarrow> (\<forall>j. is_verified s' j \<longleftrightarrow> is_verified s j \<or> j \<in> set is))"
  using assms
proof (induction "is" arbitrary: s)
  case (Cons i "is")
  obtain len s1 ok where l: "PieceLength info i = Return len" and h: "hashPiece sha1 env dir info s i len = Return (s1, ok)"
    and r: "(if ok then dataVerified_loop sha1 env dir info s1 is else Return (s1, False)) = Return (s', b)"
    using Cons.prems(1) by (auto simp: obind_Return_iff)
  note g = hashPiece_genuine [OF h l Cons.prems(2)]
  have "int (length (st_pieces s)) \<le> NumPieces info" using Cons.prems(2) by (simp add: all_genuine_def)
  note e = hashPiece_effect [OF h l this]
  show ?case
  proof (cases ok)
    case True
    then have "dataVerified_loop sha1 env dir info s1 is = Return (s', b)" using r by simp
    note ih = Cons.IH [OF this g]
    have "is_verified s1 j \<longleftrightarrow> is_verified s j \<or> j = i" for j using e(3,4) True by (cases "j = i") auto
    with ih e(2) show ?thesis by auto
  next
    case False
    with r g e(2) show ?thesis by auto
  qed
qed simp

lemma OpenFileStorage_genuine:
  assumes "OpenFileStorage sha1 env dir info fs blks = Return (st, b)"
  shows "all_genuine sha1 dir info st"
    "b \<Longrightarrow> 0 \<le> j \<Longrightarrow> j < NumPieces info \<Longrightarrow> is_verified st j"
proof -
  define s where "s = \<lparr>st_fs = fs, st_pieces = map (\<lambda>b. \<lparr>sp_blocks = b, dirtyBlocks = {}, sp_verified = False\<rparr>)
                                  (take (nat (NumPieces info)) blks)\<rparr>"
  have l: "NumPieces info \<le> int (length blks)"
    and o: "(if dataComplete env dir info s then dataVerified sha1 env dir info s else Return (s, False)) = Return (st, b)"
    using assms by (auto simp: OpenFileStorage_def s_def Let_def split: if_splits)
  have len: "int (length (st_pieces s)) = NumPieces info" using l by (simp add: s_def NumPieces_def min_def)
  have "\<not> sp_verified (st_pieces s ! m)" if "m < length (st_pieces s)" for m using that by (simp add: s_def)
  then have "\<not> is_verified s i" for i by (auto simp: is_verified_def)
  then have "all_genuine sha1 dir info s" using len by (simp add: all_genuine_def)
  note d = dataVerified_genuine [OF _ this]
  show "all_genuine sha1 dir info st" using o d \<open>all_genuine sha1 dir info s\<close> by (auto simp: dataVerified_def split: if_splits)
  show "is_verified st j" if "b" "0 \<le> j" "j < NumPieces info"
    using o d that len by (auto simp: dataVerified_def split: if_splits)
qed

end

section \<open>What the handlers do to the data\<close>

text \<open>What the property sees of a torrent.\<close>

definition dview :: "'bm torrent \<Rightarrow> 'bm option \<times> storage \<times> bool \<times> bool \<times> info_dict \<times> int \<times> bool \<times> bool" where
  "dview t = (map_option ownedPieces (t_pieces t), t_storage t, infoC t, hashing t, t_info t, t_length t, downloadedDataC t,
     mi_Info (t_mi t) \<noteq> None)"

interpretation dv: torrent_turn "\<lambda>t. dview t = v" k for v k
  by unfold_locales (auto simp: dview_def tsame_def csame_def t_info_def dialed_def removeConn_def appendConn_def)

lemma dview_unseen [simp]:
  "dview (t\<lparr>queuedForVerification := q\<rparr>) = dview t" "dview (t\<lparr>t_cstats := cs\<rparr>) = dview t" "dview (t\<lparr>t_stats := ss\<rparr>) = dview t"
  "dview (t\<lparr>hashQueue := hq\<rparr>) = dview t" "dview (t\<lparr>blockRequestSize := bs\<rparr>) = dview t" "dview (t\<lparr>t_uts := u\<rparr>) = dview t"
  by (simp_all add: dview_def t_info_def)

lemma dview_seen [simp]:
  "dview (t\<lparr>t_pieces := x\<rparr>) = (map_option ownedPieces x, snd (dview t))"
  by (simp add: dview_def t_info_def)

lemma dview_keepsI: "(\<And>t. dview (fst (m t)) = dview t) \<Longrightarrow> keeps (\<lambda>t. dview t = v) m"
  by (simp add: keeps_def)

text \<open>The bookkeeping of the blocks does not change which pieces are owned.\<close>

lemma upd_piece_owned: "upd_piece p i f = Return p' \<Longrightarrow> ownedPieces p' = ownedPieces p"
  by (auto simp: upd_piece_def split: if_splits)

lemma upd_each_owned: "upd_each f p is = Return p' \<Longrightarrow> ownedPieces p' = ownedPieces p"
  by (induction f p "is" rule: upd_each.induct) (auto simp: obind_Return_iff dest: upd_piece_owned)

lemma discardRequests_owned: "discardRequests B p reqs = Return p' \<Longrightarrow> ownedPieces p' = ownedPieces p"
  by (induction B p reqs rule: discardRequests.induct) (auto simp: obind_Return_iff dest: upd_piece_owned)

lemma maybeStartEndgame_owned: "maybeStartEndgame B bs n p = Return (p', b) \<Longrightarrow> ownedPieces p' = ownedPieces p"
  by (auto simp: maybeStartEndgame_def obind_Return_iff dest!: upd_each_owned split: if_splits)

lemma setBlockComplete_owned: "setBlockComplete B bs n p i off c = Return (p', acts) \<Longrightarrow> ownedPieces p' = ownedPieces p"
  by (auto simp: setBlockComplete_def Let_def obind_Return_iff dest!: upd_piece_owned maybeStartEndgame_owned split: if_splits)

lemma fillRequests_owned: "fillRequests B srt coin bs p pp reqs = Return (p', rs, m) \<Longrightarrow> ownedPieces p' = ownedPieces p"
  by (auto simp: fillRequests_def Let_def obind_Return_iff split: if_splits)

lemma have_owned: "onHave p i = Return p' \<Longrightarrow> ownedPieces p' = ownedPieces p" "onBitfield B p bm = Return p' \<Longrightarrow> ownedPieces p' = ownedPieces p"
  by (auto simp: onHave_def onBitfield_def dest: upd_piece_owned upd_each_owned)

lemma pieceHashed_owned:
  "pieceHashed B p st j c = Return (p', st') \<Longrightarrow> 0 \<le> j \<and> ownedPieces p' = (if c then bm_set B (ownedPieces p) j True else ownedPieces p)"
  by (auto simp: pieceHashed_def Let_def obind_Return_iff split: if_splits)

lemma queue_quiet [keeps]: "keeps (\<lambda>t. dview t = v) (queuePieceForHashing j)" "keeps (\<lambda>t. dview t = v) (run_paction k a)"
proof -
  show q: "keeps (\<lambda>t. dview t = v) (queuePieceForHashing j)" for j
    by (rule dview_keepsI) (auto simp: queuePieceForHashing_def Let_def dview_def t_info_def split: option.split)
  show "keeps (\<lambda>t. dview t = v) (run_paction k a)" by (cases a) (simp_all add: keeps q)
qed

lemma blocks_quiet [keeps]: "keeps (\<lambda>t. dview t = v) (blockDownloaded k i b)" "keeps (\<lambda>t. dview t = v) (blockUploaded i b)"
proof -
  show "keeps (\<lambda>t. dview t = v) (blockUploaded i b)" by (rule dview_keepsI) (simp add: blockUploaded_def modify_def dview_def t_info_def)
  show "keeps (\<lambda>t. dview t = v) (blockDownloaded k i b)"
  proof (rule keepsI)
    fix t assume t: "dview t = v"
    have "keeps (\<lambda>t. dview t = v) (foreach acts (run_paction k))" for acts by (intro keeps)
    note run = keepsD [OF this]
    have "dview (t\<lparr>t_cstats := cs, t_stats := st\<rparr>) = v" for cs st using t by (simp add: dview_def t_info_def)
    moreover have "dview (t\<lparr>t_cstats := cs, t_stats := st, t_pieces := Some p'\<rparr>) = v"
      if "t_pieces t = Some p" "setBlockComplete B bs n p j off c = Return (p', acts)" for cs st p B bs n j off c p' acts
      using t setBlockComplete_owned [OF that(2)] that(1) by (simp add: dview_def t_info_def)
    ultimately show "dview (fst (blockDownloaded k i b t)) = v"
      by (auto simp: blockDownloaded_def Let_def run split: option.split outcome.split)
  qed
qed

lemma StartDataTransfer_quiet [keeps]: "keeps (\<lambda>t. dview t = v) (StartDataTransfer k)"
proof (rule keepsI)
  fix t assume t: "dview t = v"
  have "keeps (\<lambda>t. dview t = v) (modify (\<lambda>t. t\<lparr>t_pieces := map_option (\<lambda>p. setDownloadEnabled p True) (t_pieces t)\<rparr>))"
    by (rule dview_keepsI) (simp add: modify_def dview_def t_info_def option.map_comp o_def setDownloadEnabled_def)
  then have "keeps (\<lambda>t. dview t = v) (andthen (check_haveAll k) (\<lambda>h.
                seq (if h then ret ()
                     else seq (modify (\<lambda>t. t\<lparr>t_pieces := map_option (\<lambda>p. setDownloadEnabled p True) (t_pieces t)\<rparr>))
                         (seq (range_conns (reviewInterestsOnBitfield k)) (broadcastToConns (droppedConn k) TRequestsAvailable)))
                (seq (tryAnnounceAll k) (seq (dialConns k) (ret (None :: xport_err option))))))"
    by (intro keeps)
  note m = keepsD [OF this]
  have "dview (t\<lparr>uploadEnabled := True, downloadEnabled := True\<rparr>) = v" using t by (simp add: dview_def t_info_def)
  from m [OF this] this t show "dview (fst (StartDataTransfer k t)) = v" by (simp add: StartDataTransfer_def Let_def)
qed

lemma setDataDownloadEnable_quiet [keeps]: "keeps (\<lambda>t. dview t = v) (setDataDownloadEnable k b)"
  by (rule keepsI) (simp add: setDataDownloadEnable_def mu_Lock_def pieces_setDownloadEnabled_def split: option.split)

section \<open>The invariant\<close>

text \<open>
  \<open>rs\<close> are the results of the hasher that the torrent has not received. Owned pieces and pieces with a
  positive result are verified; once the torrent reports that it is downloaded (\<open>DownloadedDataC\<close>) it
  owns every piece; before the torrent has its info there is nothing.
\<close>

definition data_ok :: "'bm tcfg \<Rightarrow> (int \<times> bool) list \<Rightarrow> 'bm torrent \<Rightarrow> bool" where
  "data_ok k rs t \<longleftrightarrow>
     (case dview t of (own, st, ic, h, info, len, dl, hi) \<Rightarrow>
        (\<forall>b. own = Some b \<longrightarrow> (h \<longrightarrow> len = TotalLength info) \<and>
          (storage_ok (tk_env k) (tk_dir k) info \<longrightarrow>
             all_genuine (tk_sha1 k) (tk_dir k) info st \<and>
             (\<forall>j \<in> bm_bits (tk_bm k) b. is_verified st j) \<and> (\<forall>j. (j, True) \<in> set rs \<longrightarrow> is_verified st j) \<and>
             (dl \<and> hi \<longrightarrow> {0..<NumPieces info} \<subseteq> bm_bits (tk_bm k) b))))"

definition fresh_ok :: "(int \<times> bool) list \<Rightarrow> 'bm torrent \<Rightarrow> bool" where
  "fresh_ok rs t \<longleftrightarrow>
     (case dview t of (own, st, ic, h, info, len, dl, hi) \<Rightarrow> ic \<or> own = None \<and> rs = [] \<and> \<not> h \<and> \<not> dl \<and> st_pieces st = [])"

definition sys_ok :: "'bm tcfg \<Rightarrow> (int \<times> bool) list \<Rightarrow> 'bm torrent \<Rightarrow> bool" where
  "sys_ok k rs t \<longleftrightarrow> data_ok k rs t \<and> fresh_ok rs t"

lemma data_ok_dview: "data_ok k rs t \<Longrightarrow> dview t' = dview t \<Longrightarrow> data_ok k rs t'"
  by (simp add: data_ok_def)

lemma sys_ok_dview: "sys_ok k rs t \<Longrightarrow> dview t' = dview t \<Longrightarrow> sys_ok k rs t'"
  by (simp add: sys_ok_def data_ok_def fresh_ok_def)

lemma quiet_sys: "(\<And>v. keeps (\<lambda>t. dview t = v) m) \<Longrightarrow> keeps (sys_ok k rs) m"
  by (rule keepsI, erule sys_ok_dview) (simp add: keeps_def)

lemma quiet_data:
  assumes "\<And>v. keeps (\<lambda>t. dview t = v) m"
  shows "keeps (\<lambda>t. data_ok k rs t \<and> snd (dview t) = w) m"
proof (rule keepsI)
  fix t assume t: "data_ok k rs t \<and> snd (dview t) = w"
  have "dview (fst (m t)) = dview t" by (rule keepsD [OF assms refl])
  with t show "data_ok k rs (fst (m t)) \<and> snd (dview (fst (m t))) = w" by (simp add: data_ok_def)
qed

lemma all_genuine_bound: "all_genuine sha1 dir info st \<Longrightarrow> storage_ok env dir info \<Longrightarrow> is_verified st j \<Longrightarrow> bm_index j"
  by (auto simp: all_genuine_def is_verified_def storage_ok_def info_ok_def bm_index_def)

lemma bits_insert:
  assumes "bitmap_lib B" "bm_index j"
  shows "bm_bits B (bm_set B b j True) = insert j (bm_bits B b)"
  using assms(2) bitmap_lib.get_set [OF assms(1)] by (auto simp: bitmap_lib.bits_def [OF assms(1)] split: if_splits)

text \<open>A result of the hasher.\<close>

lemma t_pieceHashed_data:
  assumes "bitmap_lib (tk_bm k)"
    and ver: "c \<Longrightarrow> storage_ok (tk_env k) (tk_dir k) info \<Longrightarrow> is_verified st j"
  shows "keeps (\<lambda>t. data_ok k rs t \<and> snd (dview t) = (st, ic, h, info, len, dl, hi)) (t_pieceHashed k j c)" (is "keeps ?P _")
proof (rule keepsI)
  fix t assume t: "?P t"
  have "keeps ?P (if c then onPieceDownload k j else banPeer k)" by (intro quiet_data keeps)
  note rest = keepsD [OF this]
  have q: "?P (t\<lparr>queuedForVerification := q\<rparr>)" for q using t by (simp add: data_ok_def)
  have "?P (t\<lparr>queuedForVerification := q, t_pieces := Some p', t_cstats := cs\<rparr>)"
    if p: "t_pieces t = Some p" "pieceHashed (tk_bm k) p cs0 j c = Return (p', cs)" for q p p' cs cs0
  proof -
    have v: "dview t = (Some (ownedPieces p), st, ic, h, info, len, dl, hi)" using t p(1) by (cases "dview t") (auto simp: dview_def)
    note o = pieceHashed_owned [OF p(2)]
    have "is_verified st i" if s: "storage_ok (tk_env k) (tk_dir k) info" and i: "i \<in> bm_bits (tk_bm k) (ownedPieces p')" for i
    proof (cases c)
      case True
      have "all_genuine (tk_sha1 k) (tk_dir k) info st" using t s by (simp add: data_ok_def v)
      from all_genuine_bound [OF this s ver [OF True s]] have "i = j \<or> i \<in> bm_bits (tk_bm k) (ownedPieces p)"
        using i o True bits_insert [OF assms(1)] by auto
      with t s ver [OF True s] show ?thesis by (auto simp: data_ok_def v)
    qed (use t s i o in \<open>auto simp: data_ok_def v\<close>)
    moreover have "{0..<NumPieces info} \<subseteq> bm_bits (tk_bm k) (ownedPieces p')"
      if s: "storage_ok (tk_env k) (tk_dir k) info" and d: "dl" "hi"
    proof -
      have "bm_bits (tk_bm k) (ownedPieces p) \<subseteq> bm_bits (tk_bm k) (ownedPieces p')"
        using t s o all_genuine_bound [OF _ s ver [OF _ s]] bits_insert [OF assms(1), of j] by (cases c) (auto simp: data_ok_def v)
      moreover have "{0..<NumPieces info} \<subseteq> bm_bits (tk_bm k) (ownedPieces p)" using t s d by (simp add: data_ok_def v)
      ultimately show ?thesis by (rule subset_trans [rotated])
    qed
    ultimately show ?thesis using t by (simp add: data_ok_def v)
  qed
  with q rest show "?P (fst (t_pieceHashed k j c t))"
    by (auto simp: t_pieceHashed_def Let_def split: option.split outcome.split)
qed

lemma mark_all_data:
  assumes "bitmap_lib (tk_bm k)" "\<And>j. j \<in> set js \<Longrightarrow> storage_ok (tk_env k) (tk_dir k) info \<Longrightarrow> is_verified st j"
  shows "keeps (\<lambda>t. data_ok k rs t \<and> snd (dview t) = (st, ic, h, info, len, dl, hi)) (mark_all k js)"
  using assms(2)
proof (induction js)
  case (Cons j js)
  have "keeps (\<lambda>t. data_ok k rs t \<and> snd (dview t) = (st, ic, h, info, len, dl, hi)) (modify (\<lambda>t. t\<lparr>t_pieces := map_option (swap_blocks j) (t_pieces t)\<rparr>))"
    by (rule quiet_data, rule dview_keepsI) (simp add: modify_def dview_def t_info_def option.map_comp o_def swap_blocks_def)
  moreover have "keeps (\<lambda>t. data_ok k rs t \<and> snd (dview t) = (st, ic, h, info, len, dl, hi)) (t_pieceHashed k j True)"
    by (rule t_pieceHashed_data [OF assms(1)]) (simp add: Cons.prems)
  ultimately show ?case using Cons by (auto intro!: keeps)
qed (simp add: keeps)

section \<open>The info dictionary arrives\<close>

lemma newPieces_loop_length: "newPieces_loop B info len bs is = Return ps \<Longrightarrow> length ps = length is"
  by (induction B info len bs "is" arbitrary: ps rule: newPieces_loop.induct) (auto simp: obind_Return_iff)

lemma newPieces_new: "newPieces B info len bs = Return p \<Longrightarrow> ownedPieces p = bm_zero B \<and> int (length (pcs p)) = NumPieces info"
  by (auto simp: newPieces_def obind_Return_iff NumPieces_def dest!: newPieces_loop_length)

text \<open>The storage of a torrent without pieces is opened.\<close>

lemma opened_data:
  assumes "bitmap_lib (tk_bm k)" "dview t = (Some (bm_zero (tk_bm k)), st0, ic, False, info, TotalLength info, False, hi)"
    "OpenFileStorage (tk_sha1 k) (tk_env k) (tk_dir k) info fs blks = Return (st, b)"
  shows "data_ok k [] (t\<lparr>t_storage := st, hashing := hs\<rparr>)"
proof -
  have "bm_bits (tk_bm k) (bm_zero (tk_bm k)) = {}"
    using bitmap_lib.get_zero [OF assms(1)] by (simp add: bitmap_lib.bits_def [OF assms(1)])
  moreover have "dview (t\<lparr>t_storage := st, hashing := hs\<rparr>) = (Some (bm_zero (tk_bm k)), st, ic, hs, info, TotalLength info, False, hi)"
    using assms(2) by (simp add: dview_def t_info_def)
  moreover have "all_genuine (tk_sha1 k) (tk_dir k) info st" if "storage_ok (tk_env k) (tk_dir k) info"
    by (rule file_storage.OpenFileStorage_genuine(1) [OF file_storage.intro [OF that] assms(3)])
  ultimately show ?thesis by (simp add: data_ok_def)
qed

text \<open>Reporting the torrent as downloaded, when every piece is owned.\<close>

lemma downloadedAll_dview:
  "dview (fst (downloadedAll k t)) = (map_option ownedPieces (t_pieces t), t_storage t, infoC t, hashing t, t_info t, t_length t, True, mi_Info (t_mi t) \<noteq> None)"
proof (cases "downloadedDataC t")
  case False
  have "keeps (\<lambda>t. dview t = v) (range_conns (notInterested (droppedConn k)))" for v by (intro keeps)
  from keepsD [OF this refl, of "t\<lparr>downloadedDataC := True\<rparr>"] False show ?thesis
    by (simp add: downloadedAll_def close_chan_def dview_def t_info_def)
qed (simp add: downloadedAll_def close_chan_def dview_def)

lemma downloadedAll_data:
  assumes "data_ok k rs t" "snd (dview t) = (st, ic, h, info, len, dl, hi)"
    "\<And>b. fst (dview t) = Some b \<Longrightarrow> hi \<Longrightarrow> storage_ok (tk_env k) (tk_dir k) info \<Longrightarrow> {0..<NumPieces info} \<subseteq> bm_bits (tk_bm k) b"
  shows "data_ok k rs (fst (downloadedAll k t)) \<and> snd (dview (fst (downloadedAll k t))) = (st, ic, h, info, len, True, hi)"
  using assms downloadedAll_dview [of k t] by (auto simp: data_ok_def dview_def)

text \<open>A positive result makes the torrent own the piece.\<close>

lemma t_pieceHashed_own:
  assumes "t_pieceHashed k j c t = (t', Return u)"
  shows "\<exists>b. fst (dview t) = Some b \<and> fst (dview t') = Some (if c then bm_set (tk_bm k) b j True else b)"
proof -
  have e: "pieceHashed B p cs i c \<noteq> Error x" for B :: "'a bitmap_ops" and p cs i x
    by (auto simp: pieceHashed_def verificationSuccess_def verificationFailed_def Let_def obind_def split: outcome.splits if_splits)
  obtain p p' cs where p: "t_pieces t = Some p" "pieceHashed (tk_bm k) p (t_cstats t) j c = Return (p', cs)"
    and r: "(if c then onPieceDownload k j else banPeer k)
      (t\<lparr>queuedForVerification := removeAll j (queuedForVerification t), t_pieces := Some p', t_cstats := cs\<rparr>) = (t', Return u)"
    using assms e by (auto simp: t_pieceHashed_def Let_def split: option.splits outcome.splits)
  have "keeps (\<lambda>t. dview t = v) (if c then onPieceDownload k j else banPeer k)" for v by (intro keeps)
  from keepsD [OF this refl, of "t\<lparr>queuedForVerification := removeAll j (queuedForVerification t), t_pieces := Some p', t_cstats := cs\<rparr>"] r
  have "fst (dview t') = Some (ownedPieces p')" by simp
  with p(1) pieceHashed_owned [OF p(2)] show ?thesis by (auto simp: dview_def)
qed

lemma mark_all_own:
  assumes "bitmap_lib (tk_bm k)" "storage_ok (tk_env k) (tk_dir k) info" "\<And>j. j \<in> set js \<Longrightarrow> is_verified st j"
    "data_ok k rs t" "snd (dview t) = (st, ic, h, info, len, dl, hi)" "mark_all k js t = (t', Return u)" "fst (dview t) = Some b"
  shows "\<exists>b'. fst (dview t') = Some b' \<and> bm_bits (tk_bm k) b \<union> set js \<subseteq> bm_bits (tk_bm k) b'"
  using assms(3-7)
proof (induction js arbitrary: t b)
  case (Cons j js)
  let ?P = "\<lambda>t. data_ok k rs t \<and> snd (dview t) = (st, ic, h, info, len, dl, hi)"
  let ?t = "t\<lparr>t_pieces := map_option (swap_blocks j) (t_pieces t)\<rparr>"
  have v: "dview ?t = dview t" by (simp add: dview_def t_info_def option.map_comp o_def swap_blocks_def)
  obtain t1 u1 where h: "t_pieceHashed k j True ?t = (t1, Return u1)" and r: "mark_all k js t1 = (t', Return u)"
    using Cons.prems(4) by (auto simp: andthen_def modify_def split: prod.splits outcome.splits)
  have "?P ?t" using Cons.prems v by (simp add: data_ok_def)
  have "is_verified st j" using Cons.prems by simp
  then have "keeps ?P (t_pieceHashed k j True)" by (intro t_pieceHashed_data [OF assms(1)])
  from keepsD [OF this \<open>?P ?t\<close>] h have P1: "?P t1" by simp
  have own: "fst (dview t1) = Some (bm_set (tk_bm k) b j True)" using t_pieceHashed_own [OF h] Cons.prems(5) unfolding v by simp
  have "all_genuine (tk_sha1 k) (tk_dir k) info st"
    using Cons.prems assms(2) by (cases "dview t") (auto simp: data_ok_def)
  from all_genuine_bound [OF this assms(2) \<open>is_verified st j\<close>]
  have "bm_bits (tk_bm k) (bm_set (tk_bm k) b j True) = insert j (bm_bits (tk_bm k) b)" by (rule bits_insert [OF assms(1)])
  with Cons.IH [OF _ _ _ r own] P1 Cons.prems(1) show ?case by auto
qed (simp add: ret_def)

lemma marked_data:
  assumes B: "bitmap_lib (tk_bm k)" and z: "dview t = (Some (bm_zero (tk_bm k)), st0, ic, False, info, TotalLength info, False, hi)"
    and os: "OpenFileStorage (tk_sha1 k) (tk_env k) (tk_dir k) info fs blks = Return (st, True)"
  defines "u \<equiv> fst (seq (mark_all k [0..NumPieces info - 1]) (downloadedAll k) (t\<lparr>t_storage := st\<rparr>))"
  shows "data_ok k [] u"
proof -
  let ?w = "(st, ic, False, info, TotalLength info, False, hi)" and ?t = "t\<lparr>t_storage := st\<rparr>"
  have v: "is_verified st j" if "j \<in> set [0..NumPieces info - 1]" "storage_ok (tk_env k) (tk_dir k) info" for j
    using file_storage.OpenFileStorage_genuine(2) [OF file_storage.intro [OF that(2)] os] that(1) by simp
  have "t\<lparr>t_storage := st, hashing := False\<rparr> = ?t" using z by (cases t) (simp add: dview_def)
  with opened_data [OF B z os, of False] have d: "data_ok k [] ?t" by simp
  have w: "snd (dview ?t) = ?w" and f: "fst (dview ?t) = Some (bm_zero (tk_bm k))" using z by (auto simp: dview_def t_info_def)
  obtain t1 x where m: "mark_all k [0..NumPieces info - 1] ?t = (t1, x)" by fastforce
  have K: "keeps (\<lambda>t. data_ok k [] t \<and> snd (dview t) = ?w) (mark_all k [0..NumPieces info - 1])"
    by (rule mark_all_data [OF B v])
  have P1: "data_ok k [] t1" "snd (dview t1) = ?w"
    using keepsD [OF K, of ?t] d w m by auto
  have "{0..<NumPieces info} \<subseteq> bm_bits (tk_bm k) b"
    if "x = Return y" "fst (dview t1) = Some b" "storage_ok (tk_env k) (tk_dir k) info" for y b
    using mark_all_own [OF B that(3) v d w _ f, of "[0..NumPieces info - 1]" t1 y] m that by auto
  with downloadedAll_data [OF P1] P1 show ?thesis unfolding u_def by (cases x) (simp_all add: andthen_def m)
qed

lemma start_pieces_data:
  assumes B: "bitmap_lib (tk_bm k)" and t: "t_pieces t = None" "\<not> hashing t" "st_pieces (t_storage t) = []" "\<not> downloadedDataC t"
  shows "data_ok k [] (fst (start_pieces k t))"
proof (cases "newPieces (tk_bm k) (t_info t) (TotalLength (t_info t)) (blockSize (t_info t))")
  case (Return p)
  let ?i = "t_info t"
  define u where "u = t\<lparr>t_length := TotalLength ?i, t_stats := (t_stats t)\<lparr>BytesLeft := TotalLength ?i\<rparr>,
                  blockRequestSize := blockSize ?i, t_pieces := Some p, hashQueue := []\<rparr>"
  obtain t2 r where b: "broadcastToConns (droppedConn k) THaveInfo u = (t2, r)" by fastforce
  note new = newPieces_new [OF Return]
  have "dview t2 = dview u" using keepsD [OF dv.handler_keeps(7) refl, of k THaveInfo u] b by simp
  then have z: "dview t2 = (Some (bm_zero (tk_bm k)), t_storage t, infoC t, False, ?i, TotalLength ?i, False, mi_Info (t_mi t) \<noteq> None)"
    using t(2,4) new by (simp add: u_def dview_def t_info_def)
  have "bm_bits (tk_bm k) (bm_zero (tk_bm k)) = {}"
    using bitmap_lib.get_zero [OF B] by (simp add: bitmap_lib.bits_def [OF B])
  moreover have "\<not> is_verified (t_storage t) j" for j using t(3) by (auto simp: is_verified_def)
  ultimately have t2: "data_ok k [] t2" using t(3) z by (simp add: data_ok_def all_genuine_def NumPieces_def)
  have e: "start_pieces k t = seq (broadcastToConns (droppedConn k) THaveInfo) (\<lambda>t2.
            case OpenFileStorage (tk_sha1 k) (tk_env k) (tk_dir k) ?i (st_fs (t_storage t2)) (blocks p) of
              Panic e \<Rightarrow> (t2, Panic e)
            | Error _ \<Rightarrow> (t2, Return ())
            | Return (st, True) \<Rightarrow> seq (mark_all k [0..int (length (pcs p)) - 1]) (downloadedAll k) (t2\<lparr>t_storage := st\<rparr>)
            | Return (st, False) \<Rightarrow> (t2\<lparr>t_storage := st, hashing := True\<rparr>, Return ())) u"
    using Return by (simp add: start_pieces_def u_def Let_def)
  show ?thesis
  proof (cases "OpenFileStorage (tk_sha1 k) (tk_env k) (tk_dir k) ?i (st_fs (t_storage t2)) (blocks p)")
    case os: (Return x)
    obtain st c where x: "x = (st, c)" by fastforce
    show ?thesis
      using t2 opened_data [OF B z os [unfolded x], of True] marked_data [OF B z, of _ _ st] os new
      by (cases r; cases c) (simp_all add: e b x andthen_def)
  qed (use t2 in \<open>cases r; simp add: e b andthen_def\<close>)+
qed (use t in \<open>simp_all add: start_pieces_def Let_def data_ok_def dview_def\<close>)

text \<open>A torrent gets its info once: the second time the channel \<open>InfoC\<close> is closed already.\<close>

interpretation ic: torrent_turn "\<lambda>t. infoC t = b" k for b k
  by unfold_locales (auto simp: tsame_def dialed_def removeConn_def appendConn_def)

lemma t_pieceHashed_infoC [keeps]: "keeps (\<lambda>t. infoC t = b) (t_pieceHashed k j c)"
proof (rule keepsI)
  fix t :: "'a torrent" assume t: "infoC t = b"
  note n = keepsD [OF ic.piece_keeps, of _ b] keepsD [OF ic.banPeer_keeps, of _ b]
  show "infoC (fst (t_pieceHashed k j c t)) = b"
    using t by (cases c) (simp_all add: t_pieceHashed_def Let_def n split: option.split outcome.split)
qed

lemma mark_all_infoC [keeps]: "keeps (\<lambda>t. infoC t = b) (mark_all k js)"
proof (induction js)
  case (Cons j js)
  have "keeps (\<lambda>t. infoC t = b) (modify (\<lambda>t. t\<lparr>t_pieces := map_option (swap_blocks j) (t_pieces t)\<rparr>))" by (rule keeps_modify) simp
  with Cons show ?case by (auto intro!: keeps)
qed (simp add: keeps)

lemma start_pieces_infoC [keeps]: "keeps (\<lambda>t. infoC t = b) (start_pieces k)"
proof (rule keepsI)
  fix t :: "'a torrent" assume t: "infoC t = b"
  let ?open = "\<lambda>p t2. case OpenFileStorage (tk_sha1 k) (tk_env k) (tk_dir k) (t_info t) (st_fs (t_storage t2)) (blocks p) of
              Panic e \<Rightarrow> (t2, Panic e)
            | Error _ \<Rightarrow> (t2, Return ())
            | Return (st, True) \<Rightarrow> seq (mark_all k [0..int (length (pcs p)) - 1]) (downloadedAll k) (t2\<lparr>t_storage := st\<rparr>)
            | Return (st, False) \<Rightarrow> (t2\<lparr>t_storage := st, hashing := True\<rparr>, Return ())"
  have m: "keeps (\<lambda>t. infoC t = b) (seq (mark_all k js) (downloadedAll k))" for js by (intro keeps ic.downloadedAll_keeps) simp
  have o: "keeps (\<lambda>t. infoC t = b) (?open p)" for p
    by (rule keepsI) (simp add: keepsD [OF m] split: outcome.split prod.split bool.split)
  have "keeps (\<lambda>t. infoC t = b) (seq (broadcastToConns (droppedConn k) THaveInfo) (?open p))" for p
    by (rule keeps_andthen [OF ic.handler_keeps(7) o])
  note n = keepsD [OF this]
  show "infoC (fst (start_pieces k t)) = b" using t by (simp add: start_pieces_def Let_def n split: outcome.split)
qed

lemma gotInfo_sys:
  assumes "bitmap_lib (tk_bm k)" "fresh_ok rs t" "gotInfo k t = (t', Return ())"
  shows "\<not> infoC t" "sys_ok k rs t'"
proof -
  let ?f = "\<lambda>t :: 'a torrent.
       case mi_InfoBytes (t_mi t) of
         None \<Rightarrow> ret () t
       | Some ib \<Rightarrow>
           if uts_m (t_uts t) \<noteq> [] then (t, Panic (PanicMsg ''got info''))
           else (case newUtMetadata (int (length ib)) of
                   Panic e \<Rightarrow> (t, Panic e)
                 | Error _ \<Rightarrow> (t, Return ())
                 | Return ut \<Rightarrow> (t\<lparr>t_uts := \<lparr>uts_m = [(int (length ib), ut\<lparr>infoBytes := ib\<rparr>)], correctSize = int (length ib)\<rparr>\<rparr>, Return ()))"
  obtain u u1 where u: "?f t = (u, Return ())" "start_pieces k u = (u1, Return ())" "\<not> infoC u1" "t' = u1\<lparr>infoC := True\<rparr>"
    using assms(3) unfolding gotInfo_def andthen_def close_chan_def by (fastforce split: prod.splits outcome.splits if_splits)
  have "dview (fst (?f t)) = dview t" by (auto simp: ret_def split: option.split outcome.split)
  then have v: "dview u = dview t" using u(1) by simp
  have "\<not> infoC u" using keepsD [OF start_pieces_infoC refl, of k u] u(2,3) by simp
  with v assms(2) have f: "t_pieces u = None" "\<not> hashing u" "st_pieces (t_storage u) = []" "\<not> downloadedDataC u" "rs = []" "\<not> infoC t"
    by (auto simp: fresh_ok_def dview_def)
  then show "\<not> infoC t" by simp
  have "data_ok k [] u1" using start_pieces_data [OF assms(1) f(1-4)] u(2) by simp
  then show "sys_ok k rs t'" using f(5) by (auto simp: u(4) sys_ok_def data_ok_def fresh_ok_def dview_def t_info_def)
qed

section \<open>A turn of the main loop\<close>

lemma t_close_sys: "keeps (sys_ok k rs) (t_close k')"
proof -
  have "keeps (sys_ok k rs) (\<lambda>t1. case close_chan (dropC t1) of
          Panic e \<Rightarrow> (t1, Panic e)
        | _ \<Rightarrow> if list_ex (tk_stuck k' (id_hash (t_info t1))) (conns t1) then (t1\<lparr>dropC := True\<rparr>, Panic (PanicMsg ''deadlock''))
               else (t1\<lparr>dropC := True, t_arr := [], t_len := 0, t_choker := None, t_pieces := None, t_peers := [],
                   t_isClosed := True\<rparr>, Return ()))"
    by (rule keepsI) (auto simp: close_chan_def sys_ok_def data_ok_def fresh_ok_def dview_def t_info_def)
  moreover have "keeps (sys_ok k rs) (closeDhtAnnounce k')" by (intro quiet_sys keeps)
  ultimately have "keeps (sys_ok k rs) (seq (closeDhtAnnounce k') (\<lambda>t1. case close_chan (dropC t1) of
          Panic e \<Rightarrow> (t1, Panic e)
        | _ \<Rightarrow> if list_ex (tk_stuck k' (id_hash (t_info t1))) (conns t1) then (t1\<lparr>dropC := True\<rparr>, Panic (PanicMsg ''deadlock''))
               else (t1\<lparr>dropC := True, t_arr := [], t_len := 0, t_choker := None, t_pieces := None, t_peers := [],
                   t_isClosed := True\<rparr>, Return ())))" by (rule keeps_andthen [rotated])
  from keepsD [OF this] show ?thesis by (auto intro!: keepsI simp: t_close_def)
qed

text \<open>Closing forgets the pieces, so that the info may change before it.\<close>

lemma t_close_info:
  assumes "sys_ok k rs t" "t_close k (t\<lparr>t_mi := m\<rparr>) = (t', Return ())"
  shows "sys_ok k rs t'"
proof -
  have "dview (fst (closeDhtAnnounce k (t\<lparr>t_mi := m\<rparr>))) = dview (t\<lparr>t_mi := m\<rparr>)" by (rule keepsD [OF dv.announces_keep(3) refl])
  moreover obtain u where "closeDhtAnnounce k (t\<lparr>t_mi := m\<rparr>) = (u, Return ())"
    "t' = u\<lparr>dropC := True, t_arr := [], t_len := 0, t_choker := None, t_pieces := None, t_peers := [], t_isClosed := True\<rparr>"
    using assms(2) by (auto simp: t_close_def andthen_def close_chan_def split: if_splits prod.splits outcome.splits)
  ultimately show ?thesis using assms(1) by (auto simp: sys_ok_def data_ok_def fresh_ok_def dview_def t_info_def)
qed

lemma metadataCompleted_sys:
  assumes B: "bitmap_lib (tk_bm k)" and ok: "sys_ok k rs t" and r: "metadataCompleted k sz t = (t', Return ())"
  shows "sys_ok k rs t'"
proof -
  let ?reset = "\<lambda>t1 :: 'a torrent. case uts_reset (t_uts t1) sz of
      Panic e \<Rightarrow> (t1, Panic e) | Error _ \<Rightarrow> (t1, Return ()) | Return uts \<Rightarrow> (t1\<lparr>t_uts := uts\<rparr>, Return ())"
  have "keeps (\<lambda>t. dview t = v) ?reset" for v by (rule dview_keepsI) (auto split: outcome.split)
  then have "keeps (sys_ok k rs) (andthen (rand_Intn k n) (\<lambda>j. seq (banIP k (f j))
      (seq (broadcastToConns (droppedConn k) TRequestsAvailable) ?reset)))" for n f
    by (intro quiet_sys keeps)
  note bad = keepsD [OF this ok]
  have g: "sys_ok k rs t'" if "gotInfo k (t\<lparr>t_mi := m, t_uts := u\<rparr>) = (t', Return ())" "m = (t_mi t)\<lparr>mi_Info := i\<rparr>" for m u i
  proof -
    have "fresh_ok rs (t\<lparr>t_mi := m, t_uts := u\<rparr>)" using ok by (simp add: sys_ok_def fresh_ok_def dview_def)
    from gotInfo_sys(2) [OF B this that(1)] show ?thesis .
  qed
  show ?thesis
  proof (cases "uts_metadata (t_uts t) sz")
    case (Return ut)
    show ?thesis
    proof (cases "tk_sha1 k (infoBytes ut) = id_hash (t_info t)")
      case True
      obtain v e where d: "Decode (infoBytes ut) (info_val (t_info t)) = (v, e)" by fastforce
      show ?thesis
        using r Return True d g [OF _ refl] t_close_info [OF ok, of "(t_mi t)\<lparr>mi_Info := Some (info_of (id_hash (t_info t)) v)\<rparr>" t']
        by (cases e) (simp_all add: metadataCompleted_def)
    next
      case False
      with bad [of "length (ut_contributors ut)" "\<lambda>j. ut_contributors ut ! j"] r Return show ?thesis
        by (simp add: metadataCompleted_def)
    qed
  qed (use r ok in \<open>simp_all add: metadataCompleted_def\<close>)
qed

lemma onConnMsg_sys:
  assumes "bitmap_lib (tk_bm k)" "sys_ok k rs t" "onConnMsg k i m t = (t', Return ())"
  shows "sys_ok k rs t'"
proof (cases "\<exists>sz. m = ToMetadata sz")
  case True
  then show ?thesis using metadataCompleted_sys [OF assms(1,2)] assms(3) by (auto simp: onConnMsg_def)
next
  case False
  have "keeps (\<lambda>t. dview t = v) (upd_ci i (\<lambda>c. c\<lparr>ci_peerBf := g c\<rparr>))" for v g by (intro keeps) simp
  then have "keeps (\<lambda>t. dview t = v) (onConnMsg k i m)" for v
    using False unfolding onConnMsg_def by (cases m) (auto intro!: keeps)
  from keepsD [OF quiet_sys [OF this] assms(2)] assms(3) show ?thesis by simp
qed

lemma user_sys: "keeps (sys_ok k rs) (user k' u)"
proof -
  have "keeps (sys_ok k rs) (seq (gotPeers k' ps) (ret (None :: xport_err option)))" for ps by (intro quiet_sys keeps)
  moreover have "keeps (sys_ok k rs) (seq (t_close k') (ret (None :: xport_err option)))" by (intro keeps t_close_sys)
  ultimately have "keeps (sys_ok k rs) (AddPeers k' ps)" "keeps (sys_ok k rs) (Close k')" for ps
    by (simp_all add: keeps_def AddPeers_def Close_def)
  moreover have "keeps (sys_ok k rs) (StartDataTransfer k')" "keeps (sys_ok k rs) (setDataDownloadEnable k' b)" for b
    by (intro quiet_sys keeps)+
  ultimately show ?thesis unfolding user_def by (cases u) (auto intro!: keeps)
qed

fun is_result :: "'bm tevent \<Rightarrow> bool" where
  "is_result (HashedPiece j c) = True"
| "is_result _ = False"

lemma t_turn_sys:
  assumes "bitmap_lib (tk_bm k)" "sys_ok k rs t" "t_turn k ev t = (t', Return ())" "\<not> is_result ev"
  shows "sys_ok k rs t'"
proof -
  have q: "keeps (sys_ok k rs) (ignore (establishedConnection k c))" "keeps (sys_ok k rs) (reviewUnchokedPeers k (droppedConn k))"
    "keeps (sys_ok k rs) (trackerAnnounced k r)" "keeps (sys_ok k rs) (tryAnnounceAll k)" "keeps (sys_ok k rs) (dhtAnnounced k pvs)"
    "keeps (sys_ok k rs) (seq (closeDhtAnnounce k) (tryAnnounceAll k))" "keeps (sys_ok k rs) (removeHalfOpen k p)" for c r pvs p
    by (intro quiet_sys keeps)+
  have u: "keeps (sys_ok k rs) (ignore (user k u))" for u by (intro keeps user_sys)
  have s: "sys_ok k rs (t\<lparr>canAnnounceTracker := a\<rparr>)" "sys_ok k rs (t\<lparr>canAnnounceDht := a\<rparr>)" "sys_ok k rs (t\<lparr>t_dht := d\<rparr>)" for a d
    by (rule sys_ok_dview [OF assms(2)], simp add: dview_def t_info_def)+
  have "sys_ok k rs (fst (t_turn k ev t))" if "\<forall>i m. ev \<noteq> ConnMsg i m"
    using assms(2,4) that s q [THEN keepsD] keepsD [OF u] unfolding t_turn_def by (cases ev) simp_all
  with onConnMsg_sys [OF assms(1,2)] assms(3) show ?thesis
    by (cases ev) (auto simp: t_turn_def split: if_splits)
qed

lemma haveAll_bits:
  assumes "bitmap_lib B" "pieces_haveAll B n p" "bm_bits B (ownedPieces p) \<subseteq> {0..<n}"
  shows "{0..<n} \<subseteq> bm_bits B (ownedPieces p)"
proof -
  have "int (length (bm_iter B (ownedPieces p))) = n"
    using assms(2) bitmap_lib.len_iter [OF assms(1)] by (simp add: pieces_haveAll_def)
  then have "card (bm_bits B (ownedPieces p)) = card {0..<n}"
    using distinct_card [OF bitmap_lib.distinct_iter [OF assms(1)]] bitmap_lib.set_iter [OF assms(1)] by simp
  with card_subset_eq [OF _ assms(3)] show ?thesis by simp
qed

text \<open>The torrent receives the oldest result of the hasher.\<close>

lemma hashed_sys:
  assumes "bitmap_lib (tk_bm k)" "sys_ok k ((j, c) # rs) t" "t_turn k (HashedPiece j c) t = (t', Return ())"
  shows "sys_ok k rs t'"
proof -
  obtain own st ic h info len dl hi where v: "dview t = (own, st, ic, h, info, len, dl, hi)" by (cases "dview t") auto
  let ?P = "\<lambda>t. data_ok k rs t \<and> snd (dview t) = (st, ic, h, info, len, dl, hi)"
  have "t_turn k (HashedPiece j c) t \<noteq> (t', Return ())" if "t_pieces t = None"
    using that by (simp add: t_turn_def t_pieceHashed_def Let_def andthen_def)
  then have "own \<noteq> None" using assms(3) v by (auto simp: dview_def)
  then have ver: "c \<Longrightarrow> storage_ok (tk_env k) (tk_dir k) info \<Longrightarrow> is_verified st j" and "ic"
    using assms(2) v by (auto simp: sys_ok_def data_ok_def fresh_ok_def)
  have "?P t" using assms(2) v by (auto simp: sys_ok_def data_ok_def)
  have "keeps ?P (t_pieceHashed k j c)" by (rule t_pieceHashed_data [OF assms(1) ver])
  note hashed = keepsD [OF this \<open>?P t\<close>]
  obtain t1 u1 where h: "t_pieceHashed k j c t = (t1, Return u1)"
    using assms(3) by (auto simp: t_turn_def andthen_def split: if_splits prod.splits outcome.splits)
  have P1: "data_ok k rs t1" "snd (dview t1) = (st, ic, h, info, len, dl, hi)" using hashed h by auto
  obtain p where p: "t_pieces t1 = Some p" and
    r: "(if pieces_haveAll (tk_bm k) (t_numPieces t1) p
         then seq (sendAnnounceToTracker k EvCompleted) (downloadedAll k) t1 else ret () t1) = (t', Return ())"
    using assms(3) h by (auto simp: t_turn_def andthen_def split: if_splits option.splits)
  have i: "t_info t1 = info" using P1(2) by (simp add: dview_def)
  have "data_ok k rs t' \<and> (\<exists>dl'. snd (dview t') = (st, ic, h, info, len, dl', hi))"
  proof (cases "pieces_haveAll (tk_bm k) (t_numPieces t1) p")
    case True
    obtain t2 u2 where a: "sendAnnounceToTracker k EvCompleted t1 = (t2, Return u2)" and d: "downloadedAll k t2 = (t', Return ())"
      using r True by (auto simp: andthen_def split: prod.splits outcome.splits)
    have v2: "dview t2 = dview t1" using keepsD [OF dv.announces_keep(1) refl, of k EvCompleted t1] a by simp
    have "{0..<NumPieces info} \<subseteq> bm_bits (tk_bm k) (ownedPieces p)" if "hi" "storage_ok (tk_env k) (tk_dir k) info"
    proof (rule haveAll_bits [OF assms(1)])
      show "pieces_haveAll (tk_bm k) (NumPieces info) p" using True that(1) P1(2) by (auto simp: t_numPieces_def dview_def t_info_def)
      have "all_genuine (tk_sha1 k) (tk_dir k) info st" "\<forall>j \<in> bm_bits (tk_bm k) (ownedPieces p). is_verified st j"
        using P1 p that(2) by (auto simp: data_ok_def dview_def)
      then show "bm_bits (tk_bm k) (ownedPieces p) \<subseteq> {0..<NumPieces info}"
        by (auto simp: all_genuine_def is_verified_def)
    qed
    moreover have "data_ok k rs t2" "snd (dview t2) = (st, ic, h, info, len, dl, hi)" "fst (dview t2) = Some (ownedPieces p)"
      using P1 v2 p by (simp_all add: data_ok_def) (simp add: dview_def)
    ultimately show ?thesis using downloadedAll_data [of k rs t2 st ic h info len dl hi] d by auto
  qed (use r P1 in \<open>auto simp: ret_def\<close>)
  with \<open>ic\<close> show ?thesis by (cases "dview t'") (auto simp: sys_ok_def fresh_ok_def)
qed

text \<open>The hasher takes the next piece.\<close>

lemma hash_next_sys:
  assumes "sys_ok k rs t" "hash_next k t = Return (t', j, c)"
  shows "sys_ok k (rs @ [(j, c)]) t'"
proof -
  obtain own st ic h info len dl hi where v: "dview t = (own, st, ic, h, info, len, dl, hi)" by (cases "dview t") auto
  obtain l st' h' where l: "pieceLen info len j = Return l" and hp: "HashPiece (tk_sha1 k) (tk_env k) (tk_dir k) info st j l = Return (st', c)"
    and h: "h" and v': "dview t' = (own, st', ic, h', info, len, dl, hi)"
    using assms(2) v by (auto simp: hash_next_def obind_Return_iff Let_def dview_def t_info_def split: list.splits if_splits)
  have ic: "ic" using assms(1) v h by (auto simp: sys_ok_def fresh_ok_def)
  have "all_genuine (tk_sha1 k) (tk_dir k) info st' \<and> (\<forall>i. is_verified st i \<longrightarrow> is_verified st' i) \<and> (c \<longrightarrow> is_verified st' j)"
    if o: "own \<noteq> None" and s: "storage_ok (tk_env k) (tk_dir k) info"
  proof -
    have g: "all_genuine (tk_sha1 k) (tk_dir k) info st" and n: "len = TotalLength info"
      using assms(1) v o s h by (auto simp: sys_ok_def data_ok_def)
    have p: "PieceLength info j = Return l" using l n by (simp add: PieceLength_def pieceLen_def)
    have hp': "hashPiece (tk_sha1 k) (tk_env k) (tk_dir k) info st j l = Return (st', c)" and nv: "\<not> is_verified st j"
      using hp by (auto simp: HashPiece_def is_verified_def split: if_splits)
    have "int (length (st_pieces st)) \<le> NumPieces info" using g by (simp add: all_genuine_def)
    note e = file_storage.hashPiece_effect [OF file_storage.intro [OF s] hp' p this]
    have "is_verified st' i" if "is_verified st i" for i using e(4) [of i] nv that by (cases "i = j") auto
    with file_storage.hashPiece_genuine [OF file_storage.intro [OF s] hp' p g] e(3) show ?thesis by blast
  qed
  with assms(1) v v' h ic show ?thesis by (auto simp: sys_ok_def data_ok_def fresh_ok_def)
qed

section \<open>The torrent, the hasher and the connections\<close>

text \<open>The bookkeeping a connection does itself, on the pieces it shares with the torrent.\<close>

inductive book_step :: "'bm tcfg \<Rightarrow> int \<Rightarrow> 'bm pieces \<Rightarrow> 'bm pieces \<Rightarrow> bool" for k bs where
  fill: "fillRequests (tk_bm k) srt coin bs p peerPieces reqs = Return (p', reqs', n) \<Longrightarrow> book_step k bs p p'"
| discard: "discardRequests (tk_bm k) p reqs = Return p' \<Longrightarrow> book_step k bs p p'"
| have_msg: "onHave p i = Return p' \<Longrightarrow> book_step k bs p p'"
| bitfield: "onBitfield (tk_bm k) p bm = Return p' \<Longrightarrow> book_step k bs p p'"

lemma book_step_owned: "book_step k bs p p' \<Longrightarrow> ownedPieces p' = ownedPieces p"
  by (induction rule: book_step.induct) (auto dest: fillRequests_owned discardRequests_owned have_owned)

text \<open>
  \<open>sys_step k A t rs t' rs'\<close>: a step from the torrent \<open>t\<close>, with the results \<open>rs\<close> on their way from the hasher;
  of the events of the main loop only those that \<open>A\<close> allows. Every result the torrent receives is one of
  the hasher's, in order. A connection writes a block that lies in one piece, which is what requests are
  made of (\<open>blocks_tile_piece\<close>), and pieces of the info dictionary.
\<close>

inductive sys_step :: "'bm tcfg \<Rightarrow> ('bm tevent \<Rightarrow> bool) \<Rightarrow> 'bm torrent \<Rightarrow> (int \<times> bool) list \<Rightarrow> 'bm torrent \<Rightarrow> (int \<times> bool) list \<Rightarrow> bool"
  for k A where
  turn: "\<not> is_result ev \<Longrightarrow> A ev \<Longrightarrow> t_turn k ev t = (t', Return ()) \<Longrightarrow> sys_step k A t rs t' rs"
| result: "t_turn k (HashedPiece j c) t = (t', Return ()) \<Longrightarrow> sys_step k A t ((j, c) # rs) t' rs"
| hasher: "hash_next k t = Return (t', j, c) \<Longrightarrow> sys_step k A t rs t' (rs @ [(j, c)])"
| hasher_ends: "sys_step k A t rs (hash_stop t) rs"
| block_written: "in_piece (t_info t) d off \<Longrightarrow>
    WriteBlock (tk_env k) (tk_dir k) (t_info t) (t_storage t) d off = Return (st, n, e) \<Longrightarrow> sys_step k A t rs (t\<lparr>t_storage := st\<rparr>) rs"
| booked: "t_pieces t = Some p \<Longrightarrow> book_step k (blockRequestSize t) p p' \<Longrightarrow> sys_step k A t rs (t\<lparr>t_pieces := Some p'\<rparr>) rs"
| metadata: "sys_step k A t rs (t\<lparr>t_uts := u\<rparr>) rs"
| client_ban: "sys_step k A t rs (t\<lparr>blackList := blackList t @ [ip]\<rparr>) rs"
| environment: "sys_step k A t rs (t\<lparr>t_now := n, t_picks := ps, t_dhtAnswers := ds\<rparr>) rs"

inductive sys_reach :: "'bm tcfg \<Rightarrow> 'bm torrent \<Rightarrow> 'bm torrent \<Rightarrow> (int \<times> bool) list \<Rightarrow> bool" for k t0 where
  start: "sys_reach k t0 t0 []"
| step: "sys_reach k t0 t rs \<Longrightarrow> sys_step k (\<lambda>_. True) t rs t' rs' \<Longrightarrow> sys_reach k t0 t' rs'"

fun is_user :: "'bm tevent \<Rightarrow> bool" where
  "is_user (User u) = True"
| "is_user _ = False"

lemma sys_step_mono: "sys_step k A t rs t' rs' \<Longrightarrow> sys_step k (\<lambda>_. True) t rs t' rs'"
  by (induction rule: sys_step.induct) (auto intro: sys_step.intros)

lemma block_written_sys:
  assumes "sys_ok k rs t" "in_piece (t_info t) d off"
    "WriteBlock (tk_env k) (tk_dir k) (t_info t) (t_storage t) d off = Return (st, n, e)"
  shows "sys_ok k rs (t\<lparr>t_storage := st\<rparr>)"
proof -
  have "all_genuine (tk_sha1 k) (tk_dir k) (t_info t) st \<and> is_verified st = is_verified (t_storage t)"
    if s: "storage_ok (tk_env k) (tk_dir k) (t_info t)" "all_genuine (tk_sha1 k) (tk_dir k) (t_info t) (t_storage t)"
    by (rule file_storage.WriteBlock_genuine [OF file_storage.intro [OF s(1)] assms(3,2) s(2)])
  moreover have "WriteBlock env dir i s d off \<noteq> Return (st, n, e)" if "st_pieces s = []" for env dir i s
    using that by (auto simp: WriteBlock_def piece_at_def obind_Return_iff)
  then have "st_pieces (t_storage t) \<noteq> []" using assms(3) by blast
  ultimately show ?thesis
    using assms(1) by (auto simp: sys_ok_def data_ok_def fresh_ok_def dview_def t_info_def)
qed

lemma sys_step_ok:
  assumes "bitmap_lib (tk_bm k)"
  shows "sys_step k A t rs t' rs' \<Longrightarrow> sys_ok k rs t \<Longrightarrow> sys_ok k rs' t'"
proof (induction rule: sys_step.induct)
  case (hasher_ends t rs)
  then show ?case by (auto simp: hash_stop_def sys_ok_def data_ok_def fresh_ok_def dview_def t_info_def)
next
  case (booked t p p' rs)
  then have "dview (t\<lparr>t_pieces := Some p'\<rparr>) = dview t" using book_step_owned [OF booked.hyps(2)] by (simp add: dview_def t_info_def)
  with booked show ?case using sys_ok_dview by blast
next
  case environment
  show ?case by (rule sys_ok_dview [OF environment.prems]) (simp add: dview_def t_info_def)
next
  case client_ban
  show ?case by (rule sys_ok_dview [OF client_ban.prems]) (simp add: dview_def t_info_def)
next
  case metadata
  show ?case by (rule sys_ok_dview [OF metadata.prems]) simp
qed (use assms in \<open>blast intro: t_turn_sys hashed_sys hash_next_sys block_written_sys\<close>)+

lemma sys_reach_ok:
  assumes "bitmap_lib (tk_bm k)"
  shows "sys_reach k t0 t rs \<Longrightarrow> sys_ok k [] t0 \<Longrightarrow> sys_ok k rs t"
  by (induction rule: sys_reach.induct) (auto intro: sys_step_ok [OF assms])

lemma started_sys:
  assumes "bitmap_lib (tk_bm k)" "st_pieces st = []" "startTorrent k mi black st = (t, Return ())"
  shows "sys_ok k [] t"
proof -
  let ?n = "newTorrent k mi black st"
  have n: "sys_ok k [] ?n" using assms(2) by (simp add: sys_ok_def data_ok_def fresh_ok_def dview_def newTorrent_def)
  obtain u where g: "(if mi_InfoBytes mi \<noteq> None then gotInfo k else ret ()) ?n = (u, Return ())" and a: "tryAnnounceAll k u = (t, Return ())"
    using assms(3) unfolding startTorrent_def andthen_def by (auto split: prod.splits outcome.splits if_splits)
  have "sys_ok k [] u" using g n gotInfo_sys(2) [OF assms(1), of "[]" ?n u] by (auto simp: sys_ok_def ret_def split: if_splits)
  moreover have "keeps (sys_ok k []) (tryAnnounceAll k)" by (intro quiet_sys keeps)
  ultimately show ?thesis using keepsD a by (metis fst_conv)
qed

text \<open>
  C3. The client only claims pieces it has verified. Whatever the main loop, the hasher and the
  connections do, in whatever order, and also when the data or the info dictionary was there from the
  start: a piece in the set of owned pieces, which is what bit fields and have messages tell the
  peers, is marked verified in the storage, and the bytes stored for it have the length and the SHA-1
  sum of the torrent file.
\<close>

theorem owned_pieces_genuine:
  assumes "bitmap_lib (tk_bm k)" "st_pieces st = []" "startTorrent k mi black st = (t0, Return ())" "sys_reach k t0 t rs"
    "storage_ok (tk_env k) (tk_dir k) (t_info t)" "t_pieces t = Some p" "j \<in> bm_bits (tk_bm k) (ownedPieces p)"
  shows "is_verified (t_storage t) j \<and> genuine (tk_sha1 k) (tk_dir k) (t_info t) (st_fs (t_storage t)) j"
proof -
  have "sys_ok k rs t" by (rule sys_reach_ok [OF assms(1,4) started_sys [OF assms(1-3)]])
  then have "all_genuine (tk_sha1 k) (tk_dir k) (t_info t) (t_storage t)" "is_verified (t_storage t) j"
    using assms(5-7) by (auto simp: sys_ok_def data_ok_def dview_def)
  then show ?thesis by (auto simp: all_genuine_def)
qed

text \<open>
  C5. A finished download is complete and correct. When the torrent has closed \<open>DownloadedDataC\<close>, which
  is how it tells the user of the library that the download has finished, and has not been closed
  itself, every piece of the torrent file is verified, and the files hold for each of them bytes with
  the length and the SHA-1 sum of the torrent file.
\<close>

theorem finished_download_genuine:
  assumes "bitmap_lib (tk_bm k)" "st_pieces st = []" "startTorrent k mi black st = (t0, Return ())" "sys_reach k t0 t rs"
    "storage_ok (tk_env k) (tk_dir k) (t_info t)" "mi_Info (t_mi t) \<noteq> None" "t_pieces t \<noteq> None" "downloadedDataC t"
    "0 \<le> j" "j < NumPieces (t_info t)"
  shows "is_verified (t_storage t) j \<and> genuine (tk_sha1 k) (tk_dir k) (t_info t) (st_fs (t_storage t)) j"
proof -
  have "sys_ok k rs t" by (rule sys_reach_ok [OF assms(1,4) started_sys [OF assms(1-3)]])
  moreover obtain p where "t_pieces t = Some p" using assms(7) by blast
  ultimately have "all_genuine (tk_sha1 k) (tk_dir k) (t_info t) (t_storage t)" "is_verified (t_storage t) j"
    using assms(5,6,8-10) by (auto simp: sys_ok_def data_ok_def dview_def subset_iff)
  then show ?thesis by (auto simp: all_genuine_def)
qed

text \<open>\<open>Piece.Data\<close> of a verified piece gives the bytes whose hash is in the torrent file, and of another piece an error.\<close>

lemma Data_genuine:
  fixes k :: "'bm cfg" and p :: "'bm piece"
  defines "i \<equiv> pc_index p" and "info \<equiv> k_info k"
  assumes "storage_ok (k_env k) (k_dir k) info" "all_genuine sha1 (k_dir k) info st" "is_verified st i"
    "PieceLength info i = Return (piece_length (k_blockSize k) p)" "0 < piece_length (k_blockSize k) p"
  shows "\<exists>d. Data k st p = Return (d, False) \<and> PieceHash info i = Return (sha1 d)"
proof -
  have fs: "file_storage (k_env k) (k_dir k) info" by (rule file_storage.intro [OF assms(3)])
  have g: "genuine sha1 (k_dir k) info (st_fs st) i" using assms(4,5) by (simp add: all_genuine_def)
  obtain d where d: "piece_length (k_blockSize k) p = int (length d)" "PieceHash info i = Return (sha1 d)"
    "\<forall>x < length d. byte_at (fileInfoName (k_dir k) info) (st_fs st) (FilesInfo info) (i * id_pieceLen info + int x) = Some (d ! x)"
    using g assms(6) by (auto simp: genuine_def)
  have i: "0 \<le> i" "i < NumPieces info" using assms(4,5) by (auto simp: is_verified_def all_genuine_def)
  note o = file_storage.piece_range [OF fs i]
  have "0 < id_pieceLen info" by (rule file_storage.plen [OF fs])
  then have "i * id_pieceLen info div id_pieceLen info = i" by simp
  moreover have "0 < length d" using assms(7) d(1) by simp
  ultimately have "ReadBlock (k_env k) (k_dir k) info st (length d) (i * id_pieceLen info) = Return (d, None)"
    using file_storage.ReadBlock_iff [OF fs o(2), of "length d" st d] d(3) assms(5) by simp
  with d o show ?thesis by (simp add: Data_def t_readBlock_def pieceOff_def i_def info_def)
qed

text \<open>A torrent of one piece: its only block is written, reported, hashed, and the result received.\<close>

definition ex_one :: info_dict where
  "ex_one = \<lparr>id_files = None, id_len = 5, id_md5 = None, id_name = [97], id_pieceLen = 8, id_pieces = replicate 20 0, id_private = 0, id_hash = replicate 20 7\<rparr>"

definition ex_s0 :: "int list torrent" where
  "ex_s0 = fst (startTorrent ex_tcfg (meta_zero\<lparr>mi_Info := Some ex_one, mi_InfoBytes := Some [100, 101]\<rparr>) [] \<lparr>st_fs = Map.empty, st_pieces = []\<rparr>)"

definition ex_written :: "storage \<times> nat \<times> ioerr option" where
  "ex_written = (case WriteBlock ex_env [47, 100] ex_one (t_storage ex_s0) [1, 2, 3, 4, 5] 0 of Return x \<Rightarrow> x | _ \<Rightarrow> (t_storage ex_s0, 0, None))"

definition ex_s2 :: "int list torrent" where
  "ex_s2 = fst (t_turn ex_tcfg (ConnMsg 0 (ToDownloaded \<lparr>bl_pc = 0, bl_off = 0, bl_len = 5\<rparr>)) (ex_s0\<lparr>t_storage := fst ex_written\<rparr>))"

definition ex_s3 :: "int list torrent" where
  "ex_s3 = (case hash_next ex_tcfg ex_s2 of Return (t, _, _) \<Rightarrow> t | _ \<Rightarrow> ex_s2)"

definition ex_s4 :: "int list torrent" where
  "ex_s4 = fst (t_turn ex_tcfg (HashedPiece 0 True) ex_s3)"

lemma ex_steps:
  "sys_step ex_tcfg (\<lambda>ev. \<not> is_user ev) ex_s0 [] (ex_s0\<lparr>t_storage := fst ex_written\<rparr>) []"
  "sys_step ex_tcfg (\<lambda>ev. \<not> is_user ev) (ex_s0\<lparr>t_storage := fst ex_written\<rparr>) [] ex_s2 []"
  "sys_step ex_tcfg (\<lambda>ev. \<not> is_user ev) ex_s2 [] ex_s3 [(0, True)]"
  "sys_step ex_tcfg (\<lambda>ev. \<not> is_user ev) ex_s3 [(0, True)] ex_s4 []"
proof -
  let ?A = "\<lambda>ev :: int list tevent. \<not> is_user ev"
  have i: "t_info ex_s0 = ex_one" by code_simp
  have "in_piece ex_one [1, 2, 3, 4, 5] 0" "map_outcome id (\<lambda>_. ()) (WriteBlock ex_env [47, 100] ex_one (t_storage ex_s0) [1, 2, 3, 4, 5] 0) = Return ()"
    by code_simp+
  then have w: "in_piece ex_one [1, 2, 3, 4, 5] 0" "WriteBlock ex_env [47, 100] ex_one (t_storage ex_s0) [1, 2, 3, 4, 5] 0 = Return ex_written"
    by (auto simp: ex_written_def split: outcome.splits)
  show "sys_step ex_tcfg ?A ex_s0 [] (ex_s0\<lparr>t_storage := fst ex_written\<rparr>) []"
    by (rule sys_step.block_written [where d = "[1, 2, 3, 4, 5]" and off = 0
        and n = "fst (snd ex_written)" and e = "snd (snd ex_written)"])
      (simp_all add: i w ex_tcfg_def)
  have "snd (t_turn ex_tcfg (ConnMsg 0 (ToDownloaded \<lparr>bl_pc = 0, bl_off = 0, bl_len = 5\<rparr>)) (ex_s0\<lparr>t_storage := fst ex_written\<rparr>)) = Return ()"
    by code_simp
  then show "sys_step ex_tcfg ?A (ex_s0\<lparr>t_storage := fst ex_written\<rparr>) [] ex_s2 []"
    by (intro sys_step.turn [where ev = "ConnMsg 0 (ToDownloaded \<lparr>bl_pc = 0, bl_off = 0, bl_len = 5\<rparr>)"]) (simp_all add: ex_s2_def prod_eq_iff)
  have "map_outcome id snd (hash_next ex_tcfg ex_s2) = Return (0, True)" by code_simp
  then have "hash_next ex_tcfg ex_s2 = Return (ex_s3, 0, True)" by (auto simp: ex_s3_def split: outcome.splits)
  from sys_step.hasher [OF this, of ?A "[]"] show "sys_step ex_tcfg ?A ex_s2 [] ex_s3 [(0, True)]" by simp
  have "snd (t_turn ex_tcfg (HashedPiece 0 True) ex_s3) = Return ()" by code_simp
  then show "sys_step ex_tcfg ?A ex_s3 [(0, True)] ex_s4 []" by (intro sys_step.result) (simp add: ex_s4_def prod_eq_iff)
qed

lemma ex_s4_reach: "sys_reach ex_tcfg ex_s0 ex_s4 []"
  by (rule sys_reach.step [OF sys_reach.step [OF sys_reach.step [OF sys_reach.step [OF sys_reach.start]]]])
    (rule sys_step_mono [OF ex_steps(1)] sys_step_mono [OF ex_steps(2)] sys_step_mono [OF ex_steps(3)] sys_step_mono [OF ex_steps(4)])+

lemma ex_s0_started:
  "startTorrent ex_tcfg (meta_zero\<lparr>mi_Info := Some ex_one, mi_InfoBytes := Some [100, 101]\<rparr>) [] \<lparr>st_fs = Map.empty, st_pieces = []\<rparr> = (ex_s0, Return ())"
proof -
  have "snd (startTorrent ex_tcfg (meta_zero\<lparr>mi_Info := Some ex_one, mi_InfoBytes := Some [100, 101]\<rparr>) [] \<lparr>st_fs = Map.empty, st_pieces = []\<rparr>) = Return ()"
    by code_simp
  then show ?thesis by (simp add: ex_s0_def prod_eq_iff)
qed

lemma ex_tcfg_fields:
  "tk_bm ex_tcfg = list_bitmap" "tk_env ex_tcfg = ex_env" "tk_dir ex_tcfg = [47, 100]" "tk_sha1 ex_tcfg = (\<lambda>_. replicate 20 0)"
  by (simp_all add: ex_tcfg_def)

lemma ex_one_ok: "storage_ok ex_env [47, 100] ex_one"
  by (simp add: storage_ok_def env_ok_def ex_env_def) code_simp

lemma ex_s4_facts:
  "t_info ex_s4 = ex_one" "t_pieces ex_s4 \<noteq> None" "0 \<in> bm_bits list_bitmap (ownedPieces (the (t_pieces ex_s4)))"
  "downloadedDataC ex_s4" "mi_Info (t_mi ex_s4) \<noteq> None"
  by code_simp+

theorem owned_pieces_genuine_witness:
  "0 \<in> bm_bits list_bitmap (ownedPieces (the (t_pieces ex_s4))) \<and> is_verified (t_storage ex_s4) 0 \<and>
   genuine (\<lambda>_. replicate 20 0) [47, 100] ex_one (st_fs (t_storage ex_s4)) 0"
proof -
  from ex_s4_facts(2) obtain p where p: "t_pieces ex_s4 = Some p" by blast
  show ?thesis
    using owned_pieces_genuine [OF _ _ ex_s0_started ex_s4_reach, unfolded ex_tcfg_fields ex_s4_facts(1), OF list_bm.bitmap_lib_axioms _ ex_one_ok p]
      ex_s4_facts(3) p by simp
qed

theorem finished_download_genuine_witness:
  "downloadedDataC ex_s4 \<and> NumPieces ex_one = 1 \<and> is_verified (t_storage ex_s4) 0 \<and>
   genuine (\<lambda>_. replicate 20 0) [47, 100] ex_one (st_fs (t_storage ex_s4)) 0"
proof -
  have n: "NumPieces ex_one = 1" by code_simp
  show ?thesis
    using finished_download_genuine [OF _ _ ex_s0_started ex_s4_reach, unfolded ex_tcfg_fields ex_s4_facts(1),
        OF list_bm.bitmap_lib_axioms _ ex_one_ok ex_s4_facts(5,2,4)] n ex_s4_facts(4)
    by simp
qed

end
