(* ===== verification/Tracker_Http.thy ===== *)
theory Tracker_Http
  imports Tracker Metainfo "HOL-Library.AList"
begin

text \<open>
  The HTTP tracker client (\<open>tracker/http.go\<close>). \<open>net/url\<close>'s parser, the GET request, \<open>net.ParseIP\<close> and
  the resolver are parameters, the fields of \<open>http_env\<close>; a failing request has no body. The query
  string is modelled with \<open>url.Values\<close>, and \<open>ParseQuery\<close> is how a tracker reads it.
\<close>

definition asc :: "string \<Rightarrow> bytes" where
  "asc s = map of_char s"

section \<open>Query strings\<close>

text \<open>\<open>url.QueryEscape\<close>.\<close>

definition unreserved :: "byte \<Rightarrow> bool" where
  "unreserved c \<longleftrightarrow> 97 \<le> c \<and> c \<le> 122 \<or> 65 \<le> c \<and> c \<le> 90 \<or> 48 \<le> c \<and> c \<le> 57 \<or> c \<in> set (asc ''-_.~'')"

definition upperhex :: "byte \<Rightarrow> byte" where
  "upperhex d = (if d < 10 then 48 + d else 55 + d)"

definition escape_byte :: "byte \<Rightarrow> bytes" where
  "escape_byte c = (if unreserved c then [c] else if c = 32 then [43] else [37, upperhex (c div 16), upperhex (c mod 16)])"

definition QueryEscape :: "bytes \<Rightarrow> bytes" where
  "QueryEscape s = concat (map escape_byte s)"

type_synonym Values = "(bytes \<times> bytes) list"

definition Values_Set :: "bytes \<Rightarrow> bytes \<Rightarrow> Values \<Rightarrow> Values" where
  "Values_Set key v vs = AList.update key v vs"

fun join :: "byte \<Rightarrow> bytes list \<Rightarrow> bytes" where
  "join c [] = []"
| "join c [x] = x"
| "join c (x # xs) = x @ c # join c xs"

text \<open>\<open>Values.Encode\<close>: in the order of the keys.\<close>

definition Values_Encode :: "Values \<Rightarrow> bytes" where
  "Values_Encode vs = join 38 (map (\<lambda>(key, v). QueryEscape key @ 61 # QueryEscape v) (sort_by key_less vs))"

text \<open>\<open>url.ParseQuery\<close>: how the other side reads a query string.\<close>

fun QueryUnescape :: "bytes \<Rightarrow> bytes option" where
  "QueryUnescape [] = Some []"
| "QueryUnescape (c # r) =
     (if c = 37
      then (case r of
              a # b # r' \<Rightarrow>
                (case (hex_digit a, hex_digit b) of
                   (Some x, Some y) \<Rightarrow> map_option ((#) (x * 16 + y)) (QueryUnescape r')
                 | _ \<Rightarrow> None)
            | _ \<Rightarrow> None)
      else map_option ((#) (if c = 43 then 32 else c)) (QueryUnescape r))"

fun split :: "byte \<Rightarrow> bytes \<Rightarrow> bytes list" where
  "split c [] = [[]]"
| "split c (x # xs) = (if x = c then [] # split c xs else (x # hd (split c xs)) # tl (split c xs))"

definition parse_pair :: "bytes \<Rightarrow> (bytes \<times> bytes) option" where
  "parse_pair f =
     (case (QueryUnescape (takeWhile (\<lambda>b. b \<noteq> 61) f), QueryUnescape (drop 1 (dropWhile (\<lambda>b. b \<noteq> 61) f))) of
        (Some key, Some v) \<Rightarrow> Some (key, v)
      | _ \<Rightarrow> None)"

definition ParseQuery :: "bytes \<Rightarrow> Values option" where
  "ParseQuery q = those (map parse_pair (filter (\<lambda>f. f \<noteq> []) (split 38 q)))"

section \<open>Requests\<close>

definition events :: "int32 \<Rightarrow> bytes" where
  "events e = (if e = 1 then asc ''completed'' else if e = 2 then asc ''started'' else if e = 3 then asc ''stopped'' else [])"

definition Itoa :: "int \<Rightarrow> bytes" where
  "Itoa i = FormatInt i"

definition queryValues :: "AnnounceReq \<Rightarrow> bytes" where
  "queryValues r =
     (let v = Values_Set (asc ''info_hash'') (ar_InfoHash r) [];
          v = Values_Set (asc ''peer_id'') (ar_PeerID r) v;
          v = Values_Set (asc ''port'') (Itoa (sint (ar_Port r))) v;
          v = Values_Set (asc ''uploaded'') (Itoa (sint (ar_Uploaded r))) v;
          v = Values_Set (asc ''downloaded'') (Itoa (sint (ar_Downloaded r))) v;
          v = Values_Set (asc ''left'') (Itoa (sint (ar_Left r))) v;
          v = Values_Set (asc ''compact'') (asc ''1'') v;
          v = Values_Set (asc ''no_peer_id'') (asc ''1'') v;
          v = (if ar_Event r \<noteq> 0 then Values_Set (asc ''event'') (events (ar_Event r)) v else v);
          v = (if ar_Numwant r \<noteq> - 1 then Values_Set (asc ''numwant'') (Itoa (sint (ar_Numwant r))) v else v);
          v = (if ar_Key r \<noteq> 0 then Values_Set (asc ''key'') (Itoa (sint (ar_Key r))) v else v)
      in Values_Encode v)"

section \<open>Responses\<close>

definition http_peer_fields :: "field_tag list" where
  "http_peer_fields = [(asc ''ID'', asc ''peer id'', []), (asc ''IP'', asc ''ip'', []), (asc ''Port'', asc ''port'', [])]"

definition http_peer_type :: gotype where
  "http_peer_type = TStruct (zip http_peer_fields [TBytes, TBytes, TUint 16])"

definition http_fields :: "field_tag list" where
  "http_fields =
     [(asc ''Fail'', asc ''failure reason'', omit), (asc ''Warning'', asc ''warning message'', omit),
      (asc ''Interval'', asc ''interval'', []), (asc ''MinInterval'', asc ''min interval'', omit),
      (asc ''TrackerID'', asc ''tracker id'', omit), (asc ''Complete'', asc ''complete'', omit),
      (asc ''Incomplete'', asc ''incomplete'', omit), (asc ''Peers'', asc ''peers'', omit),
      (asc ''CheapPeers'', asc ''peers'', omit)]"

definition http_type :: gotype where
  "http_type = TStruct (zip http_fields
     [TString, TString, TInt 32, TInt 32, TBytes, TInt 32, TInt 32, TSlice http_peer_type, TBytes])"

record httpAnnounceResponse =
  hr_Fail :: bytes
  hr_Warning :: bytes
  hr_Interval :: int32
  hr_MinInterval :: int32
  hr_TrackerID :: "bytes option"
  hr_Complete :: int32
  hr_Incomplete :: int32
  hr_Peers :: "tpeer list option"
  hr_CheapPeers :: "bytes option"

fun uint_of :: "goval \<Rightarrow> int" where
  "uint_of (VUint _ i) = i"
| "uint_of _ = 0"

definition http_peer_of :: "goval \<Rightarrow> tpeer" where
  "http_peer_of v =
     (let f = (\<lambda>n. field_vals v ! n)
      in \<lparr>pr_ID = bytes_of (f 0), pr_IP = (case bytes_of (f 1) of None \<Rightarrow> [] | Some b \<Rightarrow> b), pr_Port = of_int (uint_of (f 2))\<rparr>)"

definition http_of :: "goval \<Rightarrow> httpAnnounceResponse" where
  "http_of v =
     (let f = (\<lambda>n. field_vals v ! n)
      in \<lparr>hr_Fail = string_of (f 0), hr_Warning = string_of (f 1), hr_Interval = of_int (int_of (f 2)),
          hr_MinInterval = of_int (int_of (f 3)), hr_TrackerID = bytes_of (f 4), hr_Complete = of_int (int_of (f 5)),
          hr_Incomplete = of_int (int_of (f 6)), hr_Peers = map_option (map http_peer_of) (slice_of (f 7)),
          hr_CheapPeers = bytes_of (f 8)\<rparr>)"

datatype http_error =
  BadURL | RequestFailed | HttpBencode berr | TrackerFail bytes | TrackerWarning bytes | BadPeerID | BadPeerIP | NoPeers | BadHash bytes

record 'u http_env =
  he_Parse :: "bytes \<Rightarrow> 'u option"
  he_Get :: "'u \<Rightarrow> bytes \<Rightarrow> bytes option"
  he_ParseIP :: "bytes \<Rightarrow> bytes option"
  he_LookupIP :: "bytes \<Rightarrow> bytes list option"

text \<open>A peer's address is text: a number or a name, whose first address is taken.\<close>

fun resolve_peers :: "'u http_env \<Rightarrow> tpeer list \<Rightarrow> (http_error, tpeer list) outcome" where
  "resolve_peers env [] = Return []"
| "resolve_peers env (p # ps) =
     (if length (case pr_ID p of None \<Rightarrow> [] | Some i \<Rightarrow> i) \<noteq> 20 then Error BadPeerID
      else obind (case he_ParseIP env (pr_IP p) of
                    Some ip \<Rightarrow> Return ip
                  | None \<Rightarrow> (case he_LookupIP env (pr_IP p) of
                      None \<Rightarrow> Error BadPeerIP
                    | Some [] \<Rightarrow> Panic IndexOutOfRange
                    | Some (ip # _) \<Rightarrow> Return ip)) (\<lambda>ip.
           obind (resolve_peers env ps) (\<lambda>qs. Return (p\<lparr>pr_IP := ip\<rparr> # qs))))"

definition hr_parse :: "'u http_env \<Rightarrow> httpAnnounceResponse \<Rightarrow> (http_error, httpAnnounceResponse) outcome" where
  "hr_parse env r =
     (if hr_Fail r \<noteq> [] then Error (TrackerFail (hr_Fail r))
      else if hr_Warning r \<noteq> [] then Error (TrackerWarning (hr_Warning r))
      else case hr_Peers r of
        Some ps \<Rightarrow> obind (resolve_peers env ps) (\<lambda>qs. Return (r\<lparr>hr_Peers := Some qs\<rparr>))
      | None \<Rightarrow>
          (case hr_CheapPeers r of
             Some c \<Rightarrow> Return (r\<lparr>hr_Peers := Some (cheap_peers c)\<rparr>)
           | None \<Rightarrow> Error NoPeers))"

definition announceResp :: "httpAnnounceResponse \<Rightarrow> AnnounceResp" where
  "announceResp r = \<lparr>rs_Interval = hr_Interval r, rs_Leechers = hr_Incomplete r, rs_Seeders = hr_Complete r,
     rs_Peers = (case hr_Peers r of None \<Rightarrow> [] | Some ps \<Rightarrow> ps), rs_MinInterval = hr_MinInterval r\<rparr>"

record http =
  ht_url :: bytes
  ht_id :: "bytes option"

definition http_fetch :: "'u http_env \<Rightarrow> bytes \<Rightarrow> bytes \<Rightarrow> (http_error, bytes) outcome" where
  "http_fetch env url query =
     (case he_Parse env url of
        None \<Rightarrow> Error BadURL
      | Some u \<Rightarrow> (case he_Get env u query of None \<Rightarrow> Error RequestFailed | Some body \<Rightarrow> Return body))"

definition http_announce :: "'u http_env \<Rightarrow> http \<Rightarrow> AnnounceReq \<Rightarrow> (http_error, httpAnnounceResponse) outcome" where
  "http_announce env t r =
     obind (http_fetch env (ht_url t) (queryValues r)) (\<lambda>benData.
       case Decode benData (zero_val http_type) of
         (_, Some e) \<Rightarrow> Error (HttpBencode e)
       | (v, None) \<Rightarrow> hr_parse env (http_of v))"

text \<open>The tracker's id is remembered when it is new.\<close>

definition http_Announce :: "'u http_env \<Rightarrow> http \<Rightarrow> AnnounceReq \<Rightarrow> http \<times> (http_error, AnnounceResp) outcome" where
  "http_Announce env t r =
     (case http_announce env t r of
        Panic p \<Rightarrow> (t, Panic p)
      | Error e \<Rightarrow> (t, Error e)
      | Return res \<Rightarrow>
          (case hr_TrackerID res of
             Some i \<Rightarrow> (if ht_id t = None \<or> ht_id t \<noteq> Some i then t\<lparr>ht_id := Some i\<rparr> else t)
           | None \<Rightarrow> t, Return (announceResp res)))"

section \<open>Scrapes\<close>

definition scrape_file_fields :: "field_tag list" where
  "scrape_file_fields = [(asc ''Seeders'', asc ''complete'', []), (asc ''Downloaded'', asc ''downloaded'', []),
     (asc ''Leechers'', asc ''incomplete'', []), (asc ''Name'', asc ''name'', omit)]"

definition scrape_file_type :: gotype where
  "scrape_file_type = TStruct (zip scrape_file_fields [TInt 32, TInt 32, TInt 32, TString])"

definition scrape_fields :: "field_tag list" where
  "scrape_fields = [(asc ''Files'', asc ''files'', []), (asc ''Fail'', asc ''failure_reason'', omit)]"

definition scrape_type :: gotype where
  "scrape_type = TStruct (zip scrape_fields [TMap True scrape_file_type, TString])"

fun map_of_val :: "goval \<Rightarrow> (bytes \<times> goval) list" where
  "map_of_val (VMap _ _ (Some m)) = m"
| "map_of_val _ = []"

definition TorrentInfo_of :: "goval \<Rightarrow> TorrentInfo" where
  "TorrentInfo_of v =
     (let f = (\<lambda>n. field_vals v ! n)
      in \<lparr>ti_Seeders = of_int (int_of (f 0)), ti_Downloaded = of_int (int_of (f 1)), ti_Leechers = of_int (int_of (f 2)),
          ti_Name = string_of (f 3)\<rparr>)"

record httpScrapeResp =
  sr_Files :: "(bytes \<times> TorrentInfo) list"
  sr_Fail :: bytes

definition scrape_of :: "goval \<Rightarrow> httpScrapeResp" where
  "scrape_of v = \<lparr>sr_Files = map (map_prod id TorrentInfo_of) (map_of_val (field_vals v ! 0)), sr_Fail = string_of (field_vals v ! 1)\<rparr>"

text \<open>The iteration order of a map is unspecified; which of several bad keys is reported does not matter.\<close>

definition sr_parse :: "httpScrapeResp \<Rightarrow> (http_error, unit) outcome" where
  "sr_parse sr =
     (if sr_Fail sr \<noteq> [] then Error (TrackerFail (sr_Fail sr))
      else case find (\<lambda>(h, _). length h \<noteq> 20) (sr_Files sr) of Some (h, _) \<Rightarrow> Error (BadHash h) | None \<Rightarrow> Return ())"

definition http_scrape :: "'u http_env \<Rightarrow> http \<Rightarrow> bytes list \<Rightarrow> (http_error, httpScrapeResp) outcome" where
  "http_scrape env t infoHashes =
     obind (http_fetch env (ScrapeURL (ht_url t)) (Values_Encode (fold (Values_Set (asc ''info_hash'')) infoHashes []))) (\<lambda>benData.
       case Decode benData (zero_val scrape_type) of
         (_, Some e) \<Rightarrow> Error (HttpBencode e)
       | (v, None) \<Rightarrow> obind (sr_parse (scrape_of v)) (\<lambda>_. Return (scrape_of v)))"

definition http_Scrape :: "'u http_env \<Rightarrow> http \<Rightarrow> bytes list \<Rightarrow> (http_error, ScrapeResp) outcome" where
  "http_Scrape env t infoHashes = obind (http_scrape env t infoHashes) (\<lambda>sr. Return (sr_Files sr))"

section \<open>Choosing a tracker\<close>

datatype tracker = HTTPTracker http | UDPTracker bytes bytes

text \<open>\<open>parse\<close> gives scheme and host of a URL.\<close>

definition NewTrackerURL :: "(bytes \<Rightarrow> (bytes \<times> bytes) option) \<Rightarrow> bytes \<Rightarrow> tracker option" where
  "NewTrackerURL parse tURL =
     (case parse tURL of
        None \<Rightarrow> None
      | Some (scheme, host) \<Rightarrow>
          if scheme = asc ''http'' \<or> scheme = asc ''https'' then Some (HTTPTracker \<lparr>ht_url = tURL, ht_id = None\<rparr>)
          else if scheme = asc ''udp'' then Some (UDPTracker tURL (addPortMaybe host))
          else None)"

end
