(* ===== verification/Tracker_Http_Correct.thy ===== *)
theory Tracker_Http_Correct
  imports Tracker_Http Bencode_Roundtrip
begin

text \<open>
  Properties of the HTTP tracker client: what a tracker reads from the query string of an announce,
  and what the client makes of the tracker's answers.
\<close>

section \<open>The query string\<close>

lemma hex_upperhex:
  assumes "d < 16"
  shows "hex_digit (upperhex d) = Some d"
proof -
  have "list_all (\<lambda>n. hex_digit (upperhex (of_nat n)) = Some (of_nat n)) [0..<16]" by code_simp
  moreover have "unat d \<in> set [0..<16]" using assms by (simp add: word_less_nat_alt)
  ultimately have "hex_digit (upperhex (of_nat (unat d))) = Some (of_nat (unat d))" unfolding list_all_iff by (rule bspec)
  then show ?thesis by simp
qed

lemma nibbles: "(c :: byte) div 16 < 16" "(c :: byte) mod 16 < 16"
proof -
  have "unat c < 256" using unsigned_less [of c, where ?'a = nat] by simp
  then show "c div 16 < 16" "c mod 16 < 16" by (simp_all add: word_less_nat_alt unat_div unat_mod)
qed

lemma unescape_byte: "QueryUnescape (escape_byte c @ r) = map_option ((#) c) (QueryUnescape r)"
proof (cases "unreserved c \<or> c = 32")
  case True
  have "\<not> unreserved 37" "\<not> unreserved 43" by (simp_all add: unreserved_def asc_def)
  with True have "c \<noteq> 37" "c \<noteq> 43" by auto
  with True show ?thesis by (auto simp: escape_byte_def)
next
  case False
  then show ?thesis by (simp add: escape_byte_def hex_upperhex nibbles div_mult_mod_eq)
qed

lemma unescape_escape: "QueryUnescape (QueryEscape s) = Some s"
  by (induction s) (simp_all add: QueryEscape_def unescape_byte)

text \<open>An escaped string has no separator.\<close>

lemma escape_byte_sep: "38 \<notin> set (escape_byte c)" "61 \<notin> set (escape_byte c)"
proof -
  have "\<not> unreserved 38" "\<not> unreserved 61" by (simp_all add: unreserved_def asc_def)
  moreover have "upperhex d \<noteq> 38 \<and> upperhex d \<noteq> 61" if "d < 16" for d
    using hex_upperhex [OF that] by (auto simp: hex_digit_def)
  moreover note nibbles [of c]
  ultimately show "38 \<notin> set (escape_byte c)" "61 \<notin> set (escape_byte c)" by (auto simp: escape_byte_def)
qed

lemma escape_sep: "38 \<notin> set (QueryEscape s)" "61 \<notin> set (QueryEscape s)"
  using escape_byte_sep by (auto simp: QueryEscape_def)

lemma split_single: "c \<notin> set x \<Longrightarrow> split c x = [x]"
  by (induction x) auto

lemma split_append: "c \<notin> set x \<Longrightarrow> split c (x @ c # y) = x # split c y"
  by (induction x) auto

lemma split_join: "\<forall>x \<in> set xs. c \<notin> set x \<Longrightarrow> xs \<noteq> [] \<Longrightarrow> split c (join c xs) = xs"
  by (induction c xs rule: join.induct) (auto simp: split_single split_append)

lemma parse_pair_escaped: "parse_pair (QueryEscape key @ 61 # QueryEscape v) = Some (key, v)"
proof -
  have "\<forall>b \<in> set (QueryEscape key). b \<noteq> 61" using escape_sep(2) by metis
  then have "takeWhile (\<lambda>b. b \<noteq> 61) (QueryEscape key @ 61 # QueryEscape v) = QueryEscape key"
    "dropWhile (\<lambda>b. b \<noteq> 61) (QueryEscape key @ 61 # QueryEscape v) = 61 # QueryEscape v"
    by (simp_all add: takeWhile_append2 dropWhile_append2)
  then show ?thesis by (simp add: parse_pair_def unescape_escape)
qed

lemma those_Some: "those (map (\<lambda>x. Some (f x)) xs) = Some (map f xs)"
  by (induction xs) auto

lemma ParseQuery_Encode:
  assumes "vs \<noteq> []"
  shows "ParseQuery (Values_Encode vs) = Some (sort_by key_less vs)"
proof -
  let ?vs = "sort_by key_less vs" and ?f = "\<lambda>(key, v). QueryEscape key @ 61 # QueryEscape v"
  have m: "mset ?vs = mset vs" by (rule mset_sort_by)
  have "split 38 (join 38 (map ?f ?vs)) = map ?f ?vs"
    using escape_sep(1) assms m by (intro split_join) (auto simp del: mset_sort_by)
  moreover have "filter (\<lambda>f. f \<noteq> []) (map ?f ?vs) = map ?f ?vs" by (auto simp: filter_id_conv)
  ultimately have "ParseQuery (Values_Encode vs) = those (map parse_pair (map ?f ?vs))"
    unfolding ParseQuery_def Values_Encode_def by (simp only:)
  also have "map parse_pair (map ?f ?vs) = map Some ?vs" by (auto simp: parse_pair_escaped)
  finally show ?thesis using those_Some [of id ?vs] by simp
qed

lemma query_map:
  assumes "vs \<noteq> []" "distinct (map fst vs)"
  obtains q where "ParseQuery (Values_Encode vs) = Some q" "distinct (map fst q)" "map_of q = map_of vs"
proof -
  have m: "mset (sort_by key_less vs) = mset vs" by (rule mset_sort_by)
  have "mset (map fst (sort_by key_less vs)) = mset (map fst vs)" using m by (simp add: mset_map)
  then have d: "distinct (map fst (sort_by key_less vs))" using assms(2) mset_eq_imp_distinct_iff by blast
  have "map_of (sort_by key_less vs) = map_of vs"
    using map_of_inject_set [OF d assms(2)] mset_eq_setD [OF m] by simp
  then show ?thesis using that ParseQuery_Encode [OF assms(1)] d by blast
qed

lemma Values_Set_map [simp]: "map_of (Values_Set key v vs) = (map_of vs)(key \<mapsto> v)"
  by (simp add: Values_Set_def update_conv')

lemma Values_Set_distinct: "distinct (map fst vs) \<Longrightarrow> distinct (map fst (Values_Set key v vs))"
  unfolding Values_Set_def by (rule distinct_update)

lemma Values_Set_not_Nil: "Values_Set key v vs \<noteq> []"
  by (cases vs) (auto simp: Values_Set_def)

text \<open>What a tracker finds in the query string of an announce.\<close>

lemma queryValues_found:
  obtains q where "ParseQuery (queryValues r) = Some q"
    "map_of q = [asc ''info_hash'' \<mapsto> ar_InfoHash r, asc ''peer_id'' \<mapsto> ar_PeerID r,
         asc ''port'' \<mapsto> Itoa (sint (ar_Port r)), asc ''uploaded'' \<mapsto> Itoa (sint (ar_Uploaded r)),
         asc ''downloaded'' \<mapsto> Itoa (sint (ar_Downloaded r)), asc ''left'' \<mapsto> Itoa (sint (ar_Left r)),
         asc ''compact'' \<mapsto> asc ''1'', asc ''no_peer_id'' \<mapsto> asc ''1''] ++
       (if ar_Event r \<noteq> 0 then [asc ''event'' \<mapsto> events (ar_Event r)] else Map.empty) ++
       (if ar_Numwant r \<noteq> - 1 then [asc ''numwant'' \<mapsto> Itoa (sint (ar_Numwant r))] else Map.empty) ++
       (if ar_Key r \<noteq> 0 then [asc ''key'' \<mapsto> Itoa (sint (ar_Key r))] else Map.empty)"
proof -
  define v where "v = Values_Set (asc ''no_peer_id'') (asc ''1'') (Values_Set (asc ''compact'') (asc ''1'')
    (Values_Set (asc ''left'') (Itoa (sint (ar_Left r))) (Values_Set (asc ''downloaded'') (Itoa (sint (ar_Downloaded r)))
    (Values_Set (asc ''uploaded'') (Itoa (sint (ar_Uploaded r))) (Values_Set (asc ''port'') (Itoa (sint (ar_Port r)))
    (Values_Set (asc ''peer_id'') (ar_PeerID r) (Values_Set (asc ''info_hash'') (ar_InfoHash r) [])))))))"
  define w where "w = (let v = (if ar_Event r \<noteq> 0 then Values_Set (asc ''event'') (events (ar_Event r)) v else v);
      v = (if ar_Numwant r \<noteq> - 1 then Values_Set (asc ''numwant'') (Itoa (sint (ar_Numwant r))) v else v)
    in if ar_Key r \<noteq> 0 then Values_Set (asc ''key'') (Itoa (sint (ar_Key r))) v else v)"
  have "distinct (map fst v)" unfolding v_def by (intro Values_Set_distinct) simp
  then have d: "distinct (map fst w)" unfolding w_def Let_def by (auto intro!: Values_Set_distinct)
  have n: "w \<noteq> []" unfolding w_def v_def Let_def by (auto simp: Values_Set_not_Nil)
  have q: "queryValues r = Values_Encode w" unfolding queryValues_def w_def v_def Let_def by (rule refl)
  obtain p where p: "ParseQuery (Values_Encode w) = Some p" "distinct (map fst p)" "map_of p = map_of w" by (rule query_map [OF n d])
  have e: "map_of w = [asc ''info_hash'' \<mapsto> ar_InfoHash r, asc ''peer_id'' \<mapsto> ar_PeerID r,
         asc ''port'' \<mapsto> Itoa (sint (ar_Port r)), asc ''uploaded'' \<mapsto> Itoa (sint (ar_Uploaded r)),
         asc ''downloaded'' \<mapsto> Itoa (sint (ar_Downloaded r)), asc ''left'' \<mapsto> Itoa (sint (ar_Left r)),
         asc ''compact'' \<mapsto> asc ''1'', asc ''no_peer_id'' \<mapsto> asc ''1''] ++
       (if ar_Event r \<noteq> 0 then [asc ''event'' \<mapsto> events (ar_Event r)] else Map.empty) ++
       (if ar_Numwant r \<noteq> - 1 then [asc ''numwant'' \<mapsto> Itoa (sint (ar_Numwant r))] else Map.empty) ++
       (if ar_Key r \<noteq> 0 then [asc ''key'' \<mapsto> Itoa (sint (ar_Key r))] else Map.empty)"
    unfolding w_def v_def Let_def by simp
  show ?thesis using that p e unfolding q by simp
qed

text \<open>
  A tracker of BEP 3: it takes the keys the protocol documents from the query string, the hash and the id
  as they are, the numbers in decimal, the port as an unsigned number of 16 bits, and for a missing event,
  number of wanted peers or key what the protocol says. It works on its own, from the documented names.
\<close>

definition read_int :: "bytes \<Rightarrow> int option" where
  "read_int s = (case ParseInt s of (i, None) \<Rightarrow> Some i | _ \<Rightarrow> None)"

definition read_port :: "bytes \<Rightarrow> nat option" where
  "read_port s = (case ParseUint s of (n, None) \<Rightarrow> if n < 65536 then Some n else None | _ \<Rightarrow> None)"

definition read_event :: "bytes \<Rightarrow> int32 option" where
  "read_event s = map_of [(asc ''completed'', 1), (asc ''started'', 2), (asc ''stopped'', 3)] s"

definition optional :: "'a \<Rightarrow> (bytes \<Rightarrow> 'a option) \<Rightarrow> bytes option \<Rightarrow> 'a option" where
  "optional d f v = (case v of None \<Rightarrow> Some d | Some s \<Rightarrow> f s)"

definition tracker_reads :: "bytes \<Rightarrow> AnnounceReq option" where
  "tracker_reads query =
     Option.bind (ParseQuery query) (\<lambda>q. let m = map_of q in
     Option.bind (m (asc ''info_hash'')) (\<lambda>h. Option.bind (m (asc ''peer_id'')) (\<lambda>i.
     Option.bind (Option.bind (m (asc ''port'')) read_port) (\<lambda>p.
     Option.bind (Option.bind (m (asc ''uploaded'')) read_int) (\<lambda>u.
     Option.bind (Option.bind (m (asc ''downloaded'')) read_int) (\<lambda>d.
     Option.bind (Option.bind (m (asc ''left'')) read_int) (\<lambda>l.
     Option.bind (optional 0 read_event (m (asc ''event''))) (\<lambda>e.
     Option.bind (optional (- 1) read_int (m (asc ''numwant''))) (\<lambda>n.
     Option.bind (optional 0 read_int (m (asc ''key''))) (\<lambda>k.
       Some \<lparr>ar_InfoHash = h, ar_PeerID = i, ar_Downloaded = of_int d, ar_Left = of_int l, ar_Uploaded = of_int u,
             ar_Event = e, ar_IP = 0, ar_Key = of_int k, ar_Numwant = of_int n, ar_Port = of_nat p\<rparr>))))))))))"

lemma read_int_Itoa:
  assumes "LENGTH('a) \<le> 64"
  shows "read_int (Itoa (sint (w :: 'a :: len word))) = Some (sint w)"
proof -
  have "(2 :: int) ^ (LENGTH('a) - 1) \<le> 2 ^ 63" using assms by (intro power_increasing) auto
  then have "fits_signed 64 (sint w)" using sint_ge [of w] sint_lt [of w] by (simp add: fits_signed_def)
  then show ?thesis by (simp add: read_int_def Itoa_def ParseInt_FormatInt)
qed

lemma read_port_Itoa:
  "read_port (Itoa (sint (w :: 16 word))) = (if sint w < 0 then None else Some (nat (sint w)))"
proof (cases "sint w < 0")
  case True
  then show ?thesis by (simp add: read_port_def Itoa_def FormatInt_def ParseUint_def is_digit_def)
next
  case False
  moreover have "nat (sint w) < 65536" using sint_lt [of w] False by (simp add: nat_less_iff)
  ultimately show ?thesis by (simp add: read_port_def Itoa_def FormatInt_def ParseUint_format)
qed

lemma read_event_events: "e \<in> {1, 2, 3} \<Longrightarrow> read_event (events e) = Some e"
  by (auto simp: read_event_def events_def asc_def)

lemma tracker_reads_query:
  assumes "ar_Event r \<in> {0, 1, 2, 3}"
  shows "tracker_reads (queryValues r) = (if sint (ar_Port r) < 0 then None else Some (r\<lparr>ar_IP := 0\<rparr>))"
proof -
  obtain q where q: "ParseQuery (queryValues r) = Some q"
    "map_of q = [asc ''info_hash'' \<mapsto> ar_InfoHash r, asc ''peer_id'' \<mapsto> ar_PeerID r,
         asc ''port'' \<mapsto> Itoa (sint (ar_Port r)), asc ''uploaded'' \<mapsto> Itoa (sint (ar_Uploaded r)),
         asc ''downloaded'' \<mapsto> Itoa (sint (ar_Downloaded r)), asc ''left'' \<mapsto> Itoa (sint (ar_Left r)),
         asc ''compact'' \<mapsto> asc ''1'', asc ''no_peer_id'' \<mapsto> asc ''1''] ++
       (if ar_Event r \<noteq> 0 then [asc ''event'' \<mapsto> events (ar_Event r)] else Map.empty) ++
       (if ar_Numwant r \<noteq> - 1 then [asc ''numwant'' \<mapsto> Itoa (sint (ar_Numwant r))] else Map.empty) ++
       (if ar_Key r \<noteq> 0 then [asc ''key'' \<mapsto> Itoa (sint (ar_Key r))] else Map.empty)"
    by (rule queryValues_found)
  have m: "map_of q (asc ''info_hash'') = Some (ar_InfoHash r)" "map_of q (asc ''peer_id'') = Some (ar_PeerID r)"
    "map_of q (asc ''port'') = Some (Itoa (sint (ar_Port r)))" "map_of q (asc ''uploaded'') = Some (Itoa (sint (ar_Uploaded r)))"
    "map_of q (asc ''downloaded'') = Some (Itoa (sint (ar_Downloaded r)))" "map_of q (asc ''left'') = Some (Itoa (sint (ar_Left r)))"
    "map_of q (asc ''event'') = (if ar_Event r \<noteq> 0 then Some (events (ar_Event r)) else None)"
    "map_of q (asc ''numwant'') = (if ar_Numwant r \<noteq> - 1 then Some (Itoa (sint (ar_Numwant r))) else None)"
    "map_of q (asc ''key'') = (if ar_Key r \<noteq> 0 then Some (Itoa (sint (ar_Key r))) else None)"
    unfolding q(2) by (simp_all add: asc_def map_add_def)
  have "optional 0 read_event (map_of q (asc ''event'')) = Some (ar_Event r)"
    "optional (- 1) read_int (map_of q (asc ''numwant'')) = Some (sint (ar_Numwant r))"
    "optional 0 read_int (map_of q (asc ''key'')) = Some (sint (ar_Key r))"
    using assms by (auto simp: m(7-9) optional_def read_event_events read_int_Itoa)
  with q(1) m(1-6) show ?thesis
    by (simp add: tracker_reads_def read_int_Itoa read_port_Itoa)
qed

section \<open>Reading a dictionary into a struct\<close>

text \<open>One key of one field.\<close>

lemma struct_round:
  assumes "rb_post r = enc_string key @ body" "length key < 2 ^ 63" "map_of fnames key = Some [nm]" "FieldByName nm fs = Some fv"
    "\<And>r1. rb_post r1 = body \<Longrightarrow> \<exists>r2. dec fv r1 = (w, r2, None) \<and> rb_post r2 = rest"
  shows "\<exists>r'. readBenDictStruct dec (Suc n) fnames no fs r = readBenDictStruct dec n fnames (removeAll nm no) (SetField nm w fs) r' \<and>
    rb_post r' = rest"
proof -
  obtain r1 where r1: "checkEnd r = (r1, Inr False)" "rb_post r1 = enc_string key @ body" using checkEnd_enc_string [OF assms(1)] by blast
  obtain r2 where r2: "readBenString r1 = (r2, Inr key)" "rb_post r2 = body" using readBenString_enc [OF r1(2) assms(2)] by blast
  obtain r3 where r3: "dec fv r2 = (w, r3, None)" "rb_post r3 = rest" using assms(5) [OF r2(2)] by blast
  have "readField dec fnames no key fs r2 = (removeAll nm no, SetField nm w fs, r3, None)"
    using assms(3,4) r3(1) by (simp add: readField_def)
  with r1(1) r2(1) r3(2) show ?thesis by auto
qed

lemma struct_end:
  "rb_post r = 101 # rest \<Longrightarrow> \<exists>r'. readBenDictStruct dec (Suc n) fnames no fs r =
     (fs, r', if no = [] then None else Some (ErrNotFilled no)) \<and> rb_post r' = rest"
  using checkEnd_e [of r rest] by auto

text \<open>A key of two fields, a list and a string: a string goes to the second one.\<close>

lemma struct_round_string2:
  assumes "rb_post r = enc_string key @ enc_string b @ rest" "length key < 2 ^ 63" "length b < 2 ^ 63"
    "map_of fnames key = Some [nm1, nm2]" "nm1 \<notin> set no" "nm2 \<notin> set no" "nm1 \<noteq> nm2"
    "FieldByName nm1 fs = Some (VSlice t xs)" "FieldByName nm2 fs = Some (VBytes c)"
    "SetField nm1 (VSlice t xs) fs = fs"
  shows "\<exists>r'. readBenDictStruct (decode (Suc m)) (Suc n) fnames no fs r =
      readBenDictStruct (decode (Suc m)) n fnames no (SetField nm2 (VBytes (Some b)) fs) r' \<and> rb_post r' = rest"
proof -
  obtain r1 where r1: "checkEnd r = (r1, Inr False)" "rb_post r1 = enc_string key @ enc_string b @ rest"
    using checkEnd_enc_string [OF assms(1)] by blast
  obtain r2 where r2: "readBenString r1 = (r2, Inr key)" "rb_post r2 = enc_string b @ rest" using readBenString_enc [OF r1(2) assms(2)] by blast
  obtain d ds where d: "enc_string b = d # ds" "is_digit d" using enc_string_Cons by blast
  have nd: "d \<noteq> 108" using d(2) by (auto simp: is_digit_def)
  let ?r3 = "\<lparr>rb_pre = d # rb_pre r2, rb_post = ds @ rest, rb_last = True\<rparr>"
  let ?r4 = "\<lparr>rb_pre = rb_pre r2, rb_post = enc_string b @ rest, rb_last = False\<rparr>"
  obtain e where e: "decode (Suc m) (VSlice t xs) r2 = (VSlice t xs, ?r3, Some e)" "e \<noteq> NoFuel"
    using r2(2) d nd by (auto simp: decode_slice_def assertBenElem_def ReadByte_def benElemBasedOnFirstByte_def)
  have u: "unread_n (length (rb_post r2) - length (rb_post ?r3)) ?r3 = (?r4, None)"
    using r2(2) d(1) by (simp add: UnreadByte_def)
  obtain r5 where r5: "readBenString ?r4 = (r5, Inr b)" "rb_post r5 = rest"
    using readBenString_enc [of ?r4 b rest] assms(3) by auto
  have "tryNames (decode (Suc m)) [nm1, nm2] no fs r2 = (SetField nm2 (VBytes (Some b)) fs, r5, None)"
    using assms(5-10) e u r5(1) by (simp add: set_scalar_def)
  then have "readField (decode (Suc m)) fnames no key fs r2 = (no, SetField nm2 (VBytes (Some b)) fs, r5, None)"
    using assms(4) by (simp add: readField_def)
  with r1(1) r2(1) r5(2) show ?thesis by auto
qed

section \<open>Answers of a tracker\<close>

lemma int_read:
  assumes "rb_post r = enc_int i @ rest" "fits_signed 32 i"
  shows "\<exists>r'. decode (Suc m) (VInt 32 j) r = (VInt 32 i, r', None) \<and> rb_post r' = rest"
proof -
  have "fits_signed 64 i" using assms(2) by (auto simp: fits_signed_def)
  from readBenInt_enc [OF assms(1) this] obtain r' where "readBenInt r = (r', Inr i)" "rb_post r' = rest" by blast
  then show ?thesis using assms(2) by (simp add: set_scalar_def to_signed_id)
qed

lemma string_read:
  assumes "rb_post r = enc_string s @ rest" "length s < 2 ^ 63"
  shows "\<exists>r'. decode (Suc m) (VString j) r = (VString s, r', None) \<and> rb_post r' = rest"
  using readBenString_enc [OF assms] by (auto simp: set_scalar_def)

lemma int_round:
  assumes "rb_post r = enc_string key @ enc_int i @ rest" "fits_signed 32 i" "length key < 2 ^ 63"
    "map_of fnames key = Some [nm]" "FieldByName nm fs = Some (VInt 32 j)"
  shows "\<exists>r'. readBenDictStruct (decode (Suc m)) (Suc l) fnames no fs r =
    readBenDictStruct (decode (Suc m)) l fnames (removeAll nm no) (SetField nm (VInt 32 i) fs) r' \<and> rb_post r' = rest"
  by (rule struct_round [OF assms(1,3,4,5)]) (rule int_read [OF _ assms(2)])

lemma length_asc [simp]: "length (asc s) = length s"
  by (simp add: asc_def)

text \<open>The struct while it is filled.\<close>

definition hfs :: "bytes \<Rightarrow> int \<Rightarrow> int \<Rightarrow> int \<Rightarrow> bytes option \<Rightarrow> (field_tag \<times> goval) list" where
  "hfs f i c n p = zip http_fields [VString f, VString [], VInt 32 i, VInt 32 0, VBytes None, VInt 32 c, VInt 32 n,
     VSlice http_peer_type None, VBytes p]"

definition http_names :: "(bytes \<times> bytes list) list" where
  "http_names = snd (structInfo http_fields [] [])"

lemma hfs_zero: "zero_val http_type = VStruct (hfs [] 0 0 0 None)"
  by (simp add: http_type_def hfs_def http_fields_def http_peer_type_def)

lemma hfs_info: "structInfo (map fst (hfs f i c n p)) [] [] = ([asc ''Interval''], http_names)"
proof -
  have "map fst (hfs f i c n p) = http_fields" by (simp add: hfs_def http_fields_def)
  moreover have "fst (structInfo http_fields [] []) = [asc ''Interval'']" by code_simp
  ultimately show ?thesis by (simp add: http_names_def prod_eq_iff)
qed

lemma http_names_keys:
  "map_of http_names (asc ''failure reason'') = Some [asc ''Fail'']"
  "map_of http_names (asc ''interval'') = Some [asc ''Interval'']"
  "map_of http_names (asc ''complete'') = Some [asc ''Complete'']"
  "map_of http_names (asc ''incomplete'') = Some [asc ''Incomplete'']"
  "map_of http_names (asc ''peers'') = Some [asc ''Peers'', asc ''CheapPeers'']"
  by code_simp+

lemma hfs_fields:
  "FieldByName (asc ''Fail'') (hfs f i c n p) = Some (VString f)"
  "FieldByName (asc ''Interval'') (hfs f i c n p) = Some (VInt 32 i)"
  "FieldByName (asc ''Complete'') (hfs f i c n p) = Some (VInt 32 c)"
  "FieldByName (asc ''Incomplete'') (hfs f i c n p) = Some (VInt 32 n)"
  "FieldByName (asc ''Peers'') (hfs f i c n p) = Some (VSlice http_peer_type None)"
  "FieldByName (asc ''CheapPeers'') (hfs f i c n p) = Some (VBytes p)"
  by (simp_all add: hfs_def http_fields_def asc_def)

lemma hfs_set:
  "SetField (asc ''Fail'') (VString f') (hfs f i c n p) = hfs f' i c n p"
  "SetField (asc ''Interval'') (VInt 32 i') (hfs f i c n p) = hfs f i' c n p"
  "SetField (asc ''Complete'') (VInt 32 c') (hfs f i c n p) = hfs f i c' n p"
  "SetField (asc ''Incomplete'') (VInt 32 n') (hfs f i c n p) = hfs f i c n' p"
  "SetField (asc ''Peers'') (VSlice http_peer_type None) (hfs f i c n p) = hfs f i c n p"
  "SetField (asc ''CheapPeers'') (VBytes p') (hfs f i c n p) = hfs f i c n p'"
  by (simp_all add: hfs_def http_fields_def asc_def)

definition compact_body :: "int \<Rightarrow> int \<Rightarrow> int \<Rightarrow> bytes \<Rightarrow> bytes" where
  "compact_body i c n peers = 100 # enc_string (asc ''complete'') @ enc_int c @ enc_string (asc ''incomplete'') @ enc_int n @
     enc_string (asc ''interval'') @ enc_int i @ enc_string (asc ''peers'') @ enc_string peers @ [101]"

lemma compact_struct:
  assumes "fits_signed 32 i" "fits_signed 32 c" "fits_signed 32 n" "length peers < 2 ^ 63"
    "rb_post r = tl (compact_body i c n peers)"
  shows "\<exists>r'. readBenDictStruct (decode (Suc m)) (Suc (Suc (Suc (Suc (Suc l))))) http_names [asc ''Interval''] (hfs [] 0 0 0 None) r =
    (hfs [] i c n (Some peers), r', None) \<and> rb_post r' = []"
proof -
  let ?D = "decode (Suc m)" and ?no = "[asc ''Interval'']"
  have ne: "removeAll (asc ''Complete'') ?no = ?no" "removeAll (asc ''Incomplete'') ?no = ?no" "asc ''Peers'' \<noteq> asc ''CheapPeers''"
      "removeAll (asc ''Interval'') ?no = []"
    by (simp_all add: asc_def)
  note [simp del] = readBenDictStruct.simps decode.simps removeAll.simps
  let ?b3 = "enc_string (asc ''peers'') @ enc_string peers @ [101]"
  let ?b2 = "enc_string (asc ''interval'') @ enc_int i @ ?b3"
  let ?b1 = "enc_string (asc ''incomplete'') @ enc_int n @ ?b2"
  have r: "rb_post r = enc_string (asc ''complete'') @ enc_int c @ ?b1" using assms(5) by (simp add: compact_body_def)
  obtain r1 where r1: "readBenDictStruct ?D (Suc (Suc (Suc (Suc (Suc l))))) http_names ?no (hfs [] 0 0 0 None) r =
      readBenDictStruct ?D (Suc (Suc (Suc (Suc l)))) http_names ?no (hfs [] 0 c 0 None) r1" "rb_post r1 = ?b1"
    using int_round [OF r assms(2) _ http_names_keys(3) hfs_fields(3) [of "[]" 0 0 0 None], where m = m and no = ?no and l = "Suc (Suc (Suc (Suc l)))"] by (auto simp: hfs_set ne)
  obtain r2 where r2: "readBenDictStruct ?D (Suc (Suc (Suc (Suc l)))) http_names ?no (hfs [] 0 c 0 None) r1 =
      readBenDictStruct ?D (Suc (Suc (Suc l))) http_names ?no (hfs [] 0 c n None) r2" "rb_post r2 = ?b2"
    using int_round [OF r1(2) assms(3) _ http_names_keys(4) hfs_fields(4) [of "[]" 0 c 0 None], where m = m and no = ?no and l = "Suc (Suc (Suc l))"] by (auto simp: hfs_set ne)
  obtain r3 where r3: "readBenDictStruct ?D (Suc (Suc (Suc l))) http_names ?no (hfs [] 0 c n None) r2 =
      readBenDictStruct ?D (Suc (Suc l)) http_names [] (hfs [] i c n None) r3" "rb_post r3 = ?b3"
    using int_round [OF r2(2) assms(1) _ http_names_keys(2) hfs_fields(2) [of "[]" 0 c n None], where m = m and no = ?no and l = "Suc (Suc l)"] by (auto simp: hfs_set ne)
  obtain r4 where r4: "readBenDictStruct ?D (Suc (Suc l)) http_names [] (hfs [] i c n None) r3 =
      readBenDictStruct ?D (Suc l) http_names [] (hfs [] i c n (Some peers)) r4" "rb_post r4 = [101]"
    using struct_round_string2 [OF r3(2) _ assms(4) http_names_keys(5) _ _ ne(3) hfs_fields(5,6) [of "[]" i c n None] hfs_set(5), of "[]" m "Suc l"]
    by (auto simp: hfs_set)
  show ?thesis unfolding r1(1) r2(1) r3(1) r4(1)
    using struct_end [of r4 "[]" ?D l http_names "[]" "hfs [] i c n (Some peers)"] r4(2) by simp
qed

text \<open>The fuel of \<open>Decode\<close> is enough for five keys.\<close>

lemma Decode_http:
  assumes "\<And>m l r. rb_post r = body \<Longrightarrow> \<exists>r'. readBenDictStruct (decode (Suc m)) (Suc (Suc (Suc (Suc (Suc l))))) http_names
      [asc ''Interval''] (hfs [] 0 0 0 None) r = (fs, r', e) \<and> rb_post r' = []"
  shows "Decode (100 # body) (zero_val http_type) = (VStruct fs, e)"
proof -
  let ?v = "VStruct (hfs [] 0 0 0 None)"
  obtain l where l: "decode_fuel ?v (100 # body) = Suc (Suc (Suc (Suc (Suc (Suc l)))))"
  proof -
    have "6 \<le> decode_fuel ?v (100 # body)" by (simp add: decode_fuel_def)
    then obtain l where "decode_fuel ?v (100 # body) = 6 + l" using nat_le_iff_add by blast
    with that show ?thesis by (simp add: eval_nat_numeral)
  qed
  obtain r1 where r1: "assertBenElem WhatDict (NewBuffer (100 # body)) = (r1, None)" "rb_post r1 = body"
    using assertBenElem_Cons [of "NewBuffer (100 # body)" 100 body WhatDict] by (auto simp: NewBuffer_def)
  obtain r2 where r2: "readBenDictStruct (decode (Suc (Suc (Suc (Suc (Suc l)))))) (Suc (Suc (Suc (Suc (Suc l))))) http_names
      [asc ''Interval''] (hfs [] 0 0 0 None) r1 = (fs, r2, e)" "rb_post r2 = []"
    using assms [OF r1(2)] by blast
  have "decode (decode_fuel ?v (100 # body)) ?v (NewBuffer (100 # body)) = (VStruct fs, r2, e)"
    unfolding l decode.simps(2) [of "Suc (Suc (Suc (Suc (Suc l))))"]
    using r1(1) r2(1) by (simp add: decode_struct_def hfs_info del: readBenDictStruct.simps decode.simps)
  then show ?thesis using r2(2) unfolding hfs_zero Decode_def by (cases e) (simp_all add: ReadByte_def)
qed

lemma fits32: "fits_signed 32 (sint (w :: int32))"
  using sint_ge [of w] sint_lt [of w] by (simp add: fits_signed_def)

text \<open>
  An answer with a compact list of peers: the client returns the interval, the numbers of
  seeders and leechers and the peers of the list, six bytes each, in order; the key \<open>peers\<close> belongs
  to two fields of the response struct and reaches the right one.
\<close>

lemma http_announce_compact:
  assumes "he_Parse env (ht_url t) = Some u" "he_Get env u (queryValues r) = Some (compact_body (sint i) (sint c) (sint n) peers)"
    "length peers < 2 ^ 63"
  shows "http_Announce env t r = (t, Return \<lparr>rs_Interval = i, rs_Leechers = n, rs_Seeders = c, rs_Peers = cheap_peers peers,
      rs_MinInterval = 0\<rparr>) \<and> length (cheap_peers peers) = length peers div 6"
proof -
  have "Decode (compact_body (sint i) (sint c) (sint n) peers) (zero_val http_type) =
      (VStruct (hfs [] (sint i) (sint c) (sint n) (Some peers)), None)"
    using Decode_http [of "tl (compact_body (sint i) (sint c) (sint n) peers)"] compact_struct [OF fits32 fits32 fits32 assms(3)]
    by (simp add: compact_body_def del: readBenDictStruct.simps decode.simps)
  moreover have "http_of (VStruct (hfs [] (sint i) (sint c) (sint n) (Some peers))) =
      \<lparr>hr_Fail = [], hr_Warning = [], hr_Interval = i, hr_MinInterval = 0, hr_TrackerID = None, hr_Complete = c, hr_Incomplete = n,
       hr_Peers = None, hr_CheapPeers = Some peers\<rparr>"
    by (simp add: http_of_def hfs_def http_fields_def Let_def)
  moreover have "length (cheap_loop b) = length b div 6" for b by (induction b rule: cheap_loop.induct) auto
  then have "length (cheap_peers peers) = length peers div 6" by (simp add: cheap_peers_def minus_mod_eq_mult_div)
  ultimately show ?thesis
    using assms(1,2) by (simp add: http_Announce_def http_announce_def http_fetch_def hr_parse_def announceResp_def)
qed

text \<open>
  A tracker on the other side of the GET request: it answers the requests it understands with a compact
  list, from whatever it knows (\<open>db\<close>: interval, seeders, leechers and peers for a request).
\<close>

definition http_serve :: "(AnnounceReq \<Rightarrow> int32 \<times> int32 \<times> int32 \<times> bytes) \<Rightarrow> bytes \<Rightarrow> bytes option" where
  "http_serve db query =
     map_option (\<lambda>r. case db r of (i, c, n, peers) \<Rightarrow> compact_body (sint i) (sint c) (sint n) peers) (tracker_reads query)"

text \<open>
  C34. An announce over HTTP, client and tracker together, for every request with an event the protocol
  knows and every tracker that answers with a compact list: the tracker reads the client's own request,
  with the binary hash and id unchanged, the numbers, the event, the number of wanted peers and the key,
  but not the IP field, which the client never sends; and the client returns the tracker's answer to that
  request, the interval, the seeders, the leechers and every peer of the list. This holds for ports below
  32768; a higher one arrives with a minus sign, so that a tracker does not understand the request.
\<close>

theorem http_announce_agrees:
  assumes "ar_Event r \<in> {0, 1, 2, 3}" "he_Parse env (ht_url t) = Some u" "he_Get env u = http_serve db"
    "db (r\<lparr>ar_IP := 0\<rparr>) = (i, c, n, peers)" "length peers < 2 ^ 63"
  shows "http_Announce env t r =
    (t, if sint (ar_Port r) < 0 then Error RequestFailed
        else Return \<lparr>rs_Interval = i, rs_Leechers = n, rs_Seeders = c, rs_Peers = cheap_peers peers, rs_MinInterval = 0\<rparr>)"
proof (cases "sint (ar_Port r) < 0")
  case True
  then show ?thesis
    using tracker_reads_query [OF assms(1)] assms(2,3)
    by (simp add: http_Announce_def http_announce_def http_fetch_def http_serve_def)
next
  case False
  then have "he_Get env u (queryValues r) = Some (compact_body (sint i) (sint c) (sint n) peers)"
    using tracker_reads_query [OF assms(1)] assms(3,4) by (simp add: http_serve_def)
  with http_announce_compact [OF assms(2) this assms(5)] False show ?thesis by simp
qed

text \<open>
  The finding on failures: a tracker that refuses an announce answers with nothing but the key
  \<open>failure reason\<close>, and the struct demands the interval; so the answer fails to decode and the
  reason the tracker gave is lost, whatever it was.
\<close>

lemma http_failure_lost:
  assumes "he_Parse env (ht_url t) = Some u" "length msg < 2 ^ 63"
    "he_Get env u (queryValues r) = Some (100 # enc_string (asc ''failure reason'') @ enc_string msg @ [101])"
  shows "http_Announce env t r = (t, Error (HttpBencode (ErrNotFilled [asc ''Interval''])))"
proof -
  let ?no = "[asc ''Interval'']"
  have no: "removeAll (asc ''Fail'') ?no = ?no" by (simp add: asc_def)
  note [simp del] = readBenDictStruct.simps decode.simps removeAll.simps
  have "\<exists>r'. readBenDictStruct (decode (Suc m)) (Suc (Suc l)) http_names ?no (hfs [] 0 0 0 None) q =
      (hfs msg 0 0 0 None, r', Some (ErrNotFilled ?no)) \<and> rb_post r' = []"
    if q: "rb_post q = enc_string (asc ''failure reason'') @ enc_string msg @ [101]" for m l q
  proof -
    obtain r1 where "readBenDictStruct (decode (Suc m)) (Suc (Suc l)) http_names ?no (hfs [] 0 0 0 None) q =
        readBenDictStruct (decode (Suc m)) (Suc l) http_names ?no (hfs msg 0 0 0 None) r1" "rb_post r1 = [101]"
      using struct_round [of q _ _ http_names "asc ''Fail''" "hfs [] 0 0 0 None" _ "decode (Suc m)" "VString msg" "[101]" "Suc l" ?no,
        OF q _ http_names_keys(1) hfs_fields(1)] string_read [OF _ assms(2)] by (auto simp: hfs_set no)
    with struct_end [of r1 "[]" "decode (Suc m)" l http_names ?no "hfs msg 0 0 0 None"] show ?thesis by simp
  qed
  from Decode_http [OF this] assms show ?thesis
    by (simp add: http_Announce_def http_announce_def http_fetch_def)
qed

definition ex_http_env :: "bytes \<Rightarrow> unit http_env" where
  "ex_http_env body = \<lparr>he_Parse = (\<lambda>_. Some ()), he_Get = (\<lambda>_ _. Some body), he_ParseIP = (\<lambda>_. None), he_LookupIP = (\<lambda>_. None)\<rparr>"

definition ex_areq :: AnnounceReq where
  "ex_areq = \<lparr>ar_InfoHash = replicate 20 7, ar_PeerID = replicate 20 9, ar_Downloaded = 0, ar_Left = 5, ar_Uploaded = 0, ar_Event = 2,
     ar_IP = 0, ar_Key = 0, ar_Numwant = - 1, ar_Port = 6881\<rparr>"

lemma http_announce_compact_witness:
  "http_Announce (ex_http_env (compact_body 1800 3 2 [10, 0, 0, 1, 26, 225])) \<lparr>ht_url = [], ht_id = None\<rparr> ex_areq =
     (\<lparr>ht_url = [], ht_id = None\<rparr>, Return \<lparr>rs_Interval = 1800, rs_Leechers = 2, rs_Seeders = 3,
        rs_Peers = [\<lparr>pr_ID = None, pr_IP = [10, 0, 0, 1], pr_Port = 6881\<rparr>], rs_MinInterval = 0\<rparr>)"
proof -
  have "cheap_peers [10, 0, 0, 1, 26, 225] = [\<lparr>pr_ID = None, pr_IP = [10, 0, 0, 1], pr_Port = 6881\<rparr>]" by code_simp
  then show ?thesis
    using http_announce_compact [of "ex_http_env (compact_body 1800 3 2 [10, 0, 0, 1, 26, 225])" "\<lparr>ht_url = [], ht_id = None\<rparr>" "()"
      ex_areq 1800 3 2 "[10, 0, 0, 1, 26, 225]"] by (simp add: ex_http_env_def)
qed

text \<open>A tracker that has as many seeders as bytes are left gives one peer; the same request from port 40000 is not answered.\<close>

definition ex_db :: "AnnounceReq \<Rightarrow> int32 \<times> int32 \<times> int32 \<times> bytes" where
  "ex_db r = (1800, ucast (ar_Left r), 2, [10, 0, 0, 1, 26, 225])"

definition ex_tracker_env :: "unit http_env" where
  "ex_tracker_env = (ex_http_env [])\<lparr>he_Get := (\<lambda>_. http_serve ex_db)\<rparr>"

theorem http_announce_agrees_witness:
  "http_Announce ex_tracker_env \<lparr>ht_url = [], ht_id = None\<rparr> ex_areq =
     (\<lparr>ht_url = [], ht_id = None\<rparr>, Return \<lparr>rs_Interval = 1800, rs_Leechers = 2, rs_Seeders = 5,
        rs_Peers = [\<lparr>pr_ID = None, pr_IP = [10, 0, 0, 1], pr_Port = 6881\<rparr>], rs_MinInterval = 0\<rparr>) \<and>
   http_Announce ex_tracker_env \<lparr>ht_url = [], ht_id = None\<rparr> (ex_areq\<lparr>ar_Port := 40000\<rparr>) =
     (\<lparr>ht_url = [], ht_id = None\<rparr>, Error RequestFailed)"
proof -
  have c: "cheap_peers [10, 0, 0, 1, 26, 225] = [\<lparr>pr_ID = None, pr_IP = [10, 0, 0, 1], pr_Port = 6881\<rparr>]" by code_simp
  have d: "ex_db (ex_areq\<lparr>ar_Port := p, ar_IP := 0\<rparr>) = (1800, 5, 2, [10, 0, 0, 1, 26, 225])" for p
    by (simp add: ex_db_def ex_areq_def)
  have e: "ar_Event (ex_areq\<lparr>ar_Port := p\<rparr>) \<in> {0, 1, 2, 3}" "he_Parse ex_tracker_env url = Some ()"
    "he_Get ex_tracker_env () = http_serve ex_db" for p url
    by (simp_all add: ex_areq_def ex_tracker_env_def ex_http_env_def)
  have a: "http_Announce ex_tracker_env \<lparr>ht_url = [], ht_id = None\<rparr> (ex_areq\<lparr>ar_Port := p\<rparr>) =
    (\<lparr>ht_url = [], ht_id = None\<rparr>, if sint (ar_Port (ex_areq\<lparr>ar_Port := p\<rparr>)) < 0 then Error RequestFailed
        else Return \<lparr>rs_Interval = 1800, rs_Leechers = 2, rs_Seeders = 5, rs_Peers = cheap_peers [10, 0, 0, 1, 26, 225], rs_MinInterval = 0\<rparr>)" for p
    by (rule http_announce_agrees [OF e(1,2,3) d]) simp
  have p: "(sint (ar_Port (ex_areq\<lparr>ar_Port := 6881\<rparr>)) < 0) = False" "(sint (ar_Port (ex_areq\<lparr>ar_Port := 40000\<rparr>)) < 0) = True"
    by code_simp+
  have x: "ex_areq\<lparr>ar_Port := 6881\<rparr> = ex_areq" by (simp add: ex_areq_def)
  show ?thesis using a [of 6881] a [of 40000] unfolding p c if_True if_False unfolding x by (rule conjI)
qed

lemma http_failure_lost_witness:
  "http_Announce (ex_http_env (100 # enc_string (asc ''failure reason'') @ enc_string (asc ''banned'') @ [101]))
     \<lparr>ht_url = [], ht_id = None\<rparr> ex_areq = (\<lparr>ht_url = [], ht_id = None\<rparr>, Error (HttpBencode (ErrNotFilled [asc ''Interval''])))"
  by (rule http_failure_lost [where u = "()" and msg = "asc ''banned''"]) (simp_all add: ex_http_env_def)

end
