(* ===== verification/Client.thy ===== *)
theory Client
  imports Torrent Tracker_Http Handshake
begin

text \<open>
  The client (\<open>torrent/client.go\<close>): its table of torrents and its black list behind one mutex; making
  connections (\<open>torrent/net.go\<close>); and the goroutine that announces to trackers
  (\<open>torrent/tracker_announcer.go\<close>). A TCP connection is the stream of the handshake model; the parsers
  of \<open>net\<close> are parameters. The mutex is not reentrant: locking it while nobody will unlock it never
  returns.
\<close>

section \<open>Addresses\<close>

text \<open>The parsers of addresses: \<open>net.SplitHostPort\<close> and \<open>net.ParseIP\<close>.\<close>

record net_lib =
  SplitHostPort :: "bytes \<Rightarrow> (bytes \<times> bytes) option"
  ParseIP :: "bytes \<Rightarrow> bytes option"

record addrPort =
  ap_ip :: bytes
  ap_port :: "16 word"

definition To4 :: "bytes \<Rightarrow> bytes" where
  "To4 ip = (let n = ip_norm ip in if length n = 4 then n else [])"

definition ParseUint16 :: "bytes \<Rightarrow> nat option" where
  "ParseUint16 s = (case ParseUint s of (n, None) \<Rightarrow> if n < 2 ^ 16 then Some n else None | _ \<Rightarrow> None)"

text \<open>An address that is not numeric is answered with two nil values.\<close>

definition parseAddr :: "net_lib \<Rightarrow> bytes \<Rightarrow> (unit, addrPort option) outcome" where
  "parseAddr net address =
     (case SplitHostPort net address of
        None \<Rightarrow> Error ()
      | Some (shost, sport) \<Rightarrow>
          (case ParseUint16 sport of
             None \<Rightarrow> Error ()
           | Some port \<Rightarrow>
               (case ParseIP net shost of
                  None \<Rightarrow> Return None
                | Some ip \<Rightarrow> Return (Some \<lparr>ap_ip = To4 ip, ap_port = of_nat port\<rparr>))))"

definition addrToPeer :: "net_lib \<Rightarrow> bytes \<Rightarrow> PeerSource \<Rightarrow> (unit, xpeer) outcome" where
  "addrToPeer net address source =
     (case parseAddr net address of
        Panic p \<Rightarrow> Panic p
      | Error _ \<Rightarrow> Panic (PanicMsg ''parseAddr'')
      | Return None \<Rightarrow> Panic NilDereference
      | Return (Some ap) \<Rightarrow> Return \<lparr>xp_P = \<lparr>pr_ID = None, pr_IP = ap_ip ap, pr_Port = ap_port ap\<rparr>, xp_Source = source\<rparr>)"

section \<open>The client\<close>

text \<open>\<open>-CH0001-\<close> and twelve random bytes.\<close>

definition newPeerID :: "bytes \<Rightarrow> bytes" where
  "newPeerID rbytes = take 20 (asc ''-CH0001-'' @ rbytes @ replicate 20 0)"

record 'bm client =
  cl_peerID :: bytes
  cl_reserved :: bytes
  cl_port :: int
  cl_mu :: bool
  cl_closed :: bool
  cl_dhtServer :: "bool option"
  cl_blackList :: "bytes list"
  cl_torrents :: "(bytes \<times> 'bm torrent) list"

text \<open>Ports 6881 to 6889 are tried first, then any port; \<open>free\<close> tells of a port whether it can be listened on.\<close>

definition listen :: "(int \<Rightarrow> bool) \<Rightarrow> int option \<Rightarrow> int option" where
  "listen free other = (case find free [6881..6889] of Some i \<Rightarrow> Some i | None \<Rightarrow> other)"

record client_cfg =
  MaxOnFlightReqs :: int
  MaxEstablishedConns :: int
  RejectIncomingConnections :: bool
  DisableTrackers :: bool
  DisableDHT :: bool
  BaseDir :: bytes

text \<open>\<open>wd\<close> is the working directory. The selector, the storage and the time limits are those of the model.\<close>

definition DefaultConfig :: "bytes option \<Rightarrow> (unit, client_cfg) outcome" where
  "DefaultConfig wd =
     (case wd of
        None \<Rightarrow> Error ()
      | Some dir \<Rightarrow> Return \<lparr>MaxOnFlightReqs = 250, MaxEstablishedConns = 55, RejectIncomingConnections = False,
          DisableTrackers = False, DisableDHT = False, BaseDir = dir\<rparr>)"

text \<open>
  Without a port to listen on the process ends; rejecting incoming connections disables the DHT. The
  log file and the DHT server are taken to be created; \<open>cl_dhtServer\<close> tells of the server, if there is
  one, whether it runs.
\<close>

definition NewClient :: "client_cfg \<Rightarrow> bytes \<Rightarrow> (int \<Rightarrow> bool) \<Rightarrow> int option \<Rightarrow> (unit, 'bm client) outcome" where
  "NewClient cfg rbytes free other =
     (let port = (if RejectIncomingConnections cfg then Some 0 else listen free other);
          dht = \<not> (DisableDHT cfg \<or> RejectIncomingConnections cfg);
          reserved = SetExtended (if dht then SetDHT (replicate 8 0) else replicate 8 0)
      in case port of
           None \<Rightarrow> Panic (PanicMsg ''could not find port to listen'')
         | Some p \<Rightarrow> Return \<lparr>cl_peerID = newPeerID rbytes, cl_reserved = reserved, cl_port = p, cl_mu = False, cl_closed = False,
             cl_dhtServer = (if dht then Some True else None), cl_blackList = [], cl_torrents = []\<rparr>)"

datatype client_error = ParseFailed | TorrentExists | NoTorrent

type_synonym ('bm, 'a) clact = "'bm client \<Rightarrow> 'bm client \<times> (client_error, 'a) outcome"

text \<open>\<open>cl.mu.Lock()\<close>\<close>

definition cl_lock :: "('bm client \<Rightarrow> 'bm client \<times> (client_error, 'a) outcome) \<Rightarrow> ('bm, 'a) clact" where
  "cl_lock m cl = (if cl_mu cl then (cl, Panic (PanicMsg ''deadlock'')) else m (cl\<lparr>cl_mu := True\<rparr>))"

definition cl_unlock :: "'bm client \<Rightarrow> 'bm client" where
  "cl_unlock cl = cl\<lparr>cl_mu := False\<rparr>"

text \<open>
  \<open>parsed\<close> is what the parser returned, \<open>None\<close> for nil. A torrent that exists already is left with its
  main loop running, and the mutex locked.
\<close>

definition AddFromParser :: "'bm tcfg \<Rightarrow> (unit, meta_info option) outcome \<Rightarrow> storage \<Rightarrow> ('bm, 'bm torrent) clact" where
  "AddFromParser k parsed st cl =
     (case parsed of
        Panic p \<Rightarrow> (cl, Panic p)
      | Error _ \<Rightarrow> (cl, Error ParseFailed)
      | Return None \<Rightarrow> (cl, Panic NilDereference)
      | Return (Some mi) \<Rightarrow>
          (case mi_Info mi of
             None \<Rightarrow> (cl, Panic NilDereference)
           | Some i \<Rightarrow>
               (case startTorrent k mi (cl_blackList cl) st of
                  (_, Panic p) \<Rightarrow> (cl, Panic p)
                | (t, _) \<Rightarrow>
                    cl_lock (\<lambda>cl. let ihash = id_hash i
                      in if map_of (cl_torrents cl) ihash \<noteq> None then (cl, Error TorrentExists)
                         else (cl_unlock (cl\<lparr>cl_torrents := (ihash, t) # cl_torrents cl\<rparr>), Return t)) cl)))"

definition dropTorrent :: "bytes \<Rightarrow> ('bm, unit) clact" where
  "dropTorrent infohash = cl_lock (\<lambda>cl.
     if map_of (cl_torrents cl) infohash = None then (cl_unlock cl, Error NoTorrent)
     else (cl_unlock (cl\<lparr>cl_torrents := filter (\<lambda>(h, _). h \<noteq> infohash) (cl_torrents cl)\<rparr>), Return ()))"

definition Torrents :: "('bm, 'bm torrent list) clact" where
  "Torrents = cl_lock (\<lambda>cl. (cl_unlock cl, Return (map snd (cl_torrents cl))))"

text \<open>A torrent can be added from a file, whose content is \<open>file\<close>, a magnet link or an info hash.\<close>

definition AddFromFile :: "'bm tcfg \<Rightarrow> bytes option \<Rightarrow> storage \<Rightarrow> ('bm, 'bm torrent) clact" where
  "AddFromFile k file = AddFromParser k (FileParser_Parse (tk_sha1 k) file)"

definition AddFromMagnet :: "'bm tcfg \<Rightarrow> (bytes \<Rightarrow> (bytes \<times> bytes) option) \<Rightarrow> bytes \<Rightarrow> storage \<Rightarrow> ('bm, 'bm torrent) clact" where
  "AddFromMagnet k url_parse uri = AddFromParser k (Magnet_Parse url_parse uri)"

definition AddFromInfoHash :: "'bm tcfg \<Rightarrow> bytes \<Rightarrow> storage \<Rightarrow> ('bm, 'bm torrent) clact" where
  "AddFromInfoHash k infohash = AddFromParser k (Return (Some (InfoHash_Parse infohash)))"

text \<open>
  \<open>Torrent.Close\<close> waits until the main loop of the torrent takes the caller's channel, closes the torrent,
  which waits for its connections, and removes it from its client. It does nothing when the torrent is
  closed already.
\<close>

definition Torrent_Close :: "'bm tcfg \<Rightarrow> 'bm torrent \<Rightarrow> ('bm, unit) clact" where
  "Torrent_Close k t cl =
     (if \<not> t_isClosed t \<and> tk_busy k (id_hash (t_info t)) then (cl, Panic (PanicMsg ''deadlock''))
      else case snd (Close k t) of
        Panic p \<Rightarrow> (cl, Panic p)
      | Return None \<Rightarrow>
          (case dropTorrent (id_hash (t_info t)) cl of (cl', Panic p) \<Rightarrow> (cl', Panic p) | (cl', _) \<Rightarrow> (cl', Return ()))
      | _ \<Rightarrow> (cl, Return ()))"

text \<open>
  The goroutines of \<open>Client.Close\<close>, one for each torrent, in some order. One that never returns does not
  hold up the others, but \<open>wg.Wait\<close> then waits forever; one that panics ends the process. A goroutine
  works on its own torrent, and on the client only under the mutex, so that their steps can be taken one
  goroutine after another.
\<close>

fun close_torrents :: "'bm tcfg \<Rightarrow> 'bm torrent list \<Rightarrow> ('bm, unit) clact" where
  "close_torrents k [] cl = (cl, Return ())"
| "close_torrents k (t # ts) cl =
     (case Torrent_Close k t cl of
        (cl', Return _) \<Rightarrow> close_torrents k ts cl'
      | (cl', Error e) \<Rightarrow> (cl', Error e)
      | (cl', Panic p) \<Rightarrow>
          if p \<noteq> PanicMsg ''deadlock'' then (cl', Panic p)
          else (case close_torrents k ts cl' of
                  (cl'', Return _) \<Rightarrow> (cl'', Panic (PanicMsg ''deadlock''))
                | (cl'', r) \<Rightarrow> (cl'', r)))"

text \<open>\<open>order\<close> is the order of the goroutines, as positions in the list of torrents.\<close>

definition cl_Close :: "'bm tcfg \<Rightarrow> nat list \<Rightarrow> ('bm, unit) clact" where
  "cl_Close k order cl =
     (if cl_closed cl then (cl, Panic (PanicMsg ''close of closed channel''))
      else case Torrents (cl\<lparr>cl_closed := True, cl_dhtServer := map_option (\<lambda>_. False) (cl_dhtServer cl)\<rparr>) of
             (cl', Return ts) \<Rightarrow> close_torrents k (map ((!) ts) order) cl'
           | (cl', Error e) \<Rightarrow> (cl', Error e)
           | (cl', Panic p) \<Rightarrow> (cl', Panic p))"

text \<open>\<open>addr\<close> is the address of the DHT server.\<close>

definition dhtPort :: "net_lib \<Rightarrow> bytes \<Rightarrow> (unit, 16 word) outcome" where
  "dhtPort net address =
     (case parseAddr net address of
        Panic p \<Rightarrow> Panic p
      | Error _ \<Rightarrow> Panic (PanicMsg ''parseAddr'')
      | Return None \<Rightarrow> Panic NilDereference
      | Return (Some ap) \<Rightarrow> Return (ap_port ap))"

definition cl_banIP :: "bytes \<Rightarrow> ('bm, unit) clact" where
  "cl_banIP ip = cl_lock (\<lambda>cl. (cl_unlock (cl\<lparr>cl_blackList := cl_blackList cl @ [ip]\<rparr>), Return ()))"

definition cl_containsInBlackList :: "bytes \<Rightarrow> ('bm, bool) clact" where
  "cl_containsInBlackList ip = cl_lock (\<lambda>cl. (cl_unlock cl, Return (list_ex (\<lambda>addr. ip_Equal addr ip) (cl_blackList cl))))"

section \<open>Connections\<close>

datatype net_error = HsFailed hs_error | WrongPeerID | UnknownInfoHash | DialFailed | ExtFailed conn_err

definition cl_handshake :: "HandShake \<Rightarrow> rw \<Rightarrow> xpeer \<Rightarrow> rw \<times> (net_error, HandShake) outcome" where
  "cl_handshake hs c peer =
     (case hs_Do hs c of
        (_, c', Panic p) \<Rightarrow> (c', Panic p)
      | (_, c', Error e) \<Rightarrow> (c', Error (HsFailed e))
      | (_, c', Return hs') \<Rightarrow>
          if pr_ID (xp_P peer) \<noteq> None \<and> pr_ID (xp_P peer) \<noteq> Some (PeerID hs') then (c', Error WrongPeerID) else (c', Return hs'))"

definition maybeSendExtHandshake :: "bytes \<Rightarrow> 'bm torrent \<Rightarrow> ('bm conn, unit) act" where
  "maybeSendExtHandshake own t c =
     (if \<not> SupportExtended (c_reserved c) \<or> \<not> SupportExtended own then ret () c
      else sendMsgToPeer (extensionHandshakeMsg (case uts_correct (t_uts t) of None \<Rightarrow> 0 | Some ut \<Rightarrow> int (length (infoBytes ut)))) c)"

text \<open>A new connection of a torrent, whose pieces it shares once they exist.\<close>

definition conn_of :: "'bm tcfg \<Rightarrow> 'bm torrent \<Rightarrow> bytes \<Rightarrow> 'bm conn" where
  "conn_of k t reserved = newConn (tk_bm k) reserved
     (case t_pieces t of Some p \<Rightarrow> p
      | None \<Rightarrow> \<lparr>ownedPieces = bm_zero (tk_bm k), pcs = [], selector = nextRand, endGame = False, ps_downloadEnabled = False\<rparr>)
     (t_uts t) (t_storage t)"

definition established :: "'bm tcfg \<Rightarrow> 'bm client \<Rightarrow> 'bm torrent \<Rightarrow> HandShake \<Rightarrow> (net_error, 'bm conn) outcome" where
  "established k cl t hs =
     (case maybeSendExtHandshake (cl_reserved cl) t (conn_of k t (Reserved hs)) of
        (c, Return _) \<Rightarrow> Return c | (c, Error e) \<Rightarrow> Error (ExtFailed e) | (c, Panic p) \<Rightarrow> Panic p)"

text \<open>\<open>tcp\<close> is the dialled stream, \<open>None\<close> when dialling failed.\<close>

definition dial :: "'bm tcfg \<Rightarrow> 'bm client \<Rightarrow> 'bm torrent \<Rightarrow> xpeer \<Rightarrow> rw option \<Rightarrow> rw option \<times> (net_error, 'bm conn) outcome" where
  "dial k cl t peer tcp =
     (case tcp of
        None \<Rightarrow> (None, Error DialFailed)
      | Some c \<Rightarrow>
          (case cl_handshake \<lparr>Reserved = cl_reserved cl, InfoHash = id_hash (t_info t), PeerID = cl_peerID cl\<rparr> c peer of
             (c', Panic p) \<Rightarrow> (Some c', Panic p)
           | (c', Error e) \<Rightarrow> (Some c', Error e)
           | (c', Return hs) \<Rightarrow> (Some c', established k cl t hs)))"

definition Accept :: "'bm tcfg \<Rightarrow> 'bm client \<Rightarrow> xpeer \<Rightarrow> rw \<Rightarrow> rw \<times> (net_error, bytes \<times> 'bm conn) outcome" where
  "Accept k cl peer c =
     (case cl_handshake \<lparr>Reserved = cl_reserved cl, InfoHash = replicate 20 0, PeerID = cl_peerID cl\<rparr> c peer of
        (c', Panic p) \<Rightarrow> (c', Panic p)
      | (c', Error e) \<Rightarrow> (c', Error e)
      | (c', Return hs) \<Rightarrow>
          if cl_mu cl then (c', Panic (PanicMsg ''deadlock''))
          else (case map_of (cl_torrents cl) (InfoHash hs) of
                  None \<Rightarrow> (c', Error UnknownInfoHash)
                | Some t \<Rightarrow> (c', obind (established k cl t hs) (\<lambda>cn. Return (InfoHash hs, cn)))))"

text \<open>What the torrent is told about a connection.\<close>

definition conn_connInfo :: "'bm tcfg \<Rightarrow> xpeer \<Rightarrow> 'bm conn \<Rightarrow> 'bm connInfo" where
  "conn_connInfo k peer c = \<lparr>ci_peer = peer, ci_reserved = c_reserved c, ci_peerBf = bm_zero (tk_bm k), numWant = 0,
     ci_state = c_state c, ci_sent = []\<rparr>"

text \<open>
  A connection is handed to its torrent, unless that has closed or does not take it within a minute;
  when it has ended, a peer that misbehaved is banned. \<open>finished\<close> is the connection after its main loop.
\<close>

datatype inform = Informed | TorrentDropped | InformTimeout

definition runConnection :: "inform \<Rightarrow> xpeer \<Rightarrow> 'bm conn \<Rightarrow> ('bm, unit) clact" where
  "runConnection res peer finished cl =
     (if res \<noteq> Informed then (cl, Return ())
      else if c_ban finished then cl_banIP (peerIP peer) cl else (cl, Return ()))"

text \<open>
  What an attempt to connect to a peer makes the torrent do: it forgets the half-open connection,
  whatever became of it, and is told about the connection if there is one.
\<close>

definition makeOutgoingConnection :: "'bm tcfg \<Rightarrow> 'bm client \<Rightarrow> 'bm torrent \<Rightarrow> xpeer \<Rightarrow> rw option \<Rightarrow> (net_error, 'bm tevent list) outcome" where
  "makeOutgoingConnection k cl t peer tcp =
     (case snd (dial k cl t peer tcp) of
        Panic p \<Rightarrow> Panic p
      | Error _ \<Rightarrow> Return [HalfOpenDone peer]
      | Return c \<Rightarrow> Return [HalfOpenDone peer, NewConn (conn_connInfo k peer c)])"

text \<open>A round of \<open>acceptForEver\<close>: the torrent that is told about the connection, and what; an error is logged only.\<close>

definition acceptOnce :: "net_lib \<Rightarrow> 'bm tcfg \<Rightarrow> 'bm client \<Rightarrow> bytes \<Rightarrow> rw \<Rightarrow> (net_error, (bytes \<times> 'bm tevent) option) outcome" where
  "acceptOnce net k cl remote tcp =
     (case addrToPeer net remote SourceIncoming of
        Panic p \<Rightarrow> Panic p
      | Error _ \<Rightarrow> Return None
      | Return peer \<Rightarrow>
          (case snd (Accept k cl peer tcp) of
             Panic p \<Rightarrow> Panic p
           | Error _ \<Rightarrow> Return None
           | Return (ih, c) \<Rightarrow> Return (Some (ih, NewConn (conn_connInfo k peer c)))))"

section \<open>Announcing\<close>

record ann_url =
  au_tu :: tracker
  numAnnounces :: int

text \<open>\<open>ann\<close> is the method \<open>Announce\<close> of the interface \<open>TrackerURL\<close>.\<close>

type_synonym ann_method = "tracker \<Rightarrow> AnnounceReq \<Rightarrow> tracker \<times> AnnounceResp option"

definition au_Announce :: "ann_method \<Rightarrow> ann_url \<Rightarrow> AnnounceReq \<Rightarrow> ann_url \<times> AnnounceReq \<times> AnnounceResp option" where
  "au_Announce ann u req =
     (let req' = (if ar_Event req = 0 \<and> numAnnounces u = 0 then req\<lparr>ar_Event := 2\<rparr> else req)
      in case ann (au_tu u) req' of (tu, resp) \<Rightarrow> (\<lparr>au_tu = tu, numAnnounces = numAnnounces u + 1\<rparr>, req', resp))"

type_synonym announcer = "(bytes \<times> ann_url) list"

definition event_code :: "tr_event \<Rightarrow> int32" where
  "event_code ev = (case ev of EvNone \<Rightarrow> 0 | EvCompleted \<Rightarrow> 1)"

definition announce_req :: "'bm client \<Rightarrow> 'bm torrent \<Rightarrow> tr_event \<Rightarrow> tstats \<Rightarrow> AnnounceReq" where
  "announce_req cl t ev stats =
     \<lparr>ar_InfoHash = id_hash (t_info t), ar_PeerID = cl_peerID cl, ar_Downloaded = of_int (BytesDownloaded stats),
      ar_Left = of_int (BytesLeft stats), ar_Uploaded = of_int (BytesUploaded stats), ar_Event = event_code ev, ar_IP = 0, ar_Key = 0,
      ar_Numwant = 200, ar_Port = of_int (cl_port cl)\<rparr>"

text \<open>The trackers are kept by their URL; the result also has the request that was sent.\<close>

definition newTrackerURL :: "(bytes \<Rightarrow> (bytes \<times> bytes) option) \<Rightarrow> bytes \<Rightarrow> ann_url option" where
  "newTrackerURL parse url = map_option (\<lambda>tu. \<lparr>au_tu = tu, numAnnounces = 0\<rparr>) (NewTrackerURL parse url)"

definition announce :: "(bytes \<Rightarrow> (bytes \<times> bytes) option) \<Rightarrow> ann_method \<Rightarrow> 'bm client \<Rightarrow> announcer \<Rightarrow> 'bm torrent \<Rightarrow> tr_event \<Rightarrow> tstats
    \<Rightarrow> announcer \<times> (AnnounceReq \<times> AnnounceResp option) option" where
  "announce parse ann cl trackers t ev stats =
     (let url = mi_Announce (t_mi t);
          entry = (case map_of trackers url of
                     Some u \<Rightarrow> Some u
                   | None \<Rightarrow> newTrackerURL parse url)
      in case entry of
           None \<Rightarrow> (trackers, None)
         | Some u \<Rightarrow>
             (case au_Announce ann u (announce_req cl t ev stats) of
                (u', req, resp) \<Rightarrow> (AList.update url u' trackers, Some (req, resp))))"

text \<open>
  The announcer's goroutine (\<open>run\<close>) on the events submitted by all torrents, \<open>None\<close> when the client is
  closed: the announcer and what is sent back, with the URL of the tracker.
\<close>

fun announcer_run :: "(bytes \<Rightarrow> (bytes \<times> bytes) option) \<Rightarrow> ann_method \<Rightarrow> 'bm client \<Rightarrow> announcer \<Rightarrow> ('bm torrent \<times> tr_event \<times> tstats) option list
    \<Rightarrow> announcer \<times> (bytes \<times> (AnnounceReq \<times> AnnounceResp option) option) list" where
  "announcer_run parse ann cl trs [] = (trs, [])"
| "announcer_run parse ann cl trs (None # es) = (trs, [])"
| "announcer_run parse ann cl trs (Some (t, ev, stats) # es) =
     (case announce parse ann cl trs t ev stats of
        (trs1, r) \<Rightarrow> (case announcer_run parse ann cl trs1 es of (trs2, rs) \<Rightarrow> (trs2, (mi_Announce (t_mi t), r) # rs)))"

definition ListenPort :: "'bm client \<Rightarrow> int" where "ListenPort cl = cl_port cl"

definition ID :: "'bm client \<Rightarrow> bytes" where "ID cl = cl_peerID cl"

end
