(* ===== verification/Client_Correct.thy ===== *)
theory Client_Correct
  imports Client Wire_Correct Torrent_Theorems
begin

text \<open>
  Properties of the client: two clients that manage the same torrent connect to each other; the
  table of torrents; the mutex that adding a torrent twice leaves locked; the events announced to a
  tracker that several torrents share.
\<close>

section \<open>Connecting\<close>

text \<open>What \<open>NewClient\<close> sets up and nothing changes.\<close>

definition client_ok :: "'bm client \<Rightarrow> bool" where
  "client_ok cl \<longleftrightarrow> length (cl_peerID cl) = 20 \<and> length (cl_reserved cl) = 8 \<and> SupportExtended (cl_reserved cl)"

lemma NewClient_ok: "NewClient cfg rbytes free other = Return cl \<Longrightarrow> client_ok cl \<and> \<not> cl_mu cl"
  by (auto simp: NewClient_def Let_def client_ok_def newPeerID_def SetExtended_def SetDHT_def SupportExtended_def asc_def
      split: option.splits)

definition own_size :: "'bm torrent \<Rightarrow> int" where
  "own_size t = (case uts_correct (t_uts t) of None \<Rightarrow> 0 | Some ut \<Rightarrow> int (length (infoBytes ut)))"

lemma own_handshake_encodes: "fits_signed 64 sz \<Longrightarrow> \<exists>b. msg_Encode (extensionHandshakeMsg sz) = Return b"
proof -
  assume "fits_signed 64 sz"
  from encode_rt [OF rt_own [OF this]] obtain e where "encode (VMap True TIface (Some (own_dict sz))) = Inr e" by blast
  moreover have "encode (VIface (Some v)) = encode v" for v by simp
  ultimately have "encode (ext_val (ExtendedMsg (extensionHandshakeMsg sz))) = Inr e"
    by (simp add: extensionHandshakeMsg_def encode_own del: encode.simps)
  then have "writeExtension (extensionHandshakeMsg sz) = Return e"
    by (intro writeExtension_0) (simp_all add: extensionHandshakeMsg_def)
  then show ?thesis by (simp add: msg_Encode_def msg_body_def extensionHandshakeMsg_def)
qed

lemma established_ok:
  assumes "client_ok cl" "SupportExtended (Reserved hs)" "fits_signed 64 (own_size t)"
  shows "\<exists>c. established k cl t hs = Return c \<and> c_reserved c = Reserved hs \<and> c_out c = [extensionHandshakeMsg (own_size t)]"
  using assms own_handshake_encodes [OF assms(3)]
  by (auto simp: established_def maybeSendExtHandshake_def conn_of_def newConn_def sendMsgToPeer_def client_ok_def own_size_def [symmetric])

text \<open>
  C28. Two clients connect. A client that manages a torrent dials a peer, and the peer, a client that
  manages a torrent with the same info hash, accepts; each reads what the other wrote. Both obtain a
  connection with the other side's reserved bytes and send their extension handshake as its first
  message, with the size of the info dictionary if they have it; the accepting client assigns the
  connection to the torrent of that hash, and to none if it does not manage it.
\<close>

theorem clients_connect:
  fixes A B :: "'bm client"
  assumes "client_ok A" "client_ok B" "\<not> cl_mu B" "length h = 20" "h \<noteq> replicate 20 0" "id_hash (t_info ta) = h"
    "pr_ID (xp_P peer) = None \<or> pr_ID (xp_P peer) = Some (cl_peerID B)" "pr_ID (xp_P peer') = None"
    "fits_signed 64 (own_size ta)" "\<And>tb. map_of (cl_torrents B) h = Some tb \<Longrightarrow> fits_signed 64 (own_size tb)"
  defines "hsA \<equiv> \<lparr>Reserved = cl_reserved A, InfoHash = h, PeerID = cl_peerID A\<rparr>"
    and "hsB \<equiv> \<lparr>Reserved = cl_reserved B, InfoHash = h, PeerID = cl_peerID B\<rparr>"
  shows "(\<exists>ca. dial k A ta peer (Some \<lparr>rx = hs_bytes hsB, tx = [], rw_open = True\<rparr>) =
        (Some \<lparr>rx = [], tx = hs_bytes hsA, rw_open = True\<rparr>, Return ca) \<and>
        c_reserved ca = cl_reserved B \<and> c_out ca = [extensionHandshakeMsg (own_size ta)]) \<and>
    (case map_of (cl_torrents B) h of
       None \<Rightarrow> snd (Accept k B peer' \<lparr>rx = hs_bytes hsA, tx = [], rw_open = True\<rparr>) = Error UnknownInfoHash
     | Some tb \<Rightarrow> (\<exists>cb. Accept k B peer' \<lparr>rx = hs_bytes hsA, tx = [], rw_open = True\<rparr> =
        (\<lparr>rx = [], tx = hs_bytes hsB, rw_open = True\<rparr>, Return (h, cb)) \<and>
        c_reserved cb = cl_reserved A \<and> c_out cb = [extensionHandshakeMsg (own_size tb)]))"
proof -
  let ?r = "\<lparr>Reserved = cl_reserved B, InfoHash = replicate 20 0, PeerID = cl_peerID B\<rparr>"
  have ok: "hs_ok hsA" "hs_ok ?r" using assms(1,2,4) by (auto simp: hs_ok_def client_ok_def hsA_def)
  have ih: "InfoHash hsA = h" by (simp add: hsA_def)
  have rB: "?r\<lparr>InfoHash := InfoHash hsA\<rparr> = hsB" by (simp add: hsA_def hsB_def)
  note hs = handshake_agreement [OF ok, unfolded rB ih, simplified, OF assms(5)]
  have "SupportExtended (Reserved hsA)" "SupportExtended (Reserved hsB)" using assms(1,2) by (auto simp: client_ok_def hsA_def hsB_def)
  note ea = established_ok [OF assms(1) this(2) assms(9), of k] and eb = established_ok [OF assms(2) this(1) assms(10), of _ k]
  show ?thesis
    using hs assms(3,6,7,8) ea eb
    by (auto simp: dial_def Accept_def cl_handshake_def hsA_def hsB_def split: option.split)
qed

section \<open>The table of torrents\<close>

lemma lock_blocks: "cl_mu cl \<Longrightarrow> cl_lock m cl = (cl, Panic (PanicMsg ''deadlock''))"
  by (simp add: cl_lock_def)

text \<open>
  C38. Adding a torrent: a torrent with a new info hash enters the table and can be removed again,
  which restores the table, and the mutex is free; a torrent whose info hash the client manages
  already is refused with an error, but the mutex stays locked: after that no operation on the
  client returns, neither listing or removing torrents nor the look into the black list that every
  torrent makes before it dials (the finding on \<open>AddFromParser\<close>).
\<close>

theorem AddFromParser_table:
  assumes "\<not> cl_mu cl" "mi_Info mi = Some i" "startTorrent k mi (cl_blackList cl) st = (t, Return ())"
  shows "case map_of (cl_torrents cl) (id_hash i) of
      None \<Rightarrow> (\<exists>cl'. AddFromParser k (Return (Some mi)) st cl = (cl', Return t) \<and> map_of (cl_torrents cl') (id_hash i) = Some t \<and>
        dropTorrent (id_hash i) cl' = (cl, Return ()))
    | Some _ \<Rightarrow> (\<exists>cl'. AddFromParser k (Return (Some mi)) st cl = (cl', Error TorrentExists) \<and>
        Torrents cl' = (cl', Panic (PanicMsg ''deadlock'')) \<and> dropTorrent ih cl' = (cl', Panic (PanicMsg ''deadlock'')) \<and>
        cl_banIP ip cl' = (cl', Panic (PanicMsg ''deadlock'')) \<and> cl_containsInBlackList ip cl' = (cl', Panic (PanicMsg ''deadlock'')))"
proof (cases "map_of (cl_torrents cl) (id_hash i)")
  case None
  then have "filter (\<lambda>(h, _). h \<noteq> id_hash i) (cl_torrents cl) = cl_torrents cl"
    by (auto simp: filter_id_conv map_of_eq_None_iff image_iff)
  with None assms show ?thesis
    by (simp add: AddFromParser_def cl_lock_def cl_unlock_def dropTorrent_def Let_def)
next
  case (Some t')
  with assms show ?thesis
    by (simp add: AddFromParser_def cl_lock_def Let_def Torrents_def dropTorrent_def cl_banIP_def cl_containsInBlackList_def)
qed









section \<open>Events of a shared tracker\<close>

definition announcer_ok :: "announcer \<Rightarrow> bool" where
  "announcer_ok trs \<longleftrightarrow> (\<forall>url u. map_of trs url = Some u \<longrightarrow> 0 < numAnnounces u)"

lemma announce_step:
  assumes "announcer_ok trs" "announce parse ann cl trs t ev stats = (trs', Some (req, resp))"
  shows "announcer_ok trs' \<and> map_of trs' (mi_Announce (t_mi t)) \<noteq> None \<and>
    ar_Event req = (if ev = EvNone \<and> map_of trs (mi_Announce (t_mi t)) = None then 2 else event_code ev)"
proof -
  let ?url = "mi_Announce (t_mi t)"
  obtain u u' where u: "(case map_of trs ?url of Some u \<Rightarrow> Some u
      | None \<Rightarrow> newTrackerURL parse ?url) = Some u"
    and a: "au_Announce ann u (announce_req cl t ev stats) = (u', req, resp)" and t: "trs' = AList.update ?url u' trs"
    using assms(2) by (auto simp: announce_def Let_def split: option.splits prod.splits)
  have pos: "0 < numAnnounces u" if "map_of trs ?url = Some u" using assms(1) that unfolding announcer_ok_def by blast
  have n: "numAnnounces u = 0 \<longleftrightarrow> map_of trs ?url = None" "0 \<le> numAnnounces u"
    using u pos by (auto simp: newTrackerURL_def split: option.splits)
  have "numAnnounces u' = numAnnounces u + 1" "ar_Event req = (if ev = EvNone \<and> numAnnounces u = 0 then 2 else event_code ev)"
    using a by (auto simp: au_Announce_def Let_def announce_req_def event_code_def split: prod.splits tr_event.splits)
  with n t assms(1) show ?thesis by (auto simp: announcer_ok_def update_conv')
qed

text \<open>Whatever the torrents submit, a tracker gets the event \<open>started\<close> at most once, and first.\<close>

fun started :: "bytes \<Rightarrow> bytes \<times> (AnnounceReq \<times> AnnounceResp option) option \<Rightarrow> bool" where
  "started url (u, Some (req, resp)) = (u = url \<and> ar_Event req = 2)"
| "started url (u, None) = False"

lemma announce_table:
  assumes "announce parse ann cl trs t ev stats = (trs', r)"
  shows "url \<noteq> mi_Announce (t_mi t) \<Longrightarrow> map_of trs' url = map_of trs url" "r = None \<Longrightarrow> trs' = trs"
  using assms by (auto simp: announce_def Let_def update_conv' split: option.splits prod.splits)

lemma announcer_run_started:
  "announcer_ok trs \<Longrightarrow>
   length (filter (started url) (snd (announcer_run parse ann cl trs es))) \<le> (if map_of trs url = None then 1 else 0)"
proof (induction parse ann cl trs es rule: announcer_run.induct)
  case (3 parse ann cl trs t ev stats es)
  obtain trs1 r where a: "announce parse ann cl trs t ev stats = (trs1, r)" by fastforce
  note tab = announce_table(1) [OF a, of url] announce_table(2) [OF a]
  show ?case
  proof (cases r)
    case None
    with 3 a tab show ?thesis by (auto split: prod.splits)
  next
    case (Some x)
    obtain req resp where r: "r = Some (req, resp)" using Some by (cases x) auto
    from announce_step [OF "3.prems" a [unfolded r]] 3(1) [OF a [symmetric]] tab r a show ?thesis
      by (cases "url = mi_Announce (t_mi t)") (auto simp: event_code_def split: prod.splits if_splits tr_event.splits)
  qed
qed simp_all

text \<open>
  The finding on the event \<open>started\<close>: the announcer counts announces by the tracker's URL. The
  first announce to a tracker goes out as \<open>started\<close>; a second torrent with the same tracker is never
  announced as started, although the tracker has not heard of it.
\<close>

lemma second_torrent_not_started:
  assumes "announcer_ok trs" "map_of trs (mi_Announce (t_mi t)) = None"
    "announce parse ann cl trs t EvNone stats = (trs1, Some (req1, resp1))"
    "mi_Announce (t_mi t2) = mi_Announce (t_mi t)"
    "announce parse ann cl trs1 t2 EvNone stats2 = (trs2, Some (req2, resp2))"
  shows "ar_Event req1 = 2 \<and> ar_Event req2 = 0 \<and> announcer_ok trs2"
  using announce_step [OF assms(1,3)] announce_step [OF _ assms(5)] assms(2,4) by (simp add: event_code_def)

section \<open>Examples\<close>

definition ex_client :: "int list client" where
  "ex_client = \<lparr>cl_peerID = newPeerID (replicate 12 5), cl_reserved = SetExtended (replicate 8 0), cl_port = 6881, cl_mu = False, cl_closed = False,
     cl_dhtServer = None,     cl_blackList = [[10, 0, 0, 3]], cl_torrents = [(replicate 20 7, ex_t0)]\<rparr>"

lemma ex_client_ok: "client_ok ex_client" "\<not> cl_mu ex_client"
  by (simp_all add: client_ok_def ex_client_def newPeerID_def SetExtended_def SupportExtended_def asc_def)

theorem clients_connect_witness:
  "\<exists>ca. snd (dial ex_tcfg ex_client ex_t0 (ex_xpeer 9) (Some \<lparr>rx = hs_bytes \<lparr>Reserved = cl_reserved ex_client, InfoHash = replicate 20 7,
     PeerID = cl_peerID ex_client\<rparr>, tx = [], rw_open = True\<rparr>)) = Return ca \<and> c_out ca = [extensionHandshakeMsg 0]"
proof -
  have h: "id_hash (t_info ex_t0) = replicate 20 7" by code_simp
  have p: "pr_ID (xp_P (ex_xpeer 9)) = None" by (simp add: ex_xpeer_def)
  have z: "own_size ex_t0 = 0" by code_simp
  have m: "map_of (cl_torrents ex_client) (replicate 20 7) = Some ex_t0" by (simp add: ex_client_def)
  show ?thesis
    using clients_connect [OF ex_client_ok(1) ex_client_ok(1,2), of "replicate 20 7" ex_t0 "ex_xpeer 9" "ex_xpeer 9" ex_tcfg] h p z m
    by (auto simp: fits_signed_def)
qed

theorem AddFromParser_table_witness:
  "\<exists>cl'. AddFromParser ex_tcfg (Return (Some (InfoHash_Parse (replicate 20 7)))) ex_storage ex_client = (cl', Error TorrentExists) \<and>
     Torrents cl' = (cl', Panic (PanicMsg ''deadlock''))"
proof -
  have i: "mi_Info (InfoHash_Parse (replicate 20 7)) = Some (t_info ex_t0)" "id_hash (t_info ex_t0) = replicate 20 7" by code_simp+
  have s: "startTorrent ex_tcfg (InfoHash_Parse (replicate 20 7)) (cl_blackList ex_client) ex_storage = (ex_t0, Return ())"
    using ex_t0_start by (simp add: ex_client_def)
  have m: "map_of (cl_torrents ex_client) (replicate 20 7) = Some ex_t0" by (simp add: ex_client_def)
  from AddFromParser_table [OF ex_client_ok(2) i(1) s] i(2) m show ?thesis by auto
qed


lemma second_torrent_not_started_witness:
  "\<exists>trs1 trs2 req1 req2 r1 r2.
     announce (\<lambda>_. Some (asc ''http'', [])) (\<lambda>tu _. (tu, None)) ex_client [] ex_t0 EvNone zeroStats = (trs1, Some (req1, r1)) \<and>
     announce (\<lambda>_. Some (asc ''http'', [])) (\<lambda>tu _. (tu, None)) ex_client trs1 ex_t EvNone zeroStats = (trs2, Some (req2, r2)) \<and>
     ar_Event req1 = 2 \<and> ar_Event req2 = 0"
proof -
  let ?a = "announce (\<lambda>_. Some (asc ''http'', [])) (\<lambda>tu _. (tu, None)) ex_client"
  have u: "mi_Announce (t_mi ex_t) = mi_Announce (t_mi ex_t0)" by code_simp
  obtain trs1 req1 r1 where a: "?a [] ex_t0 EvNone zeroStats = (trs1, Some (req1, r1))"
    by (auto simp: announce_def Let_def newTrackerURL_def NewTrackerURL_def au_Announce_def)
  obtain trs2 req2 r2 where b: "?a trs1 ex_t EvNone zeroStats = (trs2, Some (req2, r2))"
    by (cases "map_of trs1 (mi_Announce (t_mi ex_t))") (auto simp: announce_def Let_def newTrackerURL_def NewTrackerURL_def au_Announce_def)
  from second_torrent_not_started [OF _ _ a u b] a b show ?thesis by (auto simp: announcer_ok_def)
qed

end
