(* ===== verification/Download_Tool.thy ===== *)
theory Download_Tool
  imports Torrent_Data Client_Correct
begin

text \<open>
  The command line tool (\<open>cmd/charo-download/main.go\<close>): it adds one torrent, starts the transfer when
  the info is there, and seeds for an hour when the download has finished. Its loop is a \<open>select\<close> over
  five channels, of which it sets two to nil once they have fired; the torrent goes on meanwhile, with
  its hasher and its connections. The end of the tool is the end of the whole program, so here the
  properties of the parts come together.
\<close>

section \<open>The tool\<close>

datatype tool_end = Running | Finished | Fatal string

text \<open>
  Whether the channels are not nil, and how the tool ended. \<open>tl_starts\<close> counts the calls of
  \<open>StartDataTransfer\<close>.
\<close>

record tool =
  tl_infoC :: bool
  tl_downloadC :: bool
  tl_seedC :: bool
  tl_starts :: nat
  tl_end :: tool_end

definition new_tool :: tool where
  "new_tool = \<lparr>tl_infoC = True, tl_downloadC = True, tl_seedC = False, tl_starts = 0, tl_end = Running\<rparr>"

text \<open>
  Everything before the loop: the configuration, the client, and the torrent from one of the two flags,
  which are empty when they are not given. \<open>content\<close> is the content of the file.
\<close>

definition tool_main :: "'bm tcfg \<Rightarrow> bytes option \<Rightarrow> bytes \<Rightarrow> (int \<Rightarrow> bool) \<Rightarrow> int option \<Rightarrow> bytes \<Rightarrow> bytes option
    \<Rightarrow> (bytes \<Rightarrow> (bytes \<times> bytes) option) \<Rightarrow> bytes \<Rightarrow> storage \<Rightarrow> (client_error, 'bm client \<times> 'bm torrent \<times> tool) outcome" where
  "tool_main k wd rbytes free other torrentFile content url_parse magnet st =
     (case DefaultConfig wd of
        Panic p \<Rightarrow> Panic p
      | Error _ \<Rightarrow> Panic (PanicMsg ''fatal'')
      | Return cfg \<Rightarrow>
     (case NewClient cfg rbytes free other of
        Panic p \<Rightarrow> Panic p
      | Error _ \<Rightarrow> Panic (PanicMsg ''fatal'')
      | Return cl \<Rightarrow>
     (case (if torrentFile \<noteq> [] then AddFromFile k content st cl
            else if magnet \<noteq> [] then AddFromMagnet k url_parse magnet st cl
            else (cl, Panic (PanicMsg ''please provide file or magnet''))) of
        (_, Panic p) \<Rightarrow> Panic p
      | (_, Error _) \<Rightarrow> Panic (PanicMsg ''fatal'')
      | (cl', Return t) \<Rightarrow> Return (cl', t, new_tool))))"

text \<open>The cases of the \<open>select\<close>, and when they can be taken: a nil channel is never ready.\<close>

datatype tool_ev = GetInfo | GetDownloaded | GetTick | GetClosed | GetSeed

fun ready :: "tool_ev \<Rightarrow> 'bm torrent \<Rightarrow> tool \<Rightarrow> bool" where
  "ready GetInfo t s = (tl_infoC s \<and> infoC t)"
| "ready GetDownloaded t s = (tl_downloadC s \<and> downloadedDataC t)"
| "ready GetTick t s = True"
| "ready GetClosed t s = t_isClosed t"
| "ready GetSeed t s = tl_seedC s"

text \<open>A round of the loop. \<open>WriteStatus\<close> reads the torrent. A panic of the torrent ends the process.\<close>

fun tool_turn :: "'bm tcfg \<Rightarrow> tool_ev \<Rightarrow> 'bm torrent \<Rightarrow> tool \<Rightarrow> 'bm torrent \<times> tool" where
  "tool_turn k GetInfo t s =
     (let s1 = s\<lparr>tl_starts := tl_starts s + 1\<rparr>
      in case StartDataTransfer k t of
           (t', Return None) \<Rightarrow> (t', s1\<lparr>tl_infoC := False\<rparr>)
         | (t', Return (Some e)) \<Rightarrow> (t', s1\<lparr>tl_end := Fatal ''start''\<rparr>)
         | (t', _) \<Rightarrow> (t', s1\<lparr>tl_end := Fatal ''panic''\<rparr>))"
| "tool_turn k GetDownloaded t s = (t, s\<lparr>tl_seedC := True, tl_downloadC := False\<rparr>)"
| "tool_turn k GetTick t s = (t, s)"
| "tool_turn k GetClosed t s = (t, s\<lparr>tl_end := Fatal ''Torrent closed abnormally''\<rparr>)"
| "tool_turn k GetSeed t s = (t, s\<lparr>tl_end := Finished\<rparr>)"

text \<open>The deferred calls of \<open>main\<close> when the loop was left: the ticker stops and the client is closed.\<close>

definition tool_exit :: "'bm tcfg \<Rightarrow> nat list \<Rightarrow> tool \<Rightarrow> ('bm, unit) clact" where
  "tool_exit k order s cl = (if tl_end s = Finished then cl_Close k order cl else (cl, Return ()))"

section \<open>The tool among the other goroutines\<close>

text \<open>\<open>t\<close> is the torrent, \<open>rs\<close> the results of its hasher. Only the tool calls methods of the torrent.\<close>

inductive tool_reach :: "'bm tcfg \<Rightarrow> 'bm torrent \<Rightarrow> 'bm torrent \<Rightarrow> (int \<times> bool) list \<Rightarrow> tool \<Rightarrow> bool" for k t0 where
  start: "tool_reach k t0 t0 [] new_tool"
| other: "tool_reach k t0 t rs s \<Longrightarrow> sys_step k (\<lambda>ev. \<not> is_user ev) t rs t' rs' \<Longrightarrow> tool_reach k t0 t' rs' s"
| select: "tool_reach k t0 t rs s \<Longrightarrow> tl_end s = Running \<Longrightarrow> ready ev t s \<Longrightarrow> tool_turn k ev t s = (t', s') \<Longrightarrow>
    tool_reach k t0 t' rs s'"

inductive_cases sys_stepE: "sys_step k A t rs t' rs'"

text \<open>\<open>DownloadedDataC\<close> stays closed.\<close>

interpretation dn: torrent_inv "\<lambda>t. downloadedDataC t" k for k
  by unfold_locales (auto simp: csame_def tsame_def dialed_def removeConn_def appendConn_def)

lemma sys_step_done: "sys_step k A t rs t' rs' \<Longrightarrow> downloadedDataC t \<Longrightarrow> downloadedDataC t'"
proof (erule sys_stepE)
  fix ev assume d: "downloadedDataC t" and t: "t_turn k ev t = (t', Return ())"
  then show "downloadedDataC t'" using keepsD [OF dn.t_turn_keeps d, of k ev] by simp
next
  fix j c assume d: "downloadedDataC t" and t: "t_turn k (HashedPiece j c) t = (t', Return ())"
  then show "downloadedDataC t'" using keepsD [OF dn.t_turn_keeps d, of k "HashedPiece j c"] by simp
next
  fix j c assume "downloadedDataC t" "hash_next k t = Return (t', j, c)"
  then show "downloadedDataC t'" using hash_next_same [of k t t'] by (simp add: csame_def)
qed (simp_all add: hash_stop_def)

lemma StartDataTransfer_done: "downloadedDataC t \<Longrightarrow> downloadedDataC (fst (StartDataTransfer k t))"
  by (rule keepsD [OF dn.StartDataTransfer_keeps])

lemma tool_turn_torrent: "fst (tool_turn k ev t s) = (if ev = GetInfo then fst (StartDataTransfer k t) else t)"
  by (cases ev) (auto simp: Let_def split: prod.splits outcome.splits option.splits)

lemma tool_turn_tool:
  assumes "tool_turn k ev t s = (t', s')" "ready ev t s"
  shows "tl_seedC s' \<Longrightarrow> tl_seedC s \<or> downloadedDataC t'" "tl_end s' = Finished \<Longrightarrow> tl_end s = Finished \<or> tl_seedC s'"
    "tl_infoC s' \<Longrightarrow> tl_end s' = Running \<Longrightarrow> tl_infoC s \<and> tl_starts s' = tl_starts s"
    "tl_starts s' \<le> (if tl_infoC s then tl_starts s + 1 else tl_starts s)"
  using assms by (cases ev; auto simp: Let_def split: prod.splits outcome.splits option.splits)+

text \<open>The seed timer runs only after the download, and the transfer is started once.\<close>

definition tool_ok :: "'bm torrent \<Rightarrow> tool \<Rightarrow> bool" where
  "tool_ok t s \<longleftrightarrow> (tl_seedC s \<longrightarrow> downloadedDataC t) \<and> (tl_end s = Finished \<longrightarrow> tl_seedC s) \<and> tl_starts s \<le> 1 \<and>
     (tl_infoC s \<and> tl_end s = Running \<longrightarrow> tl_starts s = 0)"

lemma tool_reach_ok: "tool_reach k t0 t rs s \<Longrightarrow> tool_ok t s"
proof (induction rule: tool_reach.induct)
  case (other t rs s t' rs')
  then show ?case using sys_step_done [OF other.hyps(2)] by (auto simp: tool_ok_def)
next
  case (select t rs s ev t' s')
  have "downloadedDataC t \<Longrightarrow> downloadedDataC t'"
    using tool_turn_torrent [of k ev t s] StartDataTransfer_done [of t k] select.hyps(4) by (auto split: if_splits)
  with tool_turn_tool [OF select.hyps(4,3)] select.IH select.hyps(2) show ?case
    by (auto simp: tool_ok_def split: if_splits)
qed (simp add: tool_ok_def new_tool_def)

lemma tool_reach_sys:
  assumes "bitmap_lib (tk_bm k)" "sys_ok k [] t0"
  shows "tool_reach k t0 t rs s \<Longrightarrow> sys_ok k rs t"
proof (induction rule: tool_reach.induct)
  case (other t rs s t' rs')
  then show ?case using sys_step_ok [OF assms(1)] by blast
next
  case (select t rs s ev t' s')
  have "keeps (sys_ok k rs) (StartDataTransfer k)" by (intro quiet_sys keeps)
  with select.IH tool_turn_torrent [of k ev t s] select.hyps(4) show ?case by (auto dest: keepsD split: if_splits)
qed (rule assms(2))

text \<open>
  C6. The tool ends well only with the whole torrent. When the tool leaves its loop to exit normally,
  it has started the transfer at most once and the download has finished: unless the torrent was closed
  underneath, every piece of the torrent is verified and the files in its directory hold, for each
  piece, bytes with the length and the SHA-1 sum of the torrent file.
\<close>

theorem tool_finishes_complete:
  assumes "bitmap_lib (tk_bm k)" "st_pieces st = []" "startTorrent k mi black st = (t0, Return ())"
    "tool_reach k t0 t rs s" "tl_end s = Finished"
  shows "downloadedDataC t \<and> tl_starts s \<le> 1 \<and>
    (t_pieces t \<noteq> None \<and> mi_Info (t_mi t) \<noteq> None \<and> storage_ok (tk_env k) (tk_dir k) (t_info t) \<longrightarrow>
     (\<forall>j. 0 \<le> j \<and> j < NumPieces (t_info t) \<longrightarrow>
        is_verified (t_storage t) j \<and> genuine (tk_sha1 k) (tk_dir k) (t_info t) (st_fs (t_storage t)) j))"
proof -
  have "tool_ok t s" by (rule tool_reach_ok [OF assms(4)])
  moreover have "sys_ok k rs t" by (rule tool_reach_sys [OF assms(1) started_sys [OF assms(1-3)] assms(4)])
  ultimately show ?thesis
    using assms(5) by (auto simp: tool_ok_def sys_ok_def data_ok_def dview_def all_genuine_def subset_iff)
qed

text \<open>The torrent of one piece: after its piece the tool starts the transfer, waits out the hour and ends.\<close>

definition ex_started_t :: "int list torrent" where
  "ex_started_t = fst (StartDataTransfer ex_tcfg ex_s4)"

definition ex_tool :: tool where
  "ex_tool = \<lparr>tl_infoC = False, tl_downloadC = False, tl_seedC = True, tl_starts = 1, tl_end = Finished\<rparr>"

lemma ex_tool_reach: "tool_reach ex_tcfg ex_s0 ex_started_t [] ex_tool"
proof -
  let ?s1 = "new_tool\<lparr>tl_starts := 1, tl_infoC := False\<rparr>"
  let ?s2 = "?s1\<lparr>tl_seedC := True, tl_downloadC := False\<rparr>"
  have 0: "tool_reach ex_tcfg ex_s0 ex_s4 [] new_tool"
    by (rule tool_reach.other [OF tool_reach.other [OF tool_reach.other [OF tool_reach.other [OF tool_reach.start]]]])
      (rule ex_steps)+
  have "downloadedDataC ex_started_t" unfolding ex_started_t_def by (rule StartDataTransfer_done [OF ex_s4_facts(4)])
  moreover have "infoC ex_s4" "snd (StartDataTransfer ex_tcfg ex_s4) = Return None" by code_simp+
  ultimately have c: "infoC ex_s4" "downloadedDataC ex_started_t" "snd (StartDataTransfer ex_tcfg ex_s4) = Return None" by blast+
  then have "tool_turn ex_tcfg GetInfo ex_s4 new_tool = (ex_started_t, ?s1)"
    by (simp add: ex_started_t_def new_tool_def Let_def prod_eq_iff split: prod.split)
  with c have 1: "tool_reach ex_tcfg ex_s0 ex_started_t [] ?s1"
    by (intro tool_reach.select [OF 0, where ev = GetInfo]) (simp_all add: new_tool_def)
  from c have 2: "tool_reach ex_tcfg ex_s0 ex_started_t [] ?s2"
    by (intro tool_reach.select [OF 1, where ev = GetDownloaded]) (simp_all add: new_tool_def)
  show ?thesis
    by (rule tool_reach.select [OF 2, where ev = GetSeed]) (simp_all add: new_tool_def ex_tool_def)
qed

theorem tool_finishes_complete_witness:
  "tl_end ex_tool = Finished \<and> downloadedDataC ex_started_t \<and> NumPieces ex_one = 1 \<and>
   genuine (\<lambda>_. replicate 20 0) [47, 100] ex_one (st_fs (t_storage ex_started_t)) 0"
proof -
  have n: "NumPieces ex_one = 1" and d: "mi_Info (t_mi ex_started_t) \<noteq> None" "t_pieces ex_started_t \<noteq> None" "t_info ex_started_t = ex_one"
    by code_simp+
  have e: "tl_end ex_tool = Finished" by (simp add: ex_tool_def)
  from tool_finishes_complete [OF _ _ ex_s0_started ex_tool_reach e, unfolded ex_tcfg_fields d(3), OF list_bm.bitmap_lib_axioms]
  show ?thesis using d(1,2) ex_one_ok n e by simp
qed

end
