(* ===== verification/Freqmap.thy ===== *)
theory Freqmap
  imports Prelude "HOL-Library.AList" "HOL-Library.Multiset"
begin

text \<open>
  Frequency maps (\<open>torrent/freqmap.go\<close>): counters by key. A map is an association list with distinct
  keys, whose order stands for the order of an iteration; the random number of \<open>pickRandom\<close> is an
  argument. The maps are multisets of their keys.
\<close>

type_synonym freqMap = "(int \<times> int) list"

definition fm_add :: "freqMap \<Rightarrow> int \<Rightarrow> freqMap" where
  "fm_add f n = (case map_of f n of None \<Rightarrow> AList.update n 1 f | Some c \<Rightarrow> AList.update n (go_int (c + 1)) f)"

definition fm_remove :: "freqMap \<Rightarrow> int \<Rightarrow> freqMap" where
  "fm_remove f n =
     (case map_of f n of
        None \<Rightarrow> f
      | Some c \<Rightarrow> let f' = AList.update n (go_int (c - 1)) f in if map_of f' n = Some 0 then AList.delete n f' else f')"

definition fm_len :: "freqMap \<Rightarrow> nat" where
  "fm_len f = length f"

definition fm_initKey :: "freqMap \<Rightarrow> int \<Rightarrow> freqMap" where
  "fm_initKey f n = (case map_of f n of Some _ \<Rightarrow> f | None \<Rightarrow> AList.update n 0 f)"

definition max_step :: "int \<times> int \<Rightarrow> int \<times> int \<Rightarrow> int \<times> int" where
  "max_step best kv = (if snd kv > snd best then kv else best)"

definition fm_max :: "freqMap \<Rightarrow> int" where
  "fm_max f = fst (foldl max_step (0, 0) f)"

definition min_step :: "int \<times> int \<Rightarrow> int \<times> int \<Rightarrow> int \<times> int" where
  "min_step best kv = (if snd kv < snd best then kv else best)"

definition fm_min :: "freqMap \<Rightarrow> int" where
  "fm_min f = fst (foldl min_step (0, 2 ^ 63 - 1) f)"

definition fm_pickRandom :: "nat \<Rightarrow> freqMap \<Rightarrow> int \<Rightarrow> (unit, int) outcome" where
  "fm_pickRandom rnd f val =
     (let equals = map fst (filter (\<lambda>(key, v). v = val) f)
      in if equals = [] then Panic (PanicMsg ''fmap: pickRandom'') else Return (equals ! (rnd mod length equals)))"

section \<open>Multisets\<close>

definition fm_count :: "freqMap \<Rightarrow> int \<Rightarrow> int" where
  "fm_count f n = (case map_of f n of None \<Rightarrow> 0 | Some c \<Rightarrow> c)"

definition fm_abs :: "freqMap \<Rightarrow> int multiset" where
  "fm_abs f = sum_list (map (\<lambda>(key, v). replicate_mset (nat v) key) f)"

definition fm_ok :: "freqMap \<Rightarrow> bool" where
  "fm_ok f \<longleftrightarrow> distinct (map fst f) \<and> (\<forall>x \<in> set f. 0 < snd x \<and> snd x < 2 ^ 63 - 1)"

lemma count_fm_abs: "distinct (map fst f) \<Longrightarrow> count (fm_abs f) n = nat (fm_count f n)"
proof (induction f)
  case (Cons x f)
  then have "map_of f n = None" if "fst x = n" using that by (auto simp: map_of_eq_None_iff)
  with Cons show ?case by (cases x) (auto simp: fm_abs_def fm_count_def split: option.splits)
qed (simp add: fm_abs_def fm_count_def)

lemma fm_count_ok: "fm_ok f \<Longrightarrow> fm_count f n = 0 \<and> map_of f n = None \<or> 0 < fm_count f n \<and> fm_count f n < 2 ^ 63 - 1 \<and> map_of f n = Some (fm_count f n)"
  by (auto simp: fm_ok_def fm_count_def split: option.splits dest!: map_of_SomeD)

lemma fm_ok_update:
  assumes "fm_ok f" "0 < c" "c < 2 ^ 63 - 1"
  shows "fm_ok (AList.update n c f)"
proof -
  have "snd x = c \<or> x \<in> set f" if "x \<in> set (AList.update n c f)" for x
    using that by (induction f) (auto split: if_splits)
  with assms show ?thesis by (auto simp: fm_ok_def distinct_update)
qed

lemma fm_ok_delete: "fm_ok f \<Longrightarrow> fm_ok (AList.delete n f)"
  using distinct_delete [of f n] by (auto simp: fm_ok_def AList.delete_eq)

lemma max_step_fold:
  "foldl max_step b f = b \<and> (\<forall>x \<in> set f. snd x \<le> snd b) \<or>
   foldl max_step b f \<in> set f \<and> snd b < snd (foldl max_step b f) \<and> (\<forall>x \<in> set f. snd x \<le> snd (foldl max_step b f))"
proof (induction f arbitrary: b)
  case (Cons y f)
  show ?case using Cons [of "max_step b y"] by (fastforce simp: max_step_def split: if_splits)
qed simp

lemma min_step_fold:
  "foldl min_step b f = b \<and> (\<forall>x \<in> set f. snd b \<le> snd x) \<or>
   foldl min_step b f \<in> set f \<and> snd (foldl min_step b f) < snd b \<and> (\<forall>x \<in> set f. snd (foldl min_step b f) \<le> snd x)"
proof (induction f arbitrary: b)
  case (Cons y f)
  show ?case using Cons [of "min_step b y"] by (fastforce simp: min_step_def split: if_splits)
qed simp

lemma fm_entry: "fm_ok f \<Longrightarrow> x \<in> set f \<Longrightarrow> fm_count f (fst x) = snd x"
  by (cases x) (auto simp: fm_ok_def fm_count_def)

lemma fm_extreme:
  assumes "fm_ok f" "x \<in> set f" "\<forall>y \<in> set f. snd y \<le> snd x"
  shows "fst x \<in># fm_abs f \<and> count (fm_abs f) m \<le> count (fm_abs f) (fst x)"
proof -
  have c: "count (fm_abs f) n = nat (fm_count f n)" for n using count_fm_abs assms(1) by (simp add: fm_ok_def)
  have x: "fm_count f (fst x) = snd x" "0 < snd x" using fm_entry [OF assms(1,2)] assms(1,2) by (auto simp: fm_ok_def)
  have "fm_count f m \<le> snd x"
  proof (cases "map_of f m")
    case (Some v)
    then show ?thesis using assms(3) map_of_SomeD [OF Some] by (auto simp: fm_count_def)
  qed (use x(2) in \<open>simp add: fm_count_def\<close>)
  with c x show ?thesis by (simp add: count_greater_zero_iff [symmetric] del: count_greater_zero_iff)
qed

lemma fm_least:
  assumes "fm_ok f" "x \<in> set f" "\<forall>y \<in> set f. snd x \<le> snd y"
  shows "fst x \<in># fm_abs f \<and> (m \<in># fm_abs f \<longrightarrow> count (fm_abs f) (fst x) \<le> count (fm_abs f) m)"
proof -
  have c: "count (fm_abs f) n = nat (fm_count f n)" for n using count_fm_abs assms(1) by (simp add: fm_ok_def)
  have x: "fm_count f (fst x) = snd x" "0 < snd x" using fm_entry [OF assms(1,2)] assms(1,2) by (auto simp: fm_ok_def)
  have "snd x \<le> fm_count f m" if "0 < fm_count f m"
  proof (cases "map_of f m")
    case (Some v)
    then show ?thesis using assms(3) map_of_SomeD [OF Some] by (auto simp: fm_count_def)
  qed (use that in \<open>simp add: fm_count_def\<close>)
  with c x show ?thesis by (auto simp: count_greater_zero_iff [symmetric] simp del: count_greater_zero_iff)
qed

lemma fm_absI:
  assumes "fm_ok g" "\<And>m. int (count M m) = fm_count g m"
  shows "fm_abs g = M"
proof (rule multiset_eqI)
  fix m
  have "count (fm_abs g) m = nat (fm_count g m)" using count_fm_abs assms(1) by (simp add: fm_ok_def)
  then show "count (fm_abs g) m = count M m" using assms(2) [of m] by simp
qed

lemma count_fm_abs_int: "fm_ok f \<Longrightarrow> int (count (fm_abs f) n) = fm_count f n"
  using fm_count_ok [of f n] count_fm_abs [of f n] by (auto simp: fm_ok_def)

lemma fm_add_ok:
  assumes "fm_ok f" "fm_count f n + 1 < 2 ^ 63 - 1"
  shows "fm_ok (fm_add f n) \<and> fm_abs (fm_add f n) = add_mset n (fm_abs f)"
proof -
  note k = fm_count_ok [OF assms(1), of n]
  have a: "fm_add f n = AList.update n (fm_count f n + 1) f"
    using k assms(2) by (auto simp: fm_add_def fm_count_def to_signed_id fits_signed_def split: option.splits)
  have ok: "fm_ok (fm_add f n)" unfolding a using k assms(2) by (intro fm_ok_update [OF assms(1)]) auto
  have "fm_count (fm_add f n) m = (if m = n then fm_count f n + 1 else fm_count f m)" for m
    unfolding a by (simp add: fm_count_def update_conv')
  with ok show ?thesis by (auto intro!: fm_absI simp: count_fm_abs_int [OF assms(1), symmetric])
qed

lemma delete_update_same: "AList.delete n (AList.update n v f) = AList.delete n f"
  by (induction f) auto

lemma fm_remove_ok:
  assumes "fm_ok f"
  shows "fm_ok (fm_remove f n) \<and> fm_abs (fm_remove f n) = fm_abs f - {#n#}"
proof -
  note k = fm_count_ok [OF assms, of n]
  have r: "fm_remove f n = (if fm_count f n = 0 then f else if fm_count f n = 1 then AList.delete n f
      else AList.update n (fm_count f n - 1) f)"
    using k by (auto simp: fm_remove_def Let_def update_conv' to_signed_id fits_signed_def delete_update_same)
  have ok: "fm_ok (fm_remove f n)"
    unfolding r using k by (auto intro!: fm_ok_update [OF assms] fm_ok_delete [OF assms] assms)
  have "fm_count (fm_remove f n) m = (if m = n \<and> fm_count f n \<noteq> 0 then fm_count f n - 1 else fm_count f m)" for m
    unfolding r using k by (auto simp: fm_count_def update_conv' delete_conv')
  note c = this
  have "fm_abs (fm_remove f n) = fm_abs f - {#n#}"
  proof (rule fm_absI [OF ok])
    show "int (count (fm_abs f - {#n#}) m) = fm_count (fm_remove f n) m" for m
      using k count_fm_abs_int [OF assms, of m] by (auto simp: c of_nat_diff)
  qed
  with ok show ?thesis by blast
qed

lemma fm_len_ok:
  assumes "fm_ok f"
  shows "fm_len f = card (set_mset (fm_abs f))"
proof -
  have "n \<in># fm_abs f \<longleftrightarrow> map_of f n \<noteq> None" for n
    using count_fm_abs_int [OF assms, of n] fm_count_ok [OF assms, of n]
    by (auto simp: count_greater_zero_iff [symmetric] simp del: count_greater_zero_iff)
  then have "n \<in># fm_abs f \<longleftrightarrow> n \<in> set (map fst f)" for n by (simp add: map_of_eq_None_iff)
  then have "set_mset (fm_abs f) = set (map fst f)" by blast
  moreover have "card (set (map fst f)) = length f"
    using assms distinct_card [of "map fst f"] unfolding fm_ok_def by simp
  ultimately show ?thesis unfolding fm_len_def by simp
qed

text \<open>
  A frequency map is a multiset of its keys: \<open>add\<close> inserts one occurrence and \<open>remove\<close> takes one
  away, the key itself with the last; \<open>len\<close> is the number of different keys; \<open>max\<close> is a key that
  occurs most often and \<open>min\<close> one that occurs least often, whatever the order of the iteration.
\<close>

lemma freqMap_is_multiset:
  assumes "fm_ok f" "int (count (fm_abs f) n) + 1 < 2 ^ 63 - 1"
  shows "fm_ok (fm_add f n) \<and> fm_abs (fm_add f n) = add_mset n (fm_abs f) \<and>
    fm_ok (fm_remove f n) \<and> fm_abs (fm_remove f n) = fm_abs f - {#n#} \<and>
    fm_len f = card (set_mset (fm_abs f)) \<and>
    (f \<noteq> [] \<longrightarrow> fm_max f \<in># fm_abs f \<and> (\<forall>m. count (fm_abs f) m \<le> count (fm_abs f) (fm_max f)) \<and>
       fm_min f \<in># fm_abs f \<and> (\<forall>m \<in># fm_abs f. count (fm_abs f) (fm_min f) \<le> count (fm_abs f) m))"
proof -
  have p: "\<exists>x \<in> set f. 0 < snd x \<and> snd x < 2 ^ 63 - 1" if "f \<noteq> []" using assms(1) that by (cases f) (auto simp: fm_ok_def)
  have mx: "foldl max_step (0, 0) f \<in> set f \<and> (\<forall>y \<in> set f. snd y \<le> snd (foldl max_step (0, 0) f))" if "f \<noteq> []"
    using max_step_fold [of "(0, 0)" f] p [OF that] by fastforce
  have mn: "foldl min_step (0, 2 ^ 63 - 1) f \<in> set f \<and> (\<forall>y \<in> set f. snd (foldl min_step (0, 2 ^ 63 - 1) f) \<le> snd y)" if "f \<noteq> []"
    using min_step_fold [of "(0, 2 ^ 63 - 1)" f] p [OF that] by fastforce
  have e: "f \<noteq> [] \<longrightarrow> fm_max f \<in># fm_abs f \<and> (\<forall>m. count (fm_abs f) m \<le> count (fm_abs f) (fm_max f)) \<and>
       fm_min f \<in># fm_abs f \<and> (\<forall>m \<in># fm_abs f. count (fm_abs f) (fm_min f) \<le> count (fm_abs f) m)"
    using fm_extreme [OF assms(1)] fm_least [OF assms(1)] mx mn unfolding fm_max_def fm_min_def by blast
  have "fm_count f n + 1 < 2 ^ 63 - 1" using assms(2) count_fm_abs_int [OF assms(1), of n] by simp
  from fm_add_ok [OF assms(1) this] fm_remove_ok [OF assms(1)] fm_len_ok [OF assms(1)] e show ?thesis by blast
qed

lemma freqMap_is_multiset_witness:
  "fm_abs (fm_add [(5, 2), (7, 1)] 7) = {#5, 5, 7, 7#} \<and> fm_abs (fm_remove [(5, 2), (7, 1)] 7) = {#5, 5#} \<and> fm_max [(5, 2), (7, 1)] = 5"
proof -
  have "fm_ok [(5, 2), (7, 1)]" "fm_abs [(5, 2), (7, 1)] = {#5, 5, 7#}" "fm_max [(5, 2), (7, 1)] = 5"
    by (simp_all add: fm_ok_def fm_abs_def fm_max_def max_step_def numeral_2_eq_2)
  with freqMap_is_multiset [of "[(5, 2), (7, 1)]" 7] show ?thesis by simp
qed

end
