(* ===== verification/Spec2Isabelle.thy ===== *)
theory Spec2Isabelle
  imports Bencode_Fields Metainfo Pieces_History Storage_Correct Wire_Correct Metadata Tracker_Correct Conn_Theorems
    Conn_Pair Torrent_Choker Torrent_Data Tracker_Http_Correct Client_Correct Download_Tool Freqmap
begin

text \<open>
  A verification development for charo-torrent, a BitTorrent client in Go.

  \<^bold>\<open>The program.\<close> A client (\<open>torrent/client.go\<close>) manages torrents and one black list. A torrent is added
  from a torrent file, a magnet link or an info hash (\<open>metainfo\<close>, which reads the file with \<open>bencode\<close>);
  its goroutine (\<open>torrent/torrent.go\<close>) owns the request bookkeeping (\<open>torrent/piece.go\<close>), the storage
  (\<open>torrent/storage\<close>), the table of connections and the choker, and reacts to one event at a time. It
  asks trackers for peers through the announcer (\<open>torrent/tracker_announcer.go\<close>, package \<open>tracker\<close>)
  and dials them (\<open>torrent/net.go\<close>). Each connection has a worker (\<open>torrent/conn.go\<close>), which shakes hands
  and exchanges messages (package \<open>peer_wire\<close>), requests and serves blocks, exchanges the info
  dictionary (\<open>torrent/metadata.go\<close>), and talks to the torrent over two channels. The command line
  tool (\<open>cmd/charo-download\<close>) downloads one torrent with a client and seeds it for an hour.

  \<^bold>\<open>Conventions.\<close> An \<open>outcome\<close> is what a Go function ends with: \<open>Return\<close>, \<open>Error\<close>, or \<open>Panic\<close>, which is a
  panic of the runtime or of the source, \<open>logger.Fatal\<close>, or (\<open>deadlock\<close>) a wait that never ends, for a mutex
  nobody will unlock or for a goroutine that does not answer. A slice that can
  be nil is an option. Integers that come from a peer or a file are words or go through \<open>go_int\<close>,
  \<open>to_signed\<close> and the like; loop indices bounded by a length are \<open>nat\<close> or \<open>int\<close>. Stateful code passes
  its state explicitly, an \<open>act\<close> returns state and outcome, also on the error paths. Third-party code
  is an argument: the bitmap library (\<open>bitmap_lib\<close>), SHA-1, \<open>net/url\<close>, \<open>math/rand\<close>, the DHT server;
  the network, the operating system and the clock are scripts or records of answers.

  \<^bold>\<open>Theories.\<close>
  \<^item> \<open>Prelude\<close>: bytes, outcomes, Go's integer conversions, big-endian words, sorting; the interface
    \<open>byte_codec\<close> with the four word codecs as instances. \<open>Strconv\<close>: decimal numbers.
  \<^item> \<open>Bencode\<close> (\<open>bencode/decode.go\<close>, \<open>encode.go\<close>): the decoder over a read buffer with \<open>UnreadByte\<close>, and
    the encoder; \<open>Bencode_Total\<close>: every call returns (interfaces \<open>ben_decoder\<close>, \<open>fuelled_decoder\<close>,
    instance \<open>decode\<close>); \<open>Bencode_Roundtrip\<close>: decoding inverts encoding, whatever follows;
    \<open>Bencode_Fields\<close>: how a struct is filled from a dictionary with its keys in any order, unknown ones
    and missing ones, and which mandatory fields the error names.
    \<open>Bencode_Get\<close> (\<open>get_dict.go\<close>): the lookup returns the encoded bytes of the field asked for.
  \<^item> \<open>Info\<close>, \<open>Metainfo\<close> (\<open>metainfo/*.go\<close>): lengths and hashes of pieces; loading a created torrent file.
  \<^item> \<open>Bitmap_Lib\<close>: what the program relies on of the bitmap library and of \<open>sort.Sort\<close>, each with an
    instance. \<open>Conn_State\<close>: flags and statistics of a connection.
  \<^item> \<open>Pieces\<close> (\<open>piece.go\<close>, \<open>piece_selector.go\<close>): all operations on a piece and on all pieces.
    \<open>Pieces_Correct\<close>: a piece is a \<open>block_tracker\<close>, every block unrequested, pending or complete; the
    bookkeeping is proved against that interface (\<open>request_book\<close>). \<open>Pieces_Theorems\<close>: requests are
    exact, discarding undoes them, what completed blocks and hash results do. \<open>Pieces_History\<close>: the
    bookkeeping as a state machine (\<open>pieces_step\<close>) with histories of what was handed out, given back,
    received and judged; the invariant of all reachable states and which calls return in them; no block
    is handed out twice before the end game unless it was given back or its piece failed in between.
  \<^item> \<open>Storage\<close> (\<open>filestorage.go\<close>, \<open>storage/piece.go\<close>), \<open>Storage_Correct\<close>: the files are one array of bytes;
    the contract \<open>block_storage\<close>: a block is written once and verified data never changes.
  \<^item> \<open>Bitfield\<close>, \<open>Handshake\<close>, \<open>Wire\<close>, \<open>Wire_Correct\<close> (\<open>peer_wire/*.go\<close>): bit fields are sets of indices
    (\<open>index_set\<close>), both sides of a handshake agree, streams of messages decode as sent
    (\<open>stream_codec\<close>), and which frames make the decoder panic.
  \<^item> \<open>Metadata\<close> (\<open>metadata.go\<close>): pieces of the info dictionary in any order refine a finite map
    (\<open>chunk_store\<close>).
  \<^item> \<open>Tracker\<close>, \<open>Tracker_Correct\<close> (\<open>udp.go\<close>, \<open>server.go\<close>, \<open>tracker.go\<close>): client and server of the UDP protocol
    agree, and requests end. \<open>Tracker_Http\<close>, \<open>Tracker_Http_Correct\<close> (\<open>http.go\<close>): query strings and answers;
    an announce against a tracker that reads the query string by the names of the protocol.
  \<^item> \<open>Conn\<close> (\<open>conn.go\<close>): every handler of a connection, the wait for the torrent and a turn of the main loop.
    \<open>Conn_Correct\<close> takes the handlers apart once, in the locales \<open>conn_cmd\<close>, \<open>conn_upload\<close> and \<open>conn_peer\<close>,
    whose laws say what a handler may do to the fields an invariant sees; in \<open>Conn_Theorems\<close> the bounds
    of the queues and what is uploaded are interpretations of them. \<open>Conn_Write\<close>: the main loop over the
    buffered writer, which refines the stream of messages; when the keep-alive timer is set again and when
    it is lost. \<open>Conn_Pair\<close>: two connections, each with main loop and reader goroutine, over one network
    (\<open>linked\<close>), where reads may fail or pass their deadline at any moment; each hears what the other sent.
  \<^item> \<open>Torrent\<close> (\<open>torrent.go\<close>, \<open>conn_info.go\<close>, \<open>choker.go\<close>, \<open>torrent_xported.go\<close>, \<open>tlocker.go\<close>,
    \<open>piece_hasher.go\<close>): a turn of the torrent goroutine for every event, and the step relation \<open>t_reach\<close> of
    the torrent among the other goroutines. \<open>Torrent_Correct\<close>: the locales \<open>torrent_core\<close>, \<open>torrent_handler\<close>,
    \<open>torrent_turn\<close> and \<open>torrent_inv\<close> as for connections; \<open>Torrent_Theorems\<close>: dropped connections (locale
    \<open>agreeing\<close>), the invariant of the tables, banned peers; \<open>Torrent_Choker\<close>: the unchoked peers.
    \<open>Torrent_Data\<close>: torrent, hasher and connections over one storage (steps \<open>sys_step\<close>, closure \<open>sys_reach\<close>);
    a piece the torrent owns is verified and its bytes have the hash of the torrent file, and so has
    every piece once the end of the download was announced.
  \<^item> \<open>Client\<close>, \<open>Client_Correct\<close> (\<open>client.go\<close>, \<open>net.go\<close>, \<open>tracker_announcer.go\<close>, \<open>misc.go\<close>, \<open>peer_id.go\<close>): two
    clients connect, the table of torrents and its mutex, when closing returns, events sent to trackers.
  \<^item> \<open>Download_Tool\<close> (\<open>cmd/charo-download/main.go\<close>): the tool among the other goroutines (\<open>tool_reach\<close>) ends
    normally only with the whole torrent on disk.
  \<^item> \<open>Freqmap\<close> (\<open>freqmap.go\<close>): frequency maps refine multisets.

  \<^bold>\<open>Fuel.\<close> Loops whose recursion is not structural are functions with a measure. Four carry fuel. The
  decoder: one unit per nested call and per round of a loop; \<open>decode_fuel\<close> bounds them by the input and
  the type, and \<open>Decode_total\<close> shows it enough for every supported type, while for a list of an
  unsupported type the loop of the source does not end. The dictionary lookup: a call that does not
  consume input is followed by one that does (\<open>Get_returns\<close>). Waiting for the torrent: each round takes
  an event of the script (\<open>sendMsgToTorrent_loop\<close>). Dropped connections: each level removes one
  (\<open>droppedConn_loop\<close>). The last two theorems state the equation of the source without fuel.

  \<^bold>\<open>Concurrency.\<close> Code under a mutex, and code of one goroutine between two channel operations, is one
  step. The interleavings are those of the scripts: what the torrent does while a connection waits to
  send, which sends find a connection gone, in which order events reach the torrent, in which order the
  goroutines of \<open>Client.Close\<close> run. Which connections never end and which main loops never answer are
  answers too (\<open>tk_stuck\<close>, \<open>tk_busy\<close>); a send from the torrent to a connection is taken to be received or to
  find the connection gone. The loop over the requests of a peer does not interleave with its reader, and
  a write of a block is one step. Data races of the
  source, such as \<open>removeHalfOpen\<close> on the dialling goroutine, are taken as separate steps.

  \<^bold>\<open>Not modelled.\<close> Text output (\<open>String\<close>, \<open>WriteStatus\<close>), logging, counters and the profiling and status
  pages, which nothing reads; \<open>conv.go\<close>, which is not called; \<open>getOutboundIP\<close>, whose result is an
  argument; time itself: timers and deadlines, the read deadline included, are events and answers of the
  scripts or steps that can happen at any moment, and only whether the keep-alive timer runs is state;
  memory shared between the entries of a decoded map of pointers or maps; \<open>remoteTCPAddr\<close> and the DHT ping. Memory exhaustion is not
  modelled.
\<close>

end
